(* ===== verification/Quark_Prelude.thy ===== *)
theory Quark_Prelude
  imports Main "HOL-Library.Word"
begin

text \<open>
  Shared vocabulary of the Quark development: the machine integer types of the Rust
  sources, the error values of \<^verbatim>\<open>qlib/common.rs\<close>, results with their sequencing
  operator, and the generic facts on words, options and lists that the component theories use.

  The qkernel release profile switches overflow checks off
  (\<^verbatim>\<open>qkernel/Cargo.toml\<close>: \<^verbatim>\<open>overflow-checks = false\<close>), so unsigned arithmetic wraps:
  an unsigned integer is a \<^typ>\<open>'w::len word\<close>. A signed integer is an \<^typ>\<open>int\<close> whose
  arithmetic is wrapped by \<open>i16\<close>, \<open>i32\<close> or \<open>i64\<close> below.
  A failing \<^verbatim>\<open>assert!\<close>, \<^verbatim>\<open>panic!\<close>, \<^verbatim>\<open>unwrap\<close> or slice access is the error value
  \<open>Panic\<close>.
\<close>

unbundle bit_operations_syntax

named_theorems result_simps \<open>rewriting of sequenced results\<close>

section \<open>Machine integers\<close>

type_synonym u8 = "8 word"
type_synonym u16 = "16 word"
type_synonym u32 = "32 word"
type_synonym u64 = "64 word"

abbreviation (input) u64_MAX :: u64 where "u64_MAX \<equiv> - 1"
abbreviation (input) u32_MAX :: u32 where "u32_MAX \<equiv> - 1"

definition i16 :: "int \<Rightarrow> int" where
  "i16 x = (x + 32768) mod 65536 - 32768"

definition i32 :: "int \<Rightarrow> int" where
  "i32 x = (x + 2147483648) mod 4294967296 - 2147483648"

definition i64 :: "int \<Rightarrow> int" where
  "i64 x = (x + 9223372036854775808) mod 18446744073709551616 - 9223372036854775808"

abbreviation (input) i32_MAX :: int where "i32_MAX \<equiv> 2147483647"
abbreviation (input) i64_MAX :: int where "i64_MAX \<equiv> 9223372036854775807"

text \<open>Casts between the widths, as Rust's \<^verbatim>\<open>as\<close> performs them.\<close>

definition i32_as_u64 :: "int \<Rightarrow> u64" where
  "i32_as_u64 x = word_of_int x"

definition u64_as_i32 :: "u64 \<Rightarrow> int" where
  "u64_as_i32 w = i32 (uint w)"

definition u64_as_i64 :: "u64 \<Rightarrow> int" where
  "u64_as_i64 w = i64 (uint w)"

definition i64_as_u64 :: "int \<Rightarrow> u64" where
  "i64_as_u64 x = word_of_int x"

lemma i16_id: "- 32768 \<le> x \<Longrightarrow> x \<le> 32767 \<Longrightarrow> i16 x = x"
  by (simp add: i16_def)

lemma i32_id: "- 2147483648 \<le> x \<Longrightarrow> x \<le> 2147483647 \<Longrightarrow> i32 x = x"
  by (simp add: i32_def)

lemma i64_id: "- 9223372036854775808 \<le> x \<Longrightarrow> x \<le> 9223372036854775807 \<Longrightarrow> i64 x = x"
  by (simp add: i64_def)

lemma i64_range: "- 9223372036854775808 \<le> i64 x \<and> i64 x \<le> 9223372036854775807"
proof -
  have "0 \<le> (x + 9223372036854775808) mod 18446744073709551616"
    and "(x + 9223372036854775808) mod 18446744073709551616 < 18446744073709551616"
    by simp_all
  then show ?thesis unfolding i64_def by linarith
qed

section \<open>Errors and results\<close>

datatype error =
    SysError int
  | Common string
  | UnallignedAddress
  | AddressNotInRange
  | InvalidInput
  | NotExist
  | ErrInterrupted
  | QueueFull
  | Panic

type_synonym 'a result = "error + 'a"

abbreviation Ok :: "'a \<Rightarrow> 'a result" where "Ok x \<equiv> Inr x"
abbreviation Err :: "error \<Rightarrow> 'a result" where "Err e \<equiv> Inl e"

abbreviation (input) EPERM :: int where "EPERM \<equiv> 1"
abbreviation (input) ESRCH :: int where "ESRCH \<equiv> 3"
abbreviation (input) ENOENT :: int where "ENOENT \<equiv> 2"
abbreviation (input) EINTR :: int where "EINTR \<equiv> 4"
abbreviation (input) E2BIG :: int where "E2BIG \<equiv> 7"
abbreviation (input) EBADF :: int where "EBADF \<equiv> 9"
abbreviation (input) EAGAIN :: int where "EAGAIN \<equiv> 11"
abbreviation (input) EWOULDBLOCK :: int where "EWOULDBLOCK \<equiv> 11"
abbreviation (input) ENOMEM :: int where "ENOMEM \<equiv> 12"
abbreviation (input) EACCES :: int where "EACCES \<equiv> 13"
abbreviation (input) EFAULT :: int where "EFAULT \<equiv> 14"
abbreviation (input) EEXIST :: int where "EEXIST \<equiv> 17"
abbreviation (input) EINVAL :: int where "EINVAL \<equiv> 22"
abbreviation (input) EMFILE :: int where "EMFILE \<equiv> 24"
abbreviation (input) EFBIG :: int where "EFBIG \<equiv> 27"
abbreviation (input) ENOSPC :: int where "ENOSPC \<equiv> 28"
abbreviation (input) ERANGE :: int where "ERANGE \<equiv> 34"
abbreviation (input) EDEADLK :: int where "EDEADLK \<equiv> 35"
abbreviation (input) ENOSYS :: int where "ENOSYS \<equiv> 38"
abbreviation (input) EIDRM :: int where "EIDRM \<equiv> 43"
abbreviation (input) EOVERFLOW :: int where "EOVERFLOW \<equiv> 75"
abbreviation (input) EUSERS :: int where "EUSERS \<equiv> 87"
abbreviation (input) ETIMEDOUT :: int where "ETIMEDOUT \<equiv> 110"
abbreviation (input) ERESTARTSYS :: int where "ERESTARTSYS \<equiv> 512"
abbreviation (input) ERESTARTNOHAND :: int where "ERESTARTNOHAND \<equiv> 514"
abbreviation (input) ERESTART_RESTARTBLOCK :: int where "ERESTART_RESTARTBLOCK \<equiv> 515"

text \<open>The \<^verbatim>\<open>?\<close> operator: an error ends the computation, a value is passed on.\<close>

definition and_then :: "'a result \<Rightarrow> ('a \<Rightarrow> 'b result) \<Rightarrow> 'b result" where
  "and_then r f = (case r of Inl e \<Rightarrow> Inl e | Inr x \<Rightarrow> f x)"

lemma and_then_Inl [simp, result_simps]: "and_then (Inl e) f = Inl e"
  by (simp add: and_then_def)

lemma and_then_Inr [simp, result_simps]: "and_then (Inr x) f = f x"
  by (simp add: and_then_def)

lemma and_then_Ok_iff [result_simps]:
  "and_then r f = Inr y \<longleftrightarrow> (\<exists>x. r = Inr x \<and> f x = Inr y)"
  by (cases r) auto

lemma and_then_assoc: "and_then (and_then r f) g = and_then r (\<lambda>x. and_then (f x) g)"
  by (cases r) auto

text \<open>A computation that may also not return: \<open>None\<close>. Loops that are not structural are
  partial functions into this type.\<close>

type_synonym 'a run = "'a result option"

abbreviation returns :: "'a \<Rightarrow> 'a run" where "returns x \<equiv> Some (Inr x)"
abbreviation fails :: "error \<Rightarrow> 'a run" where "fails e \<equiv> Some (Inl e)"

definition run_bind :: "'a run \<Rightarrow> ('a \<Rightarrow> 'b run) \<Rightarrow> 'b run" where
  "run_bind m f = Option.bind m (\<lambda>r. case r of Inl e \<Rightarrow> Some (Inl e) | Inr x \<Rightarrow> f x)"

lemma run_bind_simps [simp, result_simps]:
  "run_bind None f = None" "run_bind (fails e) f = fails e" "run_bind (returns x) f = f x"
  by (simp_all add: run_bind_def)

lemma run_bind_ret_iff [result_simps]:
  "run_bind m f = returns y \<longleftrightarrow> (\<exists>x. m = returns x \<and> f x = returns y)"
  by (cases m; cases "the m") (auto simp: run_bind_def)

lemma run_bind_assoc: "run_bind (run_bind m f) g = run_bind m (\<lambda>x. run_bind (f x) g)"
  by (cases m; cases "the m") (simp_all add: run_bind_def)

lemma run_bind_mono [partial_function_mono]:
  assumes "mono_option B" and "\<And>y. mono_option (\<lambda>f. C y f)"
  shows "mono_option (\<lambda>f. run_bind (B f) (\<lambda>y. C y f))"
  unfolding run_bind_def
proof (rule bind_mono [OF assms(1)])
  show "mono_option (\<lambda>f. case r of Inl e \<Rightarrow> Some (Inl e) | Inr x \<Rightarrow> C x f)" for r
    using assms(2) by (cases r) (simp_all add: monotone_def option.leq_refl)
qed

section \<open>Words\<close>

lemma unat_add_no_wrap:
  fixes a b :: "'w::len word"
  assumes "unat a + unat b < 2 ^ LENGTH('w)"
  shows "unat (a + b) = unat a + unat b"
  using assms by (simp add: unat_add_lem)

lemma unat_sub_le:
  fixes a b :: "'w::len word"
  assumes "b \<le> a"
  shows "unat (a - b) = unat a - unat b"
  using assms by (simp add: unat_sub)

lemma unat_u64_less [simp]: "unat (w :: u64) < 18446744073709551616"
  using unsigned_less [of w] by simp

lemma unat_succ_less:
  assumes "(a :: u64) < b"
  shows "unat (a + 1) = Suc (unat a)"
proof -
  have "unat a < unat b" using assms by (simp add: word_less_nat_alt)
  moreover have "unat b < 18446744073709551616" by (rule unat_u64_less)
  ultimately have "unat a + 1 < 18446744073709551616" by linarith
  then show ?thesis by (subst unat_add_no_wrap) simp_all
qed

lemma i32_range: "- 2147483648 \<le> i32 x \<and> i32 x \<le> 2147483647"
proof -
  have "0 \<le> (x + 2147483648) mod 4294967296" and "(x + 2147483648) mod 4294967296 < 4294967296"
    by simp_all
  then show ?thesis unfolding i32_def by linarith
qed

lemma i16_range: "- 32768 \<le> i16 x \<and> i16 x \<le> 32767"
proof -
  have "0 \<le> (x + 32768) mod 65536" and "(x + 32768) mod 65536 < 65536" by simp_all
  then show ?thesis unfolding i16_def by linarith
qed

lemma unat_u64_MAX [simp]: "unat (u64_MAX :: u64) = 18446744073709551615"
  by (simp add: unsigned_minus_1_eq_mask mask_eq_exp_minus_1)

lemma word_eq_unat: "(a :: 'w::len word) = b \<longleftrightarrow> unat a = unat b"
  by (rule word_unat_eq_iff)

text \<open>A single-bit mask selects its bit.\<close>

lemma word_bits_iff:
  "(a :: 'w::len word) = b \<longleftrightarrow> (\<forall>n < LENGTH('w). bit a n = bit b n)"
  by (auto intro: bit_word_eqI)

lemma and_bit_nonzero:
  "n < LENGTH('w::len) \<Longrightarrow> (w :: 'w word) AND push_bit n 1 \<noteq> 0 \<longleftrightarrow> bit w n"
  by (auto simp: word_bits_iff bit_simps)

lemma and_bit_eq:
  "n < LENGTH('w::len) \<Longrightarrow> (w :: 'w word) AND push_bit n 1 = push_bit n 1 \<longleftrightarrow> bit w n"
  by (auto simp: word_bits_iff bit_simps)

lemmas unat_order = word_le_nat_alt word_less_nat_alt

end
