(* ===== verification/Addr.thy ===== *)
theory Addr
  imports Quark_Prelude
begin

text \<open>
  Memory addresses and access rights, after \<^verbatim>\<open>qlib/addr.rs\<close>: page rounding with its
  overflow checks, the protection bits of a mapping (\<^verbatim>\<open>AccessType\<close>), and their translation
  to and from the page table flags of the aarch64 port
  (\<^verbatim>\<open>qlib/kernel/arch/aarch64/mm/pagetable.rs\<close>). The x86-64 flags come from the external
  crate \<^verbatim>\<open>x86_64\<close> and are not modelled.
\<close>

section \<open>Constants\<close>

definition PAGE_SHIFT :: nat where "PAGE_SHIFT = 12"
definition PAGE_SIZE :: u64 where "PAGE_SIZE = push_bit PAGE_SHIFT 1"

definition PROT_READ :: u64 where "PROT_READ = push_bit 0 1"
definition PROT_WRITE :: u64 where "PROT_WRITE = push_bit 1 1"
definition PROT_EXEC :: u64 where "PROT_EXEC = push_bit 2 1"

lemma PAGE_SIZE_4096 [simp]: "PAGE_SIZE = 4096"
  by (simp add: PAGE_SIZE_def PAGE_SHIFT_def)

section \<open>Access types\<close>

type_synonym access_type = u64

definition AccessType_New :: "bool \<Rightarrow> bool \<Rightarrow> bool \<Rightarrow> access_type" where
  "AccessType_New r w x =
    (let prot = 0;
         prot = (if r then prot OR PROT_READ else prot);
         prot = (if w then prot OR PROT_WRITE else prot);
         prot = (if x then prot OR PROT_EXEC else prot)
     in prot)"

definition AccessType_Read :: "access_type \<Rightarrow> bool" where
  "AccessType_Read a \<longleftrightarrow> a AND PROT_READ \<noteq> 0"

definition AccessType_Write :: "access_type \<Rightarrow> bool" where
  "AccessType_Write a \<longleftrightarrow> a AND PROT_WRITE \<noteq> 0"

definition AccessType_Exec :: "access_type \<Rightarrow> bool" where
  "AccessType_Exec a \<longleftrightarrow> a AND PROT_EXEC \<noteq> 0"

definition AccessType_Any :: "access_type \<Rightarrow> bool" where
  "AccessType_Any a \<longleftrightarrow> AccessType_Read a \<or> AccessType_Write a \<or> AccessType_Exec a"

definition AccessType_String :: "access_type \<Rightarrow> string" where
  "AccessType_String a =
     '''' @ (if AccessType_Read a then ''r'' else ''-'')
          @ (if AccessType_Write a then ''w'' else ''-'')
          @ (if AccessType_Exec a then ''x'' else ''-'')"

definition AccessType_ReadOnly :: access_type where
  "AccessType_ReadOnly = PROT_READ"

definition AccessType_ReadWrite :: access_type where
  "AccessType_ReadWrite = PROT_READ OR PROT_WRITE"

definition AccessType_Executable :: access_type where
  "AccessType_Executable = PROT_READ OR PROT_EXEC"

definition AccessType_AnyAccess :: access_type where
  "AccessType_AnyAccess = PROT_READ OR PROT_WRITE OR PROT_EXEC"

definition AccessType_SetRead :: "access_type \<Rightarrow> access_type" where
  "AccessType_SetRead a = a OR PROT_READ"

definition AccessType_SetWrite :: "access_type \<Rightarrow> access_type" where
  "AccessType_SetWrite a = a OR PROT_WRITE"

definition AccessType_ClearWrite :: "access_type \<Rightarrow> access_type" where
  "AccessType_ClearWrite a = a AND NOT PROT_WRITE"

definition AccessType_SetExec :: "access_type \<Rightarrow> access_type" where
  "AccessType_SetExec a = a OR PROT_EXEC"

definition AccessType_Effective :: "access_type \<Rightarrow> access_type" where
  "AccessType_Effective a =
     (if AccessType_Write a \<or> AccessType_Exec a then AccessType_SetRead a else a)"

definition AccessType_SupersetOf :: "access_type \<Rightarrow> access_type \<Rightarrow> bool" where
  "AccessType_SupersetOf self other =
     (if \<not> AccessType_Read self \<and> AccessType_Read other then False
      else if \<not> AccessType_Write self \<and> AccessType_Write other then False
      else if \<not> AccessType_Exec self \<and> AccessType_Exec other then False
      else True)"

section \<open>Page table flags of the aarch64 port\<close>

type_synonym page_table_flags = u64

definition PTF_VALID :: page_table_flags where "PTF_VALID = 1"
definition PTF_USER_ACCESSIBLE :: page_table_flags where "PTF_USER_ACCESSIBLE = push_bit 6 1"
definition PTF_READ_ONLY :: page_table_flags where "PTF_READ_ONLY = push_bit 7 1"
definition PTF_PXN :: page_table_flags where "PTF_PXN = push_bit 53 1"
definition PTF_UXN :: page_table_flags where "PTF_UXN = push_bit 54 1"

definition PTF_MProtectBits :: page_table_flags where
  "PTF_MProtectBits = PTF_USER_ACCESSIBLE OR PTF_READ_ONLY OR PTF_PXN OR PTF_UXN"

definition ptf_contains :: "page_table_flags \<Rightarrow> page_table_flags \<Rightarrow> bool" where
  "ptf_contains flags f \<longleftrightarrow> flags AND f = f"

definition AccessType_NewFromPageFlags :: "page_table_flags \<Rightarrow> access_type" where
  "AccessType_NewFromPageFlags flags =
    (let present = ptf_contains flags PTF_VALID;
         useraccess = ptf_contains flags PTF_USER_ACCESSIBLE
     in if \<not> present \<or> \<not> useraccess then AccessType_New False False False
        else let write = \<not> ptf_contains flags PTF_READ_ONLY;
                 exec = \<not> ptf_contains flags PTF_UXN
             in AccessType_New present write exec)"

definition AccessType_ToUserPageFlags :: "access_type \<Rightarrow> page_table_flags" where
  "AccessType_ToUserPageFlags a =
    (let flags = PTF_UXN;
         flags = (if AccessType_Read a then flags OR (PTF_VALID OR PTF_USER_ACCESSIBLE) else flags);
         flags = (if \<not> AccessType_Write a then flags OR PTF_READ_ONLY else flags);
         flags = (if AccessType_Exec a then flags AND NOT PTF_UXN else flags)
     in flags)"

definition PageTableEntry_set_flags_perms_only :: "u64 \<Rightarrow> page_table_flags \<Rightarrow> u64" where
  "PageTableEntry_set_flags_perms_only entry flags = (entry AND NOT PTF_MProtectBits) OR flags"

definition PageTableEntry_addr :: "u64 \<Rightarrow> u64" where
  "PageTableEntry_addr entry = entry AND 0x0000fffffffff000"

section \<open>Addresses\<close>

definition Addr_AddLen :: "u64 \<Rightarrow> u64 \<Rightarrow> u64 result" where
  "Addr_AddLen a len =
     (if u64_MAX - a < len then Err (SysError EFAULT) else Ok (a + len))"

definition Addr_RoundDown :: "u64 \<Rightarrow> u64 result" where
  "Addr_RoundDown a = Ok (a AND NOT (PAGE_SIZE - 1))"

definition Addr_RoundUp :: "u64 \<Rightarrow> u64 result" where
  "Addr_RoundUp a =
     (if u64_MAX - PAGE_SIZE + 1 < a then Err (SysError EINVAL)
      else if a = 0 then Ok 0
      else Addr_RoundDown (a - 1 + PAGE_SIZE))"

definition Addr_MustRoundUp :: "u64 \<Rightarrow> u64 result" where
  "Addr_MustRoundUp a = (case Addr_RoundUp a of Inl _ \<Rightarrow> Err Panic | Inr b \<Rightarrow> Ok b)"

definition Addr_PageOffset :: "u64 \<Rightarrow> u64" where
  "Addr_PageOffset a = a AND (PAGE_SIZE - 1)"

definition Addr_IsPageAligned :: "u64 \<Rightarrow> bool" where
  "Addr_IsPageAligned a \<longleftrightarrow> Addr_PageOffset a = 0"

definition Addr_PageAligned :: "u64 \<Rightarrow> unit result" where
  "Addr_PageAligned a = (if \<not> Addr_IsPageAligned a then Err UnallignedAddress else Ok ())"

definition Addr_AddPages :: "u64 \<Rightarrow> u32 \<Rightarrow> u64" where
  "Addr_AddPages a pageCount = a + ucast pageCount * PAGE_SIZE"

definition Addr_PageOffsetIdx :: "u64 \<Rightarrow> u64 \<Rightarrow> u32 result" where
  "Addr_PageOffsetIdx self addr =
     and_then (Addr_RoundDown addr) (\<lambda>addr.
       if addr < self then Err AddressNotInRange
       else Ok (ucast ((addr - self) div PAGE_SIZE)))"

definition Addr_Offset :: "u64 \<Rightarrow> u64 \<Rightarrow> u64 result" where
  "Addr_Offset self startAddr =
     (if self < startAddr then Err AddressNotInRange else Ok (self - startAddr))"

section \<open>Page rounding\<close>

lemma page_offset_take_bit: "Addr_PageOffset a = take_bit 12 a"
  by (simp only: Addr_PageOffset_def take_bit_eq_mask mask_eq_exp_minus_1 PAGE_SIZE_4096) simp

lemma unat_page_offset: "unat (Addr_PageOffset a) = unat a mod 4096"
  by (simp add: page_offset_take_bit unsigned_take_bit_eq take_bit_eq_mod unat_mod_distrib)

lemma page_mask_diff: "a AND (- 4096 :: u64) = a - Addr_PageOffset a"
proof -
  have "a - (a AND 4095) = a AND NOT (a AND 4095)"
    by (rule disjunctive_diff_eq_and_not) (simp add: bit_eq_iff bit_simps)
  also have "\<dots> = a AND NOT 4095" by (auto simp: bit_eq_iff bit_simps simp del: bit.compl_eq_compl_iff)
  finally show ?thesis by (simp add: Addr_PageOffset_def)
qed

lemma unat_round_down: "unat (a AND (- 4096 :: u64)) = unat a div 4096 * 4096"
proof -
  have "Addr_PageOffset a \<le> a"
    by (simp add: unat_order unat_page_offset)
  then have "unat (a AND (- 4096 :: u64)) = unat a - unat a mod 4096"
    by (simp add: page_mask_diff unat_sub_le unat_page_offset)
  then show ?thesis by (simp add: minus_mod_eq_div_mult)
qed

lemma IsPageAligned_iff: "Addr_IsPageAligned a \<longleftrightarrow> 4096 dvd unat a"
  by (simp add: Addr_IsPageAligned_def unat_page_offset dvd_eq_mod_eq_0 flip: unat_eq_0)

lemma RoundDown_Ok: "Addr_RoundDown a = Ok b \<longleftrightarrow> unat b = unat a div 4096 * 4096"
  by (auto simp: Addr_RoundDown_def word_eq_unat unat_round_down)

lemma RoundUp_fits: "Addr_RoundUp a = Err (SysError EINVAL) \<longleftrightarrow> 18446744073709547520 < unat a"
  by (simp add: Addr_RoundUp_def Addr_RoundDown_def unat_order)

lemma RoundUp_Ok:
  "Addr_RoundUp a = Ok b \<longleftrightarrow>
     unat a \<le> 18446744073709547520 \<and> unat b = (unat a + 4095) div 4096 * 4096"
proof (cases "a = 0 \<or> 18446744073709547520 < unat a")
  case True
  then show ?thesis by (auto simp: Addr_RoundUp_def unat_order word_eq_unat)
next
  case False
  then have le: "unat a \<le> 18446744073709547520" and "0 < unat a" by (auto simp: unat_gt_0)
  then have "1 \<le> a" by (simp add: unat_order)
  then have "unat (a - 1 + 4096) = unat a + 4095"
    using le \<open>0 < unat a\<close> by (subst unat_add_no_wrap) (simp_all add: unat_sub_le)
  then show ?thesis using False le by (simp add: Addr_RoundUp_def RoundDown_Ok unat_order)
qed

section \<open>Access rights\<close>

lemma Read_bit: "AccessType_Read a \<longleftrightarrow> bit a 0"
  by (simp only: AccessType_Read_def PROT_READ_def) (rule and_bit_nonzero, simp)

lemma Write_bit: "AccessType_Write a \<longleftrightarrow> bit a 1"
  by (simp only: AccessType_Write_def PROT_WRITE_def) (rule and_bit_nonzero, simp)

lemma Exec_bit: "AccessType_Exec a \<longleftrightarrow> bit a 2"
  by (simp only: AccessType_Exec_def PROT_EXEC_def) (rule and_bit_nonzero, simp)

lemmas rights_bits = Read_bit Write_bit Exec_bit

lemma bit_AccessType_New:
  "bit (AccessType_New r w x) n \<longleftrightarrow> (r \<and> n = 0) \<or> (w \<and> n = 1) \<or> (x \<and> n = 2)"
  by (auto simp: AccessType_New_def Let_def PROT_READ_def PROT_WRITE_def PROT_EXEC_def bit_simps
      simp del: push_bit_of_1 push_bit_numeral)

lemma ptf_contains_bits:
  "ptf_contains f PTF_VALID \<longleftrightarrow> bit f 0"
  "ptf_contains f PTF_USER_ACCESSIBLE \<longleftrightarrow> bit f 6"
  "ptf_contains f PTF_READ_ONLY \<longleftrightarrow> bit f 7"
  "ptf_contains f PTF_UXN \<longleftrightarrow> bit f 54"
  using and_bit_eq [of 0 f] and_bit_eq [of 6 f] and_bit_eq [of 7 f] and_bit_eq [of 54 f]
  by (simp_all add: ptf_contains_def PTF_VALID_def PTF_USER_ACCESSIBLE_def PTF_READ_ONLY_def
      PTF_UXN_def)

lemmas ptf_defs = PTF_VALID_def PTF_USER_ACCESSIBLE_def PTF_READ_ONLY_def PTF_PXN_def PTF_UXN_def

lemma bit_ToUserPageFlags:
  "bit (AccessType_ToUserPageFlags a) n \<longleftrightarrow>
     (n = 54 \<and> \<not> AccessType_Exec a) \<or> (AccessType_Read a \<and> (n = 0 \<or> n = 6)) \<or>
     (\<not> AccessType_Write a \<and> n = 7)"
  by (auto simp: AccessType_ToUserPageFlags_def Let_def ptf_defs bit_simps
      simp del: push_bit_of_1 push_bit_numeral)

lemma bit_MProtectBits: "bit PTF_MProtectBits n \<longleftrightarrow> n \<in> {6, 7, 53, 54}"
  by (auto simp: PTF_MProtectBits_def ptf_defs bit_simps simp del: push_bit_of_1 push_bit_numeral)

lemma NewFromPageFlags_bits:
  "AccessType_NewFromPageFlags f =
     (if bit f 0 \<and> bit f 6 then AccessType_New True (\<not> bit f 7) (\<not> bit f 54)
      else AccessType_New False False False)"
  by (simp add: AccessType_NewFromPageFlags_def ptf_contains_bits)

text \<open>
  Changing the protection of an aarch64 page table entry
  (\<open>set_flags_perms_only\<close> with the flags computed by \<open>ToUserPageFlags\<close>) keeps the mapped
  address, and the rights read back from the entry by \<open>NewFromPageFlags\<close> are exactly the
  requested ones when read access is requested, and none otherwise, whatever the entry held.
\<close>

theorem mprotect_entry_rights:
  "PageTableEntry_addr (PageTableEntry_set_flags_perms_only e (AccessType_ToUserPageFlags a))
     = PageTableEntry_addr e \<and>
   AccessType_NewFromPageFlags
     (PageTableEntry_set_flags_perms_only e (AccessType_ToUserPageFlags a)) =
     (if AccessType_Read a then AccessType_New True (AccessType_Write a) (AccessType_Exec a)
      else AccessType_New False False False)"
proof
  let ?e = "PageTableEntry_set_flags_perms_only e (AccessType_ToUserPageFlags a)"
  have mask: "bit (0x0000fffffffff000 :: u64) n \<longleftrightarrow> 12 \<le> n \<and> n < 48" for n
  proof -
    have "(0x0000fffffffff000 :: u64) = push_bit 12 (mask 36)"
      by (simp add: mask_eq_exp_minus_1)
    then show ?thesis by (simp only: bit_push_bit_iff bit_mask_iff possible_bit_word) auto
  qed
  show "PageTableEntry_addr ?e = PageTableEntry_addr e"
    by (rule bit_word_eqI)
      (auto simp: PageTableEntry_addr_def PageTableEntry_set_flags_perms_only_def bit_simps mask
        bit_ToUserPageFlags bit_MProtectBits)
  have bits: "bit ?e 0 \<longleftrightarrow> bit e 0 \<or> AccessType_Read a" "bit ?e 6 \<longleftrightarrow> AccessType_Read a"
    "bit ?e 7 \<longleftrightarrow> \<not> AccessType_Write a" "bit ?e 54 \<longleftrightarrow> \<not> AccessType_Exec a"
    by (auto simp: PageTableEntry_set_flags_perms_only_def bit_simps bit_ToUserPageFlags
        bit_MProtectBits)
  show "AccessType_NewFromPageFlags ?e =
     (if AccessType_Read a then AccessType_New True (AccessType_Write a) (AccessType_Exec a)
      else AccessType_New False False False)"
    by (simp add: NewFromPageFlags_bits bits)
qed

lemma SupersetOf_iff:
  "AccessType_SupersetOf a b \<longleftrightarrow>
     (AccessType_Read b \<longrightarrow> AccessType_Read a) \<and> (AccessType_Write b \<longrightarrow> AccessType_Write a) \<and>
     (AccessType_Exec b \<longrightarrow> AccessType_Exec a)"
  by (auto simp: AccessType_SupersetOf_def)

lemma Effective_rights:
  "AccessType_Read (AccessType_Effective a) \<longleftrightarrow> AccessType_Any a"
  "AccessType_Write (AccessType_Effective a) \<longleftrightarrow> AccessType_Write a"
  "AccessType_Exec (AccessType_Effective a) \<longleftrightarrow> AccessType_Exec a"
  by (auto simp: AccessType_Effective_def AccessType_SetRead_def AccessType_Any_def rights_bits
      PROT_READ_def bit_simps simp del: push_bit_of_1 push_bit_numeral)

text \<open>
  \<open>Effective\<close> is the closure of an access type under "write or execute implies read": the
  result contains the given rights, is itself closed, and every closed access type that contains
  the given rights contains the result.
\<close>

theorem Effective_is_closure:
  "AccessType_SupersetOf (AccessType_Effective a) a \<and>
   (AccessType_Any (AccessType_Effective a) \<longrightarrow> AccessType_Read (AccessType_Effective a)) \<and>
   (\<forall>b. AccessType_SupersetOf b a \<longrightarrow> (AccessType_Any b \<longrightarrow> AccessType_Read b) \<longrightarrow>
      AccessType_SupersetOf b (AccessType_Effective a))"
  by (auto simp: SupersetOf_iff Effective_rights AccessType_Any_def)

theorem Effective_is_closure_witness:
  "AccessType_SupersetOf AccessType_AnyAccess (AccessType_Effective 2) \<and>
   AccessType_Read (AccessType_Effective 2)"
proof -
  have "AccessType_SupersetOf AccessType_AnyAccess 2" and "AccessType_Read AccessType_AnyAccess"
    and "AccessType_Any (AccessType_Effective 2)"
    by code_simp+
  then show ?thesis using Effective_is_closure [of 2] by blast
qed

lemma RoundUp_least:
  "Addr_RoundUp a = Ok b \<longleftrightarrow>
     Addr_IsPageAligned b \<and> a \<le> b \<and> (\<forall>c. Addr_IsPageAligned c \<longrightarrow> a \<le> c \<longrightarrow> b \<le> c)"
proof
  assume "Addr_RoundUp a = Ok b"
  then have b: "unat b = (unat a + 4095) div 4096 * 4096" by (simp add: RoundUp_Ok)
  have "unat b \<le> unat c" if "4096 dvd unat c" "unat a \<le> unat c" for c :: u64
    using that b by (auto elim!: dvdE)
  then show "Addr_IsPageAligned b \<and> a \<le> b \<and>
      (\<forall>c. Addr_IsPageAligned c \<longrightarrow> a \<le> c \<longrightarrow> b \<le> c)"
    using b by (auto simp: IsPageAligned_iff unat_order)
next
  assume R: "Addr_IsPageAligned b \<and> a \<le> b \<and>
      (\<forall>c. Addr_IsPageAligned c \<longrightarrow> a \<le> c \<longrightarrow> b \<le> c)"
  then obtain k where k: "unat b = 4096 * k" and ab: "unat a \<le> unat b"
    by (auto simp: IsPageAligned_iff unat_order)
  have "k < 4503599627370496" using k unat_u64_less [of b] by linarith
  then have fits: "unat a \<le> 18446744073709547520" using k ab by linarith
  define n where "n = (unat a + 4095) div 4096 * 4096"
  have n: "n < 18446744073709551616" "unat a \<le> n" "4096 dvd n"
    using fits by (auto simp: n_def)
  define c :: u64 where "c = of_nat n"
  have c: "unat c = n" using n by (simp add: c_def unat_of_nat)
  with R n have "unat b \<le> n" by (auto simp: IsPageAligned_iff unat_order)
  moreover have "n \<le> unat b" using k ab by (simp add: n_def)
  ultimately show "Addr_RoundUp a = Ok b" using fits by (simp add: RoundUp_Ok n_def)
qed

text \<open>
  C1. \<open>RoundUp\<close> succeeds with \<open>b\<close> exactly when \<open>b\<close> is the least page boundary at or above the
  address, and it answers \<open>EINVAL\<close> exactly when every page boundary of 64 bits lies below the address; there
  is no third outcome.
\<close>

theorem RoundUp_least_page_boundary:
  "(Addr_RoundUp a = Ok b \<longleftrightarrow>
     Addr_IsPageAligned b \<and> a \<le> b \<and> (\<forall>c. Addr_IsPageAligned c \<longrightarrow> a \<le> c \<longrightarrow> b \<le> c)) \<and>
   (Addr_RoundUp a = Err (SysError EINVAL) \<longleftrightarrow> (\<forall>c. Addr_IsPageAligned c \<longrightarrow> c < a)) \<and>
   (Addr_RoundUp a = Err (SysError EINVAL) \<or> (\<exists>c. Addr_RoundUp a = Ok c))"
proof -
  have some: "\<exists>c. Addr_RoundUp a = Ok c" if "Addr_RoundUp a \<noteq> Err (SysError EINVAL)"
  proof -
    have fits: "unat a \<le> 18446744073709547520" using that by (simp add: RoundUp_fits)
    define n where "n = (unat a + 4095) div 4096 * 4096"
    have "n < 18446744073709551616" using fits by (simp add: n_def)
    then have "unat (of_nat n :: u64) = n" by (simp add: unat_of_nat)
    then have "Addr_RoundUp a = Ok (of_nat n)" using fits by (simp add: RoundUp_Ok n_def)
    then show ?thesis ..
  qed
  have "c < a" if err: "Addr_RoundUp a = Err (SysError EINVAL)" and al: "Addr_IsPageAligned c" for c
  proof -
    obtain k where "unat c = 4096 * k" using al by (auto simp: IsPageAligned_iff)
    moreover from this have "k < 4503599627370496" using unat_u64_less [of c] by linarith
    ultimately show ?thesis using err by (simp add: RoundUp_fits unat_order)
  qed
  then have "Addr_RoundUp a = Err (SysError EINVAL) \<longleftrightarrow> (\<forall>c. Addr_IsPageAligned c \<longrightarrow> c < a)"
    using some RoundUp_least [of a] by (meson leD)
  then show ?thesis using RoundUp_least [of a b] some by blast
qed

theorem RoundUp_least_page_boundary_witness:
  "Addr_RoundUp 4097 = Ok 8192 \<and> Addr_IsPageAligned 8192 \<and> (4097 :: u64) \<le> 8192 \<and>
   Addr_IsPageAligned 12288 \<and> (8192 :: u64) \<le> 12288 \<and>
   Addr_RoundUp (- 1) = Err (SysError EINVAL) \<and> (12288 :: u64) < - 1"
proof -
  have "Addr_RoundUp (- 1) = Err (SysError EINVAL)" by code_simp
  moreover
  have "Addr_RoundUp 4097 = Ok 8192" "Addr_IsPageAligned 12288" "(4097 :: u64) \<le> 12288" by code_simp+
  ultimately show ?thesis
    using RoundUp_least_page_boundary [of 4097 8192] RoundUp_least_page_boundary [of "- 1" 0] by blast
qed

end
