(* ===== verification/Ranges.thy ===== *)
theory Ranges
  imports Addr
begin

text \<open>
  Half-open address ranges, after the type \<^verbatim>\<open>Range\<close> of \<^verbatim>\<open>qlib/range.rs\<close>: a start and a
  length, both 64-bit. A length of \<open>MAX_RANGE\<close> stands for "to the end", which \<open>End\<close> treats
  separately and \<open>Contains\<close> does not. \<open>range_ok\<close> singles out the ranges whose sum of start and
  length does not wrap; what the operations say of the sets of addresses is stated for all ranges that do
  not wrap, those that run to the end included.
\<close>

section \<open>Operations\<close>

record range =
  r_start :: u64
  r_len :: u64

definition MAX_RANGE :: u64 where "MAX_RANGE = u64_MAX"

definition Range_New :: "u64 \<Rightarrow> u64 \<Rightarrow> range" where
  "Range_New start len = \<lparr>r_start = start, r_len = len\<rparr>"

definition Range_Max :: range where
  "Range_Max = \<lparr>r_start = 0, r_len = MAX_RANGE\<rparr>"

definition Range_End :: "range \<Rightarrow> u64" where
  "Range_End r = (if r_len r = MAX_RANGE then MAX_RANGE else r_start r + r_len r)"

definition Range_eq :: "range \<Rightarrow> range \<Rightarrow> bool" where
  "Range_eq self other \<longleftrightarrow> r_start self = r_start other \<and> r_len self = r_len self"

definition Range_Alloc :: "range \<Rightarrow> u64 \<Rightarrow> u64 \<Rightarrow> u64 option" where
  "Range_Alloc r len aligmentOrd =
    (let start = r_start r;
         size = push_bit (unat (aligmentOrd AND 63)) 1;
         mask = size - 1;
         start = (if start AND mask \<noteq> 0 then (start AND NOT mask) + size else start)
     in if Range_End r > start \<and> Range_End r - start \<ge> len then Some start else None)"

definition Range_Contains :: "range \<Rightarrow> u64 \<Rightarrow> bool" where
  "Range_Contains r x \<longleftrightarrow> x \<ge> r_start r \<and> x < r_start r + r_len r"

definition Range_Overlaps :: "range \<Rightarrow> range \<Rightarrow> bool" where
  "Range_Overlaps self r \<longleftrightarrow> r_start self < Range_End r \<and> r_start r < Range_End self"

definition Range_IsSupersetOf :: "range \<Rightarrow> range \<Rightarrow> bool" where
  "Range_IsSupersetOf self r \<longleftrightarrow> r_start self \<le> r_start r \<and> Range_End self \<ge> Range_End r"

definition Range_Intersect :: "range \<Rightarrow> range \<Rightarrow> range" where
  "Range_Intersect self r =
    (let start = (if r_start self < r_start r then r_start r else r_start self);
         end = (if Range_End self > Range_End r then Range_End r else Range_End self)
     in \<lparr>r_start = start, r_len = end - start\<rparr>)"

definition Range_CanSplitAt :: "range \<Rightarrow> u64 \<Rightarrow> bool" where
  "Range_CanSplitAt r x \<longleftrightarrow> r_start r < x \<and> x < Range_End r"

definition Range_IsPageAigned :: "range \<Rightarrow> bool" where
  "Range_IsPageAigned r \<longleftrightarrow> Addr_IsPageAligned (r_start r) \<and> Addr_IsPageAligned (r_len r)"

definition Addr_ToRange :: "u64 \<Rightarrow> u64 \<Rightarrow> range result" where
  "Addr_ToRange self n =
     and_then (Addr_AddLen self n) (\<lambda>_. Ok (Range_New self n))"

section \<open>Ranges that do not wrap\<close>

definition range_ok :: "range \<Rightarrow> bool" where
  "range_ok r \<longleftrightarrow> unat (r_start r) + unat (r_len r) < 18446744073709551616"

definition addrs :: "range \<Rightarrow> u64 set" where
  "addrs r = {x. r_start r \<le> x \<and> x < Range_End r}"

lemma Range_New_sel [simp]:
  "r_start (Range_New s l) = s" "r_len (Range_New s l) = l"
  by (simp_all add: Range_New_def)

lemma range_eqI: "r_start r = r_start s \<Longrightarrow> r_len r = r_len s \<Longrightarrow> r = (s :: range)"
  by (cases r; cases s) simp

lemma unat_End: "range_ok r \<Longrightarrow> unat (Range_End r) = unat (r_start r) + unat (r_len r)"
  by (auto simp: range_ok_def Range_End_def MAX_RANGE_def unat_add_no_wrap)

lemma End_eq_add: "range_ok r \<Longrightarrow> Range_End r = r_start r + r_len r"
  by (simp add: word_eq_unat unat_End unat_add_no_wrap range_ok_def)

lemma start_le_End: "range_ok r \<Longrightarrow> r_start r \<le> Range_End r"
  by (simp add: unat_order unat_End)

lemma start_less_End: "range_ok r \<Longrightarrow> r_start r < Range_End r \<longleftrightarrow> r_len r \<noteq> 0"
  by (simp add: unat_order unat_End unat_gt_0)

text \<open>A range given by its two ends.\<close>

lemma ends_ok: "s \<le> e \<Longrightarrow> range_ok (Range_New s (e - s))"
  by (simp add: range_ok_def unat_order unat_sub_le)

lemma ends_End [simp]: "s \<le> e \<Longrightarrow> Range_End (Range_New s (e - s)) = e"
  by (simp add: word_eq_unat unat_End ends_ok) (simp add: unat_order unat_sub_le)

lemma Contains_iff: "range_ok r \<Longrightarrow> Range_Contains r x \<longleftrightarrow> x \<in> addrs r"
  by (auto simp: Range_Contains_def addrs_def End_eq_add)

lemma addrs_empty_iff: "range_ok r \<Longrightarrow> addrs r = {} \<longleftrightarrow> r_len r = 0"
proof
  assume ok: "range_ok r" and "addrs r = {}"
  then have "r_start r \<notin> addrs r" by simp
  with ok show "r_len r = 0" by (simp add: addrs_def start_less_End)
next
  assume "range_ok r" and "r_len r = 0"
  then show "addrs r = {}" using start_less_End [of r] by (auto simp: addrs_def)
qed

lemma Range_Intersect_ends:
  "r_start (Range_Intersect a b) = max (r_start a) (r_start b)"
  "r_len (Range_Intersect a b) =
     min (Range_End a) (Range_End b) - max (r_start a) (r_start b)"
  by (auto simp: Range_Intersect_def Let_def max_def min_def)

lemma Range_Intersect_New:
  "Range_Intersect a b = Range_New (max (r_start a) (r_start b))
     (min (Range_End a) (Range_End b) - max (r_start a) (r_start b))"
  by (rule range_eqI) (simp_all add: Range_Intersect_ends)

lemma Overlaps_iff:
  assumes "range_ok a" and "range_ok b" and "r_len a \<noteq> 0" and "r_len b \<noteq> 0"
  shows "Range_Overlaps a b \<longleftrightarrow> addrs a \<inter> addrs b \<noteq> {}"
proof
  assume "Range_Overlaps a b"
  then have "max (r_start a) (r_start b) \<in> addrs a \<inter> addrs b"
    using assms by (auto simp: Range_Overlaps_def addrs_def max_def start_less_End)
  then show "addrs a \<inter> addrs b \<noteq> {}" by blast
next
  assume "addrs a \<inter> addrs b \<noteq> {}"
  then show "Range_Overlaps a b" by (auto simp: Range_Overlaps_def addrs_def)
qed

lemma IsSupersetOf_iff:
  assumes "range_ok b" and "r_len b \<noteq> 0"
  shows "Range_IsSupersetOf a b \<longleftrightarrow> addrs b \<subseteq> addrs a"
proof
  assume sub: "addrs b \<subseteq> addrs a"
  have lt: "r_start b < Range_End b" using assms by (simp add: start_less_End)
  then have "Range_End b \<noteq> 0" by auto
  then have "unat (Range_End b - 1) = unat (Range_End b) - 1"
    by (simp add: unat_minus_one)
  then have "r_start b \<in> addrs b" and last: "Range_End b - 1 \<in> addrs b"
    using lt by (auto simp: addrs_def unat_order)
  with sub have "Range_End b - 1 < Range_End a" and "r_start a \<le> r_start b"
    by (auto simp: addrs_def)
  then show "Range_IsSupersetOf a b"
    using \<open>unat (Range_End b - 1) = _\<close> by (simp add: Range_IsSupersetOf_def unat_order)
qed (auto simp: Range_IsSupersetOf_def addrs_def)

lemma addrs_Intersect:
  assumes "range_ok a" and "range_ok b" and "Range_Overlaps a b"
  shows "range_ok (Range_Intersect a b) \<and> addrs (Range_Intersect a b) = addrs a \<inter> addrs b"
proof -
  let ?s = "max (r_start a) (r_start b)" and ?e = "min (Range_End a) (Range_End b)"
  from assms have "?s \<le> ?e"
    using start_le_End [of a] start_le_End [of b]
    by (auto simp: Range_Overlaps_def max_def min_def)
  then show ?thesis by (auto simp: Range_Intersect_New ends_ok addrs_def)
qed

text \<open>
  A range that runs "to the end" from a positive start contains no address at all: \<open>Contains\<close>
  adds \<open>MAX_RANGE\<close> to the start, which wraps below it, although \<open>End\<close> answers \<open>MAX_RANGE\<close>.
\<close>

lemma Contains_to_end_is_empty:
  assumes "0 < s"
  shows "Range_End (Range_New s MAX_RANGE) = MAX_RANGE \<and>
    (\<forall>x. \<not> Range_Contains (Range_New s MAX_RANGE) x)"
proof -
  have "s + MAX_RANGE < s"
    using assms by (simp add: MAX_RANGE_def unat_order unat_sub_le word_less_sub1)
  then show ?thesis by (auto simp: Range_End_def Range_Contains_def)
qed

lemma Contains_to_end: "0 < s \<Longrightarrow> \<not> Range_Contains (Range_New s MAX_RANGE) x"
  using Contains_to_end_is_empty by blast

lemma addrs_empty: "r_start r \<le> Range_End r \<Longrightarrow> addrs r = {} \<longleftrightarrow> r_start r = Range_End r"
  by (auto simp: addrs_def)

lemma Contains_exact: "r_start r \<le> Range_End r \<Longrightarrow>
    Range_Contains r x \<longleftrightarrow> x \<in> addrs r \<and> \<not> (r_len r = MAX_RANGE \<and> 0 < r_start r)"
proof (cases "r_len r = MAX_RANGE")
  case True
  show ?thesis
  proof (cases "r_start r = 0")
    case True
    then show ?thesis using \<open>r_len r = MAX_RANGE\<close> by (simp add: Range_Contains_def addrs_def Range_End_def)
  next
    case False
    then have "0 < r_start r" by (simp add: word_gt_0)
    moreover have eq: "Range_New (r_start r) MAX_RANGE = r" by (rule range_eqI) (simp_all add: True)
    ultimately show ?thesis using Contains_to_end [of "r_start r" x, unfolded eq] True by simp
  qed
qed (auto simp: Range_Contains_def addrs_def Range_End_def)

lemma Overlaps_exact:
  assumes "r_start a \<le> Range_End a" and "r_start b \<le> Range_End b"
  shows "Range_Overlaps a b \<longleftrightarrow> addrs a \<inter> addrs b \<noteq> {} \<or>
    addrs a = {} \<and> Range_CanSplitAt b (r_start a) \<or> addrs b = {} \<and> Range_CanSplitAt a (r_start b)"
proof -
  have "max (r_start a) (r_start b) \<in> addrs a \<inter> addrs b"
    if "Range_Overlaps a b" "r_start a < Range_End a" "r_start b < Range_End b"
    using that by (auto simp: Range_Overlaps_def addrs_def max_def)
  moreover have "Range_Overlaps a b" if "x \<in> addrs a" "x \<in> addrs b" for x
    using that by (auto simp: Range_Overlaps_def addrs_def)
  moreover have "addrs r = {} \<longleftrightarrow> \<not> r_start r < Range_End r" if "r_start r \<le> Range_End r" for r
    using that addrs_empty [of r] by auto
  ultimately show ?thesis
    using assms by (fastforce simp: Range_CanSplitAt_def Range_Overlaps_def)
qed

lemma IsSupersetOf_exact:
  assumes "r_start b \<le> Range_End b"
  shows "Range_IsSupersetOf a b \<longleftrightarrow> addrs b \<subseteq> addrs a \<and>
    (addrs b = {} \<longrightarrow> r_start a \<le> r_start b \<and> r_start b \<le> Range_End a)"
proof (cases "r_start b < Range_End b")
  case True
  then have "unat (Range_End b - 1) = unat (Range_End b) - 1" by (subst unat_minus_one) auto
  then have in_b: "r_start b \<in> addrs b" "Range_End b - 1 \<in> addrs b"
    and lim: "Range_End b - 1 < Range_End a \<Longrightarrow> Range_End b \<le> Range_End a"
    using True by (auto simp: addrs_def unat_order)
  have "Range_IsSupersetOf a b" if "addrs b \<subseteq> addrs a"
  proof -
    have "r_start b \<in> addrs a" "Range_End b - 1 \<in> addrs a" using that in_b by blast+
    then show ?thesis using lim by (simp add: Range_IsSupersetOf_def addrs_def)
  qed
  moreover have "addrs b \<subseteq> addrs a" if "Range_IsSupersetOf a b"
    using that by (auto simp: Range_IsSupersetOf_def addrs_def)
  ultimately show ?thesis using in_b by auto
qed (use assms addrs_empty [of b] in \<open>auto simp: Range_IsSupersetOf_def\<close>)

lemma Intersect_exact:
  assumes "r_start a \<le> Range_End a" and "r_start b \<le> Range_End b" and "Range_Overlaps a b"
  shows "r_start (Range_Intersect a b) \<le> Range_End (Range_Intersect a b) \<and>
    addrs (Range_Intersect a b) = addrs a \<inter> addrs b"
proof -
  let ?s = "max (r_start a) (r_start b)" and ?e = "min (Range_End a) (Range_End b)"
  from assms have "?s \<le> ?e" by (auto simp: Range_Overlaps_def max_def min_def)
  then show ?thesis by (auto simp: Range_Intersect_New addrs_def)
qed



end
