(* ===== verification/Key_Map.thy ===== *)
theory Key_Map
  imports Quark_Prelude "HOL-Library.AList" "HOL-Library.Multiset"
begin

text \<open>
  The keyed maps of the sources. The locale \<open>key_map\<close> is what every client of a map relies on;
  it is interpreted here on the model of \<^verbatim>\<open>hashbrown::HashMap\<close> and, through its extension
  \<open>ordered_map\<close>, on the model of \<^verbatim>\<open>BTreeMap\<close> in the theory of that name.

  A hash map is the list of its entries, with distinct keys. Its iteration order is not
  specified: an operation that iterates takes the order as a parameter \<open>iter\<close>, of which
  \<open>hm_iter\<close> says that it visits every entry exactly once.
\<close>

section \<open>The interface\<close>

locale key_map =
  fixes get :: "'m \<Rightarrow> 'k \<Rightarrow> 'v option"
    and insert :: "'k \<Rightarrow> 'v \<Rightarrow> 'm \<Rightarrow> 'm"
    and remove :: "'k \<Rightarrow> 'm \<Rightarrow> 'm"
    and wf :: "'m \<Rightarrow> bool"
  assumes get_insert: "wf m \<Longrightarrow> get (insert k v m) = (get m)(k \<mapsto> v)"
    and get_remove: "wf m \<Longrightarrow> get (remove k m) = (get m)(k := None)"
    and wf_insert: "wf m \<Longrightarrow> wf (insert k v m)"
    and wf_remove: "wf m \<Longrightarrow> wf (remove k m)"
begin

lemma get_fold_remove:
  "wf m \<Longrightarrow> get (fold remove ks m) = (get m) |` (- set ks) \<and> wf (fold remove ks m)"
  by (induction ks arbitrary: m)
    (auto simp: get_remove wf_remove restrict_map_def fun_eq_iff)

lemma get_fold_insert:
  "wf m \<Longrightarrow> get (fold (\<lambda>(k, v). insert k v) kvs m) = get m ++ map_of (rev kvs) \<and>
    wf (fold (\<lambda>(k, v). insert k v) kvs m)"
  by (induction kvs arbitrary: m)
    (auto simp: get_insert wf_insert fun_eq_iff map_add_def split: option.splits)

end

section \<open>Hash maps\<close>

type_synonym ('k, 'v) hashmap = "('k \<times> 'v) list"

definition hm_wf :: "('k, 'v) hashmap \<Rightarrow> bool" where
  "hm_wf m \<longleftrightarrow> distinct (map fst m)"

definition hm_get :: "('k, 'v) hashmap \<Rightarrow> 'k \<Rightarrow> 'v option" where
  "hm_get m k = map_of m k"

definition hm_insert :: "'k \<Rightarrow> 'v \<Rightarrow> ('k, 'v) hashmap \<Rightarrow> ('k, 'v) hashmap" where
  "hm_insert k v m = AList.update k v m"

definition hm_remove :: "'k \<Rightarrow> ('k, 'v) hashmap \<Rightarrow> ('k, 'v) hashmap" where
  "hm_remove k m = AList.delete k m"

definition hm_iter :: "(('k, 'v) hashmap \<Rightarrow> ('k \<times> 'v) list) \<Rightarrow> bool" where
  "hm_iter iter \<longleftrightarrow> (\<forall>m. mset (iter m) = mset m)"

interpretation hm: key_map hm_get hm_insert hm_remove hm_wf
  by unfold_locales
    (auto simp: hm_get_def [abs_def] hm_insert_def hm_remove_def hm_wf_def update_conv'
      delete_conv' distinct_update distinct_delete fun_eq_iff)

lemma hm_wf_Nil [simp]: "hm_wf []"
  by (simp add: hm_wf_def)

lemma hm_get_Nil [simp]: "hm_get [] = Map.empty"
  by (simp add: hm_get_def fun_eq_iff)

lemma hm_get_iff: "hm_wf m \<Longrightarrow> hm_get m k = Some v \<longleftrightarrow> (k, v) \<in> set m"
  by (simp add: hm_get_def hm_wf_def)

lemma dom_hm_get: "dom (hm_get m) = fst ` set m"
  by (simp add: hm_get_def [abs_def] dom_map_of_conv_image_fst)

lemma hm_iter_set: "hm_iter iter \<Longrightarrow> set (iter m) = set m"
  unfolding hm_iter_def by (metis mset_eq_setD)

lemma hm_iter_wf: "hm_iter iter \<Longrightarrow> hm_wf m \<Longrightarrow> hm_wf (iter m)"
  unfolding hm_iter_def hm_wf_def by (metis mset_map mset_eq_imp_distinct_iff)

lemma hm_iter_get: "hm_iter iter \<Longrightarrow> hm_wf m \<Longrightarrow> hm_get (iter m) = hm_get m"
  unfolding hm_get_def [abs_def] hm_wf_def hm_iter_def
  by (metis map_of_eqI mset_eq_setD mset_map mset_eq_imp_distinct_iff map_of_inject_set ext)

lemma hm_iter_id: "hm_iter (\<lambda>m. m)"
  by (simp add: hm_iter_def)

lemma hm_iter_rev: "hm_iter rev"
  by (simp add: hm_iter_def)

lemmas hm_simps = hm.get_insert hm.get_remove hm.wf_insert hm.wf_remove

end
