(* ===== verification/BTree_Map.thy ===== *)
theory BTree_Map
  imports Key_Map
begin

text \<open>
  The ordered map of the Rust standard library, \<^verbatim>\<open>alloc::collections::BTreeMap\<close>, as the
  sources use it: keyed lookup, insertion and removal, iteration in key order, and the first
  entry of a \<^verbatim>\<open>range\<close> query taken forwards or backwards. A map is the list of its entries in
  iteration order; \<open>bt_wf\<close> says the keys increase strictly.

  The locale \<open>ordered_map\<close> is the interface the clients (the gap manager, the area manager,
  the area set, the id maps) rely on; it is interpreted on the list model at the end.
\<close>

section \<open>Operations\<close>

type_synonym ('k, 'v) btree = "('k \<times> 'v) list"

definition bt_wf :: "('k::linorder, 'v) btree \<Rightarrow> bool" where
  "bt_wf m \<longleftrightarrow> sorted_wrt (<) (map fst m)"

definition bt_get :: "('k, 'v) btree \<Rightarrow> 'k \<Rightarrow> 'v option" where
  "bt_get m k = map_of m k"

fun bt_insert :: "'k::linorder \<Rightarrow> 'v \<Rightarrow> ('k, 'v) btree \<Rightarrow> ('k, 'v) btree" where
  "bt_insert k v [] = [(k, v)]"
| "bt_insert k v ((k', v') # m) =
     (if k < k' then (k, v) # (k', v') # m
      else if k = k' then (k, v) # m
      else (k', v') # bt_insert k v m)"

definition bt_remove :: "'k \<Rightarrow> ('k, 'v) btree \<Rightarrow> ('k, 'v) btree" where
  "bt_remove k m = filter (\<lambda>p. fst p \<noteq> k) m"

text \<open>\<^verbatim>\<open>range((Unbounded, Excluded(k)))\<close> and \<^verbatim>\<open>range((Unbounded, Included(k)))\<close>, as lists.\<close>

definition bt_range_lt :: "'k::linorder \<Rightarrow> ('k, 'v) btree \<Rightarrow> ('k \<times> 'v) list" where
  "bt_range_lt k m = filter (\<lambda>p. fst p < k) m"

definition bt_range_le :: "'k::linorder \<Rightarrow> ('k, 'v) btree \<Rightarrow> ('k \<times> 'v) list" where
  "bt_range_le k m = filter (\<lambda>p. fst p \<le> k) m"

text \<open>The last entry at or below a key, and the first entry at or above, or above, a key.\<close>

definition bt_floor :: "'k::linorder \<Rightarrow> ('k, 'v) btree \<Rightarrow> ('k \<times> 'v) option" where
  "bt_floor k m = (case rev (bt_range_le k m) of [] \<Rightarrow> None | p # _ \<Rightarrow> Some p)"

definition bt_ceil :: "'k::linorder \<Rightarrow> ('k, 'v) btree \<Rightarrow> ('k \<times> 'v) option" where
  "bt_ceil k m = find (\<lambda>p. k \<le> fst p) m"

definition bt_above :: "'k::linorder \<Rightarrow> ('k, 'v) btree \<Rightarrow> ('k \<times> 'v) option" where
  "bt_above k m = find (\<lambda>p. k < fst p) m"

definition bt_last :: "('k, 'v) btree \<Rightarrow> ('k \<times> 'v) option" where
  "bt_last m = (case rev m of [] \<Rightarrow> None | p # _ \<Rightarrow> Some p)"

section \<open>The interface\<close>

locale ordered_map = key_map get insert remove wf
  for get :: "'m \<Rightarrow> 'k::linorder \<Rightarrow> 'v option"
    and insert :: "'k \<Rightarrow> 'v \<Rightarrow> 'm \<Rightarrow> 'm"
    and remove :: "'k \<Rightarrow> 'm \<Rightarrow> 'm"
    and wf :: "'m \<Rightarrow> bool" +
  fixes floor :: "'k \<Rightarrow> 'm \<Rightarrow> ('k \<times> 'v) option"
    and ceil :: "'k \<Rightarrow> 'm \<Rightarrow> ('k \<times> 'v) option"
    and above :: "'k \<Rightarrow> 'm \<Rightarrow> ('k \<times> 'v) option"
  assumes floor_Some: "wf m \<Longrightarrow> floor k m = Some (a, v) \<longleftrightarrow>
      get m a = Some v \<and> a \<le> k \<and> (\<forall>b \<in> dom (get m). b \<le> k \<longrightarrow> b \<le> a)"
    and floor_None: "wf m \<Longrightarrow> floor k m = None \<longleftrightarrow> (\<forall>b \<in> dom (get m). k < b)"
    and ceil_Some: "wf m \<Longrightarrow> ceil k m = Some (a, v) \<longleftrightarrow>
      get m a = Some v \<and> k \<le> a \<and> (\<forall>b \<in> dom (get m). k \<le> b \<longrightarrow> a \<le> b)"
    and ceil_None: "wf m \<Longrightarrow> ceil k m = None \<longleftrightarrow> (\<forall>b \<in> dom (get m). b < k)"
    and above_Some: "wf m \<Longrightarrow> above k m = Some (a, v) \<longleftrightarrow>
      get m a = Some v \<and> k < a \<and> (\<forall>b \<in> dom (get m). k < b \<longrightarrow> a \<le> b)"
    and above_None: "wf m \<Longrightarrow> above k m = None \<longleftrightarrow> (\<forall>b \<in> dom (get m). b \<le> k)"
begin

lemma floor_inserted: "wf m \<Longrightarrow> floor k (insert k v m) = Some (k, v)"
  by (simp add: floor_Some wf_insert get_insert)

lemma ceil_present: "wf m \<Longrightarrow> get m k = Some v \<Longrightarrow> ceil k m = Some (k, v)"
  by (simp add: ceil_Some)

lemma floor_present: "wf m \<Longrightarrow> get m k = Some v \<Longrightarrow> floor k m = Some (k, v)"
  by (simp add: floor_Some)

lemma above_is_ceil_absent:
  assumes "wf m" and "get m k = None"
  shows "above k m = ceil k m"
proof (cases "ceil k m")
  case None
  with assms have "above k m = None" by (auto simp: ceil_None above_None intro: less_imp_le)
  with None show ?thesis by simp
next
  case (Some p)
  then obtain a v where p: "p = (a, v)" by (cases p)
  with Some assms have c: "get m a = Some v" "k \<le> a" "\<forall>b \<in> dom (get m). k \<le> b \<longrightarrow> a \<le> b"
    by (simp_all add: ceil_Some)
  with assms have "k \<noteq> a" by auto
  with c have "above k m = Some (a, v)" by (simp add: above_Some assms)
  with Some p show ?thesis by simp
qed

end

section \<open>Correctness of the list model\<close>

lemma bt_wf_Nil [simp]: "bt_wf []"
  by (simp add: bt_wf_def)

lemma bt_wf_Cons: "bt_wf ((k, v) # m) \<longleftrightarrow> bt_wf m \<and> (\<forall>p \<in> set m. k < fst p)"
  by (auto simp: bt_wf_def)

lemma bt_get_Nil [simp]: "bt_get [] = Map.empty"
  by (simp add: bt_get_def fun_eq_iff)

lemma bt_get_Cons: "bt_get ((k', v) # m) k = (if k = k' then Some v else bt_get m k)"
  by (simp add: bt_get_def)

lemma bt_wf_distinct: "bt_wf m \<Longrightarrow> distinct (map fst m)"
  by (simp add: bt_wf_def strict_sorted_iff)

lemma bt_get_iff: "bt_wf m \<Longrightarrow> bt_get m k = Some v \<longleftrightarrow> (k, v) \<in> set m"
  by (simp add: bt_get_def bt_wf_distinct)

lemma dom_bt_get: "dom (bt_get m) = fst ` set m"
  by (simp add: bt_get_def [abs_def] dom_map_of_conv_image_fst)

lemma set_bt_insert: "bt_wf m \<Longrightarrow>
    set (bt_insert k v m) = {p \<in> set m. fst p \<noteq> k} \<union> {(k, v)}"
proof (induction k v m rule: bt_insert.induct)
  case (1 k v)
  then show ?case by simp
next
  case (2 k v k' v' m)
  then have "\<forall>p \<in> set m. k' < fst p" and "bt_wf m" by (auto simp: bt_wf_Cons)
  with "2.IH" show ?case
    by (cases k k' rule: linorder_cases) auto
qed

lemma bt_wf_insert: "bt_wf m \<Longrightarrow> bt_wf (bt_insert k v m)"
proof (induction k v m rule: bt_insert.induct)
  case (1 k v)
  then show ?case by (simp add: bt_wf_Cons)
next
  case (2 k v k' v' m)
  then show ?case
    by (cases k k' rule: linorder_cases) (auto simp: bt_wf_Cons set_bt_insert)
qed

lemma bt_get_insert: "bt_wf m \<Longrightarrow> bt_get (bt_insert k v m) = (bt_get m)(k \<mapsto> v)"
proof (induction k v m rule: bt_insert.induct)
  case (1 k v)
  then show ?case by (auto simp: bt_get_Cons)
next
  case (2 k v k' v' m)
  then show ?case
    by (cases k k' rule: linorder_cases) (auto simp: bt_get_Cons bt_wf_Cons fun_eq_iff)
qed

lemma bt_wf_filter: "bt_wf m \<Longrightarrow> bt_wf (filter P m)"
  by (induction m) (auto simp: bt_wf_Cons split: prod.splits)

lemma bt_wf_remove: "bt_wf m \<Longrightarrow> bt_wf (bt_remove k m)"
  by (simp add: bt_remove_def bt_wf_filter)

lemma bt_get_remove: "bt_get (bt_remove k m) = (bt_get m)(k := None)"
  by (induction m) (auto simp: bt_remove_def bt_get_Cons fun_eq_iff)

lemma find_bt_wf:
  assumes "bt_wf m" and up: "\<And>a b. P a \<Longrightarrow> a < b \<Longrightarrow> P b"
  shows "find (\<lambda>p. P (fst p)) m = Some (a, v) \<longleftrightarrow>
    bt_get m a = Some v \<and> P a \<and> (\<forall>b \<in> dom (bt_get m). P b \<longrightarrow> a \<le> b)"
  using assms(1)
proof (induction m)
  case Nil
  then show ?case by simp
next
  case (Cons p m)
  obtain k w where p: "p = (k, w)" by (cases p)
  with Cons.prems have wf: "bt_wf m" and lt: "\<forall>b \<in> dom (bt_get m). k < b"
    by (auto simp: bt_wf_Cons dom_bt_get)
  have dom: "dom (bt_get (p # m)) = Set.insert k (dom (bt_get m))"
    by (simp add: dom_bt_get p)
  show ?case
  proof (cases "P k")
    case True
    then have "find (\<lambda>p. P (fst p)) (p # m) = Some (a, v) \<longleftrightarrow> k = a \<and> w = v"
      by (simp add: p)
    moreover have "bt_get (p # m) a = Some v \<and> P a \<and> (\<forall>b \<in> dom (bt_get (p # m)). P b \<longrightarrow> a \<le> b)
      \<longleftrightarrow> k = a \<and> w = v"
    proof (cases "a = k")
      case True
      then show ?thesis using \<open>P k\<close> lt dom by (auto simp: p bt_get_Cons intro: less_imp_le)
    next
      case False
      have "\<not> a \<le> k" if "bt_get m a = Some v"
        using lt that by (meson domI not_le)
      then show ?thesis using False \<open>P k\<close> dom by (auto simp: p bt_get_Cons)
    qed
    ultimately show ?thesis by simp
  next
    case False
    have "\<not> P k" by fact
    then have "bt_get (p # m) a = Some v \<and> P a \<longleftrightarrow> bt_get m a = Some v \<and> P a"
      using lt by (auto simp: p bt_get_Cons)
    then show ?thesis using Cons.IH [OF wf] False dom by (auto simp: p)
  qed
qed

lemma find_bt_None: "find (\<lambda>p. P (fst p)) m = None \<longleftrightarrow> (\<forall>b \<in> dom (bt_get m). \<not> P b)"
  by (auto simp: find_None_iff dom_bt_get)

lemma bt_last_Some:
  assumes "bt_wf m"
  shows "bt_last m = Some (a, v) \<longleftrightarrow> bt_get m a = Some v \<and> (\<forall>b \<in> dom (bt_get m). b \<le> a)"
proof (cases m rule: rev_cases)
  case Nil
  then show ?thesis by (simp add: bt_last_def)
next
  case (snoc ys p)
  with assms have lt: "\<forall>q \<in> set ys. fst q < fst p"
    by (auto simp: bt_wf_def sorted_wrt_append)
  obtain k w where p: "p = (k, w)" by (cases p)
  have "bt_last m = Some (a, v) \<longleftrightarrow> k = a \<and> w = v" by (simp add: bt_last_def snoc p)
  also have "\<dots> \<longleftrightarrow> (a, v) \<in> set m \<and> (\<forall>b \<in> fst ` set m. b \<le> a)"
    using lt by (auto simp: snoc p)
  finally show ?thesis using assms by (simp add: bt_get_iff dom_bt_get)
qed

lemma bt_last_None: "bt_last m = None \<longleftrightarrow> m = []"
  by (simp add: bt_last_def split: list.splits)

lemma bt_floor_Some:
  assumes "bt_wf m"
  shows "bt_floor k m = Some (a, v) \<longleftrightarrow>
    bt_get m a = Some v \<and> a \<le> k \<and> (\<forall>b \<in> dom (bt_get m). b \<le> k \<longrightarrow> b \<le> a)"
proof -
  let ?l = "bt_range_le k m"
  have wf: "bt_wf ?l" using assms by (simp add: bt_range_le_def bt_wf_filter)
  have "bt_floor k m = bt_last ?l" by (simp add: bt_floor_def bt_last_def)
  moreover have "bt_get ?l a = Some v \<longleftrightarrow> bt_get m a = Some v \<and> a \<le> k"
    using wf assms by (auto simp: bt_get_iff bt_range_le_def)
  moreover have "dom (bt_get ?l) = {b \<in> dom (bt_get m). b \<le> k}"
    by (auto simp: dom_bt_get bt_range_le_def)
  ultimately show ?thesis using bt_last_Some [OF wf] by auto
qed

lemma bt_floor_None: "bt_floor k m = None \<longleftrightarrow> (\<forall>b \<in> dom (bt_get m). k < b)"
proof -
  have "bt_floor k m = None \<longleftrightarrow> bt_range_le k m = []"
    by (simp add: bt_floor_def split: list.splits)
  also have "\<dots> \<longleftrightarrow> (\<forall>b \<in> dom (bt_get m). k < b)"
    by (auto simp: bt_range_le_def dom_bt_get filter_empty_conv not_le)
  finally show ?thesis .
qed

interpretation bt: ordered_map bt_get bt_insert bt_remove bt_wf bt_floor bt_ceil bt_above
proof (unfold_locales, goal_cases)
  case 1 then show ?case by (rule bt_get_insert)
next
  case 2 then show ?case by (simp add: bt_get_remove)
next
  case 3 then show ?case by (rule bt_wf_insert)
next
  case 4 then show ?case by (rule bt_wf_remove)
next
  case 5 then show ?case by (rule bt_floor_Some)
next
  case 6 then show ?case by (simp add: bt_floor_None)
next
  case (7 m k a v) then show ?case
    unfolding bt_ceil_def by (rule find_bt_wf) auto
next
  case (8 m k) then show ?case
    unfolding bt_ceil_def by (subst find_bt_None) (auto simp: not_le)
next
  case (9 m k a v) then show ?case
    unfolding bt_above_def by (rule find_bt_wf) auto
next
  case (10 m k) then show ?case
    unfolding bt_above_def by (subst find_bt_None) (auto simp: not_less)
qed

lemma bt_from_get: "bt_wf m \<Longrightarrow> map (\<lambda>k. (k, the (bt_get m k))) (map fst m) = m"
  by (auto simp: bt_get_iff intro!: map_idI) (metis bt_get_iff option.sel)

lemma bt_eq_iff_get:
  assumes "bt_wf m" and "bt_wf n"
  shows "m = n \<longleftrightarrow> bt_get m = bt_get n"
proof
  assume eq: "bt_get m = bt_get n"
  then have "fst ` set m = fst ` set n" by (simp flip: dom_bt_get)
  with assms have "map fst m = map fst n"
    using strict_sorted_equal [of "map fst m" "map fst n"] by (simp add: bt_wf_def)
  with eq show "m = n" using bt_from_get assms by metis
qed simp

lemmas bt_simps = bt.get_insert bt_get_remove bt.wf_insert bt.wf_remove

end
