(* ===== verification/Interval_Sets.thy ===== *)
theory Interval_Sets
  imports Main
begin

section \<open>Separated intervals of numbers\<close>

text \<open>
  The gaps of the identifier allocator as a set of half-open intervals of natural numbers. The invariant of the gap manager
  and the effect of its operations are stated on this view, where the arithmetic does not wrap.
\<close>

definition separated :: "(nat \<times> nat) set \<Rightarrow> bool" where
  "separated G \<longleftrightarrow> (\<forall>(a, b) \<in> G. a < b) \<and>
     (\<forall>(a, b) \<in> G. \<forall>(c, d) \<in> G. (a, b) = (c, d) \<or> b < c \<or> d < a)"

definition cover :: "(nat \<times> nat) set \<Rightarrow> nat set" where
  "cover G = (\<Union>(a, b) \<in> G. {a..<b})"

lemma coverI: "(a, b) \<in> G \<Longrightarrow> a \<le> n \<Longrightarrow> n < b \<Longrightarrow> n \<in> cover G"
  by (force simp: cover_def)

lemma coverE:
  assumes "n \<in> cover G"
  obtains a b where "(a, b) \<in> G" "a \<le> n" "n < b"
  using assms by (auto simp: cover_def)

lemma separated_nonempty: "separated G \<Longrightarrow> (a, b) \<in> G \<Longrightarrow> a < b"
  by (auto simp: separated_def)

lemma separated_two:
  "separated G \<Longrightarrow> (a, b) \<in> G \<Longrightarrow> (c, d) \<in> G \<Longrightarrow> (a = c \<and> b = d) \<or> b < c \<or> d < a"
  by (fastforce simp: separated_def)

lemma separated_subset: "separated G \<Longrightarrow> H \<subseteq> G \<Longrightarrow> separated H"
  by (auto simp: separated_def) blast+

text \<open>Removing one number splits the interval that holds it.\<close>

lemma separated_take:
  assumes "separated G" and "(a, b) \<in> G" and "a \<le> n" and "n < b"
  defines "H \<equiv> G - {(a, b)} \<union> {p. p = (a, n) \<and> a < n} \<union> {p. p = (Suc n, b) \<and> Suc n < b}"
  shows "separated H \<and> cover H = cover G - {n}"
proof
  have two: "(c, d) \<in> G \<Longrightarrow> (c = a \<and> d = b) \<or> d < a \<or> b < c" for c d
    using separated_two [OF assms(1,2)] by blast
  show "separated H"
    unfolding separated_def
  proof safe
    fix c d assume "(c, d) \<in> H"
    then show "c < d" using assms(1) by (auto simp: H_def dest: separated_nonempty)
  next
    fix c d e f
    assume "(c, d) \<in> H" "(e, f) \<in> H" and "\<not> f < c" "\<not> d < e"
    then have "(c, d) = (e, f)"
      using two [of c d] two [of e f] separated_two [OF assms(1), of c d e f] assms(3,4)
      unfolding H_def by auto
    then show "c = e" "d = f" by simp_all
  qed
  show "cover H = cover G - {n}"
  proof (intro set_eqI iffI)
    fix m assume "m \<in> cover H"
    then obtain c d where cd: "(c, d) \<in> H" "c \<le> m" "m < d" by (rule coverE)
    then consider "(c, d) \<in> G" "(c, d) \<noteq> (a, b)" | "c = a" "d = n" | "c = Suc n" "d = b"
      unfolding H_def by auto
    then show "m \<in> cover G - {n}"
    proof cases
      case 1
      with two [of c d] cd assms(3,4) show ?thesis by (auto intro: coverI)
    next
      case 2
      with cd assms(2,4) show ?thesis by (auto intro: coverI)
    next
      case 3
      with cd assms(2,3) show ?thesis by (auto intro: coverI)
    qed
  next
    fix m assume "m \<in> cover G - {n}"
    then obtain c d where cd: "(c, d) \<in> G" "c \<le> m" "m < d" "m \<noteq> n" by (auto elim: coverE)
    show "m \<in> cover H"
    proof (cases "(c, d) = (a, b)")
      case True
      with cd show ?thesis
        by (cases "m < n") (auto simp: H_def intro: coverI [of a n] coverI [of "Suc n" b])
    next
      case False
      with cd show ?thesis by (auto simp: H_def intro: coverI)
    qed
  qed
qed

text \<open>Adding one number joins the intervals that touch it.\<close>

lemma separated_join:
  assumes sep: "separated G" and fresh: "n \<notin> cover G"
    and lo: "(lo, n) \<in> G \<or> (lo = n \<and> (\<forall>a. (a, n) \<notin> G))"
    and hi: "(Suc n, hi) \<in> G \<or> (hi = Suc n \<and> (\<forall>b. (Suc n, b) \<notin> G))"
  defines "H \<equiv> G - {(lo, n), (Suc n, hi)} \<union> {(lo, hi)}"
  shows "separated H \<and> cover H = insert n (cover G)"
proof
  have lohi: "lo \<le> n" "n < hi"
    using lo hi sep by (auto dest: separated_nonempty)
  have away: "d < lo \<or> hi < c" if cd: "(c, d) \<in> G" "(c, d) \<noteq> (lo, n)" "(c, d) \<noteq> (Suc n, hi)" for c d
  proof -
    have "d \<le> n \<or> n < c" using fresh coverI [OF cd(1), of n] by linarith
    moreover have "c < d" using sep cd(1) by (rule separated_nonempty)
    moreover have "d < lo" if "d \<le> n" using lo
    proof
      assume "(lo, n) \<in> G"
      with separated_two [OF sep cd(1)] cd(2) that \<open>c < d\<close> lohi show ?thesis by fastforce
    next
      assume "lo = n \<and> (\<forall>a. (a, n) \<notin> G)"
      with cd(1) that show ?thesis by (cases "d = n") auto
    qed
    moreover have "hi < c" if "n < c" using hi
    proof
      assume "(Suc n, hi) \<in> G"
      with separated_two [OF sep cd(1)] cd(3) that \<open>c < d\<close> lohi show ?thesis by fastforce
    next
      assume "hi = Suc n \<and> (\<forall>b. (Suc n, b) \<notin> G)"
      with cd(1) that show ?thesis by (cases "c = Suc n") auto
    qed
    ultimately show ?thesis by blast
  qed
  show "separated H"
    unfolding separated_def
  proof safe
    fix c d assume "(c, d) \<in> H"
    then show "c < d" using sep lohi by (auto simp: H_def dest: separated_nonempty)
  next
    fix c d e f
    assume H: "(c, d) \<in> H" "(e, f) \<in> H" and "\<not> f < c" "\<not> d < e"
    then have "(c, d) = (e, f)"
      using away [of c d] away [of e f] separated_two [OF sep, of c d e f]
      unfolding H_def by auto
    then show "c = e" "d = f" by simp_all
  qed
  show "cover H = insert n (cover G)"
  proof (intro set_eqI iffI)
    fix m assume "m \<in> cover H"
    then obtain c d where cd: "(c, d) \<in> H" "c \<le> m" "m < d" by (rule coverE)
    show "m \<in> insert n (cover G)"
    proof (cases "(c, d) \<in> G")
      case True
      with cd show ?thesis by (auto intro: coverI)
    next
      case False
      with cd have "lo \<le> m" "m < hi" by (auto simp: H_def)
      with lo hi show ?thesis
        by (cases m n rule: linorder_cases) (auto intro: coverI)
    qed
  next
    fix m assume "m \<in> insert n (cover G)"
    then consider "m = n" | c d where "(c, d) \<in> G" "c \<le> m" "m < d" by (auto elim: coverE)
    then show "m \<in> cover H"
    proof cases
      case 1
      with lohi show ?thesis by (auto simp: H_def intro: coverI [of lo hi])
    next
      case 2
      show ?thesis
      proof (cases "(c, d) \<in> {(lo, n), (Suc n, hi)}")
        case True
        with 2 lohi have "lo \<le> m" "m < hi" by auto
        then show ?thesis by (rule coverI [rotated]) (simp add: H_def)
      next
        case False
        with 2 have "(c, d) \<in> H" by (simp add: H_def)
        then show ?thesis using 2 by (blast intro: coverI)
      qed
    qed
  qed
qed

text \<open>The intervals are determined by the numbers they cover.\<close>

lemma separated_maximal:
  assumes sep: "separated G"
  shows "(a, b) \<in> G \<longleftrightarrow>
    a < b \<and> {a..<b} \<subseteq> cover G \<and> b \<notin> cover G \<and> (a = 0 \<or> a - 1 \<notin> cover G)"
proof (intro iffI conjI)
  assume ab: "(a, b) \<in> G"
  show lt: "a < b" using sep ab by (rule separated_nonempty)
  show "{a..<b} \<subseteq> cover G" using ab by (auto intro: coverI)
  show "b \<notin> cover G"
    using separated_two [OF sep ab] lt by (fastforce elim!: coverE)
  show "a = 0 \<or> a - 1 \<notin> cover G"
    using separated_two [OF sep ab] lt by (fastforce elim!: coverE)
next
  assume R: "a < b \<and> {a..<b} \<subseteq> cover G \<and> b \<notin> cover G \<and> (a = 0 \<or> a - 1 \<notin> cover G)"
  then have "a \<in> cover G" by auto
  then obtain c d where cd: "(c, d) \<in> G" "c \<le> a" "a < d" by (rule coverE)
  have "c = a"
  proof (rule ccontr)
    assume "c \<noteq> a"
    with cd have "a - 1 \<in> cover G" by (auto intro: coverI)
    with R \<open>c \<noteq> a\<close> cd(2) show False by auto
  qed
  moreover have "d = b"
  proof (rule linorder_cases [of d b])
    assume "d < b"
    with R cd(3) have "d \<in> cover G" by auto
    then obtain e f where "(e, f) \<in> G" "e \<le> d" "d < f" by (rule coverE)
    with separated_two [OF sep cd(1), of e f] cd show ?thesis by auto
  next
    assume "b < d"
    with R cd have "b \<in> cover G" by (auto intro: coverI)
    with R show ?thesis by simp
  qed
  ultimately show "(a, b) \<in> G" using cd(1) by simp
qed

lemma separated_canonical:
  assumes "separated G" and "separated H" and "cover G = cover H"
  shows "G = H"
  using separated_maximal [OF assms(1)] separated_maximal [OF assms(2)] assms(3) by auto

end
