(* ===== verification/Gap_Mgr.thy ===== *)
theory Gap_Mgr
  imports Ranges BTree_Map Interval_Sets
begin

text \<open>
  The identifier allocator \<^verbatim>\<open>GapMgr\<close> of \<^verbatim>\<open>qlib/kernel/kernel/fd_table.rs\<close>: an ordered map from
  the last identifier of each free gap to the length of the gap. \<open>gap_inv\<close> is its invariant
  (gaps are non-empty, lie in the managed range and are separated by at least one taken
  identifier) and \<open>free_ids\<close> the set of free identifiers it represents.

  The locale \<open>id_allocator\<close> is the contract the descriptor table relies on: allocation returns
  the least free identifier at or above a bound, taking and freeing change the free set by that
  identifier, and equal free sets mean equal states. It is interpreted on the gap manager.
\<close>

section \<open>Operations\<close>

record gapmgr =
  gm_range :: range
  gm_map :: "(u64, u64) btree"

definition GapMgr_New :: "u64 \<Rightarrow> u64 \<Rightarrow> gapmgr" where
  "GapMgr_New start len =
    (let r = Range_New start len
     in \<lparr>gm_range = r, gm_map = bt_insert (Range_End r - 1) len []\<rparr>)"

definition GapMgr_LastGap :: "gapmgr \<Rightarrow> range option" where
  "GapMgr_LastGap g =
    (case bt_last (gm_map g) of
       None \<Rightarrow> None
     | Some (end, len) \<Rightarrow> Some (Range_New (end - len + 1) len))"

definition GapMgr_Fork :: "gapmgr \<Rightarrow> gapmgr" where
  "GapMgr_Fork g =
    \<lparr>gm_range = Range_New (r_start (gm_range g)) (r_len (gm_range g)),
     gm_map = fold (\<lambda>(end, len) m. bt_insert end len m) (gm_map g) []\<rparr>"

definition GapMgr_Take :: "u64 \<Rightarrow> gapmgr \<Rightarrow> gapmgr result" where
  "GapMgr_Take i g =
    (case bt_ceil i (gm_map g) of
       None \<Rightarrow> Ok g
     | Some (gEnd, gLen) \<Rightarrow>
        (let gR = \<lparr>r_start = gEnd - (gLen - 1), r_len = gLen\<rparr>
         in if \<not> Range_Contains gR i then Err Panic
            else if r_len gR = 1 then Ok (g\<lparr>gm_map := bt_remove gEnd (gm_map g)\<rparr>)
            else
              let ins = (if r_start gR < i
                         then Some (Range_New (r_start gR) (i - r_start gR)) else None);
                  m = (if Range_End gR - 1 = i then bt_remove gEnd (gm_map g)
                       else bt_insert gEnd (gEnd - i) (gm_map g));
                  m = (case ins of None \<Rightarrow> m
                       | Some r \<Rightarrow> bt_insert (Range_End r - 1) (r_len r) m)
              in Ok (g\<lparr>gm_map := m\<rparr>)))"

definition GapMgr_AllocAfter :: "u64 \<Rightarrow> gapmgr \<Rightarrow> (u64 option \<times> gapmgr) result" where
  "GapMgr_AllocAfter i g =
    (case bt_ceil i (gm_map g) of
       None \<Rightarrow> Ok (None, g)
     | Some (gEnd, gLen) \<Rightarrow>
        (let r = Range_New (gEnd - (gLen - 1)) gLen
         in if r_start r < i then and_then (GapMgr_Take i g) (\<lambda>g. Ok (Some i, g))
            else
              let m = (if r_len r > 1
                       then bt_insert (Range_End r - 1) (r_len r - 1) (gm_map g)
                       else bt_remove (Range_End r - 1) (gm_map g))
              in Ok (Some (r_start r), g\<lparr>gm_map := m\<rparr>)))"

definition GapMgr_Alloc :: "gapmgr \<Rightarrow> (u64 option \<times> gapmgr) result" where
  "GapMgr_Alloc g = GapMgr_AllocAfter (r_start (gm_range g)) g"

definition GapMgr_Free :: "u64 \<Rightarrow> gapmgr \<Rightarrow> gapmgr" where
  "GapMgr_Free i g =
    (let leftRange =
           (if i = 0 then None
            else case bt_get (gm_map g) (i - 1) of
                   None \<Rightarrow> None
                 | Some len \<Rightarrow> Some (Range_New (i - 1 - (len - 1)) len));
         rightRange =
           (case bt_above i (gm_map g) of
              None \<Rightarrow> None
            | Some (gEnd, gLen) \<Rightarrow>
               (let r = Range_New (gEnd - (gLen - 1)) gLen
                in if r_start r = i + 1 then Some r else None));
         m = (case leftRange of
                None \<Rightarrow>
                 (case rightRange of
                    None \<Rightarrow> bt_insert i 1 (gm_map g)
                  | Some r \<Rightarrow> bt_insert (Range_End r - 1) (r_len r + 1) (gm_map g))
              | Some l \<Rightarrow>
                 (let m = bt_remove (Range_End l - 1) (gm_map g)
                  in case rightRange of
                       None \<Rightarrow> bt_insert (Range_End l) (r_len l + 1) m
                     | Some r \<Rightarrow> bt_insert (Range_End r - 1) (r_len r + r_len l + 1) m))
     in g\<lparr>gm_map := m\<rparr>)"

section \<open>The contract of an identifier allocator\<close>

locale id_allocator =
  fixes alloc_after :: "u64 \<Rightarrow> 'g \<Rightarrow> (u64 option \<times> 'g) result"
    and take_id :: "u64 \<Rightarrow> 'g \<Rightarrow> 'g result"
    and free_id :: "u64 \<Rightarrow> 'g \<Rightarrow> 'g"
    and invar :: "'g \<Rightarrow> bool"
    and span :: "'g \<Rightarrow> range"
    and avail :: "'g \<Rightarrow> u64 set"
  assumes alloc_None: "invar g \<Longrightarrow> (\<forall>j \<in> avail g. j < i) \<Longrightarrow> alloc_after i g = Ok (None, g)"
    and alloc_least: "invar g \<Longrightarrow> j \<in> avail g \<Longrightarrow> i \<le> j \<Longrightarrow>
      (\<forall>k \<in> avail g. i \<le> k \<longrightarrow> j \<le> k) \<Longrightarrow>
      \<exists>g'. alloc_after i g = Ok (Some j, g') \<and> invar g' \<and> span g' = span g \<and>
        avail g' = avail g - {j}"
    and take_free: "invar g \<Longrightarrow> i \<in> avail g \<Longrightarrow>
      \<exists>g'. take_id i g = Ok g' \<and> invar g' \<and> span g' = span g \<and> avail g' = avail g - {i}"
    and free_taken: "invar g \<Longrightarrow> i \<in> addrs (span g) \<Longrightarrow> i \<notin> avail g \<Longrightarrow>
      invar (free_id i g) \<and> span (free_id i g) = span g \<and> avail (free_id i g) = insert i (avail g)"
    and avail_ids: "invar g \<Longrightarrow> avail g \<subseteq> addrs (span g)"
    and canonical: "invar g \<Longrightarrow> invar g' \<Longrightarrow> span g = span g' \<Longrightarrow> avail g = avail g' \<Longrightarrow> g = g'"
begin

lemma alloc_cases:
  assumes inv: "invar g"
  obtains (None) "alloc_after i g = Ok (None, g)" "\<forall>j \<in> avail g. j < i"
  | (Some) j g' where "alloc_after i g = Ok (Some j, g')" "j \<in> avail g" "i \<le> j"
      "\<forall>k \<in> avail g. i \<le> k \<longrightarrow> j \<le> k" "invar g'" "span g' = span g" "avail g' = avail g - {j}"
proof (cases "{k \<in> avail g. i \<le> k} = {}")
  case True
  then have "\<forall>j \<in> avail g. j < i" by (auto simp: not_le)
  with inv show thesis by (intro None alloc_None)
next
  case False
  let ?S = "{k \<in> avail g. i \<le> k}"
  have fin: "finite ?S" by (rule finite)
  then have "Min ?S \<in> ?S" using False by (rule Min_in)
  moreover have "\<forall>k \<in> avail g. i \<le> k \<longrightarrow> Min ?S \<le> k" using fin by simp
  ultimately show thesis using alloc_least [OF inv, of "Min ?S" i] that(2) by auto
qed

lemma free_undoes_alloc:
  assumes "invar g" and "alloc_after i g = Ok (Some j, g')"
  shows "free_id j g' = g"
  using assms(1)
proof (cases rule: alloc_cases [of g i])
  case None
  with assms(2) show ?thesis by simp
next
  case (Some j' h)
  with assms(2) have h: "invar g'" "span g' = span g" "avail g' = avail g - {j}" "j \<in> avail g"
    by auto
  with avail_ids [OF assms(1)] have "j \<in> addrs (span g')" by auto
  with h free_taken [of g' j] have "invar (free_id j g')" "span (free_id j g') = span g"
    "avail (free_id j g') = avail g"
    by (auto simp: insert_absorb)
  then show ?thesis using canonical assms(1) by blast
qed

lemma take_undoes_free:
  assumes "invar g" and "i \<in> addrs (span g)" and "i \<notin> avail g"
  shows "take_id i (free_id i g) = Ok g"
proof -
  note f = free_taken [OF assms]
  then obtain g' where "take_id i (free_id i g) = Ok g'" "invar g'" "span g' = span g"
    "avail g' = avail g"
    using take_free [of "free_id i g" i] assms(3) by auto
  then show ?thesis using canonical assms(1) by metis
qed

end

section \<open>The gap manager keeps separated gaps\<close>

definition gap_of :: "u64 \<Rightarrow> u64 \<Rightarrow> nat \<times> nat" where
  "gap_of e l = (Suc (unat e) - unat l, Suc (unat e))"

definition gaps :: "(u64, u64) btree \<Rightarrow> (nat \<times> nat) set" where
  "gaps m = {gap_of e l | e l. bt_get m e = Some l}"

definition gap_inv :: "gapmgr \<Rightarrow> bool" where
  "gap_inv g \<longleftrightarrow> bt_wf (gm_map g) \<and> range_ok (gm_range g) \<and>
     (\<forall>e l. bt_get (gm_map g) e = Some l \<longrightarrow> unat l \<le> Suc (unat e)) \<and>
     separated (gaps (gm_map g)) \<and> cover (gaps (gm_map g)) \<subseteq> unat ` addrs (gm_range g)"

definition free_ids :: "gapmgr \<Rightarrow> u64 set" where
  "free_ids g = {i. unat i \<in> cover (gaps (gm_map g))}"

lemma gaps_remove: "gaps (bt_remove e m) = {p \<in> gaps m. snd p \<noteq> Suc (unat e)}"
  by (auto simp: gaps_def gap_of_def bt_get_remove word_eq_unat split: if_splits)

lemma gaps_insert:
  "bt_wf m \<Longrightarrow> gaps (bt_insert e l m) = {p \<in> gaps m. snd p \<noteq> Suc (unat e)} \<union> {gap_of e l}"
  by (auto simp: gaps_def gap_of_def bt_get_insert word_eq_unat split: if_splits)

lemma gapsI: "bt_get m e = Some l \<Longrightarrow> gap_of e l \<in> gaps m"
  by (auto simp: gaps_def)

lemma gaps_end:
  assumes sep: "separated (gaps m)" and ab: "(a, b) \<in> gaps m"
  shows "{p \<in> gaps m. snd p \<noteq> b} = gaps m - {(a, b)}"
proof (intro set_eqI iffI)
  fix p assume p: "p \<in> gaps m - {(a, b)}"
  obtain c d where cd: "p = (c, d)" by (cases p)
  from p cd have "(c, d) \<in> gaps m" "(c, d) \<noteq> (a, b)" by auto
  with separated_two [OF sep ab, of c d] separated_nonempty [OF sep] ab have "d \<noteq> b"
    by fastforce
  with p cd show "p \<in> {p \<in> gaps m. snd p \<noteq> b}" by simp
qed auto

lemma unat_gap_start:
  assumes "0 < unat l" and "unat l \<le> Suc (unat e)"
  shows "unat (e - (l - 1)) = Suc (unat e) - unat l"
proof -
  have "l \<noteq> 0" using assms(1) by auto
  then have "unat (l - 1) = unat l - 1" by (simp add: unat_minus_one)
  then show ?thesis using assms by (subst unat_sub_le) (auto simp: unat_order)
qed

text \<open>The entry that holds a free identifier is the one the range query returns.\<close>

lemma ceil_free:
  assumes inv: "gap_inv g" and free: "i \<in> free_ids g"
  obtains e l where "bt_ceil i (gm_map g) = Some (e, l)" "bt_get (gm_map g) e = Some l"
    "gap_of e l \<in> gaps (gm_map g)" "0 < unat l" "unat l \<le> Suc (unat e)"
    "Suc (unat e) - unat l \<le> unat i" "unat i \<le> unat e"
proof -
  from free obtain a b where ab: "(a, b) \<in> gaps (gm_map g)" "a \<le> unat i" "unat i < b"
    by (auto simp: free_ids_def elim: coverE)
  then obtain e l where el: "bt_get (gm_map g) e = Some l" "(a, b) = gap_of e l"
    by (auto simp: gaps_def)
  have sep: "separated (gaps (gm_map g))" and wf: "bt_wf (gm_map g)"
    using inv by (auto simp: gap_inv_def)
  have "e \<le> k" if "bt_get (gm_map g) k = Some l'" "i \<le> k" for k l'
  proof -
    have "(Suc (unat k) - unat l', Suc (unat k)) \<in> gaps (gm_map g)"
      using that(1) by (auto simp: gaps_def gap_of_def)
    from separated_two [OF sep ab(1) this] separated_nonempty [OF sep this] ab el(2) that(2)
    show ?thesis by (auto simp: gap_of_def unat_order)
  qed
  then have "bt_ceil i (gm_map g) = Some (e, l)"
    using wf el ab by (auto simp: bt.ceil_Some gap_of_def unat_order)
  moreover have "0 < unat l"
    using separated_nonempty [OF sep ab(1)] el(2) by (auto simp: gap_of_def)
  moreover have "unat l \<le> Suc (unat e)" using inv el(1) by (auto simp: gap_inv_def)
  ultimately show thesis using that el ab by (auto simp: gap_of_def gapsI)
qed

lemma gap_invI:
  assumes "gap_inv g" and "bt_wf m"
    and "\<And>e l. bt_get m e = Some l \<Longrightarrow> unat l \<le> Suc (unat e)"
    and "separated (gaps m)" and "cover (gaps m) = unat ` S" and "S \<subseteq> addrs (gm_range g)"
  shows "gap_inv (g\<lparr>gm_map := m\<rparr>) \<and> free_ids (g\<lparr>gm_map := m\<rparr>) = S"
  using assms by (auto simp: gap_inv_def free_ids_def simp flip: word_eq_unat)

lemma cover_free_ids:
  assumes "gap_inv g"
  shows "cover (gaps (gm_map g)) = unat ` free_ids g" and "free_ids g \<subseteq> addrs (gm_range g)"
proof -
  have sub: "cover (gaps (gm_map g)) \<subseteq> unat ` addrs (gm_range g)"
    using assms by (simp add: gap_inv_def)
  then show "cover (gaps (gm_map g)) = unat ` free_ids g"
    by (auto simp: free_ids_def)
  show "free_ids g \<subseteq> addrs (gm_range g)"
    using sub by (auto simp: free_ids_def simp flip: word_eq_unat)
qed

lemma take_result:
  assumes inv: "gap_inv g" and free: "i \<in> free_ids g"
    and el: "bt_get (gm_map g) e = Some l" "Suc (unat e) - unat l \<le> unat i" "unat i \<le> unat e"
    and wf: "bt_wf m" and len: "\<And>e l. bt_get m e = Some l \<Longrightarrow> unat l \<le> Suc (unat e)"
    and gm: "gaps m = gaps (gm_map g) - {gap_of e l}
      \<union> {p. p = (Suc (unat e) - unat l, unat i) \<and> Suc (unat e) - unat l < unat i}
      \<union> {p. p = (Suc (unat i), Suc (unat e)) \<and> Suc (unat i) < Suc (unat e)}"
  shows "gap_inv (g\<lparr>gm_map := m\<rparr>) \<and> free_ids (g\<lparr>gm_map := m\<rparr>) = free_ids g - {i}"
proof (rule gap_invI [OF inv wf])
  have sep: "separated (gaps (gm_map g))" using inv by (simp add: gap_inv_def)
  have "(Suc (unat e) - unat l, Suc (unat e)) \<in> gaps (gm_map g)"
    using gapsI [OF el(1)] by (simp add: gap_of_def)
  from separated_take [OF sep this, of "unat i"] el(2,3) gm
  have "separated (gaps m) \<and> cover (gaps m) = cover (gaps (gm_map g)) - {unat i}"
    by (simp add: gap_of_def)
  then show "separated (gaps m)" and "cover (gaps m) = unat ` (free_ids g - {i})"
    using cover_free_ids [OF inv] by (auto simp flip: word_eq_unat)
  show "free_ids g - {i} \<subseteq> addrs (gm_range g)" using cover_free_ids [OF inv] by auto
qed (rule len)

text \<open>Arithmetic of one gap.\<close>

lemma gap_entry:
  assumes inv: "gap_inv g" and el: "bt_get (gm_map g) e = Some l"
  defines "s \<equiv> e - (l - 1)"
  shows "0 < unat l" and "unat l \<le> Suc (unat e)" and "unat e < 18446744073709551615"
    and "unat s = Suc (unat e) - unat l" and "range_ok (Range_New s l)"
    and "unat (Range_End (Range_New s l)) = Suc (unat e)" and "Range_End (Range_New s l) - 1 = e"
proof -
  have sep: "separated (gaps (gm_map g))" using inv by (simp add: gap_inv_def)
  note gap = gapsI [OF el, unfolded gap_of_def]
  show l: "0 < unat l" using separated_nonempty [OF sep gap] by auto
  show le: "unat l \<le> Suc (unat e)" using inv el by (auto simp: gap_inv_def)
  have "unat e \<in> cover (gaps (gm_map g))" using l by (intro coverI [OF gap]) auto
  then have "e \<in> addrs (gm_range g)"
    using inv by (auto simp: gap_inv_def simp flip: word_eq_unat)
  then have "unat e < unat (Range_End (gm_range g))"
    by (simp add: addrs_def unat_order)
  then show max: "unat e < 18446744073709551615"
    using unat_u64_less [of "Range_End (gm_range g)"] by linarith
  show s: "unat s = Suc (unat e) - unat l" using l le unat_gap_start by (simp add: s_def)
  then show ok: "range_ok (Range_New s l)" using l le max by (simp add: range_ok_def)
  then show e: "unat (Range_End (Range_New s l)) = Suc (unat e)" using s le by (simp add: unat_End)
  then have "Range_End (Range_New s l) \<noteq> 0" by auto
  then show "Range_End (Range_New s l) - 1 = e"
    using e by (simp add: word_eq_unat unat_minus_one)
qed

lemma gaps_others:
  assumes "separated (gaps m)" and "bt_get m e = Some l"
  shows "{p \<in> gaps m. snd p \<noteq> Suc (unat e)} = gaps m - {gap_of e l}"
  using gaps_end [OF assms(1) gapsI [OF assms(2), unfolded gap_of_def]] by (simp add: gap_of_def)

lemma gaps_inside:
  assumes sep: "separated (gaps m)" and el: "bt_get m e = Some l"
    and n: "Suc (unat e) - unat l \<le> n" "n \<le> unat e"
    and p: "p \<in> gaps m" "p \<noteq> gap_of e l"
  shows "snd p \<noteq> n"
proof -
  obtain c d where cd: "p = (c, d)" by (cases p)
  note gap = gapsI [OF el, unfolded gap_of_def]
  from p cd have "(c, d) \<in> gaps m" by simp
  from separated_two [OF sep gap this] separated_nonempty [OF sep this] p(2) n cd
  show ?thesis by (auto simp: gap_of_def)
qed

lemma GapMgr_Take_free:
  assumes inv: "gap_inv g" and free: "i \<in> free_ids g"
  shows "\<exists>g'. GapMgr_Take i g = Ok g' \<and> gap_inv g' \<and> gm_range g' = gm_range g \<and>
    free_ids g' = free_ids g - {i}"
proof -
  let ?m = "gm_map g"
  from inv have wf: "bt_wf ?m" and sep: "separated (gaps ?m)"
    and len: "\<And>e l. bt_get ?m e = Some l \<Longrightarrow> unat l \<le> Suc (unat e)"
    by (auto simp: gap_inv_def)
  from ceil_free [OF inv free] obtain e l where ceil: "bt_ceil i ?m = Some (e, l)"
    and el: "bt_get ?m e = Some l" and i: "Suc (unat e) - unat l \<le> unat i" "unat i \<le> unat e"
    by blast
  define s where "s = e - (l - 1)"
  note entry = gap_entry [OF inv el, folded s_def]
  have gR: "\<lparr>r_start = e - (l - 1), r_len = l\<rparr> = Range_New s l"
    by (simp add: Range_New_def s_def)
  have contains: "Range_Contains (Range_New s l) i"
    using entry i by (simp add: Contains_iff addrs_def unat_order)
  define m1 where "m1 = (if e = i then bt_remove e ?m else bt_insert e (e - i) ?m)"
  define m2 where "m2 = (if s < i then bt_insert (i - 1) (i - s) m1 else m1)"
  have "s \<le> i" using i entry by (simp add: unat_order)
  have take: "GapMgr_Take i g = Ok (g\<lparr>gm_map := if l = 1 then bt_remove e ?m else m2\<rparr>)"
    using contains entry \<open>s \<le> i\<close>
    by (simp add: GapMgr_Take_def ceil gR Let_def m1_def m2_def split: if_splits)
  have wf1: "bt_wf m1" using wf by (simp add: m1_def bt.wf_insert bt.wf_remove)
  have unat_ei: "unat (e - i) = unat e - unat i" using i by (simp add: unat_sub_le unat_order)
  have unat_is: "unat (i - s) = unat i - unat s" using \<open>s \<le> i\<close> by (simp add: unat_sub_le)
  have pred: "Suc (unat (i - 1)) = unat i" if "s < i"
    using that by (subst unat_minus_one) (auto simp: unat_order)
  have g1: "gaps m1 = gaps ?m - {gap_of e l}
      \<union> {p. p = (Suc (unat i), Suc (unat e)) \<and> Suc (unat i) < Suc (unat e)}"
  proof (cases "e = i")
    case True
    then show ?thesis using gaps_others [OF sep el] by (simp add: m1_def gaps_remove)
  next
    case False
    then have "unat i \<noteq> unat e" by (simp flip: word_eq_unat)
    with i have "unat i < unat e" by simp
    moreover from this have "gap_of e (e - i) = (Suc (unat i), Suc (unat e))"
      by (simp add: gap_of_def unat_ei)
    ultimately show ?thesis
      using False gaps_others [OF sep el] by (simp add: m1_def gaps_insert wf)
  qed
  have res: "gap_inv (g\<lparr>gm_map := if l = 1 then bt_remove e ?m else m2\<rparr>) \<and>
    free_ids (g\<lparr>gm_map := if l = 1 then bt_remove e ?m else m2\<rparr>) = free_ids g - {i}"
  proof (rule take_result [OF inv free el i])
    show "bt_wf (if l = 1 then bt_remove e ?m else m2)"
      using wf wf1 by (simp add: m2_def bt.wf_insert bt.wf_remove)
  next
    fix e' l' assume "bt_get (if l = 1 then bt_remove e ?m else m2) e' = Some l'"
    then show "unat l' \<le> Suc (unat e')"
      using len pred wf wf1
      by (auto simp: m1_def m2_def bt_get_remove bt_get_insert unat_ei unat_is split: if_splits)
  next
    have "gaps m2 = gaps ?m - {gap_of e l}
      \<union> {p. p = (Suc (unat e) - unat l, unat i) \<and> Suc (unat e) - unat l < unat i}
      \<union> {p. p = (Suc (unat i), Suc (unat e)) \<and> Suc (unat i) < Suc (unat e)}"
    proof (cases "s < i")
      case True
      have "gaps m2 = {p \<in> gaps m1. snd p \<noteq> unat i} \<union> {(unat s, unat i)}"
        using True wf1 pred by (simp add: m2_def gaps_insert gap_of_def unat_is) (simp add: unat_order)
      also have "{p \<in> gaps m1. snd p \<noteq> unat i} = gaps m1"
      proof -
        have "snd p \<noteq> unat i" if "p \<in> gaps m1" for p
          using that i gaps_inside [OF sep el i, of p] by (auto simp: g1)
        then show ?thesis by blast
      qed
      finally show ?thesis using True entry by (auto simp: g1 unat_order)
    next
      case False
      with entry show ?thesis by (auto simp: m2_def g1 unat_order)
    qed
    moreover have "gaps (bt_remove e ?m) = gaps ?m - {gap_of e l}"
      using gaps_others [OF sep el] by (simp add: gaps_remove)
    ultimately show "gaps (if l = 1 then bt_remove e ?m else m2) = gaps ?m - {gap_of e l}
      \<union> {p. p = (Suc (unat e) - unat l, unat i) \<and> Suc (unat e) - unat l < unat i}
      \<union> {p. p = (Suc (unat i), Suc (unat e)) \<and> Suc (unat i) < Suc (unat e)}"
      using i by (cases "l = 1") simp_all
  qed
  with take show ?thesis by simp
qed

lemma key_is_free:
  assumes inv: "gap_inv g" and el: "bt_get (gm_map g) e = Some l"
  shows "e \<in> free_ids g"
proof -
  have "unat e \<in> cover (gaps (gm_map g))"
    using gap_entry(1) [OF inv el] by (intro coverI [OF gapsI [OF el, unfolded gap_of_def]]) auto
  then show ?thesis by (simp add: free_ids_def)
qed

lemma GapMgr_AllocAfter_None:
  assumes "gap_inv g" and "\<forall>j \<in> free_ids g. j < i"
  shows "GapMgr_AllocAfter i g = Ok (None, g)"
proof -
  have "bt_ceil i (gm_map g) = None"
    using assms key_is_free [OF assms(1)] by (auto simp: bt.ceil_None gap_inv_def)
  then show ?thesis by (simp add: GapMgr_AllocAfter_def)
qed

lemma alloc_ceil:
  assumes inv: "gap_inv g" and j: "j \<in> free_ids g" "i \<le> j" "\<forall>k \<in> free_ids g. i \<le> k \<longrightarrow> j \<le> k"
  shows "bt_ceil i (gm_map g) = bt_ceil j (gm_map g)"
proof -
  have wf: "bt_wf (gm_map g)" using inv by (simp add: gap_inv_def)
  from ceil_free [OF inv j(1)] obtain e l where c: "bt_ceil j (gm_map g) = Some (e, l)" by blast
  have "bt_get (gm_map g) e = Some l \<and> j \<le> e \<and> (\<forall>b \<in> dom (bt_get (gm_map g)). j \<le> b \<longrightarrow> e \<le> b)"
    using c wf by (simp add: bt.ceil_Some)
  moreover have "j \<le> b" if "b \<in> dom (bt_get (gm_map g))" "i \<le> b" for b
    using that j(3) key_is_free [OF inv] by blast
  ultimately have "bt_ceil i (gm_map g) = Some (e, l)"
    using wf j(2) by (auto simp: bt.ceil_Some intro: order_trans)
  with c show ?thesis by simp
qed

lemma GapMgr_AllocAfter_least:
  assumes inv: "gap_inv g" and j: "j \<in> free_ids g" "i \<le> j" "\<forall>k \<in> free_ids g. i \<le> k \<longrightarrow> j \<le> k"
  shows "\<exists>g'. GapMgr_AllocAfter i g = Ok (Some j, g') \<and> gap_inv g' \<and> gm_range g' = gm_range g \<and>
    free_ids g' = free_ids g - {j}"
proof -
  let ?m = "gm_map g"
  from ceil_free [OF inv j(1)] obtain e l where c: "bt_ceil j ?m = Some (e, l)"
    and el: "bt_get ?m e = Some l" and je: "Suc (unat e) - unat l \<le> unat j" "unat j \<le> unat e"
    by blast
  define s where "s = e - (l - 1)"
  note entry = gap_entry [OF inv el, folded s_def]
  from c have ci: "bt_ceil i ?m = Some (e, l)" by (simp add: alloc_ceil [OF inv j])
  have inside: "k \<in> free_ids g" if "s \<le> k" "k \<le> j" for k
    using that entry je coverI [OF gapsI [OF el, unfolded gap_of_def], of "unat k"]
    by (simp add: free_ids_def unat_order)
  have "s \<le> j" using je entry by (simp add: unat_order)
  show ?thesis
  proof (cases "s < i")
    case True
    with inside [of i] j have "j = i" by (auto intro: antisym)
    with GapMgr_Take_free [OF inv j(1)] True ci show ?thesis
      by (auto simp: GapMgr_AllocAfter_def s_def)
  next
    case False
    with inside [of s] \<open>s \<le> j\<close> j(3) have js: "j = s" by (auto intro: antisym)
    define m where "m = (if 1 < l then bt_insert e (l - 1) ?m else bt_remove e ?m)"
    have "GapMgr_AllocAfter i g = Ok (Some j, g\<lparr>gm_map := m\<rparr>)"
      using False js entry ci by (simp add: GapMgr_AllocAfter_def m_def flip: s_def)
    moreover have "gap_inv (g\<lparr>gm_map := m\<rparr>) \<and> free_ids (g\<lparr>gm_map := m\<rparr>) = free_ids g - {j}"
    proof (rule take_result [OF inv j(1) el je])
      have wf: "bt_wf ?m" and sep: "separated (gaps ?m)"
        and len: "\<And>e l. bt_get ?m e = Some l \<Longrightarrow> unat l \<le> Suc (unat e)"
        using inv by (auto simp: gap_inv_def)
      show "bt_wf m" using wf by (simp add: m_def bt.wf_insert bt.wf_remove)
      have l1: "unat (l - 1) = unat l - 1"
        using entry(1) by (subst unat_minus_one) auto
      show "unat l' \<le> Suc (unat e')" if "bt_get m e' = Some l'" for e' l'
        using that len [of e' l'] entry(2) l1 wf
        by (auto simp: m_def bt_get_remove bt_get_insert split: if_splits)
      have j_eq: "unat j = Suc (unat e) - unat l" using js entry by simp
      have "gaps m = gaps ?m - {gap_of e l}
        \<union> {p. p = (Suc (unat j), Suc (unat e)) \<and> Suc (unat j) < Suc (unat e)}"
      proof (cases "1 < unat l")
        case True
        then have "gap_of e (l - 1) = (Suc (unat j), Suc (unat e))"
          using entry(2) by (simp add: gap_of_def l1 j_eq)
        moreover have "Suc (unat j) < Suc (unat e)" using True entry(2) j_eq by simp
        moreover have "m = bt_insert e (l - 1) ?m" using True by (simp add: m_def unat_order)
        ultimately show ?thesis using gaps_others [OF sep el] by (simp add: gaps_insert wf)
      next
        case False
        then have "m = bt_remove e ?m" by (simp add: m_def unat_order)
        moreover have "\<not> Suc (unat j) < Suc (unat e)" using False entry(1,2) j_eq by simp
        ultimately show ?thesis using gaps_others [OF sep el] by (simp add: gaps_remove)
      qed
      then show "gaps m = gaps ?m - {gap_of e l}
        \<union> {p. p = (Suc (unat e) - unat l, unat j) \<and> Suc (unat e) - unat l < unat j}
        \<union> {p. p = (Suc (unat j), Suc (unat e)) \<and> Suc (unat j) < Suc (unat e)}"
        by (simp add: j_eq)
    qed
    ultimately show ?thesis by simp
  qed
qed

lemma free_insert:
  assumes inv: "gap_inv g" and i: "i \<notin> free_ids g" "i \<in> addrs (gm_range g)"
    and lo: "(lo, unat i) \<in> gaps (gm_map g) \<or>
      (lo = unat i \<and> (\<forall>a. (a, unat i) \<notin> gaps (gm_map g)))"
    and hi: "(Suc (unat i), hi) \<in> gaps (gm_map g) \<or>
      (hi = Suc (unat i) \<and> (\<forall>b. (Suc (unat i), b) \<notin> gaps (gm_map g)))"
    and m: "bt_wf m" "gaps m = gaps (gm_map g) - {(lo, unat i)}"
      "\<And>e l. bt_get m e = Some l \<Longrightarrow> bt_get (gm_map g) e = Some l"
    and e: "Suc (unat e) = hi" and n: "unat n = hi - lo"
  shows "gap_inv (g\<lparr>gm_map := bt_insert e n m\<rparr>) \<and>
    free_ids (g\<lparr>gm_map := bt_insert e n m\<rparr>) = insert i (free_ids g)"
proof (rule gap_invI [OF inv])
  let ?G = "gaps (gm_map g)"
  have sep: "separated ?G" using inv by (simp add: gap_inv_def)
  have fresh: "unat i \<notin> cover ?G" using i(1) by (simp add: free_ids_def)
  show "bt_wf (bt_insert e n m)" using m(1) by (simp add: bt.wf_insert)
  show "unat l' \<le> Suc (unat e')" if "bt_get (bt_insert e n m) e' = Some l'" for e' l'
    using that m e n inv by (auto simp: bt_get_insert gap_inv_def split: if_splits)
  have lohi: "lo \<le> unat i" "unat i < hi" using lo hi sep by (auto dest: separated_nonempty)
  have "{p \<in> ?G. snd p \<noteq> hi} = ?G - {(Suc (unat i), hi)}"
    using hi
  proof
    assume "(Suc (unat i), hi) \<in> ?G"
    then show ?thesis by (rule gaps_end [OF sep])
  next
    assume *: "hi = Suc (unat i) \<and> (\<forall>b. (Suc (unat i), b) \<notin> ?G)"
    have "d \<noteq> hi" if "(c, d) \<in> ?G" for c d
      using fresh coverI [OF that, of "unat i"] separated_nonempty [OF sep that] * by auto
    with * show ?thesis by auto
  qed
  moreover have "gap_of e n = (lo, hi)" using e n lohi by (simp add: gap_of_def)
  ultimately have gm: "gaps (bt_insert e n m) = ?G - {(lo, unat i), (Suc (unat i), hi)} \<union> {(lo, hi)}"
    using m e by (auto simp: gaps_insert)
  from separated_join [OF sep fresh lo hi] gm
  have "separated (gaps (bt_insert e n m)) \<and>
      cover (gaps (bt_insert e n m)) = insert (unat i) (cover ?G)" by simp
  then show "separated (gaps (bt_insert e n m))"
    and "cover (gaps (bt_insert e n m)) = unat ` insert i (free_ids g)"
    using cover_free_ids [OF inv] by auto
  show "insert i (free_ids g) \<subseteq> addrs (gm_range g)" using cover_free_ids [OF inv] i(2) by auto
qed

text \<open>The neighbours \<^verbatim>\<open>Free\<close> looks up are the gaps that touch the identifier.\<close>

lemma left_gap:
  assumes inv: "gap_inv g" and i: "i \<noteq> 0"
  shows "bt_get (gm_map g) (i - 1) = Some len \<Longrightarrow>
      (unat i - unat len, unat i) \<in> gaps (gm_map g) \<and> 0 < unat len \<and> unat len \<le> unat i"
    and "bt_get (gm_map g) (i - 1) = None \<Longrightarrow> (a, unat i) \<notin> gaps (gm_map g)"
proof -
  have pred: "Suc (unat (i - 1)) = unat i"
    using i unat_eq_0 [of i] by (subst unat_minus_one) auto
  then show "(unat i - unat len, unat i) \<in> gaps (gm_map g) \<and> 0 < unat len \<and> unat len \<le> unat i"
    if "bt_get (gm_map g) (i - 1) = Some len"
    using gapsI [OF that] gap_entry(1,2) [OF inv that] by (simp add: gap_of_def)
  show "(a, unat i) \<notin> gaps (gm_map g)" if none: "bt_get (gm_map g) (i - 1) = None"
  proof
    assume "(a, unat i) \<in> gaps (gm_map g)"
    then obtain e l where "bt_get (gm_map g) e = Some l" "Suc (unat e) = unat i"
      by (auto simp: gaps_def gap_of_def)
    with pred have "unat e = unat (i - 1)" by simp
    then have "e = i - 1" by (simp flip: word_eq_unat)
    with none \<open>bt_get (gm_map g) e = Some l\<close> show False by simp
  qed
qed

lemma right_gap:
  assumes inv: "gap_inv g" and i: "i \<notin> free_ids g" "unat i < 18446744073709551615"
  shows "bt_above i (gm_map g) = Some (e, l) \<Longrightarrow> e - (l - 1) = i + 1 \<Longrightarrow>
      (Suc (unat i), Suc (unat e)) \<in> gaps (gm_map g) \<and> bt_get (gm_map g) e = Some l \<and>
      unat l = unat e - unat i \<and> unat i < unat e"
    and "(\<And>e l. bt_above i (gm_map g) = Some (e, l) \<Longrightarrow> e - (l - 1) \<noteq> i + 1) \<Longrightarrow>
      (Suc (unat i), b) \<notin> gaps (gm_map g)"
proof -
  have wf: "bt_wf (gm_map g)" and sep: "separated (gaps (gm_map g))"
    using inv by (auto simp: gap_inv_def)
  have succ: "unat (i + 1) = Suc (unat i)"
    using i(2) unat_add_no_wrap [of i 1] by simp
  show "(Suc (unat i), Suc (unat e)) \<in> gaps (gm_map g) \<and> bt_get (gm_map g) e = Some l \<and>
      unat l = unat e - unat i \<and> unat i < unat e"
    if above: "bt_above i (gm_map g) = Some (e, l)" "e - (l - 1) = i + 1"
  proof -
    from above wf have el: "bt_get (gm_map g) e = Some l" and "i < e" by (auto simp: bt.above_Some)
    with gap_entry(1,2,4) [OF inv el] gapsI [OF el] above(2) succ show ?thesis
      by (simp add: gap_of_def unat_order)
  qed
  show "(Suc (unat i), b) \<notin> gaps (gm_map g)"
    if none: "\<And>e l. bt_above i (gm_map g) = Some (e, l) \<Longrightarrow> e - (l - 1) \<noteq> i + 1"
  proof
    assume gap: "(Suc (unat i), b) \<in> gaps (gm_map g)"
    then obtain e l where el: "bt_get (gm_map g) e = Some l" "gap_of e l = (Suc (unat i), b)"
      by (auto simp: gaps_def)
    have "i < e" using separated_nonempty [OF sep gap] el(2) by (auto simp: gap_of_def unat_order)
    moreover have "e \<le> k" if "bt_get (gm_map g) k = Some l'" "i < k" for k l'
    proof (rule ccontr)
      assume "\<not> e \<le> k"
      note gapk = gapsI [OF that(1), unfolded gap_of_def]
      from separated_two [OF sep gap gapk] separated_nonempty [OF sep gapk] el(2) that(2) \<open>\<not> e \<le> k\<close>
      show False by (auto simp: gap_of_def unat_order)
    qed
    ultimately have "bt_above i (gm_map g) = Some (e, l)"
      using wf el(1) by (auto simp: bt.above_Some)
    moreover have "unat (e - (l - 1)) = unat (i + 1)"
      using gap_entry(4) [OF inv el(1)] el(2) by (auto simp: gap_of_def succ)
    then have "e - (l - 1) = i + 1" by (simp flip: word_eq_unat)
    ultimately show False using none by blast
  qed
qed

lemma GapMgr_Free_taken:
  assumes inv: "gap_inv g" and i: "i \<in> addrs (gm_range g)" "i \<notin> free_ids g"
  shows "gap_inv (GapMgr_Free i g) \<and> gm_range (GapMgr_Free i g) = gm_range g \<and>
    free_ids (GapMgr_Free i g) = insert i (free_ids g)"
proof -
  let ?m = "gm_map g" and ?i = "unat i"
  define left where "left = (if i = 0 then None else bt_get ?m (i - 1))"
  define right where "right = (case bt_above i ?m of None \<Rightarrow> None
    | Some (e, l) \<Rightarrow> if e - (l - 1) = i + 1 then Some (e, l) else None)"
  define lo where "lo = (case left of None \<Rightarrow> ?i | Some len \<Rightarrow> ?i - unat len)"
  define hi where "hi = (case right of None \<Rightarrow> Suc ?i | Some (e, l) \<Rightarrow> Suc (unat e))"
  define m where "m = (case left of None \<Rightarrow> ?m | Some len \<Rightarrow> bt_remove (i - 1) ?m)"
  define e where "e = (case right of None \<Rightarrow> i | Some (e, l) \<Rightarrow> e)"
  define n where "n = (case left of None \<Rightarrow> 0 | Some len \<Rightarrow> len) +
    (case right of None \<Rightarrow> 0 | Some (e, l) \<Rightarrow> l) + 1"
  from inv have wf: "bt_wf ?m" and sep: "separated (gaps ?m)" by (auto simp: gap_inv_def)
  have "?i < unat (Range_End (gm_range g))" using i(1) by (simp add: addrs_def unat_order)
  then have max: "?i < 18446744073709551615"
    using unat_u64_less [of "Range_End (gm_range g)"] by linarith
  have l_some: "(?i - unat len, ?i) \<in> gaps ?m \<and> 0 < unat len \<and> unat len \<le> ?i \<and> i \<noteq> 0 \<and>
      bt_get ?m (i - 1) = Some len" if "left = Some len" for len
    using that left_gap(1) [OF inv, of i len] by (auto simp: left_def split: if_splits)
  have l_none: "(a, ?i) \<notin> gaps ?m" if "left = None" for a
  proof (cases "i = 0")
    case True
    then show ?thesis using separated_nonempty [OF sep, of a ?i] by auto
  next
    case False
    with that left_gap(2) [OF inv] show ?thesis by (simp add: left_def)
  qed
  have r_some: "(Suc ?i, Suc (unat k)) \<in> gaps ?m \<and> bt_get ?m k = Some l \<and>
      unat l = unat k - ?i \<and> ?i < unat k" if "right = Some (k, l)" for k l
    using that right_gap(1) [OF inv i(2) max, of k l]
    by (auto simp: right_def split: option.splits if_splits)
  have r_none: "(Suc ?i, b) \<notin> gaps ?m" if "right = None" for b
    using that by (intro right_gap(2) [OF inv i(2) max])
      (auto simp: right_def split: option.splits if_splits)
  have pred: "Suc (unat (i - 1)) = ?i" if "i \<noteq> 0"
    using that unat_eq_0 [of i] by (subst unat_minus_one) auto
  have "gap_inv (g\<lparr>gm_map := bt_insert e n m\<rparr>) \<and>
    free_ids (g\<lparr>gm_map := bt_insert e n m\<rparr>) = insert i (free_ids g)"
  proof (rule free_insert [OF inv i(2,1)])
    show "(lo, ?i) \<in> gaps ?m \<or> (lo = ?i \<and> (\<forall>a. (a, ?i) \<notin> gaps ?m))"
      using l_some l_none by (cases left) (simp_all add: lo_def)
    show "(Suc ?i, hi) \<in> gaps ?m \<or> (hi = Suc ?i \<and> (\<forall>b. (Suc ?i, b) \<notin> gaps ?m))"
      using r_some r_none by (cases right) (auto simp: hi_def)
    show "bt_wf m" using wf by (simp add: m_def bt.wf_remove split: option.split)
    show "gaps m = gaps ?m - {(lo, ?i)}"
    proof (cases left)
      case None
      with l_none show ?thesis by (simp add: m_def)
    next
      case (Some len)
      with l_some [OF Some] pred gaps_end [OF sep, of "?i - unat len" ?i] show ?thesis
        by (simp add: m_def lo_def gaps_remove)
    qed
    show "bt_get ?m e' = Some l'" if "bt_get m e' = Some l'" for e' l'
      using that wf by (auto simp: m_def bt_get_remove split: option.splits if_splits)
    show "Suc (unat e) = hi" by (simp add: e_def hi_def split: option.split)
    show "unat n = hi - lo"
    proof -
      let ?a = "case left of None \<Rightarrow> 0 | Some len \<Rightarrow> len"
      let ?b = "case right of None \<Rightarrow> 0 | Some (e, l) \<Rightarrow> l"
      have a: "unat ?a = ?i - lo" "unat ?a \<le> ?i" "lo \<le> ?i"
        using l_some by (auto simp: lo_def split: option.split)
      have b: "unat ?b = hi - Suc ?i" "Suc ?i \<le> hi" "hi < 18446744073709551616"
        using r_some gap_entry(3) [OF inv] max by (fastforce simp: hi_def split: option.split)+
      have "unat (?a + ?b) = unat ?a + unat ?b" using a b by (intro unat_add_no_wrap) simp
      moreover have "unat (?a + ?b + 1) = unat (?a + ?b) + unat (1 :: u64)"
        using a b calculation by (intro unat_add_no_wrap) simp
      ultimately show ?thesis using a b by (simp add: n_def)
    qed
  qed
  moreover have "GapMgr_Free i g = g\<lparr>gm_map := bt_insert e n m\<rparr>"
  proof -
    have l_end: "Range_End (Range_New (i - 1 - (len - 1)) len) = i" if "left = Some len" for len
      using gap_entry(7) [OF inv] l_some [OF that] by fastforce
    have r_end: "Range_End (Range_New (k - (l - 1)) l) - 1 = k" if "right = Some (k, l)" for k l
      using gap_entry(7) [OF inv] r_some [OF that] by blast
    have left_eq: "(if i = 0 then None else case bt_get ?m (i - 1) of None \<Rightarrow> None
        | Some len \<Rightarrow> Some (Range_New (i - 1 - (len - 1)) len)) =
      map_option (\<lambda>len. Range_New (i - 1 - (len - 1)) len) left"
      by (simp add: left_def split: option.split)
    have right_eq: "(case bt_above i ?m of None \<Rightarrow> None | Some (gEnd, gLen) \<Rightarrow>
        (let r = Range_New (gEnd - (gLen - 1)) gLen in if r_start r = i + 1 then Some r else None)) =
      map_option (\<lambda>(k, l). Range_New (k - (l - 1)) l) right"
      by (simp add: right_def Let_def split: option.split)
    show ?thesis
      unfolding GapMgr_Free_def left_eq right_eq
      using l_end r_end
      by (cases left; cases right) (auto simp: Let_def m_def e_def n_def ac_simps)
  qed
  ultimately show ?thesis by simp
qed

lemma addrs_nat:
  assumes "range_ok r"
  shows "unat ` addrs r = {unat (r_start r)..<unat (r_start r) + unat (r_len r)}"
proof (intro set_eqI iffI)
  have e: "unat (Range_End r) = unat (r_start r) + unat (r_len r)" using assms by (rule unat_End)
  show "n \<in> {unat (r_start r)..<unat (r_start r) + unat (r_len r)}" if "n \<in> unat ` addrs r" for n
    using that e by (auto simp: addrs_def unat_order)
  show "n \<in> unat ` addrs r" if n: "n \<in> {unat (r_start r)..<unat (r_start r) + unat (r_len r)}" for n
  proof (rule image_eqI)
    have "n < 18446744073709551616" using n e unat_u64_less [of "Range_End r"] by auto
    then show "n = unat (of_nat n :: u64)" by (simp add: unat_of_nat)
    with n e show "of_nat n \<in> addrs r" by (simp add: addrs_def unat_order)
  qed
qed

lemma GapMgr_New_inv:
  assumes "0 < len" and ok: "range_ok (Range_New start len)"
  shows "gap_inv (GapMgr_New start len) \<and> gm_range (GapMgr_New start len) = Range_New start len \<and>
    free_ids (GapMgr_New start len) = addrs (Range_New start len)"
proof -
  let ?r = "Range_New start len" and ?g = "GapMgr_New start len"
  have m: "gm_map ?g = bt_insert (Range_End ?r - 1) len []" and r: "gm_range ?g = ?r"
    by (simp_all add: GapMgr_New_def Let_def)
  have "unat (Range_End ?r) = unat start + unat len" using ok by (simp add: unat_End)
  moreover have pos: "0 < unat len" using assms(1) by (simp add: unat_order)
  ultimately have e: "Suc (unat (Range_End ?r - 1)) = unat start + unat len"
    by (subst unat_minus_one) auto
  have "gaps (gm_map ?g) = {gap_of (Range_End ?r - 1) len}"
    by (auto simp: m gaps_def bt_get_Cons split: if_splits)
  then have gaps: "gaps (gm_map ?g) = {(unat start, unat start + unat len)}"
    by (simp add: gap_of_def e)
  then have cover: "cover (gaps (gm_map ?g)) = unat ` addrs ?r"
    using addrs_nat [OF ok] by (simp add: cover_def)
  moreover have "separated (gaps (gm_map ?g))" using pos by (simp add: gaps separated_def)
  moreover have "unat l \<le> Suc (unat k)" if "bt_get (gm_map ?g) k = Some l" for k l
    using that e by (auto simp: m bt_get_Cons split: if_splits)
  moreover have "bt_wf (gm_map ?g)" unfolding m by (rule bt.wf_insert) simp
  ultimately have "gap_inv ?g" using ok by (simp add: gap_inv_def r)
  with cover show ?thesis by (auto simp: r free_ids_def simp flip: word_eq_unat)
qed

lemma option_eq_Some: "(\<And>v. x = Some v \<longleftrightarrow> y = Some v) \<Longrightarrow> x = y"
  by (cases x; cases y) auto

lemma gap_canonical:
  assumes "gap_inv g" and "gap_inv g'" and "gm_range g = gm_range g'" and "free_ids g = free_ids g'"
  shows "g = g'"
proof -
  have len: "unat l \<le> Suc (unat e)" if "gap_inv h" "bt_get (gm_map h) e = Some l" for h e l
    using that by (auto simp: gap_inv_def)
  have gaps: "gaps (gm_map g) = gaps (gm_map g')"
  proof (rule separated_canonical)
    show "separated (gaps (gm_map g))" "separated (gaps (gm_map g'))"
      using assms(1,2) by (simp_all add: gap_inv_def)
    show "cover (gaps (gm_map g)) = cover (gaps (gm_map g'))"
      using cover_free_ids(1) [OF assms(1)] cover_free_ids(1) [OF assms(2)] assms(4) by simp
  qed
  have key: "bt_get (gm_map h) e = Some l"
    if inv: "gap_inv h" and gap: "gap_of e l \<in> gaps (gm_map h)" and l: "unat l \<le> Suc (unat e)"
    for h e l
  proof -
    from gap obtain e' l' where el: "bt_get (gm_map h) e' = Some l'" "gap_of e l = gap_of e' l'"
      by (auto simp: gaps_def)
    with len [OF inv el(1)] l have "unat e = unat e'" "unat l = unat l'" by (auto simp: gap_of_def)
    with el(1) show "bt_get (gm_map h) e = Some l" by (simp flip: word_eq_unat)
  qed
  have iff: "bt_get (gm_map g) e = Some l \<longleftrightarrow> bt_get (gm_map g') e = Some l" for e l
  proof
    assume "bt_get (gm_map g) e = Some l"
    with gapsI [OF this] len [OF assms(1)] gaps show "bt_get (gm_map g') e = Some l"
      by (intro key [OF assms(2)]) simp_all
  next
    assume "bt_get (gm_map g') e = Some l"
    with gapsI [OF this] len [OF assms(2)] gaps show "bt_get (gm_map g) e = Some l"
      by (intro key [OF assms(1)]) simp_all
  qed
  have "bt_get (gm_map g) e = bt_get (gm_map g') e" for e
    by (rule option_eq_Some) (rule iff)
  then have "gm_map g = gm_map g'"
    using assms(1,2) by (auto simp: gap_inv_def bt_eq_iff_get)
  with assms(3) show ?thesis by simp
qed

interpretation gm: id_allocator GapMgr_AllocAfter GapMgr_Take GapMgr_Free gap_inv gm_range free_ids
  by unfold_locales
    (simp_all add: GapMgr_AllocAfter_None GapMgr_AllocAfter_least GapMgr_Take_free GapMgr_Free_taken
      cover_free_ids gap_canonical)

lemma GapMgr_Fork_same:
  assumes "bt_wf (gm_map g)"
  shows "GapMgr_Fork g = g"
proof -
  let ?m = "fold (\<lambda>(end, len) m. bt_insert end len m) (gm_map g) []"
  have "map_of (rev (gm_map g)) = map_of (gm_map g)"
    using bt_wf_distinct [OF assms] by (subst map_of_inject_set) (simp_all flip: rev_map)
  then have "bt_get ?m = bt_get (gm_map g) \<and> bt_wf ?m"
    using bt.get_fold_insert [of "[]" "gm_map g"] by (simp add: bt_get_def [abs_def] map_add_def)
  then have "?m = gm_map g" using assms by (simp add: bt_eq_iff_get)
  then show ?thesis by (simp add: GapMgr_Fork_def Range_New_def)
qed

lemma gap_Last_None:
  assumes inv: "gap_inv g" and "GapMgr_LastGap g = None"
  shows "free_ids g = {}"
proof -
  from assms(2) have "bt_last (gm_map g) = None"
    by (auto simp: GapMgr_LastGap_def split: option.splits)
  then have "gm_map g = []" by (simp add: bt_last_None)
  then show ?thesis by (simp add: free_ids_def gaps_def cover_def)
qed

lemma gap_Last_Some:
  assumes inv: "gap_inv g" and "GapMgr_LastGap g = Some r"
  shows "range_ok r" and "r_len r \<noteq> 0" and "addrs r \<subseteq> free_ids g"
    and "i \<in> free_ids g \<Longrightarrow> i < Range_End r"
    and "i \<in> free_ids g \<Longrightarrow> Suc (unat i) \<noteq> unat (r_start r)"
proof -
  from assms(2) obtain e l where last: "bt_last (gm_map g) = Some (e, l)"
    and r: "r = Range_New (e - l + 1) l"
    by (auto simp: GapMgr_LastGap_def split: option.splits)
  have wf: "bt_wf (gm_map g)" and sep: "separated (gaps (gm_map g))"
    using inv by (auto simp: gap_inv_def)
  from last wf have el: "bt_get (gm_map g) e = Some l"
    and max: "\<And>b l'. bt_get (gm_map g) b = Some l' \<Longrightarrow> b \<le> e" by (auto simp: bt_last_Some)
  have r': "r = Range_New (e - (l - 1)) l" by (simp add: r)
  note entry = gap_entry [OF inv el, folded r']
  note gap = gapsI [OF el, unfolded gap_of_def]
  show "range_ok r" using entry by simp
  show "r_len r \<noteq> 0" using entry(1) by (auto simp: r')
  have start: "unat (r_start r) = Suc (unat e) - unat l" using entry by (simp add: r')
  show "addrs r \<subseteq> free_ids g"
    using entry(6) start coverI [OF gap] by (auto simp: addrs_def free_ids_def unat_order)
  fix i assume "i \<in> free_ids g"
  then obtain a b where ab: "(a, b) \<in> gaps (gm_map g)" "a \<le> unat i" "unat i < b"
    by (auto simp: free_ids_def elim: coverE)
  then obtain e' l' where e': "bt_get (gm_map g) e' = Some l'" "b = Suc (unat e')"
    by (auto simp: gaps_def gap_of_def)
  with max ab entry(6) show "i < Range_End r" by (fastforce simp: unat_order)
  show "Suc (unat i) \<noteq> unat (r_start r)"
  proof
    assume "Suc (unat i) = unat (r_start r)"
    with separated_two [OF sep gap ab(1)] ab start entry(1,2) max [OF e'(1)] e'(2)
    show False by (auto simp: unat_order)
  qed
qed

section \<open>Properties\<close>

text \<open>
  C3. Allocation at or above a bound: on a manager that satisfies the invariant,
  \<^verbatim>\<open>AllocAfter\<close> never panics; it returns the least free identifier at or above the bound and
  removes exactly that one from the free set, or reports that there is none and changes nothing.
\<close>

theorem GapMgr_AllocAfter_spec:
  assumes "gap_inv g"
  shows "case GapMgr_AllocAfter i g of
      Inl e \<Rightarrow> False
    | Inr (None, g') \<Rightarrow> g' = g \<and> (\<forall>j \<in> free_ids g. j < i)
    | Inr (Some j, g') \<Rightarrow> j \<in> free_ids g \<and> i \<le> j \<and> (\<forall>k \<in> free_ids g. i \<le> k \<longrightarrow> j \<le> k) \<and>
        gap_inv g' \<and> gm_range g' = gm_range g \<and> free_ids g' = free_ids g - {j}"
  using assms by (cases rule: gm.alloc_cases [of g i]) auto

theorem GapMgr_AllocAfter_spec_witness:
  "GapMgr_AllocAfter 3 (GapMgr_New 0 10) =
      Ok (Some 3, \<lparr>gm_range = Range_New 0 10, gm_map = [(2, 3), (9, 6)]\<rparr>) \<and>
    free_ids \<lparr>gm_range = Range_New 0 10, gm_map = [(2, 3), (9, 6)]\<rparr> = addrs (Range_New 0 10) - {3}"
proof -
  have inv: "gap_inv (GapMgr_New 0 10)" and free: "free_ids (GapMgr_New 0 10) = addrs (Range_New 0 10)"
    using GapMgr_New_inv [of 10 0] by (simp_all add: range_ok_def Range_New_def)
  have run: "GapMgr_AllocAfter 3 (GapMgr_New 0 10) =
      Ok (Some 3, \<lparr>gm_range = Range_New 0 10, gm_map = [(2, 3), (9, 6)]\<rparr>)"
    by code_simp
  have "free_ids \<lparr>gm_range = Range_New 0 10, gm_map = [(2, 3), (9, 6)]\<rparr> = addrs (Range_New 0 10) - {3}"
    using GapMgr_AllocAfter_spec [OF inv, of 3] unfolding run free sum.case prod.case option.case
    by blast
  with run show ?thesis by blast
qed

text \<open>
  C4. Freeing undoes allocating and taking undoes freeing, to the very representation: the
  gap map is a canonical form of the free set.
\<close>

theorem GapMgr_Free_inverse:
  assumes "gap_inv g"
  shows "(\<forall>i j g'. GapMgr_AllocAfter i g = Ok (Some j, g') \<longrightarrow> GapMgr_Free j g' = g) \<and>
    (\<forall>i \<in> addrs (gm_range g) - free_ids g. GapMgr_Take i (GapMgr_Free i g) = Ok g)"
  using gm.free_undoes_alloc [OF assms] gm.take_undoes_free [OF assms] by blast

theorem GapMgr_Free_inverse_witness:
  "GapMgr_Free 3 \<lparr>gm_range = Range_New 0 10, gm_map = [(2, 3), (9, 6)]\<rparr> = GapMgr_New 0 10"
proof -
  have inv: "gap_inv (GapMgr_New 0 10)"
    using GapMgr_New_inv [of 10 0] by (simp add: range_ok_def Range_New_def)
  have "GapMgr_AllocAfter 3 (GapMgr_New 0 10) =
      Ok (Some 3, \<lparr>gm_range = Range_New 0 10, gm_map = [(2, 3), (9, 6)]\<rparr>)"
    by code_simp
  with GapMgr_Free_inverse [OF inv] show ?thesis by blast
qed

end
