(* ===== verification/Fd_Table.thy ===== *)
theory Fd_Table
  imports Gap_Mgr
begin

text \<open>
  The file descriptor table of \<^verbatim>\<open>qlib/kernel/kernel/fd_table.rs\<close>: \<^verbatim>\<open>FDTable\<close> and
  \<^verbatim>\<open>FDTableInternal\<close> over the gap manager of the theory \<open>Gap_Mgr\<close>.

  A \<^verbatim>\<open>File\<close> is an \<^verbatim>\<open>Arc\<close>; the table only looks at its identity, at the inode behind its
  dirent, at whether that is a directory and at its \<^verbatim>\<open>Write\<close> flag. The number of handles that
  live outside the table is the argument \<open>refs\<close> of the operations, so that
  \<^verbatim>\<open>Arc::strong_count\<close> is \<open>strong_count\<close>; an operation that itself holds a handle passes
  \<open>hold f refs\<close> on. What \<^verbatim>\<open>Drop\<close> does outside the table (releasing POSIX locks, inotify events)
  is appended to the log \<open>ft_log\<close>. The resource limit of the calling task is the argument
  \<open>lim\<close>, the iteration order of the hash map the argument \<open>iter\<close>.

  \<open>fd_inv\<close> ties the two halves of the state together: the free identifiers of the gap manager
  are exactly the descriptors that are not in the hash map.
\<close>

section \<open>Data\<close>

record fdflags =
  CloseOnExec :: bool

definition O_CLOEXEC :: int where "O_CLOEXEC = 524288"

definition FDFlags_ToLinuxFileFlags :: "fdflags \<Rightarrow> int" where
  "FDFlags_ToLinuxFileFlags f = (if CloseOnExec f then O_CLOEXEC else 0)"

definition FDFlags_ToLinuxFDFlags :: "fdflags \<Rightarrow> u32" where
  "FDFlags_ToLinuxFDFlags f = (if CloseOnExec f then 1 else 0)"

definition Flags_CloseOnExec :: "int \<Rightarrow> bool" where
  "Flags_CloseOnExec fl \<longleftrightarrow> fl AND O_CLOEXEC \<noteq> 0"

record File =
  f_UniqueId :: u64
  f_inode :: u64
  f_IsDir :: bool
  f_Write :: bool

record descriptor =
  d_file :: File
  d_flags :: fdflags

datatype fd_effect =
    UnlockPosix u64 u64 range
  | Inotify u64 u32

record fdtable_internal =
  ft_gaps :: gapmgr
  ft_descTbl :: "(int, descriptor) hashmap"
  ft_log :: "fd_effect list"

record fdtable =
  ft_id :: u64
  ft_data :: fdtable_internal

definition hold :: "File \<Rightarrow> (File \<Rightarrow> nat) \<Rightarrow> File \<Rightarrow> nat" where
  "hold f refs = refs(f := Suc (refs f))"

definition strong_count :: "(File \<Rightarrow> nat) \<Rightarrow> (int, descriptor) hashmap \<Rightarrow> File \<Rightarrow> nat" where
  "strong_count refs tbl f = refs f + length (filter (\<lambda>(_, d). d_file d = f) tbl)"

section \<open>FDTableInternal\<close>

definition FDTableInternal_New :: fdtable_internal where
  "FDTableInternal_New =
    \<lparr>ft_gaps = GapMgr_New 0 (i32_as_u64 i32_MAX), ft_descTbl = [], ft_log = []\<rparr>"

text \<open>The assertions of \<^verbatim>\<open>Verify\<close>: \<open>False\<close> stands for a failing one.\<close>

function Verify_used :: "(int, descriptor) hashmap \<Rightarrow> u64 \<Rightarrow> u64 \<Rightarrow> bool" where
  "Verify_used tbl cur start =
    (if cur < start
     then (if hm_get tbl (u64_as_i32 cur) = None then False else Verify_used tbl (cur + 1) start)
     else True)"
  by pat_completeness auto
termination
proof (relation "measure (\<lambda>(_, cur, start). unat start - unat cur)")
  fix tbl :: "(int, descriptor) hashmap" and cur start :: u64
  assume "cur < start"
  then have "unat (cur + 1) = Suc (unat cur)" by (rule unat_succ_less)
  with \<open>cur < start\<close> show "((tbl, cur + 1, start), tbl, cur, start) \<in> measure (\<lambda>(_, cur, start). unat start - unat cur)"
    by (simp add: unat_order)
qed simp

fun Verify_gaps :: "(int, descriptor) hashmap \<Rightarrow> u64 \<Rightarrow> (u64, u64) btree \<Rightarrow> bool" where
  "Verify_gaps tbl cur [] = True"
| "Verify_gaps tbl cur ((end, len) # m) =
    (Verify_used tbl cur (end - (len - 1)) \<and> Verify_gaps tbl (end + 1) m)"

definition FDTableInternal_Verify :: "fdtable_internal \<Rightarrow> bool" where
  "FDTableInternal_Verify t =
    Verify_gaps (ft_descTbl t) (r_start (gm_range (ft_gaps t))) (gm_map (ft_gaps t))"

definition FDTableInternal_Drop :: "(File \<Rightarrow> nat) \<Rightarrow> u64 \<Rightarrow> File \<Rightarrow> fdtable_internal \<Rightarrow> fdtable_internal" where
  "FDTableInternal_Drop refs lockUniqueID f t =
    (if strong_count refs (ft_descTbl t) f = 1
     then
       let ev = (if f_IsDir f then 0x40000000 else 0) OR (if f_Write f then 0x8 else 0x10)
       in t\<lparr>ft_log := ft_log t @ [UnlockPosix (f_inode f) lockUniqueID Range_Max, Inotify (f_inode f) ev]\<rparr>
     else t)"

definition FDTableInternal_Size :: "fdtable_internal \<Rightarrow> nat" where
  "FDTableInternal_Size t = length (ft_descTbl t)"

definition FDTableInternal_set ::
    "(File \<Rightarrow> nat) \<Rightarrow> u64 \<Rightarrow> int \<Rightarrow> File \<Rightarrow> fdflags \<Rightarrow> fdtable_internal \<Rightarrow> fdtable_internal" where
  "FDTableInternal_set refs uid fd f flags t =
    (let old = hm_get (ft_descTbl t) fd;
         t = t\<lparr>ft_descTbl := hm_insert fd \<lparr>d_file = f, d_flags = flags\<rparr> (ft_descTbl t)\<rparr>
     in case old of
          None \<Rightarrow> t
        | Some d \<Rightarrow> FDTableInternal_Drop (hold (d_file d) refs) uid (d_file d) t)"

definition FDTableInternal_NewFDAt ::
    "(File \<Rightarrow> nat) \<Rightarrow> u64 \<Rightarrow> int \<Rightarrow> File \<Rightarrow> fdflags \<Rightarrow> fdtable_internal \<Rightarrow> unit result \<times> fdtable_internal" where
  "FDTableInternal_NewFDAt refs uid fd f flags t =
    (case hm_get (ft_descTbl t) fd of
       None \<Rightarrow>
        (case GapMgr_Take (i32_as_u64 fd) (ft_gaps t) of
           Inl e \<Rightarrow> (Err e, t)
         | Inr g \<Rightarrow> (Ok (), FDTableInternal_set refs uid fd f flags (t\<lparr>ft_gaps := g\<rparr>)))
     | Some d \<Rightarrow>
        (let t = t\<lparr>ft_descTbl := hm_remove fd (ft_descTbl t)\<rparr>;
             t = FDTableInternal_Drop (hold (d_file d) refs) uid (d_file d) t
         in (Ok (), FDTableInternal_set refs uid fd f flags t)))"

definition FDTableInternal_SetFlags :: "int \<Rightarrow> fdflags \<Rightarrow> fdtable_internal \<Rightarrow> unit result \<times> fdtable_internal" where
  "FDTableInternal_SetFlags fd flags t =
    (if fd < 0 then (Err (SysError EBADF), t)
     else case hm_get (ft_descTbl t) fd of
       None \<Rightarrow> (Err (SysError EBADF), t)
     | Some d \<Rightarrow> (Ok (), t\<lparr>ft_descTbl := hm_insert fd (d\<lparr>d_flags := flags\<rparr>) (ft_descTbl t)\<rparr>))"

definition FDTableInternal_GetFiles ::
    "((int, descriptor) hashmap \<Rightarrow> (int \<times> descriptor) list) \<Rightarrow> fdtable_internal \<Rightarrow> File list" where
  "FDTableInternal_GetFiles iter t = map (\<lambda>(_, d). d_file d) (iter (ft_descTbl t))"

definition FDTableInternal_Remove ::
    "(File \<Rightarrow> nat) \<Rightarrow> u64 \<Rightarrow> int \<Rightarrow> fdtable_internal \<Rightarrow> File option \<times> fdtable_internal" where
  "FDTableInternal_Remove refs uid fd t =
    (if fd < 0 then (None, t)
     else case hm_get (ft_descTbl t) fd of
       None \<Rightarrow> (None, t)
     | Some d \<Rightarrow>
        (let t = t\<lparr>ft_descTbl := hm_remove fd (ft_descTbl t)\<rparr>;
             t = t\<lparr>ft_gaps := GapMgr_Free (i32_as_u64 fd) (ft_gaps t)\<rparr>
         in (Some (d_file d), FDTableInternal_Drop (hold (d_file d) refs) uid (d_file d) t)))"

text \<open>\<^verbatim>\<open>RemoveAll\<close>; the table is not used afterwards, its gaps are left as they are.\<close>

fun RemoveAll_loop :: "(File \<Rightarrow> nat) \<Rightarrow> u64 \<Rightarrow> int list \<Rightarrow> fdtable_internal \<Rightarrow> fdtable_internal result" where
  "RemoveAll_loop refs uid [] t = Ok t"
| "RemoveAll_loop refs uid (fd # removed) t =
    (case hm_get (ft_descTbl t) fd of
       None \<Rightarrow> Err Panic
     | Some d \<Rightarrow>
        (let t = t\<lparr>ft_descTbl := hm_remove fd (ft_descTbl t)\<rparr>;
             t = FDTableInternal_Drop (hold (d_file d) refs) uid (d_file d) t
         in RemoveAll_loop refs uid removed t))"

definition FDTableInternal_RemoveAll ::
    "((int, descriptor) hashmap \<Rightarrow> (int \<times> descriptor) list) \<Rightarrow> (File \<Rightarrow> nat) \<Rightarrow> u64 \<Rightarrow>
     fdtable_internal \<Rightarrow> fdtable_internal result" where
  "FDTableInternal_RemoveAll iter refs uid t = RemoveAll_loop refs uid (map fst (iter (ft_descTbl t))) t"

section \<open>FDTable\<close>

definition FDTable_New :: "u64 \<Rightarrow> fdtable" where
  "FDTable_New newUID = \<lparr>ft_id = newUID, ft_data = FDTableInternal_New\<rparr>"

definition FDTable_GetFDs :: "((int, descriptor) hashmap \<Rightarrow> (int \<times> descriptor) list) \<Rightarrow> fdtable \<Rightarrow> int list" where
  "FDTable_GetFDs iter t = sort (map fst (iter (ft_descTbl (ft_data t))))"

definition FDTable_Remove :: "(File \<Rightarrow> nat) \<Rightarrow> int \<Rightarrow> fdtable \<Rightarrow> File option \<times> fdtable" where
  "FDTable_Remove refs fd t =
    (let (r, d) = FDTableInternal_Remove refs (ft_id t) fd (ft_data t) in (r, t\<lparr>ft_data := d\<rparr>))"

text \<open>The removed files are handles held by the loop.\<close>

fun RemoveRange_loop ::
    "(File \<Rightarrow> nat) \<Rightarrow> u64 \<Rightarrow> int list \<Rightarrow> File list \<Rightarrow> fdtable_internal \<Rightarrow> File list \<times> fdtable_internal" where
  "RemoveRange_loop refs uid [] ret t = (ret, t)"
| "RemoveRange_loop refs uid (fd # fds) ret t =
    (case FDTableInternal_Remove refs uid fd t of
       (None, t) \<Rightarrow> RemoveRange_loop refs uid fds ret t
     | (Some f, t) \<Rightarrow> RemoveRange_loop (hold f refs) uid fds (ret @ [f]) t)"

definition FDTable_RemoveRange :: "(File \<Rightarrow> nat) \<Rightarrow> int \<Rightarrow> int \<Rightarrow> fdtable \<Rightarrow> File list \<times> fdtable" where
  "FDTable_RemoveRange refs startfd endfd t =
    (let (ret, d) = RemoveRange_loop refs (ft_id t) [startfd..endfd - 1] [] (ft_data t)
     in (ret, t\<lparr>ft_data := d\<rparr>))"

definition FDTable_SetFlagsForRange :: "int \<Rightarrow> int \<Rightarrow> fdflags \<Rightarrow> fdtable \<Rightarrow> unit result \<times> fdtable" where
  "FDTable_SetFlagsForRange startfd endfd flags t =
    (if startfd < 0 \<or> startfd \<ge> endfd then (Err (SysError EINVAL), t)
     else (Ok (), t\<lparr>ft_data :=
       fold (\<lambda>fd d. snd (FDTableInternal_SetFlags fd flags d)) [startfd..endfd - 1] (ft_data t)\<rparr>))"

fun RemoveCloseOnExec_loop :: "(File \<Rightarrow> nat) \<Rightarrow> u64 \<Rightarrow> int list \<Rightarrow> fdtable_internal \<Rightarrow> fdtable_internal result" where
  "RemoveCloseOnExec_loop refs uid [] t = Ok t"
| "RemoveCloseOnExec_loop refs uid (fd # removed) t =
    (let t = t\<lparr>ft_gaps := GapMgr_Free (i32_as_u64 fd) (ft_gaps t)\<rparr>
     in case hm_get (ft_descTbl t) fd of
          None \<Rightarrow> Err Panic
        | Some d \<Rightarrow>
           (let t = t\<lparr>ft_descTbl := hm_remove fd (ft_descTbl t)\<rparr>;
                t = FDTableInternal_Drop (hold (d_file d) refs) uid (d_file d) t
            in RemoveCloseOnExec_loop refs uid removed t))"

definition FDTable_RemoveCloseOnExec ::
    "((int, descriptor) hashmap \<Rightarrow> (int \<times> descriptor) list) \<Rightarrow> (File \<Rightarrow> nat) \<Rightarrow> fdtable \<Rightarrow> fdtable result" where
  "FDTable_RemoveCloseOnExec iter refs t =
    (let removed = map fst (filter (\<lambda>(_, d). CloseOnExec (d_flags d)) (iter (ft_descTbl (ft_data t))))
     in and_then (RemoveCloseOnExec_loop refs (ft_id t) removed (ft_data t)) (\<lambda>d. Ok (t\<lparr>ft_data := d\<rparr>)))"

definition FDTable_SetFlags :: "int \<Rightarrow> fdflags \<Rightarrow> fdtable \<Rightarrow> unit result \<times> fdtable" where
  "FDTable_SetFlags fd flags t =
    (if fd < 0 then (Err (SysError EBADF), t)
     else case hm_get (ft_descTbl (ft_data t)) fd of
       None \<Rightarrow> (Err (SysError EBADF), t)
     | Some d \<Rightarrow> (Ok (), t\<lparr>ft_data := (ft_data t)
         \<lparr>ft_descTbl := hm_insert fd (d\<lparr>d_flags := flags\<rparr>) (ft_descTbl (ft_data t))\<rparr>\<rparr>))"

definition FDTable_GetLastFd :: "fdtable \<Rightarrow> int" where
  "FDTable_GetLastFd t =
    (case GapMgr_LastGap (ft_gaps (ft_data t)) of
       None \<Rightarrow> 0
     | Some r \<Rightarrow> if r_start r > 0 then u64_as_i32 (r_start r - 1) else 0)"

definition FDTable_Get :: "int \<Rightarrow> fdtable \<Rightarrow> (File \<times> fdflags) result" where
  "FDTable_Get fd t =
    (case hm_get (ft_descTbl (ft_data t)) fd of
       None \<Rightarrow> Err (SysError EBADF)
     | Some d \<Rightarrow> Ok (d_file d, d_flags d))"

definition NewFDFrom_end :: "u64 \<Rightarrow> int" where
  "NewFDFrom_end lim = (if lim \<noteq> u64_MAX then u64_as_i32 lim else i32_MAX)"

definition FDTable_NewFDFrom ::
    "(File \<Rightarrow> nat) \<Rightarrow> u64 \<Rightarrow> int \<Rightarrow> File \<Rightarrow> fdflags \<Rightarrow> fdtable \<Rightarrow> int result \<times> fdtable" where
  "FDTable_NewFDFrom refs lim fd f flags t =
    (if fd < 0 then (Err (SysError EINVAL), t)
     else
       let end = NewFDFrom_end lim
       in if i32 (fd + 1) > end then (Err (SysError EMFILE), t)
          else case GapMgr_AllocAfter (i32_as_u64 fd) (ft_gaps (ft_data t)) of
            Inl e \<Rightarrow> (Err e, t)
          | Inr (None, g) \<Rightarrow> (Err (SysError EMFILE), t\<lparr>ft_data := (ft_data t)\<lparr>ft_gaps := g\<rparr>\<rparr>)
          | Inr (Some newfd, g) \<Rightarrow>
              (let newfd = u64_as_i32 newfd
               in if newfd \<ge> end
                  then (Err (SysError EMFILE),
                        t\<lparr>ft_data := (ft_data t)\<lparr>ft_gaps := GapMgr_Free (i32_as_u64 newfd) g\<rparr>\<rparr>)
                  else (Ok newfd, t\<lparr>ft_data :=
                    FDTableInternal_set refs (ft_id t) newfd f flags ((ft_data t)\<lparr>ft_gaps := g\<rparr>)\<rparr>)))"

definition FDTable_NewFDAt ::
    "(File \<Rightarrow> nat) \<Rightarrow> u64 \<Rightarrow> int \<Rightarrow> File \<Rightarrow> fdflags \<Rightarrow> fdtable \<Rightarrow> unit result \<times> fdtable" where
  "FDTable_NewFDAt refs lim fd f flags t =
    (if fd < 0 then (Err (SysError EBADF), t)
     else if i32_as_u64 fd \<ge> lim then (Err (SysError EMFILE), t)
     else let (r, d) = FDTableInternal_NewFDAt refs (ft_id t) fd f flags (ft_data t)
          in (r, t\<lparr>ft_data := d\<rparr>))"

definition FDTable_Dup :: "(File \<Rightarrow> nat) \<Rightarrow> u64 \<Rightarrow> int \<Rightarrow> fdtable \<Rightarrow> int result \<times> fdtable" where
  "FDTable_Dup refs lim fd t =
    (if fd < 0 then (Err (SysError EBADF), t)
     else case FDTable_Get fd t of
       Inl e \<Rightarrow> (Err e, t)
     | Inr (f, flags) \<Rightarrow> FDTable_NewFDFrom (hold f refs) lim 0 f flags t)"

definition FDTable_Dup2 :: "(File \<Rightarrow> nat) \<Rightarrow> u64 \<Rightarrow> int \<Rightarrow> int \<Rightarrow> fdtable \<Rightarrow> int result \<times> fdtable" where
  "FDTable_Dup2 refs lim oldfd newfd t =
    (if oldfd < 0 then (Err (SysError EBADF), t)
     else if newfd < 0 then (Err (SysError EBADF), t)
     else case FDTable_Get oldfd t of
       Inl e \<Rightarrow> (Err e, t)
     | Inr (f, flags) \<Rightarrow>
        (let (r, t) = FDTable_NewFDAt (hold f refs) lim newfd f flags t
         in (and_then r (\<lambda>_. Ok newfd), t)))"

definition FDTable_Dup3 :: "(File \<Rightarrow> nat) \<Rightarrow> u64 \<Rightarrow> int \<Rightarrow> int \<Rightarrow> int \<Rightarrow> fdtable \<Rightarrow> int result \<times> fdtable" where
  "FDTable_Dup3 refs lim oldfd newfd fl t =
    (if oldfd < 0 then (Err (SysError EBADF), t)
     else if newfd < 0 then (Err (SysError EBADF), t)
     else case FDTable_Get oldfd t of
       Inl e \<Rightarrow> (Err e, t)
     | Inr (f, flags) \<Rightarrow>
        (let flags = flags\<lparr>CloseOnExec := Flags_CloseOnExec fl\<rparr>;
             (r, t) = FDTable_NewFDAt (hold f refs) lim newfd f flags t
         in (and_then r (\<lambda>_. Ok newfd), t)))"

definition FDTable_Fork ::
    "((int, descriptor) hashmap \<Rightarrow> (int \<times> descriptor) list) \<Rightarrow> (File \<Rightarrow> nat) \<Rightarrow> u64 \<Rightarrow> int \<Rightarrow> fdtable \<Rightarrow> fdtable" where
  "FDTable_Fork iter refs newUID maxFds t =
    \<lparr>ft_id = newUID,
     ft_data = fold (\<lambda>(fd, d) tbl. FDTableInternal_set refs (ft_id t) fd (d_file d) (d_flags d) tbl)
       (takeWhile (\<lambda>(fd, _). fd < maxFds) (iter (ft_descTbl (ft_data t))))
       \<lparr>ft_gaps = ft_gaps (ft_data t), ft_descTbl = [], ft_log = []\<rparr>\<rparr>"

definition FDTable_Clear ::
    "((int, descriptor) hashmap \<Rightarrow> (int \<times> descriptor) list) \<Rightarrow> (File \<Rightarrow> nat) \<Rightarrow> fdtable \<Rightarrow> fdtable result" where
  "FDTable_Clear iter refs t =
    and_then (FDTableInternal_RemoveAll iter refs (ft_id t) (ft_data t)) (\<lambda>d. Ok (t\<lparr>ft_data := d\<rparr>))"

definition FDTable_Count :: "fdtable \<Rightarrow> nat" where
  "FDTable_Count t = length (ft_descTbl (ft_data t))"

text \<open>Dropping a handle of the table whose reference count is \<open>RefCount\<close>.\<close>

definition FDTable_drop ::
    "((int, descriptor) hashmap \<Rightarrow> (int \<times> descriptor) list) \<Rightarrow> (File \<Rightarrow> nat) \<Rightarrow> nat \<Rightarrow> fdtable \<Rightarrow> fdtable result" where
  "FDTable_drop iter refs RefCount t = (if RefCount = 1 then FDTable_Clear iter refs t else Ok t)"

section \<open>The invariant\<close>

abbreviation fds :: "int set" where "fds \<equiv> {0..<i32_MAX}"

definition fd_ok :: "gapmgr \<Rightarrow> (int, descriptor) hashmap \<Rightarrow> bool" where
  "fd_ok g m \<longleftrightarrow> gap_inv g \<and> gm_range g = Range_New 0 (i32_as_u64 i32_MAX) \<and> hm_wf m \<and>
     dom (hm_get m) \<subseteq> fds \<and> free_ids g = i32_as_u64 ` (fds - dom (hm_get m))"

definition fd_inv :: "fdtable \<Rightarrow> bool" where
  "fd_inv t \<longleftrightarrow> fd_ok (ft_gaps (ft_data t)) (ft_descTbl (ft_data t))"

definition fd_map :: "fdtable \<Rightarrow> int \<Rightarrow> descriptor option" where
  "fd_map t = hm_get (ft_descTbl (ft_data t))"

text \<open>Descriptors as identifiers of the gap manager.\<close>

lemma unat_fd: "0 \<le> fd \<Longrightarrow> fd \<le> i32_MAX \<Longrightarrow> unat (i32_as_u64 fd) = nat fd"
  by (simp add: i32_as_u64_def unat_eq_nat_uint uint_word_of_int)

lemma fd_roundtrip [simp]: "0 \<le> fd \<Longrightarrow> fd \<le> i32_MAX \<Longrightarrow> u64_as_i32 (i32_as_u64 fd) = fd"
  by (simp add: u64_as_i32_def i32_as_u64_def uint_word_of_int i32_id)

lemma fd_le:
  "0 \<le> a \<Longrightarrow> a \<le> i32_MAX \<Longrightarrow> 0 \<le> b \<Longrightarrow> b \<le> i32_MAX \<Longrightarrow> i32_as_u64 a \<le> i32_as_u64 b \<longleftrightarrow> a \<le> b"
  by (simp add: unat_order unat_fd nat_le_eq_zle)

lemma fd_inj: "inj_on i32_as_u64 fds"
  by (rule inj_on_inverseI [of _ u64_as_i32]) simp

lemma fd_in_image: "fd \<in> fds \<Longrightarrow> A \<subseteq> fds \<Longrightarrow> i32_as_u64 fd \<in> i32_as_u64 ` A \<longleftrightarrow> fd \<in> A"
  by (rule inj_on_image_mem_iff [OF fd_inj])

lemma fd_of_id: "unat x < 2147483647 \<Longrightarrow> x \<in> i32_as_u64 ` fds"
proof (rule image_eqI)
  show "x = i32_as_u64 (int (unat x))" by (simp add: i32_as_u64_def)
  assume "unat x < 2147483647"
  then have "int (unat x) < int 2147483647" by (simp only: of_nat_less_iff)
  then show "int (unat x) \<in> fds" by simp
qed

lemma addrs_fds: "addrs (Range_New 0 (i32_as_u64 i32_MAX)) = i32_as_u64 ` fds"
proof -
  have ok: "range_ok (Range_New 0 (i32_as_u64 i32_MAX))" by (simp add: range_ok_def unat_fd)
  have "x \<in> addrs (Range_New 0 (i32_as_u64 i32_MAX)) \<longleftrightarrow> unat x < 2147483647" for x
    using unat_End [OF ok] by (simp add: addrs_def unat_order unat_fd)
  moreover have "unat (i32_as_u64 n) < 2147483647" if "n \<in> fds" for n using that by (auto simp: unat_fd)
  ultimately show ?thesis using fd_of_id by auto
qed

lemma fd_free_iff:
  assumes "fd_ok g m" and "fd \<in> fds"
  shows "i32_as_u64 fd \<in> free_ids g \<longleftrightarrow> hm_get m fd = None"
proof -
  have "i32_as_u64 fd \<in> i32_as_u64 ` (fds - dom (hm_get m)) \<longleftrightarrow> fd \<in> fds - dom (hm_get m)"
    using assms(2) by (intro fd_in_image) auto
  with assms show ?thesis by (simp add: fd_ok_def domIff)
qed

lemma fd_ok_take:
  assumes "fd_ok g m" and "fd \<in> fds" and "gap_inv g'" and "gm_range g' = gm_range g"
    and "free_ids g' = free_ids g - {i32_as_u64 fd}"
  shows "fd_ok g' (hm_insert fd d m)"
proof -
  have "i32_as_u64 ` (fds - Set.insert fd (dom (hm_get m)))
      = i32_as_u64 ` (fds - dom (hm_get m)) - {i32_as_u64 fd}"
    using assms(2) by (subst Diff_insert, subst inj_on_image_set_diff [OF fd_inj]) auto
  with assms show ?thesis by (simp add: fd_ok_def hm_simps)
qed

lemma fd_ok_free:
  assumes ok: "fd_ok g m" and d: "hm_get m fd = Some d"
  shows "fd_ok (GapMgr_Free (i32_as_u64 fd) g) (hm_remove fd m)"
proof -
  from ok d have fd: "fd \<in> fds" unfolding fd_ok_def by blast
  with fd_free_iff [OF ok] d have "i32_as_u64 fd \<notin> free_ids g" by simp
  with ok fd have "gap_inv (GapMgr_Free (i32_as_u64 fd) g) \<and>
      gm_range (GapMgr_Free (i32_as_u64 fd) g) = gm_range g \<and>
      free_ids (GapMgr_Free (i32_as_u64 fd) g) = insert (i32_as_u64 fd) (free_ids g)"
    by (intro gm.free_taken) (auto simp: fd_ok_def addrs_fds)
  moreover have "fds - (dom (hm_get m) - {fd}) = Set.insert fd (fds - dom (hm_get m))"
    using fd by auto
  ultimately show ?thesis using ok by (simp add: fd_ok_def hm_simps) blast
qed

lemma fd_ok_update: "fd_ok g m \<Longrightarrow> hm_get m fd = Some d \<Longrightarrow> fd_ok g (hm_insert fd d' m)"
  by (simp add: fd_ok_def hm_simps insert_absorb domI)

lemma fd_free_fd:
  assumes "fd_ok g m" and "j \<in> free_ids g"
  obtains n where "j = i32_as_u64 n" "n \<in> fds" "hm_get m n = None"
proof -
  from assms have "j \<in> i32_as_u64 ` (fds - dom (hm_get m))" by (simp add: fd_ok_def)
  then obtain n where "j = i32_as_u64 n" "n \<in> fds - dom (hm_get m)" by (rule imageE)
  then show thesis by (intro that [of n]) (simp_all add: domIff)
qed

section \<open>What the operations do to the table\<close>

lemma Drop_simps [simp]:
  "ft_gaps (FDTableInternal_Drop refs uid f t) = ft_gaps t"
  "ft_descTbl (FDTableInternal_Drop refs uid f t) = ft_descTbl t"
  by (simp_all add: FDTableInternal_Drop_def Let_def)

lemma set_simps [simp]:
  "ft_gaps (FDTableInternal_set refs uid fd f flags t) = ft_gaps t"
  "ft_descTbl (FDTableInternal_set refs uid fd f flags t) =
    hm_insert fd \<lparr>d_file = f, d_flags = flags\<rparr> (ft_descTbl t)"
  by (simp_all add: FDTableInternal_set_def Let_def split: option.split)

lemma set_fresh_log:
  "hm_get (ft_descTbl t) fd = None \<Longrightarrow> ft_log (FDTableInternal_set refs uid fd f flags t) = ft_log t"
  by (simp add: FDTableInternal_set_def)

lemma FDTableInternal_NewFDAt_ok:
  assumes ok: "fd_ok (ft_gaps t) (ft_descTbl t)" and fd: "fd \<in> fds"
  obtains t' where "FDTableInternal_NewFDAt refs uid fd f flags t = (Ok (), t')"
    "fd_ok (ft_gaps t') (ft_descTbl t')"
    "hm_get (ft_descTbl t') = (hm_get (ft_descTbl t))(fd \<mapsto> \<lparr>d_file = f, d_flags = flags\<rparr>)"
proof (cases "hm_get (ft_descTbl t) fd")
  case None
  with fd_free_iff [OF ok fd] have free: "i32_as_u64 fd \<in> free_ids (ft_gaps t)" by simp
  have inv: "gap_inv (ft_gaps t)" and wf: "hm_wf (ft_descTbl t)" using ok by (simp_all add: fd_ok_def)
  from gm.take_free [OF inv free] obtain g where g: "GapMgr_Take (i32_as_u64 fd) (ft_gaps t) = Ok g"
    "gap_inv g" "gm_range g = gm_range (ft_gaps t)" "free_ids g = free_ids (ft_gaps t) - {i32_as_u64 fd}"
    by blast
  show thesis
    using None fd_ok_take [OF ok fd g(2-4)] wf
    by (intro that, simp add: FDTableInternal_NewFDAt_def g(1)) (simp_all add: hm_simps)
next
  case (Some d)
  have wf: "hm_wf (ft_descTbl t)" using ok by (simp add: fd_ok_def)
  have "fd_ok (ft_gaps t) (hm_insert fd d' (hm_remove fd (ft_descTbl t)))" for d'
    using ok fd Some by (simp add: fd_ok_def hm_simps insert_absorb domI)
  with Some wf show thesis
    by (intro that, simp add: FDTableInternal_NewFDAt_def Let_def) (simp_all add: hm_simps)
qed

lemma FDTableInternal_Remove_ok:
  assumes ok: "fd_ok (ft_gaps t) (ft_descTbl t)"
  obtains t' where "FDTableInternal_Remove refs uid fd t =
      (map_option d_file (hm_get (ft_descTbl t) fd), t')"
    "fd_ok (ft_gaps t') (ft_descTbl t')"
    "hm_get (ft_descTbl t') = (hm_get (ft_descTbl t))(fd := None)"
proof (cases "hm_get (ft_descTbl t) fd")
  case None
  with ok show thesis
    by (intro that [of t]) (auto simp: FDTableInternal_Remove_def fun_eq_iff)
next
  case (Some d)
  with ok have "fd \<in> fds" unfolding fd_ok_def by blast
  then have "\<not> fd < 0" by simp
  have wf: "hm_wf (ft_descTbl t)" using ok by (simp add: fd_ok_def)
  show thesis
    using fd_ok_free [OF ok Some] Some wf \<open>\<not> fd < 0\<close>
    by (intro that, simp add: FDTableInternal_Remove_def Let_def) (simp_all add: hm_simps)
qed

lemma fdtable_same [simp]: "t\<lparr>ft_data := (ft_data t)\<lparr>ft_gaps := ft_gaps (ft_data t)\<rparr>\<rparr> = t"
  by simp

lemma NewFDFrom_cases:
  assumes inv: "fd_inv t" and fd: "0 \<le> fd" "fd \<le> i32_MAX"
  obtains
    (full) "FDTable_NewFDFrom refs lim fd f flags t = (Err (SysError EMFILE), t)"
      "\<forall>n \<in> fds. fd \<le> n \<and> n < NewFDFrom_end lim \<longrightarrow> fd_map t n \<noteq> None"
  | (new) n t' where "FDTable_NewFDFrom refs lim fd f flags t = (Ok n, t')"
      "fd \<le> n" "n < NewFDFrom_end lim" "n \<in> fds" "fd_map t n = None"
      "\<forall>k \<in> fds. fd \<le> k \<and> k < n \<longrightarrow> fd_map t k \<noteq> None"
      "fd_inv t'" "fd_map t' = (fd_map t)(n \<mapsto> \<lparr>d_file = f, d_flags = flags\<rparr>)"
      "ft_id t' = ft_id t" "ft_log (ft_data t') = ft_log (ft_data t)"
proof -
  let ?g = "ft_gaps (ft_data t)" and ?m = "ft_descTbl (ft_data t)" and ?i = "i32_as_u64 fd"
  have ok: "fd_ok ?g ?m" using inv by (simp add: fd_inv_def)
  then have ginv: "gap_inv ?g" and wf: "hm_wf ?m" by (simp_all add: fd_ok_def)
  show thesis
  proof (cases "i32 (fd + 1) > NewFDFrom_end lim")
    case True
    have "\<not> (fd \<le> n \<and> n < NewFDFrom_end lim)" if "n \<in> fds" for n
      using that True fd i32_id [of "fd + 1"] by (cases "fd = i32_MAX") auto
    then have "\<forall>n \<in> fds. fd \<le> n \<and> n < NewFDFrom_end lim \<longrightarrow> fd_map t n \<noteq> None" by blast
    with True fd show ?thesis by (intro full) (simp_all add: FDTable_NewFDFrom_def Let_def)
  next
    case guard: False
    show ?thesis using ginv
    proof (cases rule: gm.alloc_cases [of ?g ?i])
      case None
      have "fd_map t n \<noteq> None" if "n \<in> fds" "fd \<le> n" for n
        using None(2) fd_free_iff [OF ok that(1)] fd_le [of fd n] that fd
        by (fastforce simp: fd_map_def not_le)
      then show ?thesis using None(1) guard fd
        by (intro full) (auto simp: FDTable_NewFDFrom_def Let_def)
    next
      case (Some j g')
      from fd_free_fd [OF ok Some(2)] obtain n where n: "j = i32_as_u64 n" "n \<in> fds" "hm_get ?m n = None"
        by blast
      then have jn: "u64_as_i32 j = n" by simp
      have "fd \<le> n" using Some(3) n fd by (simp add: fd_le)
      have least: "fd_map t k \<noteq> None" if "k \<in> fds" "fd \<le> k" "k < n" for k
        using Some(4) fd_free_iff [OF ok that(1)] fd_le [of fd k] fd_le [of n k] n that fd
        by (fastforce simp: fd_map_def)
      show ?thesis
      proof (cases "n \<ge> NewFDFrom_end lim")
        case True
        have "GapMgr_Free (i32_as_u64 n) g' = ?g"
          using gm.free_undoes_alloc [OF ginv Some(1)] n(1) by simp
        with True guard fd Some(1) jn least show ?thesis
          by (intro full) (auto simp: FDTable_NewFDFrom_def Let_def)
      next
        case False
        have "fd_ok g' (hm_insert n d ?m)" for d
          using Some(5-7) n by (intro fd_ok_take [OF ok]) simp_all
        moreover have run: "FDTable_NewFDFrom refs lim fd f flags t = (Ok n, t\<lparr>ft_data :=
            FDTableInternal_set refs (ft_id t) n f flags ((ft_data t)\<lparr>ft_gaps := g'\<rparr>)\<rparr>)"
          using False guard fd Some(1) jn by (simp add: FDTable_NewFDFrom_def Let_def)
        ultimately show ?thesis
          using False \<open>fd \<le> n\<close> n least wf
          by (intro new [OF run]) (auto simp: fd_map_def fd_inv_def hm_simps set_fresh_log)
      qed
    qed
  qed
qed

lemma NewFDAt_cases:
  assumes inv: "fd_inv t" and fd: "fd \<le> i32_MAX" and lim: "fd < i32_MAX \<or> lim \<le> i32_as_u64 i32_MAX"
  obtains
    (bad) "fd < 0" "FDTable_NewFDAt refs lim fd f flags t = (Err (SysError EBADF), t)"
  | (limit) "0 \<le> fd" "lim \<le> i32_as_u64 fd" "FDTable_NewFDAt refs lim fd f flags t = (Err (SysError EMFILE), t)"
  | (new) t' where "0 \<le> fd" "i32_as_u64 fd < lim" "FDTable_NewFDAt refs lim fd f flags t = (Ok (), t')"
      "fd_inv t'" "fd_map t' = (fd_map t)(fd \<mapsto> \<lparr>d_file = f, d_flags = flags\<rparr>)" "ft_id t' = ft_id t"
proof -
  consider "fd < 0" | "0 \<le> fd" "lim \<le> i32_as_u64 fd" | "0 \<le> fd" "i32_as_u64 fd < lim"
    by (meson not_le)
  then show thesis
  proof cases
    case 3
    then have "i32_as_u64 fd < i32_as_u64 i32_MAX" if "lim \<le> i32_as_u64 i32_MAX" using that by simp
    then have "fd \<in> fds" using lim 3(1) fd by (auto simp: unat_order unat_fd)
    with inv obtain d where "FDTableInternal_NewFDAt refs (ft_id t) fd f flags (ft_data t) = (Ok (), d)"
      "fd_ok (ft_gaps d) (ft_descTbl d)"
      "hm_get (ft_descTbl d) = (hm_get (ft_descTbl (ft_data t)))(fd \<mapsto> \<lparr>d_file = f, d_flags = flags\<rparr>)"
      unfolding fd_inv_def by (rule FDTableInternal_NewFDAt_ok)
    with 3 show ?thesis
      by (intro new [of "t\<lparr>ft_data := d\<rparr>"])
        (simp_all add: FDTable_NewFDAt_def not_le fd_inv_def fd_map_def)
  qed (auto intro: bad limit simp: FDTable_NewFDAt_def)
qed

lemma map_filter_cong:
  "(\<And>x. x \<in> set xs \<Longrightarrow> f x = g x) \<Longrightarrow> List.map_filter f xs = List.map_filter g xs"
  by (induction xs) (auto split: option.split)

lemma RemoveRange_loop_ok:
  assumes "fd_ok (ft_gaps t) (ft_descTbl t)" and "distinct fds'"
  shows "\<exists>t'. RemoveRange_loop refs uid fds' ret t =
      (ret @ List.map_filter (\<lambda>fd. map_option d_file (hm_get (ft_descTbl t) fd)) fds', t') \<and>
    fd_ok (ft_gaps t') (ft_descTbl t') \<and>
    hm_get (ft_descTbl t') = (hm_get (ft_descTbl t)) |` (- set fds')"
  using assms
proof (induction fds' arbitrary: refs ret t)
  case Nil
  then show ?case by (simp add: map_filter_simps)
next
  case (Cons fd fds')
  obtain t1 where t1: "FDTableInternal_Remove refs uid fd t =
      (map_option d_file (hm_get (ft_descTbl t) fd), t1)" "fd_ok (ft_gaps t1) (ft_descTbl t1)"
    "hm_get (ft_descTbl t1) = (hm_get (ft_descTbl t))(fd := None)"
    using FDTableInternal_Remove_ok [OF Cons.prems(1)] by blast
  have same: "List.map_filter (\<lambda>n. map_option d_file (hm_get (ft_descTbl t1) n)) fds' =
      List.map_filter (\<lambda>n. map_option d_file (hm_get (ft_descTbl t) n)) fds'"
    using Cons.prems(2) t1(3) by (intro map_filter_cong) auto
  have restr: "hm_get (ft_descTbl t1) |` (- set fds') = hm_get (ft_descTbl t) |` (- set (fd # fds'))"
    unfolding t1(3) by (auto simp: restrict_map_def fun_eq_iff)
  show ?case
  proof (cases "hm_get (ft_descTbl t) fd")
    case None
    with Cons.IH [OF t1(2), of refs ret] Cons.prems(2) t1(1) same restr show ?thesis
      by (simp add: map_filter_simps)
  next
    case (Some d)
    with Cons.IH [OF t1(2), of "hold (d_file d) refs" "ret @ [d_file d]"] Cons.prems(2) t1(1) same restr
    show ?thesis by (simp add: map_filter_simps)
  qed
qed

lemma RemoveCloseOnExec_loop_ok:
  assumes "fd_ok (ft_gaps t) (ft_descTbl t)" and "distinct fds'" and "set fds' \<subseteq> dom (hm_get (ft_descTbl t))"
  shows "\<exists>t'. RemoveCloseOnExec_loop refs uid fds' t = Ok t' \<and>
    fd_ok (ft_gaps t') (ft_descTbl t') \<and>
    hm_get (ft_descTbl t') = (hm_get (ft_descTbl t)) |` (- set fds')"
  using assms
proof (induction fds' arbitrary: t)
  case (Cons fd fds')
  then obtain d where d: "hm_get (ft_descTbl t) fd = Some d" by auto
  define t1 where "t1 = FDTableInternal_Drop (hold (d_file d) refs) uid (d_file d)
    (t\<lparr>ft_gaps := GapMgr_Free (i32_as_u64 fd) (ft_gaps t), ft_descTbl := hm_remove fd (ft_descTbl t)\<rparr>)"
  have wf: "hm_wf (ft_descTbl t)" using Cons.prems(1) by (simp add: fd_ok_def)
  have get: "hm_get (ft_descTbl t1) = (hm_get (ft_descTbl t))(fd := None)"
    using wf by (simp add: t1_def hm_simps)
  have "fd_ok (ft_gaps t1) (ft_descTbl t1)"
    using fd_ok_free [OF Cons.prems(1) d] by (simp add: t1_def)
  moreover have "set fds' \<subseteq> dom (hm_get (ft_descTbl t1))" using Cons.prems(2,3) get by auto
  ultimately obtain t' where "RemoveCloseOnExec_loop refs uid fds' t1 = Ok t'"
    "fd_ok (ft_gaps t') (ft_descTbl t')"
    "hm_get (ft_descTbl t') = (hm_get (ft_descTbl t1)) |` (- set fds')"
    using Cons.IH Cons.prems(2) by (meson distinct.simps(2))
  moreover have "hm_get (ft_descTbl t1) |` (- set fds') = hm_get (ft_descTbl t) |` (- set (fd # fds'))"
    unfolding get by (auto simp: restrict_map_def fun_eq_iff)
  ultimately show ?case using d by (simp add: Let_def flip: t1_def)
qed (simp add: restrict_map_def)

lemma descriptor_eta [simp]: "\<lparr>d_file = d_file d, d_flags = d_flags d\<rparr> = d"
  by (cases d) simp

lemma Fork_fold:
  fixes refs :: "File \<Rightarrow> nat" and uid :: u64
  assumes "hm_wf m" and "hm_wf (ft_descTbl t)" and "fst ` set m \<inter> dom (hm_get (ft_descTbl t)) = {}"
  defines "t' \<equiv> fold (\<lambda>(fd, d). FDTableInternal_set refs uid fd (d_file d) (d_flags d)) m t"
  shows "ft_gaps t' = ft_gaps t \<and> ft_log t' = ft_log t \<and> hm_wf (ft_descTbl t') \<and>
    hm_get (ft_descTbl t') = hm_get (ft_descTbl t) ++ hm_get m"
  using assms(1-3) unfolding t'_def
proof (induction m arbitrary: t)
  case Nil
  then show ?case by (simp add: fun_eq_iff map_add_def)
next
  case (Cons p m)
  obtain fd d where p: "p = (fd, d)" by (cases p)
  define t1 where "t1 = FDTableInternal_set refs uid fd (d_file d) (d_flags d) t"
  have get1: "hm_get (ft_descTbl t1) = (hm_get (ft_descTbl t))(fd \<mapsto> d)"
    using Cons.prems(2) by (simp add: t1_def hm_simps)
  have "hm_wf (ft_descTbl t1)" and "ft_gaps t1 = ft_gaps t"
    using Cons.prems(2) by (simp_all add: t1_def hm_simps)
  moreover have "hm_get (ft_descTbl t) fd = None" using Cons.prems(3) p by auto
  then have "ft_log t1 = ft_log t" by (simp add: t1_def set_fresh_log)
  moreover have "hm_wf m" "fd \<notin> fst ` set m" using Cons.prems(1) p by (auto simp: hm_wf_def)
  moreover from this have "hm_get m fd = None" using dom_hm_get [of m] by auto
  then have "hm_get (ft_descTbl t1) ++ hm_get m = hm_get (ft_descTbl t) ++ hm_get (p # m)"
    unfolding get1 by (auto simp: p map_add_def fun_eq_iff hm_get_def split: option.splits)
  moreover have "fst ` set m \<inter> dom (hm_get (ft_descTbl t1)) = {}"
    using Cons.prems(3) \<open>fd \<notin> fst ` set m\<close> get1 by auto
  ultimately show ?case using Cons.IH [of t1] by (simp add: p flip: t1_def)
qed

lemma Fork_ok:
  assumes inv: "fd_inv t" and iter: "hm_iter iter" and "i32_MAX \<le> maxFds"
  shows "fd_inv (FDTable_Fork iter refs newUID maxFds t) \<and>
    fd_map (FDTable_Fork iter refs newUID maxFds t) = fd_map t \<and>
    ft_id (FDTable_Fork iter refs newUID maxFds t) = newUID"
proof -
  let ?m = "ft_descTbl (ft_data t)" and ?t0 = "\<lparr>ft_gaps = ft_gaps (ft_data t), ft_descTbl = [], ft_log = []\<rparr>"
  have ok: "fd_ok (ft_gaps (ft_data t)) ?m" using inv by (simp add: fd_inv_def)
  have "fst p < maxFds" if "p \<in> set (iter ?m)" for p
  proof -
    have "fst p \<in> dom (hm_get ?m)" using that hm_iter_set [OF iter, of ?m] by (simp add: dom_hm_get)
    with ok assms(3) show ?thesis unfolding fd_ok_def by fastforce
  qed
  then have all: "takeWhile (\<lambda>(fd, _). fd < maxFds) (iter ?m) = iter ?m"
    by (auto simp: takeWhile_eq_all_conv)
  define t' where "t' = fold (\<lambda>(fd, d). FDTableInternal_set refs (ft_id t) fd (d_file d) (d_flags d))
    (iter ?m) ?t0"
  have "hm_wf (iter ?m)" "hm_get (iter ?m) = hm_get ?m"
    using ok iter by (simp_all add: fd_ok_def hm_iter_wf hm_iter_get)
  then have "ft_gaps t' = ft_gaps (ft_data t) \<and> hm_wf (ft_descTbl t') \<and> hm_get (ft_descTbl t') = hm_get ?m"
    using Fork_fold [of "iter ?m" ?t0 refs "ft_id t"]
    by (simp flip: t'_def)
  moreover have "FDTable_Fork iter refs newUID maxFds t = \<lparr>ft_id = newUID, ft_data = t'\<rparr>"
    unfolding FDTable_Fork_def all t'_def by simp
  ultimately show ?thesis using ok by (simp add: fd_inv_def fd_map_def fd_ok_def)
qed

section \<open>Every reachable table satisfies the invariant\<close>

text \<open>The operations on a table, for any descriptor limit. Descriptor \<open>i32_MAX\<close>, which only a limit above it
  lets through to \<open>NewFDAt\<close>, is not an identifier of the gap manager and is left out.\<close>

inductive fd_step :: "fdtable \<Rightarrow> fdtable \<Rightarrow> bool" where
  new_from: "fd \<le> i32_MAX \<Longrightarrow> fd_step t (snd (FDTable_NewFDFrom refs lim fd f flags t))"
| new_at: "fd \<le> i32_MAX \<Longrightarrow> fd < i32_MAX \<or> lim \<le> i32_as_u64 i32_MAX \<Longrightarrow>
    fd_step t (snd (FDTable_NewFDAt refs lim fd f flags t))"
| dup: "fd_step t (snd (FDTable_Dup refs lim fd t))"
| dup2: "newfd \<le> i32_MAX \<Longrightarrow> newfd < i32_MAX \<or> lim \<le> i32_as_u64 i32_MAX \<Longrightarrow>
    fd_step t (snd (FDTable_Dup2 refs lim oldfd newfd t))"
| dup3: "newfd \<le> i32_MAX \<Longrightarrow> newfd < i32_MAX \<or> lim \<le> i32_as_u64 i32_MAX \<Longrightarrow>
    fd_step t (snd (FDTable_Dup3 refs lim oldfd newfd fl t))"
| remove: "fd_step t (snd (FDTable_Remove refs fd t))"
| remove_range: "fd_step t (snd (FDTable_RemoveRange refs startfd endfd t))"
| set_flags: "fd_step t (snd (FDTable_SetFlags fd flags t))"
| set_flags_range: "fd_step t (snd (FDTable_SetFlagsForRange startfd endfd flags t))"
| close_on_exec: "hm_iter iter \<Longrightarrow> FDTable_RemoveCloseOnExec iter refs t = Ok t' \<Longrightarrow> fd_step t t'"
| fork: "hm_iter iter \<Longrightarrow> fd_step t (FDTable_Fork iter refs newUID i32_MAX t)"

inductive_cases fd_stepE: "fd_step t t'"


lemma SetFlags_internal_ok:
  assumes "fd_ok (ft_gaps t) (ft_descTbl t)"
  shows "fd_ok (ft_gaps (snd (FDTableInternal_SetFlags fd flags t)))
    (ft_descTbl (snd (FDTableInternal_SetFlags fd flags t)))"
  using assms by (auto simp: FDTableInternal_SetFlags_def fd_ok_update split: option.split)

lemma SetFlags_fold_ok:
  assumes "fd_ok (ft_gaps t) (ft_descTbl t)"
  shows "fd_ok (ft_gaps (fold (\<lambda>fd d. snd (FDTableInternal_SetFlags fd flags d)) fds' t))
    (ft_descTbl (fold (\<lambda>fd d. snd (FDTableInternal_SetFlags fd flags d)) fds' t))"
  using assms by (induction fds' arbitrary: t) (simp_all add: SetFlags_internal_ok)

lemma RemoveCloseOnExec_ok:
  assumes inv: "fd_inv t" and iter: "hm_iter iter"
  obtains t' where "FDTable_RemoveCloseOnExec iter refs t = Ok t'" "fd_inv t'" "ft_id t' = ft_id t"
    "fd_map t' = (\<lambda>fd. case fd_map t fd of None \<Rightarrow> None
      | Some d \<Rightarrow> if CloseOnExec (d_flags d) then None else Some d)"
proof -
  let ?m = "ft_descTbl (ft_data t)"
  define removed where
    "removed = map fst (filter (\<lambda>(_, d). CloseOnExec (d_flags d)) (iter ?m))"
  have ok: "fd_ok (ft_gaps (ft_data t)) ?m" and wf: "hm_wf ?m"
    using inv by (simp_all add: fd_inv_def fd_ok_def)
  have mem: "fd \<in> set removed \<longleftrightarrow> (\<exists>d. hm_get ?m fd = Some d \<and> CloseOnExec (d_flags d))" for fd
    using hm_iter_set [OF iter, of ?m] by (force simp: removed_def hm_get_iff [OF wf])
  moreover have "distinct removed"
    using hm_iter_wf [OF iter wf] unfolding removed_def hm_wf_def by (rule distinct_map_filter)
  ultimately obtain d where d: "RemoveCloseOnExec_loop refs (ft_id t) removed (ft_data t) = Ok d"
    "fd_ok (ft_gaps d) (ft_descTbl d)" "hm_get (ft_descTbl d) = hm_get ?m |` (- set removed)"
    using RemoveCloseOnExec_loop_ok [OF ok, of removed refs "ft_id t"] by blast
  show thesis
  proof (rule that)
    show "FDTable_RemoveCloseOnExec iter refs t = Ok (t\<lparr>ft_data := d\<rparr>)"
      using d(1) by (simp add: FDTable_RemoveCloseOnExec_def flip: removed_def)
    show "fd_map (t\<lparr>ft_data := d\<rparr>) = (\<lambda>fd. case fd_map t fd of None \<Rightarrow> None
      | Some d \<Rightarrow> if CloseOnExec (d_flags d) then None else Some d)"
      using d(3) mem by (auto simp: fd_map_def restrict_map_def fun_eq_iff split: option.split)
  qed (simp_all add: fd_inv_def d)
qed

lemma fd_inv_same: "fd_inv (t\<lparr>ft_data := d\<rparr>) \<longleftrightarrow> fd_ok (ft_gaps d) (ft_descTbl d)"
  by (simp add: fd_inv_def)

lemma NewFDFrom_inv:
  assumes "fd_inv t" and "fd \<le> i32_MAX"
  shows "fd_inv (snd (FDTable_NewFDFrom refs lim fd f flags t))"
proof (cases "fd < 0")
  case True
  with assms show ?thesis by (simp add: FDTable_NewFDFrom_def)
next
  case False
  then have "0 \<le> fd" by simp
  show ?thesis
    by (rule NewFDFrom_cases [OF assms(1) \<open>0 \<le> fd\<close> assms(2), of refs lim f flags]) (simp_all add: assms(1))
qed

lemma NewFDAt_inv:
  assumes "fd_inv t" and "fd \<le> i32_MAX" and "fd < i32_MAX \<or> lim \<le> i32_as_u64 i32_MAX"
  shows "fd_inv (snd (FDTable_NewFDAt refs lim fd f flags t))"
  by (rule NewFDAt_cases [OF assms, of refs f flags]) (simp_all add: assms(1))

lemma fd_step_inv:
  assumes "fd_step t t'" and inv: "fd_inv t"
  shows "fd_inv t'"
  using assms(1)
proof cases
  case (dup refs lim fd)
  then show ?thesis using NewFDFrom_inv [OF inv] inv by (auto simp: FDTable_Dup_def split: sum.split)
next
  case (dup2 newfd lim refs oldfd)
  then show ?thesis using NewFDAt_inv [OF inv, of newfd lim] inv
    by (auto simp: FDTable_Dup2_def split_def Let_def split: sum.split)
next
  case (dup3 newfd lim refs oldfd fl)
  then show ?thesis using NewFDAt_inv [OF inv, of newfd lim] inv
    by (auto simp: FDTable_Dup3_def split_def Let_def split: sum.split)
next
  case (remove refs fd)
  obtain d where "FDTableInternal_Remove refs (ft_id t) fd (ft_data t) =
      (map_option d_file (hm_get (ft_descTbl (ft_data t)) fd), d)" "fd_ok (ft_gaps d) (ft_descTbl d)"
    using FDTableInternal_Remove_ok [OF inv [unfolded fd_inv_def]] by blast
  with remove show ?thesis by (simp add: FDTable_Remove_def fd_inv_same)
next
  case (remove_range refs startfd endfd)
  obtain ret d where "RemoveRange_loop refs (ft_id t) [startfd..endfd - 1] [] (ft_data t) = (ret, d)"
    "fd_ok (ft_gaps d) (ft_descTbl d)"
    using RemoveRange_loop_ok [OF inv [unfolded fd_inv_def], of "[startfd..endfd - 1]" refs "ft_id t" "[]"]
    by auto
  with remove_range show ?thesis by (simp add: FDTable_RemoveRange_def fd_inv_same)
next
  case (set_flags fd flags)
  then show ?thesis using inv
    by (auto simp: FDTable_SetFlags_def fd_inv_def fd_ok_update split: option.split)
next
  case (set_flags_range startfd endfd flags)
  then show ?thesis using inv
    by (auto simp: FDTable_SetFlagsForRange_def fd_inv_def SetFlags_fold_ok)
next
  case (close_on_exec iter refs)
  obtain t1 where "FDTable_RemoveCloseOnExec iter refs t = Ok t1" "fd_inv t1"
    using RemoveCloseOnExec_ok [OF inv close_on_exec(1)] by blast
  with close_on_exec(2) show ?thesis by simp
next
  case (fork iter refs newUID)
  with Fork_ok [OF inv, of iter i32_MAX] show ?thesis by simp
qed (simp_all add: NewFDFrom_inv NewFDAt_inv inv)

lemma FDTable_New_inv: "fd_inv (FDTable_New uid)"
proof -
  have "range_ok (Range_New 0 (i32_as_u64 i32_MAX))" "0 < i32_as_u64 i32_MAX"
    by (simp_all add: range_ok_def unat_fd unat_order)
  from GapMgr_New_inv [OF this(2,1)] show ?thesis
    by (simp add: fd_inv_def fd_ok_def FDTable_New_def FDTableInternal_New_def addrs_fds)
qed

end
