(* ===== verification/Fd_Safe.thy ===== *)
theory Fd_Safe
  imports Fd_Table
begin

text \<open>
  What holds of every descriptor table, also after a \<^verbatim>\<open>Fork\<close> with a bound and after \<^verbatim>\<open>Clear\<close>: no
  descriptor in use is free in the gap manager, so that it is never handed out a second time. The converse,
  that every unused descriptor is free, is what a bounded \<^verbatim>\<open>Fork\<close> breaks.
\<close>

definition safe_gaps :: "gapmgr \<Rightarrow> (int, descriptor) hashmap \<Rightarrow> bool" where
  "safe_gaps g m \<longleftrightarrow> gap_inv g \<and> gm_range g = Range_New 0 (i32_as_u64 i32_MAX) \<and> hm_wf m \<and>
     dom (hm_get m) \<subseteq> fds \<and> (\<forall>fd \<in> dom (hm_get m). i32_as_u64 fd \<notin> free_ids g)"

definition fd_safe :: "fdtable \<Rightarrow> bool" where
  "fd_safe t \<longleftrightarrow> safe_gaps (ft_gaps (ft_data t)) (ft_descTbl (ft_data t))"

inductive fd_any_step :: "fdtable \<Rightarrow> fdtable \<Rightarrow> bool" where
  plain: "fd_step t t' \<Longrightarrow> fd_any_step t t'"
| bounded_fork: "hm_iter iter \<Longrightarrow> fd_any_step t (FDTable_Fork iter refs newUID maxFds t)"
| clear: "hm_iter iter \<Longrightarrow> FDTable_Clear iter refs t = Ok t' \<Longrightarrow> fd_any_step t t'"

section \<open>Gaps and entries\<close>

lemma ok_safe: "fd_ok g m \<Longrightarrow> safe_gaps g m"
proof -
  assume ok: "fd_ok g m"
  then have "i32_as_u64 fd \<notin> free_ids g" if "fd \<in> dom (hm_get m)" for fd
  proof -
    have "fd \<in> fds" using ok that unfolding fd_ok_def by blast
    with fd_free_iff [OF ok this] that show ?thesis by auto
  qed
  then show ?thesis using ok by (simp add: safe_gaps_def fd_ok_def)
qed

lemma safe_subset: "safe_gaps g m \<Longrightarrow> hm_wf m' \<Longrightarrow> dom (hm_get m') \<subseteq> dom (hm_get m) \<Longrightarrow> safe_gaps g m'"
  by (auto simp: safe_gaps_def)

lemma safe_insert:
  assumes "safe_gaps g m" and "fd \<in> fds" and "gap_inv g'" and "gm_range g' = gm_range g"
    and "free_ids g' = free_ids g - {i32_as_u64 fd}"
  shows "safe_gaps g' (hm_insert fd d m)"
  using assms by (auto simp: safe_gaps_def hm_simps)

lemma safe_update: "safe_gaps g m \<Longrightarrow> hm_get m fd = Some d \<Longrightarrow> safe_gaps g (hm_insert fd d' m)"
  by (simp add: safe_gaps_def hm_simps insert_absorb domI)

lemma safe_free:
  assumes "safe_gaps g m" and "hm_get m fd = Some d"
  shows "safe_gaps (GapMgr_Free (i32_as_u64 fd) g) (hm_remove fd m)"
proof -
  have fd: "fd \<in> fds" "i32_as_u64 fd \<notin> free_ids g" using assms by (auto simp: safe_gaps_def)
  with assms(1) have "gap_inv (GapMgr_Free (i32_as_u64 fd) g) \<and>
      gm_range (GapMgr_Free (i32_as_u64 fd) g) = gm_range g \<and>
      free_ids (GapMgr_Free (i32_as_u64 fd) g) = insert (i32_as_u64 fd) (free_ids g)"
    by (intro gm.free_taken) (auto simp: safe_gaps_def addrs_fds)
  moreover have "i32_as_u64 n \<noteq> i32_as_u64 fd" if "n \<in> dom (hm_get m)" "n \<noteq> fd" for n
    using that fd(1) assms(1) inj_onD [OF fd_inj] by (auto simp: safe_gaps_def)
  ultimately show ?thesis using assms(1) by (auto simp: safe_gaps_def hm_simps)
qed

lemma Take_taken:
  assumes inv: "gap_inv g" and "i \<notin> free_ids g"
  shows "GapMgr_Take i g = Err Panic \<or> GapMgr_Take i g = Ok g"
proof (cases "bt_ceil i (gm_map g)")
  case None
  then show ?thesis by (simp add: GapMgr_Take_def)
next
  case (Some p)
  obtain e l where p: "p = (e, l)" by (cases p)
  have wf: "bt_wf (gm_map g)" using inv by (simp add: gap_inv_def)
  then have el: "bt_get (gm_map g) e = Some l" "i \<le> e" using Some p by (auto simp: bt.ceil_Some)
  note entry = gap_entry [OF inv el(1)]
  have "\<not> Range_Contains (Range_New (e - (l - 1)) l) i"
  proof
    assume "Range_Contains (Range_New (e - (l - 1)) l) i"
    then have "i \<in> addrs (Range_New (e - (l - 1)) l)" using entry(5) by (simp add: Contains_iff)
    then have "Suc (unat e) - unat l \<le> unat i" "unat i < Suc (unat e)" using entry(4,6) by (simp_all add: addrs_def unat_order)
    then have "unat i \<in> cover (gaps (gm_map g))" by (intro coverI [OF gapsI [OF el(1), unfolded gap_of_def]]) simp_all
    then show False using assms(2) by (simp add: free_ids_def)
  qed
  then show ?thesis using Some p by (simp add: GapMgr_Take_def Range_New_def)
qed

section \<open>Operations\<close>

lemma NewFDAt_safe:
  assumes safe: "safe_gaps (ft_gaps t) (ft_descTbl t)" and fd: "fd \<in> fds"
  shows "safe_gaps (ft_gaps (snd (FDTableInternal_NewFDAt refs uid fd f flags t)))
    (ft_descTbl (snd (FDTableInternal_NewFDAt refs uid fd f flags t)))"
proof (cases "hm_get (ft_descTbl t) fd")
  case None
  have inv: "gap_inv (ft_gaps t)" using safe by (simp add: safe_gaps_def)
  show ?thesis
  proof (cases "i32_as_u64 fd \<in> free_ids (ft_gaps t)")
    case True
    from gm.take_free [OF inv this] obtain g where g: "GapMgr_Take (i32_as_u64 fd) (ft_gaps t) = Ok g"
      "gap_inv g" "gm_range g = gm_range (ft_gaps t)" "free_ids g = free_ids (ft_gaps t) - {i32_as_u64 fd}" by blast
    then show ?thesis using None safe_insert [OF safe fd g(2-4)] by (simp add: FDTableInternal_NewFDAt_def)
  next
    case False
    then have "safe_gaps (ft_gaps t) (hm_insert fd d (ft_descTbl t))" for d
      using inv by (intro safe_insert [OF safe fd]) auto
    then show ?thesis using Take_taken [OF inv False] None safe by (auto simp: FDTableInternal_NewFDAt_def)
  qed
next
  case (Some d)
  have wf: "hm_wf (ft_descTbl t)" using safe by (simp add: safe_gaps_def)
  have "safe_gaps (ft_gaps t) (hm_insert fd d' (hm_remove fd (ft_descTbl t)))" for d'
    using safe Some wf by (intro safe_subset [OF safe]) (auto simp: hm_simps)
  then show ?thesis using Some by (simp add: FDTableInternal_NewFDAt_def Let_def)
qed

lemma FDTable_NewFDAt_safe:
  assumes "fd_safe t" and "fd \<le> i32_MAX" and "fd < i32_MAX \<or> lim \<le> i32_as_u64 i32_MAX"
  shows "fd_safe (snd (FDTable_NewFDAt refs lim fd f flags t))"
proof (cases "fd < 0 \<or> lim \<le> i32_as_u64 fd")
  case True
  then show ?thesis using assms(1) by (auto simp: FDTable_NewFDAt_def)
next
  case False
  then have "i32_as_u64 fd < i32_as_u64 i32_MAX" if "lim \<le> i32_as_u64 i32_MAX" using that by (meson not_le order_less_le_trans)
  then have "fd \<in> fds" using assms(2,3) False by (auto simp: unat_order unat_fd)
  from NewFDAt_safe [OF assms(1) [unfolded fd_safe_def] this] show ?thesis
    using False by (auto simp: FDTable_NewFDAt_def fd_safe_def split_def Let_def)
qed

lemma FDTable_NewFDFrom_safe:
  assumes safe: "fd_safe t" and "fd \<le> i32_MAX"
  shows "fd_safe (snd (FDTable_NewFDFrom refs lim fd f flags t))"
proof (cases "fd < 0 \<or> i32 (fd + 1) > NewFDFrom_end lim")
  case True
  then show ?thesis using safe by (auto simp: FDTable_NewFDFrom_def Let_def)
next
  case False
  let ?g = "ft_gaps (ft_data t)" and ?m = "ft_descTbl (ft_data t)"
  have sg: "safe_gaps ?g ?m" using safe by (simp add: fd_safe_def)
  then have inv: "gap_inv ?g" by (simp add: safe_gaps_def)
  show ?thesis using inv
  proof (cases rule: gm.alloc_cases [of ?g "i32_as_u64 fd"])
    case None
    then show ?thesis using False safe by (auto simp: FDTable_NewFDFrom_def Let_def fd_safe_def)
  next
    case (Some j g')
    have "j \<in> i32_as_u64 ` fds" using gm.avail_ids [OF inv] Some(2) sg by (auto simp: safe_gaps_def addrs_fds)
    then obtain n where n: "j = i32_as_u64 n" "n \<in> fds" by blast
    then have jn: "u64_as_i32 j = n" by simp
    have "GapMgr_Free (i32_as_u64 n) g' = ?g" using gm.free_undoes_alloc [OF inv Some(1)] n(1) by simp
    moreover have "safe_gaps g' (hm_insert n d ?m)" for d
      using Some(5-7) n by (intro safe_insert [OF sg]) simp_all
    ultimately show ?thesis
      using False safe Some(1) jn by (auto simp: FDTable_NewFDFrom_def Let_def fd_safe_def)
  qed
qed

lemma FDTableInternal_Remove_safe:
  assumes "safe_gaps (ft_gaps t) (ft_descTbl t)"
  shows "safe_gaps (ft_gaps (snd (FDTableInternal_Remove refs uid fd t)))
    (ft_descTbl (snd (FDTableInternal_Remove refs uid fd t)))"
  using assms safe_free [OF assms] by (auto simp: FDTableInternal_Remove_def Let_def split: option.split)

lemma RemoveRange_loop_safe:
  "safe_gaps (ft_gaps t) (ft_descTbl t) \<Longrightarrow>
    safe_gaps (ft_gaps (snd (RemoveRange_loop refs uid fds' ret t))) (ft_descTbl (snd (RemoveRange_loop refs uid fds' ret t)))"
proof (induction fds' arbitrary: refs ret t)
  case (Cons fd fds')
  then show ?case
    using FDTableInternal_Remove_safe [OF Cons.prems, of refs uid fd] by (auto split: prod.split option.split)
qed simp

lemma RemoveCloseOnExec_loop_safe:
  "safe_gaps (ft_gaps t) (ft_descTbl t) \<Longrightarrow> RemoveCloseOnExec_loop refs uid fds' t = Ok t' \<Longrightarrow>
    safe_gaps (ft_gaps t') (ft_descTbl t')"
proof (induction fds' arbitrary: t)
  case (Cons fd fds')
  show ?case using Cons.prems(2) safe_free [OF Cons.prems(1), of fd]
    by (auto simp: Let_def split: option.splits intro!: Cons.IH)
qed simp

lemma SetFlags_fold_safe:
  assumes "safe_gaps (ft_gaps t) (ft_descTbl t)"
  shows "safe_gaps (ft_gaps (fold (\<lambda>fd d. snd (FDTableInternal_SetFlags fd flags d)) fds' t))
    (ft_descTbl (fold (\<lambda>fd d. snd (FDTableInternal_SetFlags fd flags d)) fds' t))"
  using assms
proof (induction fds' arbitrary: t)
  case (Cons fd fds')
  have "safe_gaps (ft_gaps (snd (FDTableInternal_SetFlags fd flags t))) (ft_descTbl (snd (FDTableInternal_SetFlags fd flags t)))"
    using Cons.prems by (auto simp: FDTableInternal_SetFlags_def safe_update split: option.split)
  then show ?case using Cons.IH by simp
qed simp

lemma RemoveAll_loop_safe:
  "safe_gaps (ft_gaps t) (ft_descTbl t) \<Longrightarrow> RemoveAll_loop refs uid fds' t = Ok t' \<Longrightarrow>
    safe_gaps (ft_gaps t') (ft_descTbl t')"
proof (induction fds' arbitrary: t)
  case (Cons fd fds')
  have wf: "hm_wf (ft_descTbl t)" using Cons.prems(1) by (simp add: safe_gaps_def)
  have "safe_gaps (ft_gaps t) (hm_remove fd (ft_descTbl t))"
    using wf by (intro safe_subset [OF Cons.prems(1)]) (auto simp: hm_simps)
  then show ?case using Cons.prems(2) by (auto simp: Let_def split: option.splits intro!: Cons.IH)
qed simp

lemma FDTable_Fork_safe:
  assumes safe: "fd_safe t" and iter: "hm_iter iter"
  shows "fd_safe (FDTable_Fork iter refs newUID maxFds t)"
proof -
  let ?m = "ft_descTbl (ft_data t)" and ?t0 = "\<lparr>ft_gaps = ft_gaps (ft_data t), ft_descTbl = [], ft_log = []\<rparr>"
  define kept where "kept = takeWhile (\<lambda>(fd, _). fd < maxFds) (iter ?m)"
  have wf: "hm_wf ?m" using safe by (simp add: fd_safe_def safe_gaps_def)
  have "hm_wf (iter ?m)" using hm_iter_wf [OF iter wf] .
  then have "distinct (map fst (kept @ dropWhile (\<lambda>(fd, _). fd < maxFds) (iter ?m)))"
    unfolding kept_def takeWhile_dropWhile_id hm_wf_def .
  then have "hm_wf kept" by (simp add: hm_wf_def)
  define t' where "t' = fold (\<lambda>(fd, d). FDTableInternal_set refs (ft_id t) fd (d_file d) (d_flags d)) kept ?t0"
  have "ft_gaps t' = ft_gaps (ft_data t) \<and> hm_wf (ft_descTbl t') \<and> hm_get (ft_descTbl t') = hm_get kept"
    using Fork_fold [of kept ?t0 refs "ft_id t"] \<open>hm_wf kept\<close> by (simp flip: t'_def)
  moreover have "dom (hm_get kept) \<subseteq> dom (hm_get ?m)"
    using hm_iter_set [OF iter, of ?m] by (auto simp: dom_hm_get kept_def dest: set_takeWhileD)
  moreover have "FDTable_Fork iter refs newUID maxFds t = \<lparr>ft_id = newUID, ft_data = t'\<rparr>"
    unfolding FDTable_Fork_def t'_def kept_def by simp
  ultimately show ?thesis using safe safe_subset [of "ft_gaps (ft_data t)" ?m "ft_descTbl t'"] by (simp add: fd_safe_def)
qed

section \<open>Every table is safe\<close>

lemma fd_step_safe:
  assumes "fd_step t t'" and safe: "fd_safe t"
  shows "fd_safe t'"
  using assms(1)
proof cases
  case (dup refs lim fd)
  then show ?thesis using FDTable_NewFDFrom_safe [OF safe] safe by (auto simp: FDTable_Dup_def split: sum.split)
next
  case (dup2 newfd lim refs oldfd)
  then show ?thesis using FDTable_NewFDAt_safe [OF safe, of newfd lim] safe
    by (auto simp: FDTable_Dup2_def split_def Let_def split: sum.split)
next
  case (dup3 newfd lim refs oldfd fl)
  then show ?thesis using FDTable_NewFDAt_safe [OF safe, of newfd lim] safe
    by (auto simp: FDTable_Dup3_def split_def Let_def split: sum.split)
next
  case (remove refs fd)
  then show ?thesis using FDTableInternal_Remove_safe [OF safe [unfolded fd_safe_def]]
    by (simp add: FDTable_Remove_def fd_safe_def split_def Let_def)
next
  case (remove_range refs startfd endfd)
  then show ?thesis using RemoveRange_loop_safe [OF safe [unfolded fd_safe_def]]
    by (simp add: FDTable_RemoveRange_def fd_safe_def split_def Let_def)
next
  case (set_flags fd flags)
  then show ?thesis using safe
    by (auto simp: FDTable_SetFlags_def fd_safe_def safe_update split: option.split)
next
  case (set_flags_range startfd endfd flags)
  then show ?thesis using safe SetFlags_fold_safe [OF safe [unfolded fd_safe_def]]
    by (auto simp: FDTable_SetFlagsForRange_def fd_safe_def)
next
  case (close_on_exec iter refs)
  then show ?thesis using RemoveCloseOnExec_loop_safe [OF safe [unfolded fd_safe_def]]
    by (auto simp: FDTable_RemoveCloseOnExec_def Let_def fd_safe_def and_then_def split: sum.splits)
next
  case (fork iter refs newUID)
  then show ?thesis using FDTable_Fork_safe [OF safe] by simp
qed (simp_all add: FDTable_NewFDFrom_safe FDTable_NewFDAt_safe safe)

lemma fd_any_step_safe:
  assumes "fd_any_step t t'" and safe: "fd_safe t"
  shows "fd_safe t'"
  using assms(1)
proof cases
  case plain
  then show ?thesis using safe by (rule fd_step_safe)
next
  case (bounded_fork iter refs newUID maxFds)
  then show ?thesis using FDTable_Fork_safe [OF safe] by simp
next
  case (clear iter refs)
  then show ?thesis using RemoveAll_loop_safe [OF safe [unfolded fd_safe_def]]
    by (auto simp: FDTable_Clear_def FDTableInternal_RemoveAll_def fd_safe_def and_then_def split: sum.splits)
qed

lemma FDTable_New_safe: "fd_safe (FDTable_New uid)"
  using FDTable_New_inv [of uid] by (simp add: fd_inv_def fd_safe_def ok_safe)

end
