(* ===== verification/Fd_Table_Props.thy ===== *)
theory Fd_Table_Props
  imports Fd_Safe
begin

text \<open>
  The properties of the descriptor table: the invariant of every reachable table (and with it
  the assertions of \<^verbatim>\<open>Verify\<close>), the lowest free descriptor of \<^verbatim>\<open>NewFDFrom\<close>, the effect of
  \<^verbatim>\<open>Dup2\<close>, \<^verbatim>\<open>RemoveCloseOnExec\<close>, \<^verbatim>\<open>RemoveRange\<close> and \<^verbatim>\<open>Fork\<close>, when closing a descriptor
  releases the locks of its file, and two defects: a bounded \<^verbatim>\<open>Fork\<close> leaves a table that
  panics, and a range close forgets the release.
\<close>

section \<open>Verify\<close>

lemma Verify_used_iff:
  "Verify_used tbl cur start \<longleftrightarrow>
    (\<forall>i. cur \<le> i \<and> i < start \<longrightarrow> hm_get tbl (u64_as_i32 i) \<noteq> None)"
proof (induction tbl cur start rule: Verify_used.induct)
  case (1 tbl cur start)
  show ?case
  proof (cases "cur < start")
    case True
    then have succ: "unat (cur + 1) = Suc (unat cur)" by (rule unat_succ_less)
    have le: "cur \<le> i \<longleftrightarrow> i = cur \<or> cur + 1 \<le> i" for i
      by (auto simp: unat_order succ le_less Suc_le_eq simp flip: word_eq_unat)
    have "(\<forall>i. cur \<le> i \<and> i < start \<longrightarrow> P i) \<longleftrightarrow> P cur \<and> (\<forall>i. cur + 1 \<le> i \<and> i < start \<longrightarrow> P i)" for P
      unfolding le using True by auto
    then show ?thesis using True 1
      by (subst Verify_used.simps) (auto simp del: Verify_used.simps)
  next
    case False
    then have "\<not> (cur \<le> i \<and> i < start)" for i by auto
    with False show ?thesis by (subst Verify_used.simps) auto
  qed
qed

lemma between_gaps:
  assumes inv: "gap_inv g" and m: "gm_map g = pre @ (e, l) # suf" and pre: "\<forall>p \<in> set pre. fst p < cur"
    and i: "cur \<le> i" "i < e - (l - 1)"
  shows "i \<notin> free_ids g" and "i < e"
proof -
  have wf: "bt_wf (gm_map g)" and sep: "separated (gaps (gm_map g))"
    using inv by (auto simp: gap_inv_def)
  have el: "bt_get (gm_map g) e = Some l" using wf by (simp add: bt_get_iff m)
  note entry = gap_entry [OF inv el]
  from i(2) entry(1,2,4) show "i < e" by (simp add: unat_order)
  show "i \<notin> free_ids g"
  proof
    assume "i \<in> free_ids g"
    from ceil_free [OF inv this] obtain e' l' where el': "bt_get (gm_map g) e' = Some l'"
      "Suc (unat e') - unat l' \<le> unat i" "unat i \<le> unat e'" by blast
    then have "(e', l') \<in> set pre \<or> (e', l') = (e, l) \<or> (e', l') \<in> set suf"
      using wf by (auto simp: bt_get_iff m)
    moreover have "(e', l') \<notin> set pre" using pre i(1) el'(3) by (auto simp: unat_order)
    moreover have "(e', l') \<noteq> (e, l)" using i(2) el'(2) entry(4) by (auto simp: unat_order)
    moreover have "(e', l') \<notin> set suf"
    proof
      assume "(e', l') \<in> set suf"
      then have "e < e'" using wf by (auto simp: m bt_wf_def sorted_wrt_append)
      with separated_two [OF sep gapsI [OF el, unfolded gap_of_def] gapsI [OF el'(1), unfolded gap_of_def]]
        el'(2) \<open>i < e\<close> show False by (auto simp: unat_order)
    qed
    ultimately show False by blast
  qed
qed

lemma Verify_gaps_ok:
  assumes inv: "gap_inv g" and used: "\<And>i e l. i \<notin> free_ids g \<Longrightarrow> (e, l) \<in> set (gm_map g) \<Longrightarrow> i < e \<Longrightarrow>
      hm_get tbl (u64_as_i32 i) \<noteq> None"
  shows "gm_map g = pre @ suf \<Longrightarrow> \<forall>p \<in> set pre. fst p < cur \<Longrightarrow> Verify_gaps tbl cur suf"
proof (induction suf arbitrary: pre cur)
  case (Cons p suf)
  obtain e l where p: "p = (e, l)" by (cases p)
  have wf: "bt_wf (gm_map g)" using inv by (simp add: gap_inv_def)
  have el: "bt_get (gm_map g) e = Some l" using wf Cons.prems by (simp add: bt_get_iff p)
  have m: "gm_map g = pre @ (e, l) # suf" using Cons.prems(1) p by simp
  have "Verify_used tbl cur (e - (l - 1))"
    unfolding Verify_used_iff
    using between_gaps [OF inv m Cons.prems(2)] used [of _ e l] m by (auto simp: p)
  moreover have "Verify_gaps tbl (e + 1) suf"
  proof (rule Cons.IH)
    show "gm_map g = (pre @ [p]) @ suf" using Cons.prems(1) by simp
    have "unat (e + 1) = Suc (unat e)"
      using gap_entry(3) [OF inv el] by (subst unat_add_no_wrap) auto
    moreover have "a \<le> e" if "(a, b) \<in> set (pre @ [p])" for a b
      using that wf by (auto simp: m p bt_wf_def sorted_wrt_append)
    ultimately show "\<forall>q \<in> set (pre @ [p]). fst q < e + 1" by (fastforce simp: unat_order)
  qed
  ultimately show ?case by (simp add: p)
qed simp

lemma fd_inv_Verify:
  assumes "fd_inv t"
  shows "FDTableInternal_Verify (ft_data t)"
  unfolding FDTableInternal_Verify_def
proof (rule Verify_gaps_ok [where pre = "[]"])
  let ?g = "ft_gaps (ft_data t)" and ?m = "ft_descTbl (ft_data t)"
  have ok: "fd_ok ?g ?m" using assms by (simp add: fd_inv_def)
  then show inv: "gap_inv ?g" by (simp add: fd_ok_def)
  have wf: "bt_wf (gm_map ?g)" using inv by (simp add: gap_inv_def)
  fix i e l assume i: "i \<notin> free_ids ?g" "(e, l) \<in> set (gm_map ?g)" "i < e"
  have "e \<in> free_ids ?g" using key_is_free [OF inv] i(2) wf by (auto simp: bt_get_iff)
  then obtain n where n: "e = i32_as_u64 n" "n \<in> fds" using fd_free_fd [OF ok] by blast
  have "unat i < nat n" using i(3) n by (simp add: unat_order unat_fd)
  moreover have "nat n < 2147483647" using n(2) by auto
  ultimately have "unat i < 2147483647" by linarith
  then obtain k where k: "i = i32_as_u64 k" "k \<in> fds" using fd_of_id by blast
  with fd_free_iff [OF ok k(2)] i(1) show "hm_get ?m (u64_as_i32 i) \<noteq> None" by simp
qed simp_all

section \<open>Properties\<close>


abbreviation sample_file :: File where
  "sample_file \<equiv> \<lparr>f_UniqueId = 7, f_inode = 5, f_IsDir = False, f_Write = True\<rparr>"

abbreviation no_flags :: fdflags where "no_flags \<equiv> \<lparr>CloseOnExec = False\<rparr>"

abbreviation sample_table :: fdtable where
  "sample_table \<equiv> snd (FDTable_NewFDFrom (\<lambda>_. 0) 1024 0 sample_file no_flags (FDTable_New 1))"


text \<open>
  C6. \<^verbatim>\<open>NewFDFrom\<close> returns the lowest unused descriptor at or above the requested one and binds
  it to the file, leaving every other descriptor alone; when none is left below the limit it
  fails with \<^verbatim>\<open>EMFILE\<close> and the table, the gap map included, is exactly what it was.
\<close>

theorem NewFDFrom_lowest:
  assumes "fd_inv t" and "0 \<le> fd" and "fd \<le> i32_MAX"
  shows "case FDTable_NewFDFrom refs lim fd f flags t of
      (Inl e, t') \<Rightarrow> e = SysError EMFILE \<and> t' = t \<and>
        (\<forall>n \<in> fds. fd \<le> n \<and> n < NewFDFrom_end lim \<longrightarrow> fd_map t n \<noteq> None)
    | (Inr n, t') \<Rightarrow> n \<in> fds \<and> fd \<le> n \<and> n < NewFDFrom_end lim \<and> fd_map t n = None \<and>
        (\<forall>k \<in> fds. fd \<le> k \<and> k < n \<longrightarrow> fd_map t k \<noteq> None) \<and>
        fd_map t' = (fd_map t)(n \<mapsto> \<lparr>d_file = f, d_flags = flags\<rparr>) \<and> fd_inv t'"
  by (rule NewFDFrom_cases [OF assms, of refs lim f flags]) simp_all

theorem NewFDFrom_lowest_witness:
  "FDTable_NewFDFrom (\<lambda>_. 0) 1 0 sample_file no_flags sample_table = (Err (SysError EMFILE), sample_table)"
proof -
  have inv: "fd_inv sample_table" by (rule NewFDFrom_inv [OF FDTable_New_inv]) simp
  have "isl (fst (FDTable_NewFDFrom (\<lambda>_. 0) 1 0 sample_file no_flags sample_table))" by code_simp
  with NewFDFrom_lowest [OF inv, where fd = 0 and refs = "\<lambda>_. 0" and lim = 1 and f = sample_file
      and flags = no_flags] show ?thesis
    by (cases "FDTable_NewFDFrom (\<lambda>_. 0) 1 0 sample_file no_flags sample_table")
      (auto split: sum.splits)
qed



text \<open>
  \<^verbatim>\<open>RemoveCloseOnExec\<close> succeeds, whatever the hash order, and keeps exactly the descriptors
  without the close-on-exec flag.
\<close>

theorem RemoveCloseOnExec_keeps:
  assumes "fd_inv t" and "hm_iter iter"
  shows "\<exists>t'. FDTable_RemoveCloseOnExec iter refs t = Ok t' \<and> fd_inv t' \<and>
    (\<forall>fd. fd_map t' fd = (case fd_map t fd of None \<Rightarrow> None
      | Some d \<Rightarrow> if CloseOnExec (d_flags d) then None else Some d))"
  by (rule RemoveCloseOnExec_ok [OF assms, of refs]) auto

theorem RemoveCloseOnExec_keeps_witness:
  "\<exists>t'. FDTable_RemoveCloseOnExec rev (\<lambda>_. 0) (snd (FDTable_SetFlags 0 \<lparr>CloseOnExec = True\<rparr> sample_table)) = Ok t'
    \<and> fd_map t' 0 = None"
proof -
  have inv: "fd_inv (snd (FDTable_SetFlags 0 \<lparr>CloseOnExec = True\<rparr> sample_table))"
    by (rule fd_step_inv [OF fd_step.set_flags], rule NewFDFrom_inv [OF FDTable_New_inv]) simp
  have "fd_map (snd (FDTable_SetFlags 0 \<lparr>CloseOnExec = True\<rparr> sample_table)) 0 =
      Some \<lparr>d_file = sample_file, d_flags = \<lparr>CloseOnExec = True\<rparr>\<rparr>" by code_simp
  with RemoveCloseOnExec_keeps [OF inv hm_iter_rev, of "\<lambda>_. 0"] show ?thesis by force
qed

text \<open>
  \<^verbatim>\<open>RemoveRange\<close> returns the files of the used descriptors of the range in increasing order
  of descriptor, and removes exactly these descriptors.
\<close>

theorem RemoveRange_spec:
  assumes "fd_inv t"
  shows "fst (FDTable_RemoveRange refs a b t) =
      List.map_filter (\<lambda>fd. map_option d_file (fd_map t fd)) [a..b - 1] \<and>
    fd_inv (snd (FDTable_RemoveRange refs a b t)) \<and>
    (\<forall>fd. fd_map (snd (FDTable_RemoveRange refs a b t)) fd = (if a \<le> fd \<and> fd < b then None else fd_map t fd))"
proof -
  from RemoveRange_loop_ok [OF assms [unfolded fd_inv_def], of "[a..b - 1]" refs "ft_id t" "[]"]
  obtain d where "RemoveRange_loop refs (ft_id t) [a..b - 1] [] (ft_data t) =
      (List.map_filter (\<lambda>fd. map_option d_file (fd_map t fd)) [a..b - 1], d)"
    "fd_ok (ft_gaps d) (ft_descTbl d)" "hm_get (ft_descTbl d) = fd_map t |` (- set [a..b - 1])"
    by (auto simp: fd_map_def)
  then show ?thesis by (auto simp: FDTable_RemoveRange_def fd_inv_def fd_map_def restrict_map_def)
qed

theorem RemoveRange_spec_witness:
  "fst (FDTable_RemoveRange (\<lambda>_. 0) 0 2 sample_table) = [sample_file] \<and>
   fd_map (snd (FDTable_RemoveRange (\<lambda>_. 0) 0 2 sample_table)) 0 = None"
proof -
  have inv: "fd_inv sample_table" by (rule NewFDFrom_inv [OF FDTable_New_inv]) simp
  have "List.map_filter (\<lambda>fd. map_option d_file (fd_map sample_table fd)) [0..2 - 1] = [sample_file]"
    by code_simp
  with RemoveRange_spec [OF inv, of "\<lambda>_. 0" 0 2] show ?thesis by simp
qed

text \<open>
  C8. An unbounded \<^verbatim>\<open>Fork\<close> (the argument \<^verbatim>\<open>i32::MAX\<close> that \<^verbatim>\<open>clone\<close> passes) copies every descriptor,
  whatever the hash order, performs no effect on the files, and the copy satisfies the
  invariant.
\<close>

theorem Fork_copies:
  assumes "fd_inv t" and "hm_iter iter"
  shows "fd_inv (FDTable_Fork iter refs newUID i32_MAX t) \<and>
    fd_map (FDTable_Fork iter refs newUID i32_MAX t) = fd_map t \<and>
    ft_id (FDTable_Fork iter refs newUID i32_MAX t) = newUID"
  by (rule Fork_ok [OF assms]) simp

theorem Fork_copies_witness:
  "fd_map (FDTable_Fork rev (\<lambda>_. 0) 9 i32_MAX sample_table) 0 =
     Some \<lparr>d_file = sample_file, d_flags = no_flags\<rparr> \<and>
   fd_inv (FDTable_Fork rev (\<lambda>_. 0) 9 i32_MAX sample_table)"
proof -
  have inv: "fd_inv sample_table" by (rule NewFDFrom_inv [OF FDTable_New_inv]) simp
  have "fd_map sample_table 0 = Some \<lparr>d_file = sample_file, d_flags = no_flags\<rparr>" by code_simp
  with Fork_copies [OF inv hm_iter_rev, of "\<lambda>_. 0" 9] show ?thesis by simp
qed

text \<open>
  A bounded \<^verbatim>\<open>Fork\<close>, as \<^verbatim>\<open>close_range\<close> with \<^verbatim>\<open>CLOSE_RANGE_UNSHARE\<close> performs it, leaves the
  identifiers of the descriptors it does not copy taken in the gap manager. Installing a file
  at such a descriptor in the copy then panics: here descriptors 0 and 1 are open, the copy
  keeps those below 1, and \<^verbatim>\<open>NewFDAt\<close> of descriptor 1 fails the gap manager's assertion.
\<close>

theorem Fork_bounded_panics:
  "fst (FDTable_NewFDAt (\<lambda>_. 0) 1024 1 sample_file no_flags
     (FDTable_Fork (\<lambda>m. m) (\<lambda>_. 0) 9 1 (snd (FDTable_Dup (\<lambda>_. 0) 1024 0 sample_table)))) = Err Panic"
  by code_simp

text \<open>
  Closing a descriptor: an unused one changes nothing; a used one is removed, and the POSIX
  locks the table holds on the file are released, with a close event for watchers, exactly when
  no other descriptor and no other handle refers to the file.
\<close>

theorem Remove_releases:
  assumes "fd_inv t"
  shows "case fd_map t fd of
      None \<Rightarrow> FDTable_Remove refs fd t = (None, t)
    | Some d \<Rightarrow>
        fst (FDTable_Remove refs fd t) = Some (d_file d) \<and>
        fd_map (snd (FDTable_Remove refs fd t)) = (fd_map t)(fd := None) \<and>
        ft_log (ft_data (snd (FDTable_Remove refs fd t))) = ft_log (ft_data t) @
          (if refs (d_file d) = 0 \<and> (\<forall>fd' d'. fd_map t fd' = Some d' \<and> d_file d' = d_file d \<longrightarrow> fd' = fd)
           then [UnlockPosix (f_inode (d_file d)) (ft_id t) Range_Max,
                 Inotify (f_inode (d_file d)) ((if f_IsDir (d_file d) then 0x40000000 else 0) OR
                   (if f_Write (d_file d) then 0x8 else 0x10))]
           else [])"
proof -
  let ?m = "ft_descTbl (ft_data t)"
  from assms have ok: "fd_ok (ft_gaps (ft_data t)) ?m" and wf: "hm_wf ?m"
    by (simp_all add: fd_inv_def fd_ok_def)
  have neg: "fd_map t fd = None" if "fd < 0"
    using ok that unfolding fd_ok_def fd_map_def by (auto simp: domIff subset_iff)
  show ?thesis
  proof (cases "fd_map t fd")
    case None
    then show ?thesis by (simp add: FDTable_Remove_def FDTableInternal_Remove_def fd_map_def)
  next
    case (Some d)
    have "filter (\<lambda>(_, d'). d_file d' = d_file d) (hm_remove fd ?m) = [] \<longleftrightarrow>
        (\<forall>fd' d'. hm_get (hm_remove fd ?m) fd' = Some d' \<longrightarrow> d_file d' \<noteq> d_file d)"
      using hm.wf_remove [OF wf, of fd] by (auto simp: hm_get_iff filter_empty_conv)
    also have "\<dots> \<longleftrightarrow> (\<forall>fd' d'. fd_map t fd' = Some d' \<and> d_file d' = d_file d \<longrightarrow> fd' = fd)"
      using wf by (auto simp: hm_simps fd_map_def)
    finally have last: "strong_count (hold (d_file d) refs) (hm_remove fd ?m) (d_file d) = 1 \<longleftrightarrow>
        refs (d_file d) = 0 \<and> (\<forall>fd' d'. fd_map t fd' = Some d' \<and> d_file d' = d_file d \<longrightarrow> fd' = fd)"
      by (simp add: strong_count_def hold_def)
    have "\<not> fd < 0" using neg Some by auto
    then have run: "FDTable_Remove refs fd t = (Some (d_file d), t\<lparr>ft_data :=
        FDTableInternal_Drop (hold (d_file d) refs) (ft_id t) (d_file d)
          ((ft_data t)\<lparr>ft_descTbl := hm_remove fd ?m,
            ft_gaps := GapMgr_Free (i32_as_u64 fd) (ft_gaps (ft_data t))\<rparr>)\<rparr>)"
      using Some by (simp add: FDTable_Remove_def FDTableInternal_Remove_def Let_def fd_map_def)
    have log: "ft_log (ft_data (snd (FDTable_Remove refs fd t))) = ft_log (ft_data t) @
        (if strong_count (hold (d_file d) refs) (hm_remove fd ?m) (d_file d) = 1
         then [UnlockPosix (f_inode (d_file d)) (ft_id t) Range_Max, Inotify (f_inode (d_file d))
           ((if f_IsDir (d_file d) then 0x40000000 else 0) OR (if f_Write (d_file d) then 0x8 else 0x10))]
         else [])"
      by (simp add: run FDTableInternal_Drop_def Let_def)
    have "fd_map (snd (FDTable_Remove refs fd t)) = (fd_map t)(fd := None)"
      using wf by (simp add: run fd_map_def hm_simps)
    moreover have "fst (FDTable_Remove refs fd t) = Some (d_file d)" by (simp add: run)
    ultimately show ?thesis
      unfolding Some option.case log last by blast
  qed
qed

theorem Remove_releases_witness:
  "ft_log (ft_data (snd (FDTable_Remove (\<lambda>_. 0) 0 sample_table))) =
     [UnlockPosix 5 1 Range_Max, Inotify 5 8]"
proof -
  have inv: "fd_inv sample_table" by (rule NewFDFrom_inv [OF FDTable_New_inv]) simp
  have t: "fd_map sample_table fd' = (if fd' = 0 then Some \<lparr>d_file = sample_file, d_flags = no_flags\<rparr> else None)" for fd'
  proof -
    have "ft_descTbl (ft_data sample_table) = [(0, \<lparr>d_file = sample_file, d_flags = no_flags\<rparr>)]"
      by code_simp
    then show ?thesis by (simp add: fd_map_def hm_get_def)
  qed
  have "ft_log (ft_data sample_table) = [] \<and> ft_id sample_table = 1" by code_simp
  with Remove_releases [OF inv, where fd = 0 and refs = "\<lambda>_. 0"] t show ?thesis by (auto split: if_splits)
qed

text \<open>
  A range close keeps the handles it has removed until its end, so a file that is open at two
  descriptors of the range is never seen as released: its locks stay and no close event is
  sent, although nothing else refers to it. Closing the two descriptors one by one does both.
\<close>

theorem RemoveRange_forgets_release:
  "let t = snd (FDTable_Dup (\<lambda>_. 0) 1024 0 sample_table) in
     ft_log (ft_data (snd (FDTable_RemoveRange (\<lambda>_. 0) 0 2 t))) = [] \<and>
     ft_log (ft_data (snd (FDTable_Remove (\<lambda>_. 0) 1 (snd (FDTable_Remove (\<lambda>_. 0) 0 t))))) =
       [UnlockPosix 5 1 Range_Max, Inotify 5 8]"
  by code_simp

text \<open>
  \<^verbatim>\<open>GetLastFd\<close> is the highest open descriptor, as long as the topmost descriptor of the table is
  not itself open.
\<close>

theorem GetLastFd_highest:
  assumes inv: "fd_inv t" and top: "fd_map t 2147483646 = None" and used: "fd_map t fd \<noteq> None"
  shows "fd_map t (FDTable_GetLastFd t) \<noteq> None \<and> fd \<le> FDTable_GetLastFd t"
proof -
  let ?g = "ft_gaps (ft_data t)" and ?m = "ft_descTbl (ft_data t)"
  have ok: "fd_ok ?g ?m" and ginv: "gap_inv ?g" using inv by (simp_all add: fd_inv_def fd_ok_def)
  have top_free: "i32_as_u64 2147483646 \<in> free_ids ?g"
    using fd_free_iff [OF ok, of 2147483646] top by (simp add: fd_map_def)
  then obtain r where r: "GapMgr_LastGap ?g = Some r"
    using gap_Last_None [OF ginv] by (cases "GapMgr_LastGap ?g") auto
  note last = gap_Last_Some [OF ginv r]
  have "dom (hm_get ?m) \<subseteq> fds" using ok by (simp add: fd_ok_def)
  then have fd1: "fd \<in> fds" using used by (auto simp: fd_map_def)
  with fd_free_iff [OF ok fd1] used have fd: "fd \<in> fds" "i32_as_u64 fd \<notin> free_ids ?g"
    by (simp_all add: fd_map_def)
  have "i32_as_u64 2147483646 < Range_End r" using last(4) top_free by blast
  then have "i32_as_u64 fd < Range_End r" using fd(1) by (auto simp: unat_order unat_fd)
  moreover have "i32_as_u64 fd \<notin> addrs r" using last(3) fd(2) by blast
  ultimately have lt: "unat (i32_as_u64 fd) < unat (r_start r)" by (simp add: addrs_def unat_order)
  have start_free: "r_start r \<in> free_ids ?g"
    using last(1-3) start_less_End [of r] by (auto simp: addrs_def)
  then obtain n where n: "r_start r = i32_as_u64 n" "n \<in> fds" using fd_free_fd [OF ok] by blast
  then have "fd < n" using lt fd(1) by (auto simp: unat_fd)
  then have pred: "r_start r - 1 = i32_as_u64 (n - 1)" "n - 1 \<in> fds"
    using n fd(1) by (auto simp: i32_as_u64_def)
  have "Suc (unat (i32_as_u64 (n - 1))) = unat (r_start r)"
    using n \<open>fd < n\<close> fd(1) by (simp add: unat_fd)
  have "i32_as_u64 (n - 1) \<notin> free_ids ?g" using last(5) \<open>Suc _ = _\<close> by blast
  then have "fd_map t (n - 1) \<noteq> None" using fd_free_iff [OF ok pred(2)] by (simp add: fd_map_def)
  moreover have "FDTable_GetLastFd t = n - 1"
    using lt pred(2) by (auto simp: FDTable_GetLastFd_def r pred(1) unat_order)
  ultimately show ?thesis using \<open>fd < n\<close> by simp
qed

theorem GetLastFd_highest_witness:
  "FDTable_GetLastFd (snd (FDTable_Dup2 (\<lambda>_. 0) 1024 0 4 sample_table)) = 4 \<and>
   fd_map (snd (FDTable_Dup2 (\<lambda>_. 0) 1024 0 4 sample_table)) 4 \<noteq> None"
proof -
  let ?t = "snd (FDTable_Dup2 (\<lambda>_. 0) 1024 0 4 sample_table)"
  have inv: "fd_inv ?t"
    by (rule fd_step_inv [OF fd_step.dup2], simp, simp add: unat_order unat_fd,
      rule NewFDFrom_inv [OF FDTable_New_inv]) simp
  have "fd_map ?t 2147483646 = None" "fd_map ?t 4 \<noteq> None" "FDTable_GetLastFd ?t = 4" by code_simp+
  with GetLastFd_highest [OF inv, of 4] show ?thesis by simp
qed

end
