(* ===== verification/Auth.thy ===== *)
theory Auth
  imports BTree_Map
begin

text \<open>
  User and group identifiers, capability sets, user namespaces and credentials:
  \<^verbatim>\<open>qlib/auth/id.rs\<close>, \<^verbatim>\<open>cap_set.rs\<close>, \<^verbatim>\<open>userns.rs\<close> and \<^verbatim>\<open>mod.rs\<close>.

  A \<^verbatim>\<open>UserNameSpace\<close> is a shared mutable object. The namespaces live in a store, a list indexed by
  address; a handle is an address, \<^verbatim>\<open>Arc::ptr_eq\<close> equality of addresses, and \<^verbatim>\<open>Arc::new\<close> appends.
  The walks to the root are partial functions into \<^typ>\<open>'a option\<close>, where \<open>None\<close> stands for a walk that
  does not return; \<open>ns_wf\<close> (a parent is older than its children) is kept by every operation and
  makes all of them return.
\<close>

section \<open>Identifiers\<close>

type_synonym UID = u32
type_synonym GID = u32
type_synonym KUID = u32
type_synonym KGID = u32

definition NO_ID :: u32 where "NO_ID = u32_MAX"
definition OVERFLOW_UID :: UID where "OVERFLOW_UID = 65534"
definition OVERFLOW_GID :: GID where "OVERFLOW_GID = 65534"
definition NOBODY_KUID :: KUID where "NOBODY_KUID = 65534"
definition NOBODY_KGID :: KGID where "NOBODY_KGID = 65534"
definition ROOT_KUID :: KUID where "ROOT_KUID = 0"
definition ROOT_KGID :: KGID where "ROOT_KGID = 0"

definition UID_Ok :: "UID \<Rightarrow> bool" where "UID_Ok uid \<longleftrightarrow> uid \<noteq> NO_ID"
definition UID_OrOverflow :: "UID \<Rightarrow> UID" where
  "UID_OrOverflow uid = (if UID_Ok uid then uid else OVERFLOW_UID)"
definition GID_Ok :: "GID \<Rightarrow> bool" where "GID_Ok gid \<longleftrightarrow> gid \<noteq> NO_ID"
definition GID_OrOverflow :: "GID \<Rightarrow> GID" where
  "GID_OrOverflow gid = (if GID_Ok gid then gid else OVERFLOW_GID)"
definition KUID_Ok :: "KUID \<Rightarrow> bool" where "KUID_Ok kuid \<longleftrightarrow> kuid \<noteq> NO_ID"
definition KGID_Ok :: "KGID \<Rightarrow> bool" where "KGID_Ok kgid \<longleftrightarrow> kgid \<noteq> NO_ID"

section \<open>Capability sets\<close>

type_synonym CapSet = u64

definition CAP_CHOWN :: u64 where "CAP_CHOWN = 0"
definition CAP_SETGID :: u64 where "CAP_SETGID = 6"
definition CAP_SETUID :: u64 where "CAP_SETUID = 7"
definition CAP_IPC_OWNER :: u64 where "CAP_IPC_OWNER = 15"
definition CAP_LAST_CAP :: u64 where "CAP_LAST_CAP = 37"

definition ALL_CAP :: CapSet where
  "ALL_CAP = push_bit (unat CAP_LAST_CAP) 1 - 1"

text \<open>A shift by a run-time amount takes the amount modulo the width.\<close>

definition CapSet_New :: "u64 \<Rightarrow> CapSet" where
  "CapSet_New cap = push_bit (unat cap mod 64) 1"

definition CapSet_NewWithCaps :: "u64 list \<Rightarrow> CapSet" where
  "CapSet_NewWithCaps caps = fold (\<lambda>cap mask. mask OR push_bit (unat cap mod 64) 1) caps 0"

definition MaskOf64 :: "u64 \<Rightarrow> u64" where
  "MaskOf64 i = push_bit (unat i mod 64) 1"

definition CapSetOf :: "u64 \<Rightarrow> CapSet" where
  "CapSetOf cp = MaskOf64 cp"

definition CapabilitySetOfMany :: "u64 list \<Rightarrow> CapSet" where
  "CapabilitySetOfMany cps = fold (\<lambda>cp cs. cs OR MaskOf64 cp) cps 0"

record task_caps =
  tc_PermittedCaps :: CapSet
  tc_InheritableCaps :: CapSet
  tc_EffectiveCaps :: CapSet
  tc_BoundingCaps :: CapSet
  tc_AmbientCaps :: CapSet

section \<open>Identifier maps\<close>

record id_map_entry =
  FirstFromId :: u32
  FirstToId :: u32
  Len :: u32

type_synonym id_map = "(u32, id_map_entry) btree"

definition IdMap_AddEntry :: "u32 \<Rightarrow> u32 \<Rightarrow> u32 \<Rightarrow> id_map \<Rightarrow> id_map result" where
  "IdMap_AddEntry from to len m =
    (let i = (if from < to then to else from)
     in if u32_MAX - len < i then Err (SysError EINVAL)
        else Ok (bt_insert from \<lparr>FirstFromId = from, FirstToId = to, Len = len\<rparr> m))"

definition IdMap_All :: "id_map result" where
  "IdMap_All = (case IdMap_AddEntry 0 0 u32_MAX [] of Inl _ \<Rightarrow> Err Panic | Inr m \<Rightarrow> Ok m)"

definition IdMap_RemoveAll :: "id_map \<Rightarrow> id_map" where
  "IdMap_RemoveAll m = []"

definition IdMap_Map :: "id_map \<Rightarrow> u32 \<Rightarrow> u32" where
  "IdMap_Map m i =
    (case bt_floor i m of
       None \<Rightarrow> NO_ID
     | Some (_, v) \<Rightarrow>
        if i < FirstFromId v \<or> i \<ge> FirstFromId v + Len v then NO_ID
        else i - FirstFromId v + FirstToId v)"

definition IdMap_IsEmpty :: "id_map \<Rightarrow> bool" where
  "IdMap_IsEmpty m \<longleftrightarrow> m = []"

section \<open>User namespaces\<close>

record user_ns =
  ns_parent :: "nat option"
  ns_owner :: KUID
  uidMapFromParent :: id_map
  uidMapToParent :: id_map
  gidMapFromParent :: id_map
  gidMapToParent :: id_map

type_synonym ns_store = "user_ns list"

definition ns_at :: "ns_store \<Rightarrow> nat \<Rightarrow> user_ns option" where
  "ns_at s a = (if a < length s then Some (s ! a) else None)"

definition UserNameSpace_GetIDMap :: "id_map \<Rightarrow> id_map_entry list" where
  "UserNameSpace_GetIDMap m = map snd m"

definition UserNameSpace_UIDMap :: "ns_store \<Rightarrow> nat \<Rightarrow> id_map_entry list option" where
  "UserNameSpace_UIDMap s a = map_option (\<lambda>ns. UserNameSpace_GetIDMap (uidMapToParent ns)) (ns_at s a)"

definition UserNameSpace_GIDMap :: "ns_store \<Rightarrow> nat \<Rightarrow> id_map_entry list option" where
  "UserNameSpace_GIDMap s a = map_option (\<lambda>ns. UserNameSpace_GetIDMap (gidMapToParent ns)) (ns_at s a)"

definition NewRootUserNamespace :: "ns_store \<Rightarrow> (nat \<times> ns_store) result" where
  "NewRootUserNamespace s =
    and_then IdMap_All (\<lambda>m.
      Ok (length s, s @ [\<lparr>ns_parent = None, ns_owner = NOBODY_KUID,
        uidMapFromParent = m, uidMapToParent = m, gidMapFromParent = m, gidMapToParent = m\<rparr>]))"

fun UserNameSpace_trySetUidMap :: "id_map_entry list \<Rightarrow> user_ns \<Rightarrow> unit result \<times> user_ns" where
  "UserNameSpace_trySetUidMap [] me = (Ok (), me)"
| "UserNameSpace_trySetUidMap (e # entries) me =
    (case IdMap_AddEntry (FirstFromId e) (FirstToId e) (Len e) (uidMapToParent me) of
       Inl err \<Rightarrow> (Err err, me)
     | Inr m \<Rightarrow>
        (let me = me\<lparr>uidMapToParent := m\<rparr>
         in case IdMap_AddEntry (FirstToId e) (FirstFromId e) (Len e) (uidMapFromParent me) of
              Inl err \<Rightarrow> (Err err, me)
            | Inr m \<Rightarrow> UserNameSpace_trySetUidMap entries (me\<lparr>uidMapFromParent := m\<rparr>)))"

fun UserNameSpace_trySetGidMap :: "id_map_entry list \<Rightarrow> user_ns \<Rightarrow> unit result \<times> user_ns" where
  "UserNameSpace_trySetGidMap [] me = (Ok (), me)"
| "UserNameSpace_trySetGidMap (e # entries) me =
    (case IdMap_AddEntry (FirstFromId e) (FirstToId e) (Len e) (gidMapToParent me) of
       Inl err \<Rightarrow> (Err err, me)
     | Inr m \<Rightarrow>
        (let me = me\<lparr>gidMapToParent := m\<rparr>
         in case IdMap_AddEntry (FirstToId e) (FirstFromId e) (Len e) (gidMapFromParent me) of
              Inl err \<Rightarrow> (Err err, me)
            | Inr m \<Rightarrow> UserNameSpace_trySetGidMap entries (me\<lparr>gidMapFromParent := m\<rparr>)))"

partial_function (option) MapFromKUID :: "ns_store \<Rightarrow> nat \<Rightarrow> KUID \<Rightarrow> UID option" where
  [code]: "MapFromKUID s a kuid =
    Option.bind (ns_at s a) (\<lambda>me.
      case ns_parent me of
        None \<Rightarrow> Some kuid
      | Some parent \<Rightarrow>
          Option.bind (MapFromKUID s parent kuid) (\<lambda>i. Some (IdMap_Map (uidMapFromParent me) i)))"

partial_function (option) MapFromKGID :: "ns_store \<Rightarrow> nat \<Rightarrow> KGID \<Rightarrow> GID option" where
  [code]: "MapFromKGID s a kgid =
    Option.bind (ns_at s a) (\<lambda>me.
      case ns_parent me of
        None \<Rightarrow> Some kgid
      | Some parent \<Rightarrow>
          Option.bind (MapFromKGID s parent kgid) (\<lambda>i. Some (IdMap_Map (gidMapFromParent me) i)))"

partial_function (option) MapToKUID :: "ns_store \<Rightarrow> nat \<Rightarrow> UID \<Rightarrow> KUID option" where
  [code]: "MapToKUID s a uid =
    Option.bind (ns_at s a) (\<lambda>me.
      case ns_parent me of
        None \<Rightarrow> Some uid
      | Some parent \<Rightarrow>
          Option.bind (MapToKUID s parent uid) (\<lambda>i. Some (IdMap_Map (uidMapToParent me) i)))"

partial_function (option) MapToKGID :: "ns_store \<Rightarrow> nat \<Rightarrow> GID \<Rightarrow> KGID option" where
  [code]: "MapToKGID s a gid =
    Option.bind (ns_at s a) (\<lambda>me.
      case ns_parent me of
        None \<Rightarrow> Some gid
      | Some parent \<Rightarrow>
          Option.bind (MapToKGID s parent gid) (\<lambda>i. Some (IdMap_Map (gidMapToParent me) i)))"

definition UserNameSpace_Parent :: "ns_store \<Rightarrow> nat \<Rightarrow> nat option" where
  "UserNameSpace_Parent s a = Option.bind (ns_at s a) ns_parent"

partial_function (option) UserNameSpace_Root :: "ns_store \<Rightarrow> nat \<Rightarrow> nat option" where
  [code]: "UserNameSpace_Root s cur =
    Option.bind (ns_at s cur) (\<lambda>ns.
      case ns_parent ns of
        None \<Rightarrow> Some cur
      | Some p \<Rightarrow> UserNameSpace_Root s p)"

partial_function (option) Depth_loop :: "ns_store \<Rightarrow> nat \<Rightarrow> nat \<Rightarrow> nat option" where
  [code]: "Depth_loop s i a =
    Option.bind (ns_at s a) (\<lambda>ns.
      case ns_parent ns of
        None \<Rightarrow> Some (i + 1)
      | Some n \<Rightarrow> Depth_loop s (i + 1) n)"

definition UserNameSpace_Depth :: "ns_store \<Rightarrow> nat \<Rightarrow> nat option" where
  "UserNameSpace_Depth s a = Depth_loop s 0 a"

definition KUID_In :: "ns_store \<Rightarrow> KUID \<Rightarrow> nat \<Rightarrow> UID option" where
  "KUID_In s kuid ns = MapFromKUID s ns kuid"

definition KGID_In :: "ns_store \<Rightarrow> KGID \<Rightarrow> nat \<Rightarrow> GID option" where
  "KGID_In s kgid ns = MapFromKGID s ns kgid"

section \<open>Credentials\<close>

record credentials =
  RealKUID :: KUID
  EffectiveKUID :: KUID
  SavedKUID :: KUID
  RealKGID :: KGID
  EffectiveKGID :: KGID
  SavedKGID :: KGID
  ExtraKGIDs :: "KGID list"
  PermittedCaps :: CapSet
  InheritableCaps :: CapSet
  EffectiveCaps :: CapSet
  BoundingCaps :: CapSet
  KeepCaps :: bool
  UserNamespace :: nat

record file_owner =
  fo_UID :: KUID
  fo_GID :: KGID

definition Credentials_InGroup :: "credentials \<Rightarrow> KGID \<Rightarrow> bool" where
  "Credentials_InGroup c kgid \<longleftrightarrow> EffectiveKGID c = kgid \<or> kgid \<in> set (ExtraKGIDs c)"

partial_function (option) HasCapabilityIn :: "ns_store \<Rightarrow> credentials \<Rightarrow> u64 \<Rightarrow> nat \<Rightarrow> bool option" where
  [code]: "HasCapabilityIn s c cp ns =
    (if UserNamespace c = ns then Some (CapSet_New cp AND EffectiveCaps c \<noteq> 0)
     else Option.bind (ns_at s ns) (\<lambda>nsInternal.
       case ns_parent nsInternal of
         None \<Rightarrow> Some False
       | Some parent \<Rightarrow>
           if UserNamespace c = parent \<and> EffectiveKUID c = ns_owner nsInternal then Some True
           else HasCapabilityIn s c cp parent))"

definition HasCapability :: "ns_store \<Rightarrow> credentials \<Rightarrow> u64 \<Rightarrow> bool option" where
  "HasCapability s c cp = HasCapabilityIn s c cp (UserNamespace c)"

definition Credentials_copy :: "credentials \<Rightarrow> credentials" where
  "Credentials_copy c =
    \<lparr>RealKUID = RealKUID c, EffectiveKUID = EffectiveKUID c, SavedKUID = SavedKUID c,
     RealKGID = RealKGID c, EffectiveKGID = EffectiveKGID c, SavedKGID = SavedKGID c,
     ExtraKGIDs = map (\<lambda>i. ExtraKGIDs c ! i) [0..<length (ExtraKGIDs c)],
     PermittedCaps = PermittedCaps c, InheritableCaps = InheritableCaps c,
     EffectiveCaps = EffectiveCaps c, BoundingCaps = BoundingCaps c, KeepCaps = KeepCaps c,
     UserNamespace = UserNamespace c\<rparr>"

definition NewAnaoCredentials :: "ns_store \<Rightarrow> (credentials \<times> ns_store) result" where
  "NewAnaoCredentials s =
    and_then (NewRootUserNamespace s) (\<lambda>(ns, s).
      Ok (\<lparr>RealKUID = NOBODY_KUID, EffectiveKUID = NOBODY_KUID, SavedKUID = NOBODY_KUID,
        RealKGID = NOBODY_KGID, EffectiveKGID = NOBODY_KGID, SavedKGID = NOBODY_KGID,
        ExtraKGIDs = [], PermittedCaps = CapSet_New 0, InheritableCaps = CapSet_New 0,
        EffectiveCaps = CapSet_New 0, BoundingCaps = CapSet_New 0, KeepCaps = False,
        UserNamespace = ns\<rparr>, s))"

definition NewRootCredentials :: "nat \<Rightarrow> credentials" where
  "NewRootCredentials userns =
    \<lparr>RealKUID = ROOT_KUID, EffectiveKUID = ROOT_KUID, SavedKUID = ROOT_KUID,
     RealKGID = ROOT_KGID, EffectiveKGID = ROOT_KGID, SavedKGID = ROOT_KGID,
     ExtraKGIDs = [], PermittedCaps = ALL_CAP, InheritableCaps = CapSet_New 0,
     EffectiveCaps = ALL_CAP, BoundingCaps = ALL_CAP, KeepCaps = False, UserNamespace = userns\<rparr>"

definition NewUserCredentials ::
    "KUID \<Rightarrow> KGID \<Rightarrow> KGID list \<Rightarrow> task_caps option \<Rightarrow> nat \<Rightarrow> credentials" where
  "NewUserCredentials kuid kgid extraKGIDs caps userns =
    (let c = NewRootCredentials userns;
         c = c\<lparr>RealKUID := kuid, EffectiveKUID := kuid, SavedKUID := kuid,
               RealKGID := kgid, EffectiveKGID := kgid, SavedKGID := kgid,
               ExtraKGIDs := ExtraKGIDs c @ extraKGIDs\<rparr>
     in case caps of
          Some caps \<Rightarrow>
            c\<lparr>PermittedCaps := tc_PermittedCaps caps, EffectiveCaps := tc_EffectiveCaps caps,
              BoundingCaps := tc_BoundingCaps caps, InheritableCaps := tc_InheritableCaps caps\<rparr>
        | None \<Rightarrow>
            (let c = (if kuid = ROOT_KUID
                      then c\<lparr>PermittedCaps := ALL_CAP, EffectiveCaps := ALL_CAP\<rparr>
                      else c\<lparr>PermittedCaps := CapSet_New 0, EffectiveCaps := CapSet_New 0\<rparr>)
             in c\<lparr>BoundingCaps := ALL_CAP\<rparr>))"

definition Credentials_Fork :: "credentials \<Rightarrow> credentials" where
  "Credentials_Fork c = Credentials_copy c"

definition Credentials_FileOwner :: "credentials \<Rightarrow> file_owner" where
  "Credentials_FileOwner c = \<lparr>fo_UID = EffectiveKUID c, fo_GID = EffectiveKGID c\<rparr>"

definition UseUID :: "ns_store \<Rightarrow> credentials \<Rightarrow> UID \<Rightarrow> KUID result option" where
  "UseUID s me uid =
    Option.bind (MapToKUID s (UserNamespace me) uid) (\<lambda>kuid.
      if \<not> KUID_Ok kuid then Some (Err (SysError EINVAL))
      else Option.bind (HasCapability s me CAP_SETUID) (\<lambda>priv.
        if priv then Some (Ok kuid)
        else if kuid = RealKUID me \<or> kuid = EffectiveKUID me \<or> kuid = SavedKUID me then Some (Ok kuid)
        else Some (Err (SysError EPERM))))"

definition UseGID :: "ns_store \<Rightarrow> credentials \<Rightarrow> GID \<Rightarrow> KGID result option" where
  "UseGID s me gid =
    Option.bind (MapToKGID s (UserNamespace me) gid) (\<lambda>kgid.
      if \<not> KGID_Ok kgid then Some (Err (SysError EINVAL))
      else Option.bind (HasCapability s me CAP_SETGID) (\<lambda>priv.
        if priv then Some (Ok kgid)
        else if kgid = RealKGID me \<or> kgid = EffectiveKGID me \<or> kgid = SavedKGID me then Some (Ok kgid)
        else Some (Err (SysError EPERM))))"

definition MAX_USER_NAMESPACE_DEPTH :: nat where "MAX_USER_NAMESPACE_DEPTH = 32"

definition NewChildUserNamespace :: "ns_store \<Rightarrow> credentials \<Rightarrow> (nat \<times> ns_store) result option" where
  "NewChildUserNamespace s me =
    (let ns = UserNamespace me
     in Option.bind (UserNameSpace_Depth s ns) (\<lambda>depth.
          if depth \<ge> MAX_USER_NAMESPACE_DEPTH then Some (Err (SysError EUSERS))
          else Option.bind (KUID_In s (EffectiveKUID me) ns) (\<lambda>uid.
            if \<not> UID_Ok uid then Some (Err (SysError EPERM))
            else Some (Ok (length s, s @ [\<lparr>ns_parent = Some ns, ns_owner = EffectiveKUID me,
              uidMapFromParent = [], uidMapToParent = [],
              gidMapFromParent = [], gidMapToParent = []\<rparr>])))))"

end
