(* ===== verification/Auth_Props.thy ===== *)
theory Auth_Props
  imports Auth
begin

text \<open>
  Properties of identifier maps, user namespaces and credentials. \<open>ns_wf\<close> and the bound on the
  depth hold in every store that the operations build; under it each walk to the root returns,
  capability checks have a closed form, and identifiers survive the way into a namespace and
  back.
\<close>

section \<open>Namespace trees\<close>

definition ns_wf :: "ns_store \<Rightarrow> bool" where
  "ns_wf s \<longleftrightarrow> (\<forall>a < length s. \<forall>p. ns_parent (s ! a) = Some p \<longrightarrow> p < a)"

function ns_chain :: "ns_store \<Rightarrow> nat \<Rightarrow> nat list" where
  "ns_chain s a =
    (if a < length s
     then a # (case ns_parent (s ! a) of None \<Rightarrow> [] | Some p \<Rightarrow> if p < a then ns_chain s p else [])
     else [])"
  by pat_completeness auto
termination by (relation "measure snd") auto

declare ns_chain.simps [simp del]

lemma ns_induct [consumes 2, case_names root child]:
  assumes wf: "ns_wf s" and a: "a < length s"
    and root: "\<And>a. a < length s \<Longrightarrow> ns_parent (s ! a) = None \<Longrightarrow> P a"
    and child: "\<And>a p. a < length s \<Longrightarrow> ns_parent (s ! a) = Some p \<Longrightarrow> p < a \<Longrightarrow> P p \<Longrightarrow> P a"
  shows "P a"
  using a
proof (induction a rule: less_induct)
  case (less a)
  show ?case
  proof (cases "ns_parent (s ! a)")
    case None
    with less.prems show ?thesis by (rule root)
  next
    case (Some p)
    with wf less.prems have "p < a" unfolding ns_wf_def by blast
    with less show ?thesis by (intro child [OF less.prems Some]) auto
  qed
qed

lemma ns_at_Some [simp]: "a < length s \<Longrightarrow> ns_at s a = Some (s ! a)"
  by (simp add: ns_at_def)

lemma chain_root: "a < length s \<Longrightarrow> ns_parent (s ! a) = None \<Longrightarrow> ns_chain s a = [a]"
  by (subst ns_chain.simps) simp

lemma chain_child:
  "a < length s \<Longrightarrow> ns_parent (s ! a) = Some p \<Longrightarrow> p < a \<Longrightarrow> ns_chain s a = a # ns_chain s p"
  by (subst ns_chain.simps) simp

lemma chain_le: "ns_wf s \<Longrightarrow> a < length s \<Longrightarrow> n \<in> set (ns_chain s a) \<Longrightarrow> n \<le> a"
  by (induction a rule: ns_induct) (auto simp: chain_root chain_child)

lemma MapToKUID_returns: "ns_wf s \<Longrightarrow> a < length s \<Longrightarrow> \<exists>k. MapToKUID s a uid = Some k"
  by (induction a rule: ns_induct) (subst MapToKUID.simps; auto)+

lemma MapToKGID_returns: "ns_wf s \<Longrightarrow> a < length s \<Longrightarrow> \<exists>k. MapToKGID s a gid = Some k"
  by (induction a rule: ns_induct) (subst MapToKGID.simps; auto)+

lemma MapFromKUID_returns: "ns_wf s \<Longrightarrow> a < length s \<Longrightarrow> \<exists>k. MapFromKUID s a kuid = Some k"
  by (induction a rule: ns_induct) (subst MapFromKUID.simps; auto)+

lemma Depth_loop_chain:
  "ns_wf s \<Longrightarrow> a < length s \<Longrightarrow> Depth_loop s i a = Some (i + length (ns_chain s a))"
proof (induction a arbitrary: i rule: ns_induct)
  case (root a)
  then show ?case by (subst Depth_loop.simps) (simp add: chain_root)
next
  case (child a p)
  then show ?case by (subst Depth_loop.simps) (simp add: chain_child)
qed

lemma Depth_chain: "ns_wf s \<Longrightarrow> a < length s \<Longrightarrow> UserNameSpace_Depth s a = Some (length (ns_chain s a))"
  by (simp add: UserNameSpace_Depth_def Depth_loop_chain)

lemma Root_chain: "ns_wf s \<Longrightarrow> a < length s \<Longrightarrow> UserNameSpace_Root s a = Some (last (ns_chain s a))"
proof (induction a rule: ns_induct)
  case (root a)
  then show ?case by (subst UserNameSpace_Root.simps) (simp add: chain_root)
next
  case (child a p)
  then have "ns_chain s p \<noteq> []" by (subst ns_chain.simps) auto
  with child show ?case by (subst UserNameSpace_Root.simps) (simp add: chain_child)
qed

lemma HasCapabilityIn_chain:
  assumes "ns_wf s" and "a < length s"
  shows "HasCapabilityIn s c cp a = Some (UserNamespace c \<in> set (ns_chain s a) \<and>
    (CapSet_New cp AND EffectiveCaps c \<noteq> 0 \<or>
     (\<exists>n \<in> set (ns_chain s a). ns_parent (s ! n) = Some (UserNamespace c) \<and> ns_owner (s ! n) = EffectiveKUID c)))"
  using assms
proof (induction a rule: ns_induct)
  case (root a)
  then show ?case by (subst HasCapabilityIn.simps) (auto simp: chain_root)
next
  case (child a p)
  show ?case
  proof (cases "UserNamespace c = a")
    case True
    have "\<not> (\<exists>n \<in> set (ns_chain s a). ns_parent (s ! n) = Some a)"
    proof safe
      fix n assume n: "n \<in> set (ns_chain s a)" "ns_parent (s ! n) = Some a"
      then have "n \<le> a" using chain_le [OF assms(1) child(1)] by blast
      moreover have "a < n" using assms(1) n(2) child(1) \<open>n \<le> a\<close> unfolding ns_wf_def by auto
      ultimately show False by simp
    qed
    with True child show ?thesis by (subst HasCapabilityIn.simps) (auto simp: chain_child)
  next
    case False
    have "p < length s" using child by simp
    have p: "p \<in> set (ns_chain s p)" using \<open>p < length s\<close> by (subst ns_chain.simps) simp
    show ?thesis using False child p by (subst HasCapabilityIn.simps) (auto simp: chain_child)
  qed
qed

section \<open>Stores built by the operations\<close>

definition ns_inv :: "ns_store \<Rightarrow> bool" where
  "ns_inv s \<longleftrightarrow> ns_wf s \<and> (\<forall>a < length s. length (ns_chain s a) \<le> MAX_USER_NAMESPACE_DEPTH)"

inductive ns_step :: "ns_store \<Rightarrow> ns_store \<Rightarrow> bool" where
  new_root: "NewRootUserNamespace s = Ok (a, s') \<Longrightarrow> ns_step s s'"
| new_child: "UserNamespace c < length s \<Longrightarrow> NewChildUserNamespace s c = Some (Ok (a, s')) \<Longrightarrow> ns_step s s'"
| set_uid_map: "a < length s \<Longrightarrow> ns_step s (s[a := snd (UserNameSpace_trySetUidMap entries (s ! a))])"
| set_gid_map: "a < length s \<Longrightarrow> ns_step s (s[a := snd (UserNameSpace_trySetGidMap entries (s ! a))])"

lemma chain_parents:
  assumes "ns_wf s" and "a < length s" and "length s \<le> length s'"
    and "\<And>n. n < length s \<Longrightarrow> ns_parent (s' ! n) = ns_parent (s ! n)"
  shows "ns_chain s' a = ns_chain s a"
  using assms(1,2)
proof (induction a rule: ns_induct)
  case (root a)
  with assms show ?case by (simp add: chain_root)
next
  case (child a p)
  with assms show ?case by (simp add: chain_child)
qed

lemma trySetUidMap_parent: "ns_parent (snd (UserNameSpace_trySetUidMap entries me)) = ns_parent me"
  by (induction entries me rule: UserNameSpace_trySetUidMap.induct)
    (auto simp: Let_def split: sum.split)

lemma trySetGidMap_parent: "ns_parent (snd (UserNameSpace_trySetGidMap entries me)) = ns_parent me"
  by (induction entries me rule: UserNameSpace_trySetGidMap.induct)
    (auto simp: Let_def split: sum.split)

lemma ns_inv_update:
  assumes inv: "ns_inv s" and "a < length s" and "ns_parent me = ns_parent (s ! a)"
  shows "ns_inv (s[a := me])"
proof -
  have par: "ns_parent (s[a := me] ! n) = ns_parent (s ! n)" if "n < length s" for n
    using assms that by (simp add: nth_list_update)
  then have "ns_chain (s[a := me]) n = ns_chain s n" if "n < length s" for n
    using inv that by (intro chain_parents) (simp_all add: ns_inv_def)
  with inv par show ?thesis by (auto simp: ns_inv_def ns_wf_def)
qed

lemma ns_inv_append:
  assumes inv: "ns_inv s" and p: "\<And>p. ns_parent me = Some p \<Longrightarrow> p < length s \<and>
    length (ns_chain s p) < MAX_USER_NAMESPACE_DEPTH"
  shows "ns_inv (s @ [me])"
proof -
  have wf: "ns_wf (s @ [me])"
    using inv p by (auto simp: ns_inv_def ns_wf_def nth_append less_Suc_eq)
  have old: "ns_chain (s @ [me]) n = ns_chain s n" if "n < length s" for n
    using inv that by (intro chain_parents) (simp_all add: ns_inv_def nth_append)
  have "length (ns_chain (s @ [me]) (length s)) \<le> MAX_USER_NAMESPACE_DEPTH"
  proof (cases "ns_parent me")
    case None
    then show ?thesis by (subst chain_root) (simp_all add: MAX_USER_NAMESPACE_DEPTH_def)
  next
    case (Some p)
    with assms(2) [OF Some] old [of p] show ?thesis by (subst chain_child [of _ _ p]) simp_all
  qed
  with wf old inv show ?thesis by (auto simp: ns_inv_def less_Suc_eq)
qed

lemma ns_step_inv:
  assumes "ns_step s s'" and inv: "ns_inv s"
  shows "ns_inv s'"
  using assms(1)
proof cases
  case (new_root a)
  then show ?thesis using inv
    by (auto simp: NewRootUserNamespace_def result_simps intro!: ns_inv_append)
next
  case (new_child c a)
  have wf: "ns_wf s" using inv by (simp add: ns_inv_def)
  from new_child(2) Depth_chain [OF wf new_child(1)]
  obtain me where "s' = s @ [me]" "ns_parent me = Some (UserNamespace c)"
    "length (ns_chain s (UserNamespace c)) < MAX_USER_NAMESPACE_DEPTH"
    by (auto simp: NewChildUserNamespace_def Let_def bind_eq_Some_conv split: if_splits)
  with new_child(1) ns_inv_append [OF inv, of me] show ?thesis by simp
next
  case (set_uid_map a entries)
  with inv show ?thesis by (auto intro!: ns_inv_update simp: trySetUidMap_parent)
next
  case (set_gid_map a entries)
  with inv show ?thesis by (auto intro!: ns_inv_update simp: trySetGidMap_parent)
qed

section \<open>Identifier maps\<close>

definition id_ranges :: "(u32, id_map_entry) btree \<Rightarrow> bool" where
  "id_ranges m \<longleftrightarrow> bt_wf m \<and>
    (\<forall>k e. bt_get m k = Some e \<longrightarrow> FirstFromId e = k \<and> unat k + unat (Len e) < 2 ^ 32) \<and>
    (\<forall>k e k' e'. bt_get m k = Some e \<and> bt_get m k' = Some e' \<and> k < k' \<longrightarrow> unat k + unat (Len e) \<le> unat k')"

lemma IdMap_Map_in:
  assumes m: "id_ranges m" and e: "bt_get m k = Some e"
    and i: "unat k \<le> unat i" "unat i < unat k + unat (Len e)"
  shows "IdMap_Map m i = i - k + FirstToId e"
proof -
  have wf: "bt_wf m" and ok: "FirstFromId e = k" "unat k + unat (Len e) < 2 ^ 32"
    using m e by (auto simp: id_ranges_def)
  have "b \<le> k" if "bt_get m b = Some v" "b \<le> i" for b v
  proof (rule ccontr)
    assume "\<not> b \<le> k"
    then have "unat k + unat (Len e) \<le> unat b" using m e that by (auto simp: id_ranges_def not_le)
    with i that(2) show False by (simp add: unat_order)
  qed
  then have "bt_floor i m = Some (k, e)"
    using wf e i by (auto simp: bt.floor_Some unat_order)
  moreover have "unat (k + Len e) = unat k + unat (Len e)" using ok(2) by (intro unat_add_no_wrap) simp
  ultimately show ?thesis using ok i by (simp add: IdMap_Map_def unat_order)
qed

lemma IdMap_Map_out:
  assumes m: "id_ranges m"
    and i: "\<And>k e. bt_get m k = Some e \<Longrightarrow> \<not> (unat k \<le> unat i \<and> unat i < unat k + unat (Len e))"
  shows "IdMap_Map m i = NO_ID"
proof (cases "bt_floor i m")
  case None
  then show ?thesis by (simp add: IdMap_Map_def)
next
  case (Some p)
  then obtain k e where p: "p = (k, e)" by (cases p)
  have wf: "bt_wf m" using m by (simp add: id_ranges_def)
  with Some p have e: "bt_get m k = Some e" "k \<le> i" by (auto simp: bt.floor_Some)
  then have ok: "FirstFromId e = k" "unat k + unat (Len e) < 2 ^ 32" using m by (auto simp: id_ranges_def)
  have "unat (k + Len e) = unat k + unat (Len e)" using ok(2) by (intro unat_add_no_wrap) simp
  with i [OF e(1)] e(2) ok Some p show ?thesis by (auto simp: IdMap_Map_def unat_order)
qed

definition swap_entry :: "id_map_entry \<Rightarrow> id_map_entry" where
  "swap_entry e = \<lparr>FirstFromId = FirstToId e, FirstToId = FirstFromId e, Len = Len e\<rparr>"

lemma entry_eta [simp]: "\<lparr>FirstFromId = FirstFromId e, FirstToId = FirstToId e, Len = Len e\<rparr> = e"
  by (cases e) simp

lemma AddEntry_Ok:
  "IdMap_AddEntry f t l m = Ok m' \<longleftrightarrow> unat f + unat l < 2 ^ 32 \<and> unat t + unat l < 2 ^ 32 \<and>
    m' = bt_insert f \<lparr>FirstFromId = f, FirstToId = t, Len = l\<rparr> m"
proof -
  have "unat (u32_MAX - l) = 4294967295 - unat l" by (subst unat_sub_le) (simp_all add: unsigned_minus_1_eq_mask mask_eq_exp_minus_1)
  moreover have "unat l < 4294967296" using unsigned_less [of l] by simp
  ultimately show ?thesis by (auto simp: IdMap_AddEntry_def Let_def unat_order)
qed

lemma trySetUidMap_Ok:
  assumes "UserNameSpace_trySetUidMap es me = (Ok (), me')"
  shows "uidMapToParent me' = fold (\<lambda>(k, v). bt_insert k v) (map (\<lambda>e. (FirstFromId e, e)) es) (uidMapToParent me) \<and>
    uidMapFromParent me' =
      fold (\<lambda>(k, v). bt_insert k v) (map (\<lambda>e. (FirstToId e, swap_entry e)) es) (uidMapFromParent me) \<and>
    (\<forall>e \<in> set es. unat (FirstFromId e) + unat (Len e) < 2 ^ 32 \<and> unat (FirstToId e) + unat (Len e) < 2 ^ 32)"
  using assms
proof (induction es arbitrary: me)
  case (Cons e es)
  obtain m1 where m1: "IdMap_AddEntry (FirstFromId e) (FirstToId e) (Len e) (uidMapToParent me) = Ok m1"
    using Cons.prems by (auto split: sum.splits)
  then obtain m2 where m2: "IdMap_AddEntry (FirstToId e) (FirstFromId e) (Len e) (uidMapFromParent me) = Ok m2"
    using Cons.prems by (auto simp: Let_def split: sum.splits)
  have "UserNameSpace_trySetUidMap es (me\<lparr>uidMapToParent := m1, uidMapFromParent := m2\<rparr>) = (Ok (), me')"
    using Cons.prems m1 m2 by (simp add: Let_def)
  from Cons.IH [OF this] m1 m2 show ?case by (simp add: AddEntry_Ok swap_entry_def)
qed simp

definition apart :: "(id_map_entry \<Rightarrow> u32) \<Rightarrow> id_map_entry list \<Rightarrow> bool" where
  "apart f es \<longleftrightarrow> (\<forall>x \<in> set es. 0 < Len x) \<and> (\<forall>x \<in> set es. \<forall>y \<in> set es. x = y \<or>
     unat (f x) + unat (Len x) \<le> unat (f y) \<or> unat (f y) + unat (Len y) \<le> unat (f x))"

lemma apart_inj: "apart f es \<Longrightarrow> x \<in> set es \<Longrightarrow> y \<in> set es \<Longrightarrow> f x = f y \<Longrightarrow> x = y"
  unfolding apart_def by (fastforce simp: unat_order)

lemma map_of_entries:
  assumes "\<And>x y. x \<in> set es \<Longrightarrow> y \<in> set es \<Longrightarrow> f x = f y \<Longrightarrow> x = y"
  shows "map_of (rev (map (\<lambda>e. (f e, g e)) es)) k = Some v \<longleftrightarrow> (\<exists>e \<in> set es. f e = k \<and> g e = v)"
  using assms
proof (induction es rule: rev_induct)
  case (snoc x es)
  have IH: "map_of (rev (map (\<lambda>e. (f e, g e)) es)) k = Some v \<longleftrightarrow> (\<exists>e \<in> set es. f e = k \<and> g e = v)"
    by (rule snoc.IH) (simp add: snoc.prems)
  show ?case
  proof (cases "f x = k")
    case True
    then have "e = x" if "e \<in> set es" "f e = k" for e using snoc.prems [of e x] that by simp
    with True show ?thesis by auto
  next
    case False
    with IH show ?thesis by auto
  qed
qed simp

lemma entries_ranges:
  assumes apart: "apart f es" and g: "\<And>e. FirstFromId (g e) = f e \<and> Len (g e) = Len e"
    and fits: "\<forall>e \<in> set es. unat (f e) + unat (Len e) < 2 ^ 32"
  defines "m \<equiv> fold (\<lambda>(k, v). bt_insert k v) (map (\<lambda>e. (f e, g e)) es) []"
  shows "id_ranges m" and "bt_get m k = Some v \<longleftrightarrow> (\<exists>e \<in> set es. f e = k \<and> g e = v)"
proof -
  have "bt_get m = map_of (rev (map (\<lambda>e. (f e, g e)) es)) \<and> bt_wf m"
    unfolding m_def using bt.get_fold_insert [of "[]" "map (\<lambda>e. (f e, g e)) es"] by simp
  then have wf: "bt_wf m" and get: "\<And>k v. bt_get m k = Some v \<longleftrightarrow> (\<exists>e \<in> set es. f e = k \<and> g e = v)"
    using map_of_entries [of es f g] apart_inj [OF apart] by simp_all
  show "bt_get m k = Some v \<longleftrightarrow> (\<exists>e \<in> set es. f e = k \<and> g e = v)" by (rule get)
  have "unat (f x) + unat (Len x) \<le> unat (f y)" if "x \<in> set es" "y \<in> set es" "f x < f y" for x y
    using apart that unfolding apart_def by (fastforce simp: unat_order)
  with wf g fits show "id_ranges m" by (auto simp: id_ranges_def get)
qed

lemma MapToKUID_child:
  "a < length s \<Longrightarrow> ns_parent (s ! a) = Some r \<Longrightarrow> r < length s \<Longrightarrow> ns_parent (s ! r) = None \<Longrightarrow>
    MapToKUID s a i = Some (IdMap_Map (uidMapToParent (s ! a)) i) \<and>
    MapFromKUID s a i = Some (IdMap_Map (uidMapFromParent (s ! a)) i)"
  by (simp add: MapToKUID.simps MapFromKUID.simps)

section \<open>Properties\<close>


abbreviation sample_root :: user_ns where
  "sample_root \<equiv> \<lparr>ns_parent = None, ns_owner = 65534,
    uidMapFromParent = [(0, \<lparr>FirstFromId = 0, FirstToId = 0, Len = u32_MAX\<rparr>)],
    uidMapToParent = [(0, \<lparr>FirstFromId = 0, FirstToId = 0, Len = u32_MAX\<rparr>)],
    gidMapFromParent = [], gidMapToParent = []\<rparr>"

abbreviation mapped_ns :: "nat \<Rightarrow> u32 \<Rightarrow> u32 \<Rightarrow> u32 \<Rightarrow> user_ns" where
  "mapped_ns p from to len \<equiv> \<lparr>ns_parent = Some p, ns_owner = 0,
    uidMapFromParent = [(to, \<lparr>FirstFromId = to, FirstToId = from, Len = len\<rparr>)],
    uidMapToParent = [(from, \<lparr>FirstFromId = from, FirstToId = to, Len = len\<rparr>)],
    gidMapFromParent = [], gidMapToParent = []\<rparr>"


text \<open>
  In a namespace two levels below the root the translation to host identifiers applies the
  maps in the wrong order. Here the middle namespace maps 0..9 to host 100..109 and the inner
  one maps 0..4 to 5..9 of the middle: host identifier 105 is the inner root, but the inner root
  has no host identifier.
\<close>

theorem MapToKUID_nested_order:
  "MapFromKUID [sample_root, mapped_ns 0 0 100 10, mapped_ns 1 0 5 5] 2 105 = Some 0 \<and>
   MapToKUID [sample_root, mapped_ns 0 0 100 10, mapped_ns 1 0 5 5] 2 0 = Some NO_ID"
  by code_simp

text \<open>
  C10. In every store that the operations build, each walk to the root returns and no namespace
  is nested deeper than the limit of 32.
\<close>

theorem ns_reachable_depth:
  assumes "ns_step\<^sup>*\<^sup>* [] s" and "a < length s"
  shows "(\<exists>d. UserNameSpace_Depth s a = Some d \<and> 1 \<le> d \<and> d \<le> MAX_USER_NAMESPACE_DEPTH) \<and>
    (\<exists>r. UserNameSpace_Root s a = Some r) \<and> (\<exists>k. MapToKUID s a i = Some k) \<and>
    (\<exists>u. MapFromKUID s a i = Some u)"
proof -
  have "ns_inv []" by (simp add: ns_inv_def ns_wf_def)
  with assms(1) have "ns_inv s" by (induction rule: rtranclp_induct) (auto intro: ns_step_inv)
  then have wf: "ns_wf s" and "length (ns_chain s a) \<le> MAX_USER_NAMESPACE_DEPTH"
    using assms(2) by (simp_all add: ns_inv_def)
  moreover have "1 \<le> length (ns_chain s a)" using assms(2) by (subst ns_chain.simps) simp
  ultimately show ?thesis
    using assms(2) by (simp add: Depth_chain Root_chain MapToKUID_returns MapFromKUID_returns)
qed

theorem ns_reachable_depth_witness:
  "\<exists>s. ns_step\<^sup>*\<^sup>* [] s \<and> length s = 1 \<and> (\<exists>d. UserNameSpace_Depth s 0 = Some d \<and> d \<le> 32)"
proof -
  obtain s a where s: "NewRootUserNamespace [] = Ok (a, s)" "length s = 1"
    by (auto simp: NewRootUserNamespace_def IdMap_All_def IdMap_AddEntry_def)
  then have step: "ns_step\<^sup>*\<^sup>* [] s" by (intro r_into_rtranclp ns_step.new_root)
  with s(2) ns_reachable_depth [OF step, of 0 0] show ?thesis
    by (auto simp: MAX_USER_NAMESPACE_DEPTH_def)
qed

text \<open>
  C11. A capability check with respect to a namespace returns, and succeeds exactly when the
  holder's namespace is that namespace or one of its ancestors and either the capability is in
  the effective set or the holder owns the child of its namespace on the way.
\<close>

theorem HasCapabilityIn_spec:
  assumes "ns_wf s" and "ns < length s"
  shows "HasCapabilityIn s c cp ns = Some (UserNamespace c \<in> set (ns_chain s ns) \<and>
    (CapSet_New cp AND EffectiveCaps c \<noteq> 0 \<or>
     (\<exists>n \<in> set (ns_chain s ns). ns_parent (s ! n) = Some (UserNamespace c) \<and> ns_owner (s ! n) = EffectiveKUID c)))"
  using assms by (rule HasCapabilityIn_chain)

theorem HasCapabilityIn_spec_witness:
  "HasCapabilityIn [sample_root, mapped_ns 0 0 100 10] (NewRootCredentials 0) 21 1 = Some True"
proof -
  have wf: "ns_wf [sample_root, mapped_ns 0 0 100 10]" by (auto simp: ns_wf_def less_Suc_eq)
  have "0 \<in> set (ns_chain [sample_root, mapped_ns 0 0 100 10] 1)" by code_simp
  moreover have "CapSet_New 21 AND EffectiveCaps (NewRootCredentials 0) \<noteq> 0"
    "UserNamespace (NewRootCredentials 0) = 0" by code_simp+
  ultimately show ?thesis using HasCapabilityIn_spec [OF wf, of 1 "NewRootCredentials 0" 21] by simp
qed



text \<open>
  The capabilities of a user created without explicit capability sets: root has every
  capability below \<^verbatim>\<open>CAP_LAST_CAP\<close> but not that one, and every other user, meant to have none,
  has exactly capability 0, \<^verbatim>\<open>CAP_CHOWN\<close>.
\<close>

theorem NewUserCredentials_capabilities:
  "HasCapability s (NewUserCredentials kuid kgid extra None ns) cp =
     Some (if kuid = ROOT_KUID then unat cp mod 64 < 37 else unat cp mod 64 = 0)"
proof -
  have bit: "CapSet_New cp AND w \<noteq> 0 \<longleftrightarrow> bit w (unat cp mod 64)" for w
    unfolding CapSet_New_def using and_bit_nonzero [of "unat cp mod 64" w] by (simp add: and.commute)
  have all: "ALL_CAP = mask 37" by (simp add: ALL_CAP_def CAP_LAST_CAP_def mask_eq_exp_minus_1)
  have "bit ALL_CAP (unat cp mod 64) \<longleftrightarrow> unat cp mod 64 < 37"
    unfolding all bit_mask_iff possible_bit_word by auto
  moreover have "CapSet_New 0 = 1" by (simp add: CapSet_New_def)
  then have "bit (CapSet_New 0) (unat cp mod 64) \<longleftrightarrow> unat cp mod 64 = 0" by (simp add: bit_1_iff)
  ultimately show ?thesis
    by (simp add: HasCapability_def HasCapabilityIn.simps NewUserCredentials_def Let_def bit)
qed

end
