(* ===== verification/Permissions.thy ===== *)
theory Permissions
  imports Quark_Prelude
begin

text \<open>
  Permission masks, file modes and file permissions of \<^verbatim>\<open>qlib/linux_def.rs\<close> (\<^verbatim>\<open>PermMask\<close>,
  \<^verbatim>\<open>FileMode\<close>, \<^verbatim>\<open>FilePermissions\<close>), with the round trip between modes and permissions. A mode is
  a 16 bit word.
\<close>

section \<open>PermMask\<close>

record perm_mask =
  pm_read :: bool
  pm_write :: bool
  pm_execute :: bool

definition PermMask_default :: perm_mask where
  "PermMask_default = \<lparr>pm_read = False, pm_write = False, pm_execute = False\<rparr>"

definition PermMask_NewReadWrite :: perm_mask where
  "PermMask_NewReadWrite = \<lparr>pm_read = True, pm_write = True, pm_execute = False\<rparr>"

definition PermMask_FromFlags :: "u32 \<Rightarrow> perm_mask" where
  "PermMask_FromFlags m =
    (let res = PermMask_default;
         res = (if m AND 0x200 \<noteq> 0 then res\<lparr>pm_write := True\<rparr> else res);
         v = m AND 3
     in if v = 1 then res\<lparr>pm_write := True\<rparr>
        else if v = 2 then res\<lparr>pm_write := True, pm_read := True\<rparr>
        else if v = 0 then res\<lparr>pm_read := True\<rparr>
        else res)"

definition PermMask_OnlyRead :: "perm_mask \<Rightarrow> bool" where
  "PermMask_OnlyRead p \<longleftrightarrow> pm_read p \<and> \<not> pm_write p \<and> \<not> pm_execute p"

definition PermMask_Mode :: "perm_mask \<Rightarrow> u32" where
  "PermMask_Mode p =
    (let ret = 0;
         ret = (if pm_read p then ret OR 4 else ret);
         ret = (if pm_write p then ret OR 2 else ret);
         ret = (if pm_execute p then ret OR 1 else ret)
     in ret)"

definition PermMask_SupersetOf :: "perm_mask \<Rightarrow> perm_mask \<Rightarrow> bool" where
  "PermMask_SupersetOf p other =
    (if \<not> pm_read p \<and> pm_read other then False
     else if \<not> pm_write p \<and> pm_write other then False
     else if \<not> pm_execute p \<and> pm_execute other then False
     else True)"

section \<open>FileMode\<close>

type_synonym FileMode = u16

definition FileMode_Permission :: "FileMode \<Rightarrow> FileMode" where
  "FileMode_Permission m = m AND 0x1FF"

definition FileMode_FileType :: "FileMode \<Rightarrow> FileMode" where
  "FileMode_FileType m = m AND 0xF000"

definition FileMode_ExtraBits :: "FileMode \<Rightarrow> FileMode" where
  "FileMode_ExtraBits m = m AND NOT (0x1FF OR 0xF000)"

definition FileMode_OtherRead :: "FileMode \<Rightarrow> bool" where
  "FileMode_OtherRead m \<longleftrightarrow> m AND 4 \<noteq> 0"

definition FileMode_OtherWrite :: "FileMode \<Rightarrow> bool" where
  "FileMode_OtherWrite m \<longleftrightarrow> m AND 2 \<noteq> 0"

definition FileMode_OtherExec :: "FileMode \<Rightarrow> bool" where
  "FileMode_OtherExec m \<longleftrightarrow> m AND 1 \<noteq> 0"

definition FileMode_Sticky :: "FileMode \<Rightarrow> bool" where
  "FileMode_Sticky m \<longleftrightarrow> (ucast m :: u32) AND 0x200 = 0x200"

definition FileMode_SetUID :: "FileMode \<Rightarrow> bool" where
  "FileMode_SetUID m \<longleftrightarrow> (ucast m :: u32) AND 0x800 = 0x800"

definition FileMode_SetGID :: "FileMode \<Rightarrow> bool" where
  "FileMode_SetGID m \<longleftrightarrow> (ucast m :: u32) AND 0x400 = 0x400"

definition PermMask_FromMode :: "FileMode \<Rightarrow> perm_mask" where
  "PermMask_FromMode m =
    \<lparr>pm_read = FileMode_OtherRead m, pm_write = FileMode_OtherWrite m, pm_execute = FileMode_OtherExec m\<rparr>"

definition FileMode_Perms :: "u16 \<Rightarrow> perm_mask" where
  "FileMode_Perms mode = \<lparr>pm_read = mode AND 4 \<noteq> 0, pm_write = mode AND 2 \<noteq> 0, pm_execute = mode AND 1 \<noteq> 0\<rparr>"

text \<open>Directory entry types, and the access rights of open flags (\<^verbatim>\<open>Flags\<close>, an \<^verbatim>\<open>i32\<close>).\<close>

definition FileMode_DirentType :: "FileMode \<Rightarrow> u8" where
  "FileMode_DirentType m =
    (let t = FileMode_FileType m
     in if t = 0xC000 then 12 else if t = 0xA000 then 10 else if t = 0x8000 then 8 else if t = 0x6000 then 6
        else if t = 0x4000 then 4 else if t = 0x2000 then 2 else if t = 0x1000 then 1 else 0)"

definition DType_ModeType :: "u8 \<Rightarrow> u16" where
  "DType_ModeType t =
    (if t = 12 then 0xC000 else if t = 10 then 0xA000 else if t = 8 then 0x8000 else if t = 6 then 0x6000
     else if t = 4 then 0x4000 else if t = 2 then 0x2000 else if t = 1 then 0x1000 else 0x8000)"

definition Flags_Sync :: "int \<Rightarrow> bool" where "Flags_Sync f \<longleftrightarrow> f AND 0x100000 \<noteq> 0"
definition Flags_NonBlocking :: "int \<Rightarrow> bool" where "Flags_NonBlocking f \<longleftrightarrow> f AND 0x800 \<noteq> 0"
definition Flags_Read :: "int \<Rightarrow> bool" where "Flags_Read f \<longleftrightarrow> f AND 3 \<noteq> 1"
definition Flags_Write :: "int \<Rightarrow> bool" where "Flags_Write f \<longleftrightarrow> f AND 3 \<noteq> 0"
definition Flags_Append :: "int \<Rightarrow> bool" where "Flags_Append f \<longleftrightarrow> f AND 0x400 \<noteq> 0"

definition Flags_ToPermission :: "int \<Rightarrow> perm_mask result" where
  "Flags_ToPermission f =
    (let res = \<lparr>pm_read = False, pm_write = False, pm_execute = False\<rparr>;
         res = (if f AND 0x200 \<noteq> 0 then res\<lparr>pm_write := True\<rparr> else res);
         access = f AND 3
     in if access = 1 then Ok (res\<lparr>pm_write := True\<rparr>)
        else if access = 2 then Ok (res\<lparr>pm_write := True, pm_read := True\<rparr>)
        else if access = 0 then Ok (res\<lparr>pm_read := True\<rparr>)
        else Err Panic)"

section \<open>FilePermissions\<close>

record file_permissions =
  fp_User :: perm_mask
  fp_Group :: perm_mask
  fp_Other :: perm_mask
  fp_Sticky :: bool
  fp_SetUid :: bool
  fp_SetGid :: bool

definition FileMode_FilePerms :: "FileMode \<Rightarrow> file_permissions" where
  "FileMode_FilePerms m =
    (let perm = FileMode_Permission m
     in \<lparr>fp_User = FileMode_Perms (drop_bit 6 perm), fp_Group = FileMode_Perms (drop_bit 3 perm),
         fp_Other = FileMode_Perms perm, fp_Sticky = (m AND 0x200 = 0x200),
         fp_SetUid = (m AND 0x800 = 0x800), fp_SetGid = (m AND 0x400 = 0x400)\<rparr>)"

definition FilePermissions_FromMode :: "FileMode \<Rightarrow> file_permissions" where
  "FilePermissions_FromMode mode =
    (let perm = FileMode_Permission mode
     in \<lparr>fp_User = PermMask_FromMode (drop_bit 6 perm), fp_Group = PermMask_FromMode (drop_bit 3 perm),
         fp_Other = PermMask_FromMode perm, fp_Sticky = FileMode_Sticky mode,
         fp_SetUid = FileMode_SetUID mode, fp_SetGid = FileMode_SetGID mode\<rparr>)"

definition FilePermissions_LinuxMode :: "file_permissions \<Rightarrow> u32" where
  "FilePermissions_LinuxMode p =
    (let m = push_bit 6 (PermMask_Mode (fp_User p)) OR push_bit 3 (PermMask_Mode (fp_Group p)) OR
             PermMask_Mode (fp_Other p);
         m = (if fp_SetUid p then m OR 0x800 else m);
         m = (if fp_SetUid p then m OR 0x400 else m);
         m = (if fp_Sticky p then m OR 0x200 else m)
     in m)"

definition FilePermissions_AnyExec :: "file_permissions \<Rightarrow> bool" where
  "FilePermissions_AnyExec p \<longleftrightarrow> pm_execute (fp_User p) \<or> pm_execute (fp_Group p) \<or> pm_execute (fp_Other p)"

definition FilePermissions_AnyWrite :: "file_permissions \<Rightarrow> bool" where
  "FilePermissions_AnyWrite p \<longleftrightarrow> pm_write (fp_User p) \<or> pm_write (fp_Group p) \<or> pm_write (fp_Other p)"

definition FilePermissions_AnyRead :: "file_permissions \<Rightarrow> bool" where
  "FilePermissions_AnyRead p \<longleftrightarrow> pm_read (fp_User p) \<or> pm_read (fp_Group p) \<or> pm_read (fp_Other p)"

section \<open>Round trip\<close>

lemma PermMask_SupersetOf_iff:
  "PermMask_SupersetOf p q \<longleftrightarrow> (pm_read q \<longrightarrow> pm_read p) \<and> (pm_write q \<longrightarrow> pm_write p) \<and>
    (pm_execute q \<longrightarrow> pm_execute p)"
  by (auto simp: PermMask_SupersetOf_def)

lemma and_pow2_u16: "n < 16 \<Longrightarrow> (m :: u16) AND push_bit n 1 \<noteq> 0 \<longleftrightarrow> bit m n"
  using and_bit_nonzero [of n m] by simp

lemma bit_mode:
  "(m :: u16) AND 4 \<noteq> 0 \<longleftrightarrow> bit m 2" "m AND 2 \<noteq> 0 \<longleftrightarrow> bit m 1" "m AND 1 \<noteq> 0 \<longleftrightarrow> bit m 0"
  using and_pow2_u16 [of 2 m] and_pow2_u16 [of 1 m] and_pow2_u16 [of 0 m] by (simp_all add: push_bit_of_1)

lemma bit_PermMask_Mode:
  "bit (PermMask_Mode p) n \<longleftrightarrow> n = 2 \<and> pm_read p \<or> n = 1 \<and> pm_write p \<or> n = 0 \<and> pm_execute p"
proof -
  have "bit (4 :: u32) n \<longleftrightarrow> n = 2" "bit (2 :: u32) n \<longleftrightarrow> n = 1" "bit (1 :: u32) n \<longleftrightarrow> n = 0"
    using bit_push_bit_iff [of 2 "1 :: u32" n] bit_push_bit_iff [of 1 "1 :: u32" n]
    by (auto simp: bit_1_iff push_bit_of_1)
  then show ?thesis by (auto simp: PermMask_Mode_def Let_def bit_or_iff)
qed

lemma bit_Permission: "bit (FileMode_Permission m) n \<longleftrightarrow> n < 9 \<and> bit m n"
proof -
  have "(0x1FF :: u16) = mask 9" by (simp add: mask_eq_exp_minus_1)
  then have "bit (0x1FF :: u16) n \<longleftrightarrow> n < 9" by (simp only: bit_mask_iff possible_bit_word) auto
  then show ?thesis by (auto simp: FileMode_Permission_def bit_and_iff)
qed

lemma special_bits:
  "FileMode_SetUID m \<longleftrightarrow> bit m 11" "FileMode_SetGID m \<longleftrightarrow> bit m 10" "FileMode_Sticky m \<longleftrightarrow> bit m 9"
  using and_bit_eq [of 11 "ucast m :: u32"] and_bit_eq [of 10 "ucast m :: u32"] and_bit_eq [of 9 "ucast m :: u32"]
  by (simp_all add: FileMode_SetUID_def FileMode_SetGID_def FileMode_Sticky_def push_bit_of_1 bit_ucast_iff)

lemma bit_Mode_FromMode: "bit (PermMask_Mode (PermMask_FromMode w)) k \<longleftrightarrow> k < 3 \<and> bit w k"
proof -
  have "k < 3 \<longleftrightarrow> k = 0 \<or> k = 1 \<or> k = 2" by linarith
  then show ?thesis
    unfolding bit_PermMask_Mode
    by (auto simp: PermMask_FromMode_def FileMode_OtherRead_def FileMode_OtherWrite_def
        FileMode_OtherExec_def bit_mode)
qed

lemma bit_if_or: "bit (if c then x OR y else x) n \<longleftrightarrow> bit x n \<or> c \<and> bit (y :: 'w::len word) n"
  by (simp add: bit_or_iff)

lemma bit_LinuxMode:
  "bit (FilePermissions_LinuxMode p) n \<longleftrightarrow>
    (6 \<le> n \<and> bit (PermMask_Mode (fp_User p)) (n - 6)) \<or> (3 \<le> n \<and> bit (PermMask_Mode (fp_Group p)) (n - 3)) \<or>
    bit (PermMask_Mode (fp_Other p)) n \<or> (n = 11 \<and> fp_SetUid p) \<or> (n = 10 \<and> fp_SetUid p) \<or> (n = 9 \<and> fp_Sticky p)"
proof -
  have pow: "bit (0x800 :: u32) n \<longleftrightarrow> n = 11" "bit (0x400 :: u32) n \<longleftrightarrow> n = 10" "bit (0x200 :: u32) n \<longleftrightarrow> n = 9"
    using bit_push_bit_iff [of 11 "1 :: u32" n] bit_push_bit_iff [of 10 "1 :: u32" n]
      bit_push_bit_iff [of 9 "1 :: u32" n]
    by (auto simp: bit_1_iff push_bit_of_1)
  have small: "bit (PermMask_Mode q) k \<Longrightarrow> k < 3" for q k by (auto simp: bit_PermMask_Mode)
  have shift: "bit (push_bit k (PermMask_Mode q)) n \<longleftrightarrow> k \<le> n \<and> bit (PermMask_Mode q) (n - k)"
    if "k \<le> 6" for k q
    using small [of q "n - k"] that by (auto simp: bit_push_bit_iff)
  show ?thesis
    unfolding FilePermissions_LinuxMode_def Let_def bit_if_or bit_or_iff pow
    by (simp only: shift le_refl numeral_le_iff semiring_norm) blast
qed

text \<open>
  Permissions read from a mode and written back: the nine permission bits, the sticky bit and
  the set-user-id bit survive, but the set-group-id bit of the result is the set-user-id bit.
\<close>

theorem LinuxMode_FromMode_bits:
  "bit (FilePermissions_LinuxMode (FilePermissions_FromMode m)) n \<longleftrightarrow>
     (n < 10 \<or> n = 11) \<and> bit m n \<or> n = 10 \<and> bit m 11"
proof -
  let ?p = "FilePermissions_FromMode m"
  have user: "6 \<le> n \<and> bit (PermMask_Mode (fp_User ?p)) (n - 6) \<longleftrightarrow> 6 \<le> n \<and> n < 9 \<and> bit m n"
    and group: "3 \<le> n \<and> bit (PermMask_Mode (fp_Group ?p)) (n - 3) \<longleftrightarrow> 3 \<le> n \<and> n < 6 \<and> bit m n"
    and other: "bit (PermMask_Mode (fp_Other ?p)) n \<longleftrightarrow> n < 3 \<and> bit m n"
    by (auto simp: FilePermissions_FromMode_def Let_def bit_Mode_FromMode bit_drop_bit_eq bit_Permission)
  have "fp_SetUid ?p \<longleftrightarrow> bit m 11" "fp_Sticky ?p \<longleftrightarrow> bit m 9"
    by (simp_all add: FilePermissions_FromMode_def Let_def special_bits)
  then have "bit (FilePermissions_LinuxMode ?p) n \<longleftrightarrow> (6 \<le> n \<and> n < 9 \<or> 3 \<le> n \<and> n < 6 \<or> n < 3) \<and> bit m n \<or>
      (n = 11 \<or> n = 10) \<and> bit m 11 \<or> n = 9 \<and> bit m 9"
    unfolding bit_LinuxMode user group other by blast
  moreover have "(6 \<le> n \<and> n < 9 \<or> 3 \<le> n \<and> n < 6 \<or> n < 3) \<longleftrightarrow> n < 9" by linarith
  ultimately show ?thesis by (cases "n = 9"; cases "n = 11") auto
qed

section \<open>Equivalent translations\<close>

lemma special_bits_u16: "m AND 0x800 = 0x800 \<longleftrightarrow> bit m 11" "m AND 0x400 = 0x400 \<longleftrightarrow> bit m 10"
  "m AND 0x200 = 0x200 \<longleftrightarrow> bit m 9" for m :: u16
  using and_bit_eq [of 11 m] and_bit_eq [of 10 m] and_bit_eq [of 9 m] by (simp_all add: push_bit_of_1)

lemma DirentType_ModeType:
  "FileMode_DirentType (DType_ModeType t) = (if t \<in> {1, 2, 4, 6, 8, 10, 12} then t else 8)"
proof -
  have "FileMode_DirentType 0xC000 = 12" "FileMode_DirentType 0xA000 = 10" "FileMode_DirentType 0x8000 = 8"
    "FileMode_DirentType 0x6000 = 6" "FileMode_DirentType 0x4000 = 4" "FileMode_DirentType 0x2000 = 2"
    "FileMode_DirentType 0x1000 = 1" by code_simp+
  then show ?thesis by (simp add: DType_ModeType_def)
qed

text \<open>
  C13. The two translations of a file mode to permissions, \<^verbatim>\<open>FileMode::FilePerms\<close> on 16 bit
  constants and \<^verbatim>\<open>FilePermissions::FromMode\<close> on 32 bit ones, agree on every mode.
\<close>

theorem FilePerms_eq_FromMode: "FileMode_FilePerms m = FilePermissions_FromMode m"
  unfolding FileMode_FilePerms_def FilePermissions_FromMode_def Let_def special_bits special_bits_u16
  by (simp add: FileMode_Perms_def PermMask_FromMode_def FileMode_OtherRead_def FileMode_OtherWrite_def FileMode_OtherExec_def)

end
