(* ===== verification/Linux_Time.thy ===== *)
theory Linux_Time
  imports Quark_Prelude
begin

text \<open>
  Times and durations: \<^verbatim>\<open>qlib/linux/time.rs\<close> and the kernel's \<^verbatim>\<open>Time\<close> of
  \<^verbatim>\<open>qlib/kernel/kernel/time.rs\<close>, a number of nanoseconds. Every field is an \<^verbatim>\<open>i64\<close>; division and
  remainder truncate towards zero as Rust's do.
\<close>

section \<open>Definitions\<close>

definition div_trunc :: "int \<Rightarrow> int \<Rightarrow> int" where
  "div_trunc a b = sgn a * sgn b * (\<bar>a\<bar> div \<bar>b\<bar>)"

definition rem_trunc :: "int \<Rightarrow> int \<Rightarrow> int" where
  "rem_trunc a b = a - b * div_trunc a b"

definition SECOND :: int where "SECOND = 1000000000"

definition MAX_SEC_IN_DURATION :: int where "MAX_SEC_IN_DURATION = div_trunc i64_MAX SECOND"

definition NsecToTimeT :: "int \<Rightarrow> int" where
  "NsecToTimeT nsec = div_trunc nsec 1000000000"

record Timespec =
  tv_sec :: int
  tv_nsec :: int

definition Timespec_FromNs :: "int \<Rightarrow> Timespec" where
  "Timespec_FromNs ns =
    (let sec = div_trunc ns 1000000000;
         nsec = rem_trunc ns 1000000000
     in if nsec < 0 then \<lparr>tv_sec = i64 (sec - 1), tv_nsec = i64 (nsec + 1000000000)\<rparr>
        else \<lparr>tv_sec = sec, tv_nsec = nsec\<rparr>)"

definition Timespec_ToNs :: "Timespec \<Rightarrow> int result" where
  "Timespec_ToNs ts =
    (if tv_sec ts < 0 \<or> tv_nsec ts < 0 then Err (SysError EINVAL)
     else Ok (i64 (i64 (tv_sec ts * 1000000000) + tv_nsec ts)))"

definition Timespec_ToDuration :: "Timespec \<Rightarrow> int result" where
  "Timespec_ToDuration ts =
    (if tv_sec ts > MAX_SEC_IN_DURATION then Ok i64_MAX else Timespec_ToNs ts)"

definition Timespec_IsValid :: "Timespec \<Rightarrow> bool" where
  "Timespec_IsValid ts \<longleftrightarrow> \<not> (tv_sec ts < 0 \<or> tv_nsec ts < 0 \<or> tv_nsec ts \<ge> 1000000000)"

record Timeval =
  tm_Sec :: int
  tm_Usec :: int

definition Timeval_FromNs :: "int \<Rightarrow> Timeval" where
  "Timeval_FromNs ns0 =
    (let ns = i64 (ns0 + 999);
         usec = div_trunc (rem_trunc ns 1000000000) 1000;
         sec = div_trunc ns 1000000000
     in if usec < 0 then \<lparr>tm_Sec = i64 (sec - 1), tm_Usec = i64 (usec + 1000000)\<rparr>
        else \<lparr>tm_Sec = sec, tm_Usec = usec\<rparr>)"

definition Timeval_ToDuration :: "Timeval \<Rightarrow> int" where
  "Timeval_ToDuration tv =
    (if tm_Sec tv > MAX_SEC_IN_DURATION then i64_MAX
     else i64 (i64 (tm_Sec tv * 1000000000) + i64 (tm_Usec tv * 1000)))"

definition CLOCKS_PER_SEC :: int where "CLOCKS_PER_SEC = 100"
definition CLOCK_TICK :: int where "CLOCK_TICK = div_trunc SECOND CLOCKS_PER_SEC"

definition ClockTFromDuration :: "int \<Rightarrow> int" where
  "ClockTFromDuration d = div_trunc d CLOCK_TICK"

section \<open>Kernel time\<close>

type_synonym Time = int

abbreviation (input) i64_MIN :: int where "i64_MIN \<equiv> - 9223372036854775808"

definition MIN_TIME :: Time where "MIN_TIME = i64_MIN"
definition MAX_TIME :: Time where "MAX_TIME = i64_MAX"
definition ZERO_TIME :: Time where "ZERO_TIME = 0"
definition MIN_DURATION :: int where "MIN_DURATION = i64_MIN"
definition MAX_DURATION :: int where "MAX_DURATION = i64_MAX"

definition Time_FromNs :: "int \<Rightarrow> Time" where "Time_FromNs ns = ns"

definition Time_FromSec :: "int \<Rightarrow> Time" where "Time_FromSec s = i64 (s * 1000000000)"

definition Time_FromUnix :: "int \<Rightarrow> int \<Rightarrow> Time" where
  "Time_FromUnix s ns =
    (if s > div_trunc i64_MAX 1000000000 then MAX_TIME
     else let t = i64 (s * 1000000000)
          in if t > i64 (i64_MAX - ns) then MAX_TIME else i64 (t + ns))"

definition Time_FromTimespec :: "Timespec \<Rightarrow> Time" where
  "Time_FromTimespec ts = Time_FromUnix (tv_sec ts) (tv_nsec ts)"

definition Time_FromTimeval :: "Timeval \<Rightarrow> Time" where
  "Time_FromTimeval tv = Time_FromUnix (tm_Sec tv) (i64 (tm_Usec tv * 1000))"

definition Time_Nanoseconds :: "Time \<Rightarrow> int" where "Time_Nanoseconds t = t"

definition Time_Seconds :: "Time \<Rightarrow> int" where "Time_Seconds t = div_trunc t 1000000000"

definition Time_Timespec :: "Time \<Rightarrow> Timespec" where
  "Time_Timespec t = \<lparr>tv_sec = div_trunc t 1000000000, tv_nsec = rem_trunc t 1000000000\<rparr>"

definition Time_Unix :: "Time \<Rightarrow> int \<times> int" where
  "Time_Unix t = (div_trunc t 1000000000, rem_trunc t 1000000000)"

definition Time_TimeT :: "Time \<Rightarrow> int" where "Time_TimeT t = NsecToTimeT t"

definition Time_Timeval :: "Time \<Rightarrow> Timeval" where
  "Time_Timeval t = \<lparr>tm_Sec = div_trunc t 1000000000, tm_Usec = div_trunc (rem_trunc t 1000000000) 1000\<rparr>"

definition Time_Add :: "Time \<Rightarrow> int \<Rightarrow> Time" where
  "Time_Add t ns =
    (if t > 0 \<and> ns > i64 (i64_MAX - t) then MAX_TIME
     else if t < 0 \<and> ns < i64 (i64_MIN - t) then MIN_TIME
     else i64 (t + ns))"

definition Time_AddTime :: "Time \<Rightarrow> Time \<Rightarrow> Time" where "Time_AddTime t u = Time_Add t u"

definition Time_Equal :: "Time \<Rightarrow> Time \<Rightarrow> bool" where "Time_Equal t u \<longleftrightarrow> t = u"
definition Time_Before :: "Time \<Rightarrow> Time \<Rightarrow> bool" where "Time_Before t u \<longleftrightarrow> t < u"
definition Time_After :: "Time \<Rightarrow> Time \<Rightarrow> bool" where "Time_After t u \<longleftrightarrow> t > u"

definition Time_Sub :: "Time \<Rightarrow> Time \<Rightarrow> int" where
  "Time_Sub t u =
    (let dur = i64 (i64 (t - u) * 1)
     in if Time_Equal (Time_Add u dur) t then dur
        else if Time_Before t u then MIN_DURATION
        else MAX_DURATION)"

definition Time_IsMin :: "Time \<Rightarrow> bool" where "Time_IsMin t \<longleftrightarrow> Time_Equal t MIN_TIME"
definition Time_IsZero :: "Time \<Rightarrow> bool" where "Time_IsZero t \<longleftrightarrow> Time_Equal t ZERO_TIME"

section \<open>Truncating division\<close>

lemma div_trunc_nonneg: "0 \<le> a \<Longrightarrow> 0 < b \<Longrightarrow> div_trunc a b = a div b"
  by (cases "a = 0") (simp_all add: div_trunc_def)

lemma div_trunc_neg: "a < 0 \<Longrightarrow> 0 < b \<Longrightarrow> div_trunc a b = - ((- a) div b)"
  by (simp add: div_trunc_def)

lemma rem_trunc_nonneg: "0 \<le> a \<Longrightarrow> 0 < b \<Longrightarrow> rem_trunc a b = a mod b"
  by (simp add: rem_trunc_def div_trunc_nonneg minus_mult_div_eq_mod)

lemma rem_trunc_neg: "a < 0 \<Longrightarrow> 0 < b \<Longrightarrow> rem_trunc a b = - ((- a) mod b)"
  by (simp add: rem_trunc_def div_trunc_neg minus_mult_div_eq_mod [of "- a" b, symmetric])

lemma div_rem_trunc: "b * div_trunc a b + rem_trunc a b = a"
  by (simp add: rem_trunc_def)

section \<open>Properties\<close>

lemma Timespec_FromNs_eq:
  assumes "- 9223372036854775808 \<le> ns" and "ns \<le> i64_MAX"
  shows "Timespec_FromNs ns = \<lparr>tv_sec = ns div 1000000000, tv_nsec = ns mod 1000000000\<rparr>"
proof -
  consider "0 \<le> ns" | "ns < 0" "(- ns) mod 1000000000 = 0" | "ns < 0" "(- ns) mod 1000000000 \<noteq> 0" by linarith
  then show ?thesis
  proof cases
    case 1
    moreover have "\<not> ns mod 1000000000 < 0" by (simp add: not_less)
    ultimately show ?thesis by (simp add: Timespec_FromNs_def Let_def div_trunc_nonneg rem_trunc_nonneg)
  next
    case 2
    then have "ns div 1000000000 = - ((- ns) div 1000000000)" "ns mod 1000000000 = 0"
      using zdiv_zminus1_eq_if [of 1000000000 "- ns"] zmod_zminus1_eq_if [of "- ns" 1000000000] by auto
    then show ?thesis using 2 by (simp add: Timespec_FromNs_def Let_def div_trunc_neg rem_trunc_neg)
  next
    case 3
    let ?m = "(- ns) mod 1000000000" and ?d = "(- ns) div 1000000000"
    have m: "0 < ?m" "?m < 1000000000" using 3 pos_mod_sign [of 1000000000 "- ns"] by linarith simp
    have "0 \<le> ?d" "?d \<le> 9223372036" using assms 3 by simp_all
    then have "i64 (- ?d - 1) = - ?d - 1" "i64 (- ?m + 1000000000) = - ?m + 1000000000"
      using m by (intro i64_id; simp)+
    moreover have "ns div 1000000000 = - ?d - 1" "ns mod 1000000000 = 1000000000 - ?m"
      using m zdiv_zminus1_eq_if [of 1000000000 "- ns"] zmod_zminus1_eq_if [of "- ns" 1000000000] by auto
    ultimately show ?thesis
      using 3 m by (simp add: Timespec_FromNs_def Let_def div_trunc_neg rem_trunc_neg)
  qed
qed

text \<open>C14. For every \<^verbatim>\<open>i64\<close> number of nanoseconds, \<^verbatim>\<open>Timespec::FromNs\<close> returns a value
  whose nanosecond part is in [0, 10^9) and which denotes that number exactly; for a number that
  is not negative, \<^verbatim>\<open>ToNs\<close> and \<^verbatim>\<open>ToDuration\<close> recover it.\<close>

theorem Timespec_roundtrip:
  assumes "- 9223372036854775808 \<le> ns" and "ns \<le> i64_MAX"
  shows "0 \<le> tv_nsec (Timespec_FromNs ns) \<and> tv_nsec (Timespec_FromNs ns) < 1000000000 \<and>
    tv_sec (Timespec_FromNs ns) * 1000000000 + tv_nsec (Timespec_FromNs ns) = ns \<and>
    (0 \<le> ns \<longrightarrow> Timespec_IsValid (Timespec_FromNs ns) \<and>
      Timespec_ToNs (Timespec_FromNs ns) = Ok ns \<and> Timespec_ToDuration (Timespec_FromNs ns) = Ok ns)"
proof -
  have sum: "ns div 1000000000 * 1000000000 + ns mod 1000000000 = ns" by simp
  have "Timespec_ToNs (Timespec_FromNs ns) = Ok ns" if "0 \<le> ns"
  proof -
    have "0 \<le> ns div 1000000000" "ns div 1000000000 * 1000000000 \<le> ns" using that sum by simp_all
    then have "i64 (ns div 1000000000 * 1000000000) = ns div 1000000000 * 1000000000"
      using assms by (intro i64_id) linarith+
    then show ?thesis
      using that assms sum i64_id [of ns] by (simp add: Timespec_FromNs_eq Timespec_ToNs_def not_less)
  qed
  moreover have "ns div 1000000000 \<le> MAX_SEC_IN_DURATION"
    using assms by (simp add: MAX_SEC_IN_DURATION_def SECOND_def div_trunc_def)
  moreover have "\<not> ns mod 1000000000 < 0" "\<not> 1000000000 \<le> ns mod 1000000000" by (simp_all add: not_less not_le)
  ultimately show ?thesis
    using assms sum by (simp add: Timespec_FromNs_eq Timespec_IsValid_def Timespec_ToDuration_def not_less pos_imp_zdiv_nonneg_iff)
qed

theorem Timespec_roundtrip_witness:
  "Timespec_ToNs (Timespec_FromNs 1500000000) = Ok 1500000000 \<and>
   tv_sec (Timespec_FromNs (- 1)) * 1000000000 + tv_nsec (Timespec_FromNs (- 1)) = - 1 \<and>
   0 \<le> tv_nsec (Timespec_FromNs (- 1))"
  using Timespec_roundtrip [of 1500000000] Timespec_roundtrip [of "- 1"] by simp

text \<open>A duration below \<^verbatim>\<open>MAX_SEC_IN_DURATION\<close> seconds is converted exactly and is not
  negative. At that number of seconds, which the guard of \<^verbatim>\<open>ToDuration\<close> still lets through, the
  microseconds no longer fit and the result wraps to a negative number.\<close>

theorem Timeval_ToDuration_bounds:
  assumes "0 \<le> tm_Sec tv" and "tm_Sec tv < MAX_SEC_IN_DURATION" and "0 \<le> tm_Usec tv" and "tm_Usec tv < 1000000"
  shows "Timeval_ToDuration tv = tm_Sec tv * 1000000000 + tm_Usec tv * 1000 \<and> 0 \<le> Timeval_ToDuration tv \<and>
    Timeval_ToDuration \<lparr>tm_Sec = MAX_SEC_IN_DURATION, tm_Usec = 999999\<rparr> < 0"
proof -
  have m: "MAX_SEC_IN_DURATION = 9223372036"
    by (simp add: MAX_SEC_IN_DURATION_def SECOND_def div_trunc_def)
  have "i64 (tm_Sec tv * 1000000000) = tm_Sec tv * 1000000000" "i64 (tm_Usec tv * 1000) = tm_Usec tv * 1000"
    "i64 (tm_Sec tv * 1000000000 + tm_Usec tv * 1000) = tm_Sec tv * 1000000000 + tm_Usec tv * 1000"
    using assms by (intro i64_id; simp add: m)+
  moreover have "Timeval_ToDuration \<lparr>tm_Sec = MAX_SEC_IN_DURATION, tm_Usec = 999999\<rparr> < 0"
    by (simp add: Timeval_ToDuration_def m i64_def)
  ultimately show ?thesis using assms by (simp add: Timeval_ToDuration_def)
qed

theorem Timeval_ToDuration_bounds_witness:
  "Timeval_ToDuration \<lparr>tm_Sec = 2, tm_Usec = 500\<rparr> = 2000500000"
  using Timeval_ToDuration_bounds [of "\<lparr>tm_Sec = 2, tm_Usec = 500\<rparr>"]
  by (simp add: MAX_SEC_IN_DURATION_def SECOND_def div_trunc_def)

text \<open>The value a saturating operation returns.\<close>

definition clamp :: "int \<Rightarrow> int" where
  "clamp x = (if x < i64_MIN then i64_MIN else if x > i64_MAX then i64_MAX else x)"

lemma i64_wrap_high: "i64_MAX < x \<Longrightarrow> x \<le> 18446744073709551615 \<Longrightarrow> i64 x = x - 18446744073709551616"
proof -
  assume "i64_MAX < x" "x \<le> 18446744073709551615"
  then have "(x - 18446744073709551616 + 9223372036854775808) mod 18446744073709551616 =
      x - 18446744073709551616 + 9223372036854775808"
    by (intro mod_pos_pos_trivial) simp_all
  moreover have "(x + 9223372036854775808) mod 18446744073709551616 =
      (x - 18446744073709551616 + 9223372036854775808) mod 18446744073709551616"
    using mod_add_self2 [of "x - 18446744073709551616 + 9223372036854775808" 18446744073709551616] by (simp add: add.commute)
  ultimately show ?thesis unfolding i64_def by linarith
qed

lemma i64_wrap_low: "x < i64_MIN \<Longrightarrow> - 18446744073709551616 \<le> x \<Longrightarrow> i64 x = x + 18446744073709551616"
proof -
  assume "x < i64_MIN" "- 18446744073709551616 \<le> x"
  then have "(x + 18446744073709551616 + 9223372036854775808) mod 18446744073709551616 = x + 18446744073709551616 + 9223372036854775808"
    by (intro mod_pos_pos_trivial) simp_all
  moreover have "(x + 18446744073709551616 + 9223372036854775808) mod 18446744073709551616 =
      (x + 9223372036854775808) mod 18446744073709551616"
    using mod_add_self2 [of "x + 9223372036854775808" 18446744073709551616] by (simp add: algebra_simps)
  ultimately show ?thesis unfolding i64_def by linarith
qed

lemma Time_Add_clamp:
  assumes "i64_MIN \<le> t" "t \<le> i64_MAX" "i64_MIN \<le> ns" "ns \<le> i64_MAX"
  shows "Time_Add t ns = clamp (t + ns)"
proof -
  have "t > 0 \<Longrightarrow> i64 (i64_MAX - t) = i64_MAX - t" "t < 0 \<Longrightarrow> i64 (i64_MIN - t) = i64_MIN - t"
    using assms by (intro i64_id; simp)+
  then show ?thesis
    using assms i64_id [of "t + ns"] by (auto simp: Time_Add_def clamp_def MAX_TIME_def MIN_TIME_def)
qed

text \<open>Addition and subtraction of kernel times are the exact operations on integers,
  saturated to the ends of the 64 bit range: no operand makes them wrap.\<close>

theorem Time_saturates:
  assumes "i64_MIN \<le> t" and "t \<le> i64_MAX" and "i64_MIN \<le> u" and "u \<le> i64_MAX"
  shows "Time_Add t u = clamp (t + u) \<and> Time_Sub t u = clamp (t - u)"
proof
  show "Time_Add t u = clamp (t + u)" using assms by (rule Time_Add_clamp)
  have r: "i64 (i64 (t - u) * 1) = i64 (t - u)" using i64_range [of "t - u"] by (simp add: i64_id)
  have add: "Time_Add u (i64 (t - u)) = clamp (u + i64 (t - u))"
    using assms i64_range [of "t - u"] by (intro Time_Add_clamp) simp_all
  have sub: "Time_Sub t u = (if Time_Add u (i64 (t - u)) = t then i64 (t - u) else if t < u then i64_MIN else i64_MAX)"
    by (simp only: Time_Sub_def r Let_def Time_Equal_def Time_Before_def MIN_DURATION_def MAX_DURATION_def)
  consider "t - u < i64_MIN" | "i64_MIN \<le> t - u" "t - u \<le> i64_MAX" | "i64_MAX < t - u" by linarith
  then show "Time_Sub t u = clamp (t - u)"
  proof cases
    case 1
    then have e: "i64 (t - u) = t - u + 18446744073709551616" using assms by (intro i64_wrap_low) simp_all
    have "Time_Add u (i64 (t - u)) \<noteq> t" unfolding add unfolding e clamp_def using 1 assms by auto
    then show ?thesis using 1 assms unfolding sub clamp_def by auto
  next
    case 2
    then have "i64 (t - u) = t - u" by (rule i64_id)
    then show ?thesis using 2 assms add by (simp add: sub clamp_def)
  next
    case 3
    then have e: "i64 (t - u) = t - u - 18446744073709551616" using assms by (intro i64_wrap_high) simp_all
    have "Time_Add u (i64 (t - u)) \<noteq> t" unfolding add unfolding e clamp_def using 3 assms by auto
    then show ?thesis using 3 assms unfolding sub clamp_def by auto
  qed
qed

theorem Time_saturates_witness:
  "Time_Add i64_MAX 5 = i64_MAX \<and> Time_Sub (- 7) i64_MAX = i64_MIN \<and> Time_Sub 12 5 = 7"
  using Time_saturates [of i64_MAX 5] Time_saturates [of "- 7" i64_MAX] Time_saturates [of 12 5]
  by (simp add: clamp_def)

end
