(* ===== verification/Linked_List.thy ===== *)
theory Linked_List
  imports Quark_Prelude
begin

text \<open>
  Doubly linked lists whose nodes are the addresses of a store. \<open>links pr nx p xs n\<close> says that the
  nodes of \<open>xs\<close> are chained in this order by the links \<open>pr\<close> and \<open>nx\<close>, that the first one points
  back to \<open>p\<close> and the last one on to \<open>n\<close>. The area sets and the wait lists share it.
\<close>

definition first_or :: "nat option \<Rightarrow> nat list \<Rightarrow> nat option" where
  "first_or n xs = (case xs of [] \<Rightarrow> n | y # _ \<Rightarrow> Some y)"

definition last_or :: "nat option \<Rightarrow> nat list \<Rightarrow> nat option" where
  "last_or p xs = (if xs = [] then p else Some (last xs))"

fun links :: "(nat \<Rightarrow> nat option) \<Rightarrow> (nat \<Rightarrow> nat option) \<Rightarrow> nat option \<Rightarrow> nat list \<Rightarrow> nat option \<Rightarrow> bool" where
  "links pr nx p [] n = True"
| "links pr nx p (x # xs) n \<longleftrightarrow> pr x = p \<and> nx x = first_or n xs \<and> links pr nx (Some x) xs n"

lemma first_or_simps [simp]: "first_or n [] = n" "first_or n (x # xs) = Some x"
  "first_or n (xs @ ys) = first_or (first_or n ys) xs"
  by (auto simp: first_or_def split: list.splits)

lemma last_or_simps [simp]: "last_or p [] = p" "last_or p (xs @ [x]) = Some x"
  "last_or p (x # xs) = last_or (Some x) xs"
  by (auto simp: last_or_def)

lemma last_or_append [simp]: "last_or p (xs @ ys) = last_or (last_or p xs) ys"
  by (auto simp: last_or_def)

lemma first_or_None [simp]: "first_or None xs = None \<longleftrightarrow> xs = []"
  by (cases xs) auto

lemma last_or_None [simp]: "last_or None xs = None \<longleftrightarrow> xs = []"
  by (auto simp: last_or_def)

lemma links_append: "links pr nx p (xs @ ys) n \<longleftrightarrow> links pr nx p xs (first_or n ys) \<and> links pr nx (last_or p xs) ys n"
  by (induction xs arbitrary: p) auto

text \<open>Changing the link into the first node and the link out of the last one.\<close>

lemma links_change:
  assumes "links pr nx p xs n" and "distinct xs"
    and "\<And>x. x \<in> set xs \<Longrightarrow> pr' x = (if x = hd xs then p' else pr x) \<and> nx' x = (if x = last xs then n' else nx x)"
  shows "links pr' nx' p' xs n'"
  using assms
proof (induction xs arbitrary: p p')
  case (Cons x xs)
  have "links pr' nx' (Some x) xs n'" if "xs \<noteq> []"
  proof (rule Cons.IH)
    show "links pr nx (Some x) xs n" "distinct xs" using Cons.prems by auto
    fix y assume y: "y \<in> set xs"
    then have "y \<noteq> x" using Cons.prems(2) by auto
    moreover have "pr y = Some x" if "y = hd xs" using Cons.prems(1) \<open>xs \<noteq> []\<close> that by (cases xs) auto
    ultimately show "pr' y = (if y = hd xs then Some x else pr y) \<and> nx' y = (if y = last xs then n' else nx y)"
      using Cons.prems(3) [of y] y \<open>xs \<noteq> []\<close> by auto
  qed
  moreover have "x \<noteq> last xs" if "xs \<noteq> []" using Cons.prems(2) that last_in_set [of xs] by auto
  ultimately show ?case
    using Cons.prems(1) Cons.prems(3) [of x] by (cases xs) auto
qed simp

lemma links_first: "links pr nx p xs n \<Longrightarrow> xs \<noteq> [] \<Longrightarrow> pr (hd xs) = p"
  by (cases xs) auto

lemma links_last: "links pr nx p xs n \<Longrightarrow> xs \<noteq> [] \<Longrightarrow> nx (last xs) = n"
  by (cases xs rule: rev_cases) (auto simp: links_append)

lemma links_change_last:
  assumes "links pr nx p xs n" and "distinct xs"
    and "\<And>x. x \<in> set xs \<Longrightarrow> pr' x = pr x \<and> nx' x = (if x = last xs then n' else nx x)"
  shows "links pr' nx' p xs n'"
  using assms(1,2) by (rule links_change) (use assms(1,3) links_first in fastforce)

lemma links_change_first:
  assumes "links pr nx p xs n" and "distinct xs"
    and "\<And>x. x \<in> set xs \<Longrightarrow> pr' x = (if x = hd xs then p' else pr x) \<and> nx' x = nx x"
  shows "links pr' nx' p' xs n"
  using assms(1,2) by (rule links_change) (use assms(1,3) links_last in fastforce)

lemma links_same:
  assumes "links pr nx p xs n" and "\<And>x. x \<in> set xs \<Longrightarrow> pr' x = pr x \<and> nx' x = nx x"
  shows "links pr' nx' p xs n"
  using assms by (induction xs arbitrary: p) auto

text \<open>The links of a node in the middle.\<close>

lemma links_at:
  assumes "links pr nx p (xs @ x # ys) n"
  shows "pr x = last_or p xs" "nx x = first_or n ys"
  using assms by (simp_all add: links_append)

end
