(* ===== verification/Wait_List.thy ===== *)
theory Wait_List
  imports Linked_List
begin

text \<open>
  Event masks (\<^verbatim>\<open>qlib/linux_def.rs\<close>) and the wait queues of
  \<^verbatim>\<open>qlib/kernel/kernel/waiter/queue.rs\<close> as the components see them that only register,
  unregister and notify: a queue is the list of its entries with their masks, oldest first. The
  entries with their links, and the proof that the linked queues behave like these lists, are in the
  theories \<open>Wait_Entry\<close> and \<open>Wait_Entry_Props\<close>.
\<close>

section \<open>Events\<close>

definition EVENT_IN :: u64 where "EVENT_IN = 0x01"
definition EVENT_READ :: u64 where "EVENT_READ = EVENT_IN OR 0x10 OR 0x08 OR 0x40"
definition READABLE_EVENT :: u64 where "READABLE_EVENT = EVENT_IN OR 0x40"
definition EVENT_ERR :: u64 where "EVENT_ERR = 0x08"
definition EVENT_HUP :: u64 where "EVENT_HUP = 0x10"
definition WRITEABLE_EVENT :: u64 where "WRITEABLE_EVENT = 0x04 OR 0x0100"

section \<open>Queues as plain lists\<close>

definition Queue_EventRegister :: "'e \<Rightarrow> u64 \<Rightarrow> ('e \<times> u64) list \<Rightarrow> ('e \<times> u64) list" where
  "Queue_EventRegister e m q = q @ [(e, m)]"

definition Queue_EventUnregister :: "'e \<Rightarrow> ('e \<times> u64) list \<Rightarrow> ('e \<times> u64) list" where
  "Queue_EventUnregister e q = filter (\<lambda>p. fst p \<noteq> e) q"

definition Queue_Notify :: "u64 \<Rightarrow> ('e \<times> u64) list \<Rightarrow> 'e list" where
  "Queue_Notify m q = map fst (filter (\<lambda>(_, em). m AND em \<noteq> 0) q)"

end
