(* ===== verification/Semaphore.thy ===== *)
theory Semaphore
  imports Auth Permissions Linux_Time Wait_List
begin

text \<open>
  System V semaphores: \<^verbatim>\<open>qlib/kernel/kernel/semaphore.rs\<close> with the constants of
  \<^verbatim>\<open>qlib/linux/sem.rs\<close> and \<^verbatim>\<open>ipc.rs\<close>. The system calls are in \<open>Sem_Syscalls\<close>.

  A semaphore set is a shared object: the sets live in a store indexed by address, the registry
  maps identifiers to addresses, and a task that blocks keeps the address. The registry and the
  sets are behind spin locks that are not reentrant; \<open>regLocked\<close> tells a permission check
  whether its caller holds the registry lock, and an outcome \<open>None\<close> stands for an operation that
  never returns (here, a lock taken twice).

  A wait queue is the list of its entries (theory \<open>Wait_List\<close>), each the identifier of a wait entry
  and its event mask; the entries a notification triggers are appended to \<open>ss_woken\<close>. The current time, fresh
  waiter identifiers and the caller's process identifier are arguments.
\<close>

section \<open>Data\<close>

definition SEMMNI :: u32 where "SEMMNI = 32000"
definition SEMMSL :: u32 where "SEMMSL = 32000"
definition SEMMNS :: u32 where "SEMMNS = SEMMNI * SEMMSL"
definition SEMOPM :: u32 where "SEMOPM = 500"
definition SEMVMX :: u32 where "SEMVMX = 32767"
definition SEMAEM :: u32 where "SEMAEM = SEMVMX"
definition SEMUME :: u32 where "SEMUME = SEMOPM"
definition SEMMNU :: u32 where "SEMMNU = SEMMNS"
definition SEMMAP :: u32 where "SEMMAP = SEMMNS"
definition SEMUSZ :: u32 where "SEMUSZ = 20"

definition VALUE_MAX :: int where "VALUE_MAX = i16 (uint SEMMNI)"
definition SETS_MAX :: u32 where "SETS_MAX = SEMMNI"
definition SEMAPHORES_MAX :: u32 where "SEMAPHORES_MAX = SEMMSL"
definition SEMAPHORES_TOTAL_MAX :: u32 where "SEMAPHORES_TOTAL_MAX = SEMMNS"

definition IPC_CREAT :: int where "IPC_CREAT = 512"
definition IPC_EXCL :: int where "IPC_EXCL = 1024"
definition IPC_NOWAIT :: int where "IPC_NOWAIT = 2048"
definition IPC_PRIVATE :: int where "IPC_PRIVATE = 0"

record sembuf =
  SemNum :: u16
  SemOp :: int
  SemFlag :: int

record sem =
  s_value :: int
  s_pid :: int
  s_queue :: "(u64 \<times> u64) list"
  s_waiters :: "(u64, int) btree"

record sem_set =
  ss_id :: int
  ss_key :: int
  ss_creator :: file_owner
  ss_owner :: file_owner
  ss_perms :: file_permissions
  ss_opTime :: int
  ss_changeTime :: int
  ss_sems :: "sem list"
  ss_dead :: bool
  ss_woken :: "u64 list"

record sem_registry =
  sr_userNS :: nat
  sr_semaphores :: "(int, nat) btree"
  sr_lastIDUsed :: int

record sem_world =
  sw_registry :: sem_registry
  sw_sets :: "sem_set list"

record semid_ds =
  sd_Key :: u32
  sd_UID :: u32
  sd_GID :: u32
  sd_CUID :: u32
  sd_CGID :: u32
  sd_Mode :: u16
  sd_Seq :: u16
  sd_OTime :: int
  sd_CTime :: int
  sd_NSems :: u64

record sem_info =
  SemMap :: u32
  SemMni :: u32
  SemMns :: u32
  SemMnu :: u32
  SemMsl :: u32
  SemOpm :: u32
  SemUme :: u32
  SemUsz :: u32
  SemVmx :: u32
  SemAem :: u32

section \<open>One semaphore\<close>

definition Sem_default :: sem where
  "Sem_default = \<lparr>s_value = 0, s_pid = 0, s_queue = [], s_waiters = []\<rparr>"

definition Sem_wakeWaiters :: "sem \<Rightarrow> u64 list" where
  "Sem_wakeWaiters sm = Queue_Notify EVENT_IN (s_queue sm)"

section \<open>One semaphore set\<close>

definition Set_New ::
    "int \<Rightarrow> int \<Rightarrow> file_owner \<Rightarrow> file_owner \<Rightarrow> file_permissions \<Rightarrow> int \<Rightarrow> sem_set" where
  "Set_New now key owner creator perms nsems =
    \<lparr>ss_id = 0, ss_key = key, ss_creator = creator, ss_owner = owner, ss_perms = perms,
     ss_opTime = 0, ss_changeTime = now, ss_sems = replicate (nat nsems) Sem_default,
     ss_dead = False, ss_woken = []\<rparr>"

definition findSem_mut :: "sem_set \<Rightarrow> int \<Rightarrow> nat option result" where
  "findSem_mut me num =
    (if num < 0 \<or> nat num > length (ss_sems me) then Ok None
     else if nat num < length (ss_sems me) then Ok (Some (nat num))
     else Err Panic)"

definition findSem :: "sem_set \<Rightarrow> int \<Rightarrow> sem option" where
  "findSem me num =
    (if num < 0 \<or> nat num \<ge> length (ss_sems me) then None else Some (ss_sems me ! nat num))"

definition checkCredentials :: "sem_set \<Rightarrow> credentials \<Rightarrow> bool" where
  "checkCredentials me creds \<longleftrightarrow>
    fo_UID (ss_owner me) = EffectiveKUID creds \<or> fo_GID (ss_owner me) = EffectiveKGID creds \<or>
    fo_UID (ss_creator me) = EffectiveKUID creds \<or> fo_GID (ss_creator me) = EffectiveKGID creds"

definition checkCapability ::
    "bool \<Rightarrow> ns_store \<Rightarrow> sem_registry \<Rightarrow> sem_set \<Rightarrow> credentials \<Rightarrow> bool option" where
  "checkCapability regLocked ns reg me creds =
    (if regLocked then None
     else Option.bind (HasCapabilityIn ns creds CAP_IPC_OWNER (sr_userNS reg)) (\<lambda>res.
       if \<not> res then Some False
       else Option.bind (MapFromKUID ns (UserNamespace creds) (fo_UID (ss_owner me))) (\<lambda>uid.
         Some (UID_Ok uid))))"

definition checkPerms ::
    "bool \<Rightarrow> ns_store \<Rightarrow> sem_registry \<Rightarrow> sem_set \<Rightarrow> credentials \<Rightarrow> perm_mask \<Rightarrow> bool option" where
  "checkPerms regLocked ns reg me creds reqPerms =
    (let p = (if fo_UID (ss_owner me) = EffectiveKUID creds then fp_User (ss_perms me)
              else if Credentials_InGroup creds (fo_GID (ss_owner me)) then fp_Group (ss_perms me)
              else fp_Other (ss_perms me))
     in if PermMask_SupersetOf p reqPerms then Some True
        else checkCapability regLocked ns reg me creds)"

definition SetInternal_destroy :: "sem_set \<Rightarrow> sem_set" where
  "SetInternal_destroy me =
    me\<lparr>ss_dead := True, ss_woken := ss_woken me @ concat (map Sem_wakeWaiters (ss_sems me))\<rparr>"

datatype ops_outcome =
    OpsDone "int list"
  | OpsWait u16 int u64
  | OpsErr error

fun executeOps_loop :: "sembuf list \<Rightarrow> int list \<Rightarrow> ops_outcome" where
  "executeOps_loop [] tmpVals = OpsDone tmpVals"
| "executeOps_loop (op # ops) tmpVals =
    (let n = unat (SemNum op)
     in if \<not> n < length tmpVals then OpsErr Panic
        else if SemOp op = 0 then
          (if tmpVals ! n \<noteq> 0 then
             (if SemFlag op AND IPC_NOWAIT \<noteq> 0 then OpsErr (SysError EWOULDBLOCK)
              else OpsWait (SemNum op) (SemOp op) EVENT_READ)
           else executeOps_loop ops tmpVals)
        else if SemOp op < 0 then
          (if i16 (- SemOp op) > VALUE_MAX then OpsErr (SysError ERANGE)
           else if i16 (- SemOp op) > tmpVals ! n then
             (if SemFlag op AND IPC_NOWAIT \<noteq> 0 then OpsErr (SysError EWOULDBLOCK)
              else OpsWait (SemNum op) (SemOp op) READABLE_EVENT)
           else executeOps_loop ops (tmpVals[n := i16 (tmpVals ! n + SemOp op)]))
        else
          (if tmpVals ! n > i16 (VALUE_MAX - SemOp op) then OpsErr (SysError ERANGE)
           else executeOps_loop ops (tmpVals[n := i16 (tmpVals ! n + SemOp op)])))"

definition SetInternal_executeOps ::
    "int \<Rightarrow> u64 \<Rightarrow> sembuf list \<Rightarrow> u64 \<Rightarrow> int \<Rightarrow> sem_set \<Rightarrow> (u64 \<times> int) result \<times> sem_set" where
  "SetInternal_executeOps now newUID ops e pid me =
    (if ss_dead me then (Err (SysError EIDRM), me)
     else case executeOps_loop ops (map s_value (ss_sems me)) of
       OpsErr err \<Rightarrow> (Err err, me)
     | OpsWait num op em \<Rightarrow>
        (let sm = ss_sems me ! unat num;
             sm = sm\<lparr>s_waiters := bt_insert newUID op (s_waiters sm),
                     s_queue := Queue_EventRegister e em (s_queue sm)\<rparr>
         in (Ok (newUID, uint num), me\<lparr>ss_sems := (ss_sems me)[unat num := sm]\<rparr>))
     | OpsDone vals \<Rightarrow>
        (Ok (0, - 1), me\<lparr>
           ss_sems := map (\<lambda>(sm, v). sm\<lparr>s_value := v, s_pid := pid\<rparr>) (zip (ss_sems me) vals),
           ss_woken := ss_woken me @ concat (map Sem_wakeWaiters (ss_sems me)),
           ss_opTime := now\<rparr>))"

definition Set_semStat ::
    "ns_store \<Rightarrow> sem_registry \<Rightarrow> sem_set \<Rightarrow> credentials \<Rightarrow> perm_mask \<Rightarrow> semid_ds result option" where
  "Set_semStat ns reg me creds permMask =
    Option.bind (checkPerms False ns reg me creds permMask) (\<lambda>ok.
      if \<not> ok then Some (Err (SysError EACCES))
      else
        Option.bind (MapFromKUID ns (UserNamespace creds) (fo_UID (ss_owner me))) (\<lambda>uid.
        Option.bind (MapFromKGID ns (UserNamespace creds) (fo_GID (ss_owner me))) (\<lambda>gid.
        Option.bind (MapFromKUID ns (UserNamespace creds) (fo_UID (ss_creator me))) (\<lambda>cuid.
        Option.bind (MapFromKGID ns (UserNamespace creds) (fo_GID (ss_creator me))) (\<lambda>cgid.
          Some (Ok \<lparr>sd_Key = word_of_int (ss_key me), sd_UID = uid, sd_GID = gid, sd_CUID = cuid,
            sd_CGID = cgid, sd_Mode = ucast (FilePermissions_LinuxMode (ss_perms me)), sd_Seq = 0,
            sd_OTime = Time_TimeT (ss_opTime me),
            sd_CTime = Time_TimeT (ss_changeTime me),
            sd_NSems = word_of_int (i32 (int (length (ss_sems me))))\<rparr>))))))"

definition Set_GetStat :: "ns_store \<Rightarrow> sem_registry \<Rightarrow> sem_set \<Rightarrow> credentials \<Rightarrow> semid_ds result option" where
  "Set_GetStat ns reg me creds = Set_semStat ns reg me creds (PermMask_default\<lparr>pm_read := True\<rparr>)"

definition Set_GetStatAny :: "ns_store \<Rightarrow> sem_registry \<Rightarrow> sem_set \<Rightarrow> credentials \<Rightarrow> semid_ds result option" where
  "Set_GetStatAny ns reg me creds = Set_semStat ns reg me creds PermMask_default"

definition Set_Change ::
    "int \<Rightarrow> ns_store \<Rightarrow> sem_registry \<Rightarrow> credentials \<Rightarrow> file_owner \<Rightarrow> file_permissions \<Rightarrow> sem_set \<Rightarrow>
     (unit result \<times> sem_set) option" where
  "Set_Change now ns reg creds owner perms me =
    Option.bind (if checkCredentials me creds then Some True else checkCapability False ns reg me creds) (\<lambda>ok.
      if \<not> ok then Some (Err (SysError EACCES), me)
      else Some (Ok (), me\<lparr>ss_owner := owner, ss_perms := perms, ss_changeTime := now\<rparr>))"

definition Set_SetVal ::
    "int \<Rightarrow> ns_store \<Rightarrow> sem_registry \<Rightarrow> int \<Rightarrow> int \<Rightarrow> credentials \<Rightarrow> int \<Rightarrow> sem_set \<Rightarrow>
     (unit result \<times> sem_set) option" where
  "Set_SetVal now ns reg num val creds pid me =
    (if val < 0 \<or> val > VALUE_MAX then Some (Err (SysError ERANGE), me)
     else Option.bind (checkPerms False ns reg me creds (PermMask_default\<lparr>pm_write := True\<rparr>)) (\<lambda>ok.
       if \<not> ok then Some (Err (SysError EACCES), me)
       else case findSem_mut me num of
         Inl err \<Rightarrow> Some (Err err, me)
       | Inr None \<Rightarrow> Some (Err (SysError ERANGE), me)
       | Inr (Some n) \<Rightarrow>
           (let sm = (ss_sems me ! n)\<lparr>s_value := val, s_pid := pid\<rparr>
            in Some (Ok (), me\<lparr>ss_sems := (ss_sems me)[n := sm],
              ss_woken := ss_woken me @ Sem_wakeWaiters sm, ss_changeTime := now\<rparr>))))"

definition Set_SetValAll ::
    "int \<Rightarrow> ns_store \<Rightarrow> sem_registry \<Rightarrow> u16 list \<Rightarrow> credentials \<Rightarrow> int \<Rightarrow> sem_set \<Rightarrow>
     (unit result \<times> sem_set) option" where
  "Set_SetValAll now ns reg vals creds pid me =
    (if length vals \<noteq> length (ss_sems me) then Some (Err Panic, me)
     else if \<exists>v \<in> set vals. v > word_of_int VALUE_MAX then Some (Err (SysError ERANGE), me)
     else Option.bind (checkPerms False ns reg me creds (PermMask_default\<lparr>pm_write := True\<rparr>)) (\<lambda>ok.
       if \<not> ok then Some (Err (SysError EACCES), me)
       else Some (Ok (), me\<lparr>
         ss_sems := map (\<lambda>(sm, v). sm\<lparr>s_value := i16 (uint v), s_pid := pid\<rparr>) (zip (ss_sems me) vals),
         ss_woken := ss_woken me @ concat (map Sem_wakeWaiters (ss_sems me)),
         ss_changeTime := now\<rparr>)))"

definition Set_GetVal :: "ns_store \<Rightarrow> sem_registry \<Rightarrow> int \<Rightarrow> credentials \<Rightarrow> sem_set \<Rightarrow> int result option" where
  "Set_GetVal ns reg num creds me =
    Option.bind (checkPerms False ns reg me creds (PermMask_default\<lparr>pm_read := True\<rparr>)) (\<lambda>ok.
      if \<not> ok then Some (Err (SysError EACCES))
      else case findSem me num of
        None \<Rightarrow> Some (Err (SysError ERANGE))
      | Some v \<Rightarrow> Some (Ok (s_value v)))"

definition Set_GetValAll :: "ns_store \<Rightarrow> sem_registry \<Rightarrow> credentials \<Rightarrow> sem_set \<Rightarrow> int list result option" where
  "Set_GetValAll ns reg creds me =
    Option.bind (checkPerms False ns reg me creds (PermMask_default\<lparr>pm_read := True\<rparr>)) (\<lambda>ok.
      if \<not> ok then Some (Err (SysError EACCES))
      else Some (Ok (map s_value (ss_sems me))))"

definition Set_GetPID :: "ns_store \<Rightarrow> sem_registry \<Rightarrow> int \<Rightarrow> credentials \<Rightarrow> sem_set \<Rightarrow> int result option" where
  "Set_GetPID ns reg num creds me =
    Option.bind (checkPerms False ns reg me creds (PermMask_default\<lparr>pm_read := True\<rparr>)) (\<lambda>ok.
      if \<not> ok then Some (Err (SysError EACCES))
      else case findSem me num of
        None \<Rightarrow> Some (Err (SysError ERANGE))
      | Some v \<Rightarrow> Some (Ok (s_pid v)))"

definition Set_GetZeroWaiters :: "ns_store \<Rightarrow> sem_registry \<Rightarrow> int \<Rightarrow> credentials \<Rightarrow> sem_set \<Rightarrow> u16 result option" where
  "Set_GetZeroWaiters ns reg num creds me =
    Option.bind (checkPerms False ns reg me creds (PermMask_default\<lparr>pm_read := True\<rparr>)) (\<lambda>ok.
      if \<not> ok then Some (Err (SysError EACCES))
      else case findSem me num of
        None \<Rightarrow> Some (Err (SysError ERANGE))
      | Some v \<Rightarrow> Some (Ok (fold (\<lambda>(_, val) cnt. if val = 0 then cnt + 1 else cnt) (s_waiters v) 0)))"

definition Set_GetNegativeWaiters :: "ns_store \<Rightarrow> sem_registry \<Rightarrow> int \<Rightarrow> credentials \<Rightarrow> sem_set \<Rightarrow> u16 result option" where
  "Set_GetNegativeWaiters ns reg num creds me =
    Option.bind (checkPerms False ns reg me creds (PermMask_default\<lparr>pm_read := True\<rparr>)) (\<lambda>ok.
      if \<not> ok then Some (Err (SysError EACCES))
      else case findSem me num of
        None \<Rightarrow> Some (Err (SysError ERANGE))
      | Some v \<Rightarrow> Some (Ok (fold (\<lambda>(_, val) cnt. if val < 0 then cnt + 1 else cnt) (s_waiters v) 0)))"

definition Set_ExecuteOps ::
    "int \<Rightarrow> u64 \<Rightarrow> ns_store \<Rightarrow> sem_registry \<Rightarrow> sembuf list \<Rightarrow> credentials \<Rightarrow> u64 \<Rightarrow> int \<Rightarrow> sem_set \<Rightarrow>
     ((u64 \<times> int) result \<times> sem_set) option" where
  "Set_ExecuteOps now newUID ns reg ops creds e pid me =
    (if ss_dead me then Some (Err (SysError EIDRM), me)
     else if \<exists>op \<in> set ops. findSem me (uint (SemNum op)) = None then Some (Err (SysError EFBIG), me)
     else
       let readonly = (\<forall>op \<in> set ops. SemOp op = 0)
       in Option.bind (checkPerms False ns reg me creds
              \<lparr>pm_read = readonly, pm_write = \<not> readonly, pm_execute = False\<rparr>) (\<lambda>ok.
            if \<not> ok then Some (Err (SysError EACCES), me)
            else Some (SetInternal_executeOps now newUID ops e pid me)))"

definition Set_AbortWait :: "u64 \<Rightarrow> int \<Rightarrow> u64 \<Rightarrow> sem_set \<Rightarrow> sem_set result" where
  "Set_AbortWait waiterid num e me =
    (if \<not> (0 \<le> num \<and> nat num < length (ss_sems me)) then Err Panic
     else
       let sm = ss_sems me ! nat num;
           sm = sm\<lparr>s_waiters := bt_remove waiterid (s_waiters sm),
                   s_queue := Queue_EventUnregister e (s_queue sm)\<rparr>
       in Ok (me\<lparr>ss_sems := (ss_sems me)[nat num := sm]\<rparr>))"

section \<open>The registry\<close>

definition SemRegistry_New :: "nat \<Rightarrow> sem_registry" where
  "SemRegistry_New userNS = \<lparr>sr_userNS = userNS, sr_semaphores = [], sr_lastIDUsed = 0\<rparr>"

definition findByID :: "sem_registry \<Rightarrow> int \<Rightarrow> nat option" where
  "findByID r i = bt_get (sr_semaphores r) i"

definition findByKey :: "sem_world \<Rightarrow> int \<Rightarrow> nat option" where
  "findByKey w key =
    map_option snd (find (\<lambda>(_, a). ss_key (sw_sets w ! a) = key) (sr_semaphores (sw_registry w)))"

definition HighestIndex :: "sem_registry \<Rightarrow> int" where
  "HighestIndex r = (case bt_last (sr_semaphores r) of None \<Rightarrow> 0 | Some (i, _) \<Rightarrow> i)"

definition totalSems :: "sem_world \<Rightarrow> nat" where
  "totalSems w = sum_list (map (\<lambda>(_, a). length (ss_sems (sw_sets w ! a))) (sr_semaphores (sw_registry w)))"

partial_function (option) newSet_loop :: "(int, nat) btree \<Rightarrow> int \<Rightarrow> int \<Rightarrow> int option option" where
  [code]: "newSet_loop m lastID i =
    (if i = lastID then Some None
     else
       let i = (if i < 0 then 0 else i)
       in if bt_get m i = None then Some (Some i)
          else newSet_loop m lastID (i32 (i + 1)))"

definition newSet ::
    "int \<Rightarrow> int \<Rightarrow> file_owner \<Rightarrow> file_owner \<Rightarrow> file_permissions \<Rightarrow> int \<Rightarrow> sem_world \<Rightarrow>
     (nat result \<times> sem_world) option" where
  "newSet now key owner creator perms nsems w =
    (let set = Set_New now key owner creator perms nsems;
         r = sw_registry w
     in Option.bind (newSet_loop (sr_semaphores r) (sr_lastIDUsed r) (i32 (sr_lastIDUsed r + 1))) (\<lambda>found.
          case found of
            None \<Rightarrow> Some (Err (SysError ENOMEM), w)
          | Some i \<Rightarrow>
              Some (Ok (length (sw_sets w)), w\<lparr>
                sw_registry := r\<lparr>sr_lastIDUsed := i,
                  sr_semaphores := bt_insert i (length (sw_sets w)) (sr_semaphores r)\<rparr>,
                sw_sets := sw_sets w @ [set\<lparr>ss_id := i\<rparr>]\<rparr>)))"

definition FindOrCreate ::
    "int \<Rightarrow> ns_store \<Rightarrow> credentials \<Rightarrow> int \<Rightarrow> int \<Rightarrow> FileMode \<Rightarrow> bool \<Rightarrow> bool \<Rightarrow> bool \<Rightarrow> sem_world \<Rightarrow>
     (nat result \<times> sem_world) option" where
  "FindOrCreate now ns creds key nsems mode private create exclusive w =
    (let r = sw_registry w;
         createNew =
           (if nsems = 0 then Some (Err (SysError EINVAL), w)
            else if length (sr_semaphores r) \<ge> unat SETS_MAX then Some (Err (SysError ENOSPC), w)
            else if totalSems w > unat SEMAPHORES_TOTAL_MAX - nat nsems then Some (Err (SysError ENOSPC), w)
            else
              let owner = Credentials_FileOwner creds;
                  perms = FilePermissions_FromMode mode
              in newSet now key owner owner perms nsems w)
     in if nsems < 0 \<or> nsems > uint SEMAPHORES_MAX then Some (Err (SysError EINVAL), w)
        else if private then createNew
        else case findByKey w key of
          None \<Rightarrow> if \<not> create then Some (Err (SysError ENOENT), w) else createNew
        | Some a \<Rightarrow>
            (let set = sw_sets w ! a
             in Option.bind (checkPerms True ns r set creds (PermMask_FromMode mode)) (\<lambda>ok.
                  if \<not> ok then Some (Err (SysError EACCES), w)
                  else if nsems > i32 (int (length (ss_sems set))) then Some (Err (SysError EINVAL), w)
                  else if create \<and> exclusive then Some (Err (SysError EEXIST), w)
                  else Some (Ok a, w))))"

definition SemRegistry_IPCInfo :: sem_info where
  "SemRegistry_IPCInfo =
    \<lparr>SemMap = SEMMAP, SemMni = SEMMNI, SemMns = SEMMNS, SemMnu = SEMMNU, SemMsl = SEMMSL,
     SemOpm = SEMOPM, SemUme = SEMUME, SemUsz = SEMUSZ, SemVmx = SEMVMX, SemAem = SEMAEM\<rparr>"

definition SemRegistry_SemInfo :: "sem_world \<Rightarrow> sem_info" where
  "SemRegistry_SemInfo w =
    SemRegistry_IPCInfo\<lparr>SemUsz := of_nat (length (sr_semaphores (sw_registry w))),
      SemAem := of_nat (totalSems w)\<rparr>"

definition SemRegistry_RemoveId ::
    "ns_store \<Rightarrow> int \<Rightarrow> credentials \<Rightarrow> sem_world \<Rightarrow> (unit result \<times> sem_world) option" where
  "SemRegistry_RemoveId ns i creds w =
    (let r = sw_registry w
     in case bt_get (sr_semaphores r) i of
          None \<Rightarrow> Some (Err (SysError EINVAL), w)
        | Some a \<Rightarrow>
            (let set = sw_sets w ! a
             in Option.bind (if checkCredentials set creds then Some True
                             else checkCapability True ns r set creds) (\<lambda>ok.
                  if \<not> ok then Some (Err (SysError EACCES), w)
                  else Some (Ok (), w\<lparr>
                    sw_registry := r\<lparr>sr_semaphores := bt_remove (ss_id set) (sr_semaphores r)\<rparr>,
                    sw_sets := (sw_sets w)[a := SetInternal_destroy set]\<rparr>))))"

end
