(* ===== verification/Sem_Syscalls.thy ===== *)
theory Sem_Syscalls
  imports Semaphore Linux_Time
begin

text \<open>
  The semaphore system calls: \<^verbatim>\<open>qkernel/src/syscalls/sys_sem.rs\<close>. What a call reads of the
  calling task (credentials, process identifier, wait entry, copies from and to its memory) is the
  record \<open>sem_task\<close>. A call that blocks is described by its rounds: each gives the clock and the
  fresh waiter identifier of the attempt, what the other tasks did to the registry while the
  caller slept, and what the blocker returned for the deadline. A call whose rounds are used up is
  still asleep, its outcome is \<open>None\<close>.
\<close>

section \<open>Data\<close>

definition OPS_MAX :: int where "OPS_MAX = 500"

definition GETPID :: int where "GETPID = 11"
definition GETVAL :: int where "GETVAL = 12"
definition GETALL :: int where "GETALL = 13"
definition GETNCNT :: int where "GETNCNT = 14"
definition GETZCNT :: int where "GETZCNT = 15"
definition SETVAL :: int where "SETVAL = 16"
definition SETALL :: int where "SETALL = 17"
definition SEM_STAT :: int where "SEM_STAT = 18"
definition SEM_INFO :: int where "SEM_INFO = 19"
definition SEM_STAT_ANY :: int where "SEM_STAT_ANY = 20"
definition IPC_RMID :: int where "IPC_RMID = 0"
definition IPC_SET :: int where "IPC_SET = 1"
definition IPC_STAT :: int where "IPC_STAT = 2"
definition IPC_INFO :: int where "IPC_INFO = 3"

datatype semctl_out =
    OutVals "int list"
  | OutDS semid_ds
  | OutInfo sem_info

record sem_task =
  t_now :: int
  t_ns :: ns_store
  t_creds :: credentials
  t_pid :: int
  t_entry :: u64
  t_CopyInOps :: "u64 \<Rightarrow> nat \<Rightarrow> sembuf list result"
  t_CopyInTimespec :: "u64 \<Rightarrow> Timespec result"
  t_CopyInVals :: "u64 \<Rightarrow> nat \<Rightarrow> u16 list result"
  t_CopyInDS :: "u64 \<Rightarrow> semid_ds result"
  t_CopyOut :: "semctl_out \<Rightarrow> u64 \<Rightarrow> unit result"
  t_ThreadGroupWithID :: "int \<Rightarrow> int option"

record sem_round =
  rd_now :: int
  rd_uid :: u64
  rd_others :: "sem_world \<Rightarrow> sem_world"
  rd_block :: "int option \<Rightarrow> unit result"

section \<open>semget\<close>

definition SysSemgetl :: "sem_task \<Rightarrow> int \<Rightarrow> int \<Rightarrow> int \<Rightarrow> sem_world \<Rightarrow> (int result \<times> sem_world) option" where
  "SysSemgetl t key nsems flag w =
    (let private = (key = IPC_PRIVATE);
         create = (flag AND IPC_CREAT = IPC_CREAT);
         exclusive = (flag AND IPC_EXCL = IPC_EXCL);
         mode = (word_of_int flag :: u16) AND 0x1FF
     in Option.bind (FindOrCreate (t_now t) (t_ns t) (t_creds t) key nsems mode private create exclusive w)
          (\<lambda>(r, w). Some (and_then r (\<lambda>a. Ok (ss_id (sw_sets w ! a))), w)))"

section \<open>semop and semtimedop\<close>

text \<open>One pass of the loop: the operations on the set at address \<open>a\<close>.\<close>

definition SemTimedOp_attempt ::
    "sem_task \<Rightarrow> nat \<Rightarrow> sembuf list \<Rightarrow> sem_round \<Rightarrow> sem_world \<Rightarrow> ((u64 \<times> int) result \<times> sem_world) option" where
  "SemTimedOp_attempt t a ops rd w =
    Option.bind (Set_ExecuteOps (rd_now rd) (rd_uid rd) (t_ns t) (sw_registry w) ops (t_creds t) (t_entry t)
        (t_pid t) (sw_sets w ! a)) (\<lambda>(r, st).
      Some (r, w\<lparr>sw_sets := (sw_sets w)[a := st]\<rparr>))"

definition AbortWait_at :: "sem_task \<Rightarrow> nat \<Rightarrow> u64 \<Rightarrow> int \<Rightarrow> sem_world \<Rightarrow> sem_world result" where
  "AbortWait_at t a waiterid num w =
    and_then (Set_AbortWait waiterid num (t_entry t) (sw_sets w ! a)) (\<lambda>st.
      Ok (w\<lparr>sw_sets := (sw_sets w)[a := st]\<rparr>))"

fun SemTimedOp_loop ::
    "sem_task \<Rightarrow> nat \<Rightarrow> sembuf list \<Rightarrow> int option \<Rightarrow> sem_round list \<Rightarrow> sem_world \<Rightarrow>
     (unit result \<times> sem_world) option" where
  "SemTimedOp_loop t a ops deadline [] w = None"
| "SemTimedOp_loop t a ops deadline (rd # rds) w =
    Option.bind (SemTimedOp_attempt t a ops rd w) (\<lambda>(r, w).
      case r of
        Inl err \<Rightarrow> Some (Err err, w)
      | Inr (waiterid, num) \<Rightarrow>
          if num = - 1 then Some (Ok (), w)
          else
            let w = rd_others rd w
            in case AbortWait_at t a waiterid num w of
                 Inl err \<Rightarrow> Some (Err err, w)
               | Inr w \<Rightarrow>
                   (case rd_block rd deadline of
                      Inl err \<Rightarrow>
                        Some (Err (if err = ErrInterrupted then SysError ERESTARTNOHAND
                                   else if err = SysError ETIMEDOUT then SysError EAGAIN
                                   else err), w)
                    | Inr _ \<Rightarrow> SemTimedOp_loop t a ops deadline rds w))"

definition SemTimedOp ::
    "sem_task \<Rightarrow> int \<Rightarrow> sembuf list \<Rightarrow> int option \<Rightarrow> int \<Rightarrow> sem_round list \<Rightarrow> sem_world \<Rightarrow>
     (unit result \<times> sem_world) option" where
  "SemTimedOp t i ops timeout MonotonicNow rds w =
    (case findByID (sw_registry w) i of
       None \<Rightarrow> Some (Err (SysError EINVAL), w)
     | Some a \<Rightarrow>
        (let deadline = (case timeout of None \<Rightarrow> None | Some dur \<Rightarrow> Some (i64 (MonotonicNow + dur)))
         in SemTimedOp_loop t a ops deadline rds w))"

definition SysSemop ::
    "sem_task \<Rightarrow> int \<Rightarrow> u64 \<Rightarrow> u32 \<Rightarrow> int \<Rightarrow> sem_round list \<Rightarrow> sem_world \<Rightarrow> (int result \<times> sem_world) option" where
  "SysSemop t i sembufAddr nsops MonotonicNow rds w =
    (if nsops \<le> 0 then Some (Err (SysError EINVAL), w)
     else if nsops > word_of_int OPS_MAX then Some (Err (SysError E2BIG), w)
     else case t_CopyInOps t sembufAddr (unat nsops) of
       Inl err \<Rightarrow> Some (Err err, w)
     | Inr ops \<Rightarrow>
        Option.bind (SemTimedOp t i ops None MonotonicNow rds w) (\<lambda>(r, w).
          Some (and_then r (\<lambda>_. Ok 0), w)))"

definition SysSemtimedop ::
    "sem_task \<Rightarrow> int \<Rightarrow> u64 \<Rightarrow> u32 \<Rightarrow> u64 \<Rightarrow> int \<Rightarrow> sem_round list \<Rightarrow> sem_world \<Rightarrow>
     (int result \<times> sem_world) option" where
  "SysSemtimedop t i sembufAddr nsops timespecAddr MonotonicNow rds w =
    (if timespecAddr = 0 then SysSemop t i sembufAddr nsops MonotonicNow rds w
     else if nsops \<le> 0 then Some (Err (SysError EINVAL), w)
     else if nsops > word_of_int OPS_MAX then Some (Err (SysError E2BIG), w)
     else case t_CopyInOps t sembufAddr (unat nsops) of
       Inl err \<Rightarrow> Some (Err err, w)
     | Inr ops \<Rightarrow>
        (case and_then (t_CopyInTimespec t timespecAddr) Timespec_ToDuration of
           Inl err \<Rightarrow> Some (Err err, w)
         | Inr dur \<Rightarrow>
            Option.bind (SemTimedOp t i ops (Some dur) MonotonicNow rds w) (\<lambda>(r, w).
              Some (and_then r (\<lambda>_. Ok 0), w))))"

section \<open>semctl\<close>

text \<open>The lookup by identifier that every command but removal starts with, followed by an
  operation on the set found.\<close>

definition with_set ::
    "(sem_set \<Rightarrow> ('a result \<times> sem_set) option) \<Rightarrow> int \<Rightarrow> sem_world \<Rightarrow> ('a result \<times> sem_world) option" where
  "with_set f i w =
    (case findByID (sw_registry w) i of
       None \<Rightarrow> Some (Err (SysError EINVAL), w)
     | Some a \<Rightarrow>
        Option.bind (f (sw_sets w ! a)) (\<lambda>(r, st). Some (r, w\<lparr>sw_sets := (sw_sets w)[a := st]\<rparr>)))"

definition read_set ::
    "(sem_set \<Rightarrow> 'a result option) \<Rightarrow> int \<Rightarrow> sem_world \<Rightarrow> ('a result \<times> sem_world) option" where
  "read_set f i w =
    (case findByID (sw_registry w) i of
       None \<Rightarrow> Some (Err (SysError EINVAL), w)
     | Some a \<Rightarrow> Option.bind (f (sw_sets w ! a)) (\<lambda>r. Some (r, w)))"

definition sem_remove :: "sem_task \<Rightarrow> int \<Rightarrow> sem_world \<Rightarrow> (unit result \<times> sem_world) option" where
  "sem_remove t i w = SemRegistry_RemoveId (t_ns t) i (t_creds t) w"

definition ipcSet ::
    "sem_task \<Rightarrow> int \<Rightarrow> UID \<Rightarrow> GID \<Rightarrow> file_permissions \<Rightarrow> sem_world \<Rightarrow> (unit result \<times> sem_world) option" where
  "ipcSet t i uid gid perms w =
    with_set (\<lambda>st.
      Option.bind (MapToKUID (t_ns t) (UserNamespace (t_creds t)) uid) (\<lambda>kuid.
        if \<not> KUID_Ok kuid then Some (Err (SysError EINVAL), st)
        else Option.bind (MapToKGID (t_ns t) (UserNamespace (t_creds t)) gid) (\<lambda>kgid.
          if \<not> KGID_Ok kgid then Some (Err (SysError EINVAL), st)
          else Set_Change (t_now t) (t_ns t) (sw_registry w) (t_creds t) \<lparr>fo_UID = kuid, fo_GID = kgid\<rparr> perms st))) i w"

definition ipcStat :: "sem_task \<Rightarrow> int \<Rightarrow> sem_world \<Rightarrow> (semid_ds result \<times> sem_world) option" where
  "ipcStat t i w = read_set (\<lambda>st. Set_GetStat (t_ns t) (sw_registry w) st (t_creds t)) i w"

definition semStat :: "sem_task \<Rightarrow> int \<Rightarrow> sem_world \<Rightarrow> ((semid_ds \<times> int) result \<times> sem_world) option" where
  "semStat t i w =
    read_set (\<lambda>st. map_option (\<lambda>r. and_then r (\<lambda>ds. Ok (ds, ss_id st)))
      (Set_GetStat (t_ns t) (sw_registry w) st (t_creds t))) i w"

definition semStatAny :: "sem_task \<Rightarrow> int \<Rightarrow> sem_world \<Rightarrow> ((semid_ds \<times> int) result \<times> sem_world) option" where
  "semStatAny t i w =
    read_set (\<lambda>st. map_option (\<lambda>r. and_then r (\<lambda>ds. Ok (ds, ss_id st)))
      (Set_GetStatAny (t_ns t) (sw_registry w) st (t_creds t))) i w"

definition setVal :: "sem_task \<Rightarrow> int \<Rightarrow> int \<Rightarrow> int \<Rightarrow> sem_world \<Rightarrow> (unit result \<times> sem_world) option" where
  "setVal t i num val w =
    with_set (Set_SetVal (t_now t) (t_ns t) (sw_registry w) num val (t_creds t) (t_pid t)) i w"

definition setValAll :: "sem_task \<Rightarrow> int \<Rightarrow> u64 \<Rightarrow> sem_world \<Rightarrow> (unit result \<times> sem_world) option" where
  "setValAll t i array w =
    with_set (\<lambda>st. case t_CopyInVals t array (length (ss_sems st)) of
        Inl err \<Rightarrow> Some (Err err, st)
      | Inr vals \<Rightarrow> Set_SetValAll (t_now t) (t_ns t) (sw_registry w) vals (t_creds t) (t_pid t) st) i w"

definition getVal :: "sem_task \<Rightarrow> int \<Rightarrow> int \<Rightarrow> sem_world \<Rightarrow> (int result \<times> sem_world) option" where
  "getVal t i num w = read_set (Set_GetVal (t_ns t) (sw_registry w) num (t_creds t)) i w"

definition getValAll :: "sem_task \<Rightarrow> int \<Rightarrow> u64 \<Rightarrow> sem_world \<Rightarrow> (unit result \<times> sem_world) option" where
  "getValAll t i array w =
    read_set (\<lambda>st. map_option (\<lambda>r. and_then r (\<lambda>values. t_CopyOut t (OutVals values) array))
      (Set_GetValAll (t_ns t) (sw_registry w) (t_creds t) st)) i w"

definition getPid :: "sem_task \<Rightarrow> int \<Rightarrow> int \<Rightarrow> sem_world \<Rightarrow> (int result \<times> sem_world) option" where
  "getPid t i num w =
    read_set (\<lambda>st. map_option (\<lambda>r. and_then r (\<lambda>gpid.
        case t_ThreadGroupWithID t gpid of None \<Rightarrow> Ok 0 | Some tg \<Rightarrow> Ok tg))
      (Set_GetPID (t_ns t) (sw_registry w) num (t_creds t) st)) i w"

definition getSemzcnt :: "sem_task \<Rightarrow> int \<Rightarrow> int \<Rightarrow> sem_world \<Rightarrow> (u16 result \<times> sem_world) option" where
  "getSemzcnt t i num w = read_set (Set_GetZeroWaiters (t_ns t) (sw_registry w) num (t_creds t)) i w"

definition getSemncnt :: "sem_task \<Rightarrow> int \<Rightarrow> int \<Rightarrow> sem_world \<Rightarrow> (u16 result \<times> sem_world) option" where
  "getSemncnt t i num w = read_set (Set_GetNegativeWaiters (t_ns t) (sw_registry w) num (t_creds t)) i w"

text \<open>The result of a command turned into the value of the system call.\<close>

definition map_ret :: "('a \<Rightarrow> int result) \<Rightarrow> ('a result \<times> sem_world) option \<Rightarrow> (int result \<times> sem_world) option" where
  "map_ret f = map_option (\<lambda>(r, w). (and_then r f, w))"

definition SysSemctl ::
    "sem_task \<Rightarrow> int \<Rightarrow> int \<Rightarrow> int \<Rightarrow> u64 \<Rightarrow> sem_world \<Rightarrow> (int result \<times> sem_world) option" where
  "SysSemctl t i num cmd arg w =
    (if cmd = SETVAL then
       (let val = u64_as_i32 arg
        in if val > 32767 then Some (Err (SysError ERANGE), w)
           else map_ret (\<lambda>_. Ok 0) (setVal t i num (i16 val) w))
     else if cmd = SETALL then map_ret (\<lambda>_. Ok 0) (setValAll t i arg w)
     else if cmd = GETVAL then map_ret Ok (getVal t i num w)
     else if cmd = GETALL then map_ret (\<lambda>_. Ok 0) (getValAll t i arg w)
     else if cmd = IPC_RMID then map_ret (\<lambda>_. Ok 0) (sem_remove t i w)
     else if cmd = IPC_SET then
       (case t_CopyInDS t arg of
          Inl err \<Rightarrow> Some (Err err, w)
        | Inr s \<Rightarrow>
            (let mode = sd_Mode s AND 0x1FF;
                 perm = FilePermissions_FromMode mode
             in map_ret (\<lambda>_. Ok 0) (ipcSet t i (sd_UID s) (sd_GID s) perm w)))
     else if cmd = GETPID then map_ret Ok (getPid t i num w)
     else if cmd = IPC_STAT then
       map_ret (\<lambda>ds. and_then (t_CopyOut t (OutDS ds) arg) (\<lambda>_. Ok 0)) (ipcStat t i w)
     else if cmd = GETZCNT then map_ret (\<lambda>v. Ok (uint v)) (getSemzcnt t i num w)
     else if cmd = GETNCNT then map_ret (\<lambda>v. Ok (uint v)) (getSemncnt t i num w)
     else if cmd = IPC_INFO then
       Some (and_then (t_CopyOut t (OutInfo SemRegistry_IPCInfo) arg) (\<lambda>_. Ok (HighestIndex (sw_registry w))), w)
     else if cmd = SEM_INFO then
       Some (and_then (t_CopyOut t (OutInfo (SemRegistry_SemInfo w)) arg) (\<lambda>_. Ok (HighestIndex (sw_registry w))), w)
     else if cmd = SEM_STAT then
       map_ret (\<lambda>(ds, semid). and_then (t_CopyOut t (OutDS ds) arg) (\<lambda>_. Ok semid)) (semStat t i w)
     else if cmd = SEM_STAT_ANY then
       map_ret (\<lambda>(ds, semid). and_then (t_CopyOut t (OutDS ds) arg) (\<lambda>_. Ok semid)) (semStatAny t i w)
     else Some (Err (SysError EINVAL), w))"

end
