(* ===== verification/Semaphore_Props.thy ===== *)
theory Semaphore_Props
  imports Sem_Syscalls
begin

text \<open>
  Properties of the semaphore registry: the invariant of every reachable registry, the
  atomicity of a list of operations, the search for an unused identifier, wake-ups, and the
  defects the model exposes (a value below zero, an out of bounds access and two self-deadlocks).
\<close>

section \<open>Operations on the values of a set\<close>

lemma VALUE_MAX_eq [simp]: "VALUE_MAX = 32000"
  by (simp add: VALUE_MAX_def SEMMNI_def i16_def)

definition values_ok :: "int list \<Rightarrow> bool" where
  "values_ok vals \<longleftrightarrow> (\<forall>v \<in> set vals. 0 \<le> v \<and> v \<le> VALUE_MAX)"

definition op_ok :: "sembuf \<Rightarrow> bool" where
  "op_ok op \<longleftrightarrow> - 32768 < SemOp op \<and> SemOp op \<le> 32767"

definition op_sum :: "sembuf list \<Rightarrow> nat \<Rightarrow> int" where
  "op_sum ops i = sum_list (map SemOp (filter (\<lambda>op. unat (SemNum op) = i) ops))"

lemma op_sum_simps [simp]:
  "op_sum [] i = 0"
  "op_sum (op # ops) i = (if unat (SemNum op) = i then SemOp op else 0) + op_sum ops i"
  by (simp_all add: op_sum_def)

lemma values_ok_update: "values_ok vals \<Longrightarrow> 0 \<le> v \<Longrightarrow> v \<le> VALUE_MAX \<Longrightarrow> values_ok (vals[n := v])"
  unfolding values_ok_def by (auto dest: set_update_subset_insert [THEN subsetD])

lemma executeOps_step:
  assumes "values_ok vals" and "n < length vals" and "op_ok op" and "n = unat (SemNum op)"
    and "executeOps_loop (op # ops) vals = OpsDone vals'"
  shows "executeOps_loop ops (vals[n := vals ! n + SemOp op]) = OpsDone vals' \<and>
    values_ok (vals[n := vals ! n + SemOp op])"
proof -
  have v: "0 \<le> vals ! n" "vals ! n \<le> 32000" using assms(1,2) by (simp_all add: values_ok_def)
  show ?thesis
    using assms v
    by (auto simp: Let_def op_ok_def i16_id values_ok_update split: if_splits)
qed

lemma executeOps_loop_done:
  assumes "executeOps_loop ops vals = OpsDone vals'" and "values_ok vals" and "\<forall>op \<in> set ops. op_ok op"
  shows "length vals' = length vals \<and> values_ok vals' \<and>
    (\<forall>i < length vals. vals' ! i = vals ! i + op_sum ops i)"
  using assms
proof (induction ops arbitrary: vals)
  case (Cons op ops)
  let ?n = "unat (SemNum op)"
  have n: "?n < length vals" using Cons.prems(1) by (auto simp: Let_def split: if_splits)
  have step: "executeOps_loop ops (vals[?n := vals ! ?n + SemOp op]) = OpsDone vals' \<and>
      values_ok (vals[?n := vals ! ?n + SemOp op])"
    using Cons.prems n by (intro executeOps_step) simp_all
  with Cons.IH [of "vals[?n := vals ! ?n + SemOp op]"] Cons.prems(3) show ?case
    by (auto simp: nth_list_update)
qed simp

lemma executeOps_loop_length:
  "executeOps_loop ops vals = OpsDone vals' \<Longrightarrow> length vals' = length vals"
  by (induction ops arbitrary: vals) (auto simp: Let_def split: if_splits)

lemma executeOps_loop_wait:
  "executeOps_loop ops vals = OpsWait num op em \<Longrightarrow> unat num < length vals \<and> EVENT_IN AND em \<noteq> 0 \<and> op \<le> 0"
proof (induction ops arbitrary: vals)
  case (Cons b ops)
  have masks: "EVENT_IN AND EVENT_READ \<noteq> 0" "EVENT_IN AND READABLE_EVENT \<noteq> 0" by code_simp+
  show ?case
    using Cons.prems Cons.IH [of vals]
      Cons.IH [of "vals[unat (SemNum b) := i16 (vals ! unat (SemNum b) + SemOp b)]"]
    by (auto simp: Let_def masks split: if_splits)
qed simp

lemma executeOps_loop_range:
  "executeOps_loop ops vals = OpsErr err \<Longrightarrow> \<forall>op \<in> set ops. unat (SemNum op) < length vals \<Longrightarrow> err \<noteq> Panic"
  by (induction ops arbitrary: vals) (auto simp: Let_def split: if_splits)

section \<open>The search for an unused identifier\<close>

lemma i32_succ: "0 \<le> i \<Longrightarrow> i < 2147483647 \<Longrightarrow> i32 (i + 1) = i + 1"
  by (rule i32_id) simp_all

lemma i32_wrap: "i32 (2147483647 + 1) = - 2147483648"
  by (simp add: i32_def)

definition candidate :: "int \<Rightarrow> nat \<Rightarrow> int" where
  "candidate lastID k = (lastID + 1 + int k) mod 2147483648"

lemma candidate_range: "0 \<le> candidate l k \<and> candidate l k \<le> 2147483647"
  by (simp add: candidate_def)

lemma candidate_next:
  "candidate l (Suc k) = (if candidate l k = 2147483647 then 0 else candidate l k + 1)"
proof -
  have "candidate l (Suc k) = ((l + 1 + int k) + 1) mod 2147483648"
    unfolding candidate_def by (simp add: algebra_simps)
  also have "\<dots> = (candidate l k + 1) mod 2147483648"
    unfolding candidate_def by (simp only: mod_add_left_eq)
  finally show ?thesis using candidate_range [of l k] by auto
qed

text \<open>The value of the loop variable that stands for a candidate.\<close>

definition at_candidate :: "int \<Rightarrow> int \<Rightarrow> bool" where
  "at_candidate i c \<longleftrightarrow> i = c \<or> (c = 0 \<and> i = - 2147483648)"

lemma candidate_not_last:
  assumes "0 \<le> l" "l \<le> 2147483647" "k < 2147483647"
  shows "candidate l k \<noteq> l"
proof
  assume "candidate l k = l"
  then have "(l + 1 + int k) mod 2147483648 = l mod 2147483648" using assms by (simp add: candidate_def)
  then have "2147483648 dvd (l + 1 + int k - l)" by (simp only: mod_eq_dvd_iff)
  then have "2147483648 dvd 1 + int k" by simp
  then show False using assms(3) zdvd_imp_le [of 2147483648 "1 + int k"] by simp
qed

lemma newSet_loop_scan:
  assumes l: "0 \<le> l" "l \<le> 2147483647" and "k + n < 2147483647"
    and "at_candidate i (candidate l k)"
    and "\<forall>j < n. bt_get m (candidate l (k + j)) \<noteq> None" and "bt_get m (candidate l (k + n)) = None"
  shows "newSet_loop m l i = Some (Some (candidate l (k + n)))"
  using assms(3-)
proof (induction n arbitrary: k i)
  case 0
  have "i \<noteq> l" using 0(2) l candidate_not_last [OF l, of k] 0(1) by (auto simp: at_candidate_def)
  moreover have "(if i < 0 then 0 else i) = candidate l k"
    using 0(2) candidate_range [of l k] by (auto simp: at_candidate_def)
  ultimately show ?case using 0 by (subst newSet_loop.simps) (simp add: Let_def)
next
  case (Suc n)
  have "i \<noteq> l" using Suc.prems(1,2) l candidate_not_last [OF l, of k] by (auto simp: at_candidate_def)
  moreover have c: "(if i < 0 then 0 else i) = candidate l k"
    using Suc.prems(2) candidate_range [of l k] by (auto simp: at_candidate_def)
  moreover have "bt_get m (candidate l k) \<noteq> None" using Suc.prems(3) by (auto dest: spec [of _ 0])
  ultimately have "newSet_loop m l i = newSet_loop m l (i32 (candidate l k + 1))"
    by (subst newSet_loop.simps) (auto simp: Let_def)
  also have "\<dots> = Some (Some (candidate l (Suc k + n)))"
  proof (rule Suc.IH)
    show "at_candidate (i32 (candidate l k + 1)) (candidate l (Suc k))"
      using candidate_range [of l k] i32_wrap i32_succ [of "candidate l k"]
      by (auto simp: at_candidate_def candidate_next)
    show "\<forall>j < n. bt_get m (candidate l (Suc k + j)) \<noteq> None"
      using Suc.prems(3) by (metis Suc_less_eq add_Suc_shift)
  qed (use Suc.prems in auto)
  finally show ?case by simp
qed

lemma candidate_inj: "inj_on (candidate l) {0..<2147483648}"
proof (rule inj_onI)
  fix x y assume "x \<in> {0..<2147483648}" "y \<in> {0..<2147483648}" "candidate l x = candidate l y"
  then have "2147483648 dvd (l + 1 + int x) - (l + 1 + int y)" by (simp add: candidate_def mod_eq_dvd_iff)
  then have d: "2147483648 dvd int x - int y" by simp
  have "\<bar>int x - int y\<bar> < 2147483648" using \<open>x \<in> _\<close> \<open>y \<in> _\<close> by auto
  with d show "x = y" using dvd_imp_le_int [OF _ d] by fastforce
qed

lemma newSet_loop_finds:
  assumes l: "0 \<le> l" "l \<le> 2147483647" and len: "length m \<le> 32000"
  obtains i where "newSet_loop m l (i32 (l + 1)) = Some (Some i)" "bt_get m i = None" "0 \<le> i" "i \<le> 2147483647"
proof -
  let ?C = "candidate l ` {0..<32001}"
  have "card ?C = 32001" using inj_on_subset [OF candidate_inj, of "{0..<32001}"] by (subst card_image) auto
  moreover have "card (dom (bt_get m)) \<le> 32000"
    unfolding dom_bt_get using len card_image_le [of "set m" fst] card_length [of m] by (meson finite_set le_trans)
  moreover have "finite (dom (bt_get m))" by (simp add: dom_bt_get)
  ultimately have "\<not> ?C \<subseteq> dom (bt_get m)" using card_mono [of "dom (bt_get m)" ?C] by linarith
  then obtain c where "c \<in> ?C" "c \<notin> dom (bt_get m)" by blast
  then obtain k where k: "k < 32001" "bt_get m (candidate l k) = None" by (auto simp add: domIff simp del: not_None_eq)
  define n where "n = (LEAST k. bt_get m (candidate l k) = None)"
  have n: "bt_get m (candidate l n) = None" "n \<le> k"
    unfolding n_def using k(2) by (rule LeastI, intro Least_le)
  have "bt_get m (candidate l j) \<noteq> None" if "j < n" for j using that not_less_Least unfolding n_def by blast
  moreover have "at_candidate (i32 (l + 1)) (candidate l 0)"
    using l i32_wrap i32_succ [of l] by (cases "l = 2147483647") (auto simp: at_candidate_def candidate_def)
  ultimately have "newSet_loop m l (i32 (l + 1)) = Some (Some (candidate l (0 + n)))"
    using n k(1) by (intro newSet_loop_scan [OF l]) auto
  then show thesis using that n(1) candidate_range [of l n] by auto
qed

section \<open>The invariant of the registry\<close>

text \<open>Every entry of a wait queue listens to the event a change of the semaphore notifies.\<close>

definition queue_ok :: "sem \<Rightarrow> bool" where
  "queue_ok sm \<longleftrightarrow> (\<forall>(e, em) \<in> set (s_queue sm). EVENT_IN AND em \<noteq> 0)"

definition set_ok :: "sem_set \<Rightarrow> bool" where
  "set_ok st \<longleftrightarrow> values_ok (map s_value (ss_sems st)) \<and> (\<forall>sm \<in> set (ss_sems st). queue_ok sm)"

definition sem_inv :: "sem_world \<Rightarrow> bool" where
  "sem_inv w \<longleftrightarrow>
    (let m = sr_semaphores (sw_registry w); sets = sw_sets w in
      bt_wf m \<and> length m \<le> 32000 \<and>
      0 \<le> sr_lastIDUsed (sw_registry w) \<and> sr_lastIDUsed (sw_registry w) \<le> i32_MAX \<and>
      (\<forall>i a. bt_get m i = Some a \<longrightarrow> 0 \<le> i \<and> i \<le> i32_MAX \<and> a < length sets \<and>
        ss_id (sets ! a) = i \<and> \<not> ss_dead (sets ! a)) \<and>
      (\<forall>i a j b. bt_get m i = Some a \<and> bt_get m j = Some b \<and> ss_key (sets ! a) = ss_key (sets ! b) \<and>
        ss_key (sets ! a) \<noteq> IPC_PRIVATE \<longrightarrow> i = j) \<and>
      (\<forall>st \<in> set sets. set_ok st))"

text \<open>An operation on one set that keeps its identity.\<close>

definition same_set :: "sem_set \<Rightarrow> sem_set \<Rightarrow> bool" where
  "same_set st st' \<longleftrightarrow> ss_id st' = ss_id st \<and> ss_key st' = ss_key st \<and> ss_dead st' = ss_dead st \<and>
     (set_ok st \<longrightarrow> set_ok st')"

lemma same_set_refl [simp]: "same_set st st"
  by (simp add: same_set_def)

lemma sem_invI:
  assumes "bt_wf (sr_semaphores (sw_registry w))" and "length (sr_semaphores (sw_registry w)) \<le> 32000"
    and "0 \<le> sr_lastIDUsed (sw_registry w)" and "sr_lastIDUsed (sw_registry w) \<le> i32_MAX"
    and "\<And>i a. bt_get (sr_semaphores (sw_registry w)) i = Some a \<Longrightarrow> 0 \<le> i \<and> i \<le> i32_MAX \<and>
      a < length (sw_sets w) \<and> ss_id (sw_sets w ! a) = i \<and> \<not> ss_dead (sw_sets w ! a)"
    and "\<And>i a j b. bt_get (sr_semaphores (sw_registry w)) i = Some a \<Longrightarrow>
      bt_get (sr_semaphores (sw_registry w)) j = Some b \<Longrightarrow>
      ss_key (sw_sets w ! a) = ss_key (sw_sets w ! b) \<Longrightarrow> ss_key (sw_sets w ! a) \<noteq> IPC_PRIVATE \<Longrightarrow> i = j"
    and "\<And>st. st \<in> set (sw_sets w) \<Longrightarrow> set_ok st"
  shows "sem_inv w"
  unfolding sem_inv_def Let_def using assms by (intro conjI allI impI ballI; blast)

lemma sem_inv_map:
  assumes "sem_inv w"
  shows "bt_wf (sr_semaphores (sw_registry w))" "length (sr_semaphores (sw_registry w)) \<le> 32000"
    "0 \<le> sr_lastIDUsed (sw_registry w)" "sr_lastIDUsed (sw_registry w) \<le> i32_MAX"
  using assms unfolding sem_inv_def Let_def by blast+

lemma sem_inv_get:
  assumes "sem_inv w" and "bt_get (sr_semaphores (sw_registry w)) i = Some a"
  shows "0 \<le> i \<and> i \<le> i32_MAX \<and> a < length (sw_sets w) \<and> ss_id (sw_sets w ! a) = i \<and> \<not> ss_dead (sw_sets w ! a)"
  using assms unfolding sem_inv_def Let_def by blast

lemma sem_inv_key:
  assumes "sem_inv w" and "bt_get (sr_semaphores (sw_registry w)) i = Some a"
    and "bt_get (sr_semaphores (sw_registry w)) j = Some b"
    and "ss_key (sw_sets w ! a) = ss_key (sw_sets w ! b)" and "ss_key (sw_sets w ! a) \<noteq> IPC_PRIVATE"
  shows "i = j"
  using assms unfolding sem_inv_def Let_def by blast

lemma sem_inv_sets: "sem_inv w \<Longrightarrow> st \<in> set (sw_sets w) \<Longrightarrow> set_ok st"
  unfolding sem_inv_def Let_def by blast

lemma sem_inv_update:
  assumes inv: "sem_inv w" and st: "same_set (sw_sets w ! a) st"
  shows "sem_inv (w\<lparr>sw_sets := (sw_sets w)[a := st]\<rparr>)"
proof (cases "a < length (sw_sets w)")
  case True
  let ?sets = "(sw_sets w)[a := st]"
  have same: "ss_id (?sets ! b) = ss_id (sw_sets w ! b)" "ss_key (?sets ! b) = ss_key (sw_sets w ! b)"
    "ss_dead (?sets ! b) = ss_dead (sw_sets w ! b)" for b
    using st True by (cases "a = b"; simp add: same_set_def)+
  have ok: "set_ok x" if "x \<in> set ?sets" for x
    using that sem_inv_sets [OF inv] st set_update_subset_insert [of "sw_sets w" a st] nth_mem [OF True]
    unfolding same_set_def by blast
  show ?thesis
    by (rule sem_invI)
      (use sem_inv_map [OF inv] sem_inv_get [OF inv] sem_inv_key [OF inv] ok in \<open>simp_all add: same\<close>)
next
  case False
  then have "w\<lparr>sw_sets := (sw_sets w)[a := st]\<rparr> = w" by (simp add: list_update_beyond)
  then show ?thesis using inv by simp
qed

lemma set_ok_sems:
  assumes "values_ok (map s_value sms)" and "\<And>sm. sm \<in> set sms \<Longrightarrow> queue_ok sm"
  shows "set_ok (st\<lparr>ss_sems := sms\<rparr>)"
  using assms by (simp add: set_ok_def)

lemma set_ok_sem:
  assumes "set_ok st" and "n < length (ss_sems st)"
  shows "0 \<le> s_value (ss_sems st ! n) \<and> s_value (ss_sems st ! n) \<le> VALUE_MAX \<and> queue_ok (ss_sems st ! n)"
  using assms nth_mem [OF assms(2)] unfolding set_ok_def values_ok_def set_map by blast

lemma set_ok_update:
  assumes ok: "set_ok st" and sm: "0 \<le> s_value sm" "s_value sm \<le> VALUE_MAX" "queue_ok sm"
  shows "set_ok (st\<lparr>ss_sems := (ss_sems st)[n := sm]\<rparr>)"
proof (rule set_ok_sems)
  show "values_ok (map s_value ((ss_sems st)[n := sm]))"
    unfolding map_update using ok sm by (intro values_ok_update) (simp_all add: set_ok_def)
  show "queue_ok x" if "x \<in> set ((ss_sems st)[n := sm])" for x
    using that ok sm(3) set_update_subset_insert [of "ss_sems st" n sm] unfolding set_ok_def by blast
qed

lemma zip_values:
  assumes "length vals = length sms"
  shows "map s_value (map (\<lambda>(sm, v). sm\<lparr>s_value := f v, s_pid := pid\<rparr>) (zip sms vals)) = map f vals"
    and "map s_queue (map (\<lambda>(sm, v). sm\<lparr>s_value := f v, s_pid := pid\<rparr>) (zip sms vals)) = map s_queue sms"
  using assms by (induction sms vals rule: list_induct2') auto

lemma set_ok_zip:
  assumes "set_ok st" and "length vals = length (ss_sems st)" and "values_ok (map f vals)"
  shows "set_ok (st\<lparr>ss_sems := map (\<lambda>(sm, v). sm\<lparr>s_value := f v, s_pid := pid\<rparr>) (zip (ss_sems st) vals)\<rparr>)"
proof (rule set_ok_sems)
  fix sm assume "sm \<in> set (map (\<lambda>(sm, v). sm\<lparr>s_value := f v, s_pid := pid\<rparr>) (zip (ss_sems st) vals))"
  then obtain s0 v where "(s0, v) \<in> set (zip (ss_sems st) vals)" "s_queue sm = s_queue s0" by auto
  moreover from this(1) have "s0 \<in> set (ss_sems st)" by (rule set_zip_leftD)
  ultimately show "queue_ok sm" using assms(1) by (simp add: set_ok_def queue_ok_def)
qed (use zip_values(1) [OF assms(2)] assms(3) in simp)

lemma set_ok_cong:
  "ss_sems st = ss_sems st' \<Longrightarrow> set_ok st = set_ok st'"
  by (simp add: set_ok_def)

lemma executeOps_done:
  "\<not> ss_dead st \<Longrightarrow> executeOps_loop ops (map s_value (ss_sems st)) = OpsDone vals \<Longrightarrow>
    SetInternal_executeOps now uid ops e pid st =
      (Ok (0, - 1), st\<lparr>
         ss_sems := map (\<lambda>(sm, v). sm\<lparr>s_value := v, s_pid := pid\<rparr>) (zip (ss_sems st) vals),
         ss_woken := ss_woken st @ concat (map Sem_wakeWaiters (ss_sems st)),
         ss_opTime := now\<rparr>)"
  by (simp add: SetInternal_executeOps_def)

lemma executeOps_same:
  assumes "\<forall>op \<in> set ops. op_ok op"
  shows "same_set st (snd (SetInternal_executeOps now uid ops e pid st))"
proof (cases "ss_dead st")
  case False
  note alive = this
  show ?thesis
  proof (cases "executeOps_loop ops (map s_value (ss_sems st))")
    case (OpsDone vals)
    have "values_ok vals \<and> length vals = length (ss_sems st)" if "set_ok st"
      using executeOps_loop_done [OF OpsDone _ assms] that by (simp add: set_ok_def)
    then have "set_ok (st\<lparr>ss_sems := map (\<lambda>(sm, v). sm\<lparr>s_value := v, s_pid := pid\<rparr>) (zip (ss_sems st) vals)\<rparr>)"
      if "set_ok st" using that set_ok_zip [of st vals "\<lambda>v. v" pid] by simp
    then show ?thesis
      unfolding executeOps_done [OF alive OpsDone] same_set_def by (simp add: set_ok_def)
  next
    case (OpsWait num op em)
    let ?sm = "(ss_sems st ! unat num)\<lparr>s_waiters := bt_insert uid op (s_waiters (ss_sems st ! unat num)),
       s_queue := Queue_EventRegister e em (s_queue (ss_sems st ! unat num))\<rparr>"
    have w: "unat num < length (ss_sems st)" "EVENT_IN AND em \<noteq> 0" using executeOps_loop_wait [OF OpsWait] by simp_all
    then have "set_ok (st\<lparr>ss_sems := (ss_sems st)[unat num := ?sm]\<rparr>)" if "set_ok st"
      using set_ok_sem [OF that w(1)]
      by (intro set_ok_update [OF that]) (simp_all add: queue_ok_def Queue_EventRegister_def)
    then show ?thesis
      using OpsWait alive by (simp add: SetInternal_executeOps_def same_set_def Let_def)
  qed (simp add: SetInternal_executeOps_def)
qed (simp add: SetInternal_executeOps_def)

lemma ExecuteOps_cases:
  assumes "Set_ExecuteOps now uid ns reg ops creds e pid st = Some (r, st')"
  shows "st' = st \<and> (\<exists>n. r = Err (SysError n)) \<or>
    (r, st') = SetInternal_executeOps now uid ops e pid st \<and> \<not> ss_dead st \<and>
    (\<forall>op \<in> set ops. unat (SemNum op) < length (ss_sems st))"
proof (cases "ss_dead st \<or> (\<exists>op \<in> set ops. findSem st (uint (SemNum op)) = None)")
  case True
  then show ?thesis using assms by (auto simp: Set_ExecuteOps_def split: if_splits)
next
  case False
  then have alive: "\<not> ss_dead st" and found: "\<not> (\<exists>op \<in> set ops. findSem st (uint (SemNum op)) = None)" by blast+
  have "unat (SemNum op) < length (ss_sems st)" if "op \<in> set ops" for op
  proof -
    have "findSem st (uint (SemNum op)) \<noteq> None" using found that by auto
    then show ?thesis by (simp add: findSem_def split: if_splits)
  qed
  moreover have "st' = st \<and> (\<exists>n. r = Err (SysError n)) \<or> (r, st') = SetInternal_executeOps now uid ops e pid st"
  proof -
    obtain perms where "Option.bind perms (\<lambda>ok. if \<not> ok then Some (Err (SysError EACCES), st)
        else Some (SetInternal_executeOps now uid ops e pid st)) = Some (r, st')"
      using assms unfolding Set_ExecuteOps_def Let_def if_not_P [OF alive] if_not_P [OF found] by (rule that)
    then show ?thesis by (cases perms) (auto split: if_splits)
  qed
  ultimately show ?thesis using alive by blast
qed

lemma ExecuteOps_same:
  assumes "\<forall>op \<in> set ops. op_ok op"
    and "Set_ExecuteOps now uid ns reg ops creds e pid st = Some (r, st')"
  shows "same_set st st'"
  using ExecuteOps_cases [OF assms(2)]
proof (elim disjE conjE)
  assume "(r, st') = SetInternal_executeOps now uid ops e pid st"
  then show ?thesis using executeOps_same [OF assms(1), of st now uid e pid] by (metis snd_conv)
qed simp

lemma Change_same:
  assumes "Set_Change now ns reg creds owner perms st = Some (r, st')"
  shows "same_set st st'"
  using assms unfolding Set_Change_def
  by (auto simp: bind_eq_Some_conv same_set_def set_ok_def split: if_splits)

lemma SetVal_cases:
  assumes "Set_SetVal now ns reg num val creds pid st = Some (r, st')" and "st' \<noteq> st"
  obtains n where "n < length (ss_sems st)" "0 \<le> val" "val \<le> VALUE_MAX"
    "st' = st\<lparr>ss_sems := (ss_sems st)[n := (ss_sems st ! n)\<lparr>s_value := val, s_pid := pid\<rparr>],
      ss_woken := ss_woken st @ Sem_wakeWaiters ((ss_sems st ! n)\<lparr>s_value := val, s_pid := pid\<rparr>),
      ss_changeTime := now\<rparr>"
proof -
  obtain n where v: "0 \<le> val" "val \<le> VALUE_MAX" and n: "findSem_mut st num = Inr (Some n)"
    and st': "st' = st\<lparr>ss_sems := (ss_sems st)[n := (ss_sems st ! n)\<lparr>s_value := val, s_pid := pid\<rparr>],
      ss_woken := ss_woken st @ Sem_wakeWaiters ((ss_sems st ! n)\<lparr>s_value := val, s_pid := pid\<rparr>),
      ss_changeTime := now\<rparr>"
    using assms unfolding Set_SetVal_def Let_def
    by (auto simp: bind_eq_Some_conv split: if_splits sum.splits option.splits)
  have "n < length (ss_sems st)" using n by (auto simp: findSem_mut_def split: if_splits)
  then show thesis using that v st' by blast
qed

lemma SetVal_same:
  assumes "Set_SetVal now ns reg num val creds pid st = Some (r, st')"
  shows "same_set st st'"
proof (cases "st' = st")
  case False
  then obtain n where n: "n < length (ss_sems st)" and v: "0 \<le> val" "val \<le> VALUE_MAX"
    and st': "st' = st\<lparr>ss_sems := (ss_sems st)[n := (ss_sems st ! n)\<lparr>s_value := val, s_pid := pid\<rparr>],
      ss_woken := ss_woken st @ Sem_wakeWaiters ((ss_sems st ! n)\<lparr>s_value := val, s_pid := pid\<rparr>),
      ss_changeTime := now\<rparr>"
    by (rule SetVal_cases [OF assms])
  have "set_ok (st\<lparr>ss_sems := (ss_sems st)[n := (ss_sems st ! n)\<lparr>s_value := val, s_pid := pid\<rparr>]\<rparr>)"
    if "set_ok st"
    using set_ok_sem [OF that n] v by (intro set_ok_update [OF that]) (simp_all add: queue_ok_def)
  then show ?thesis unfolding st' same_set_def by (simp add: set_ok_def)
qed simp

lemma SetValAll_cases:
  assumes "Set_SetValAll now ns reg vals creds pid st = Some (r, st')" and "st' \<noteq> st"
  shows "length vals = length (ss_sems st) \<and> \<not> (\<exists>v \<in> set vals. v > word_of_int VALUE_MAX) \<and>
    st' = st\<lparr>
      ss_sems := map (\<lambda>(sm, v). sm\<lparr>s_value := i16 (uint v), s_pid := pid\<rparr>) (zip (ss_sems st) vals),
      ss_woken := ss_woken st @ concat (map Sem_wakeWaiters (ss_sems st)),
      ss_changeTime := now\<rparr>"
  using assms unfolding Set_SetValAll_def by (auto simp: bind_eq_Some_conv split: if_splits)

lemma SetValAll_same:
  assumes "Set_SetValAll now ns reg vals creds pid st = Some (r, st')"
  shows "same_set st st'"
proof (cases "st' = st")
  case False
  note c = SetValAll_cases [OF assms False]
  have "0 \<le> i16 (uint v) \<and> i16 (uint v) \<le> VALUE_MAX" if "v \<in> set vals" for v
  proof -
    have "v \<le> 32000" using c that by (auto simp: not_less)
    then have "uint v \<le> 32000" by (simp add: word_le_def)
    moreover have "0 \<le> uint v" by (rule uint_nonnegative)
    ultimately have "i16 (uint v) = uint v" by (intro i16_id) linarith+
    then show ?thesis using \<open>uint v \<le> 32000\<close> \<open>0 \<le> uint v\<close> by simp
  qed
  then have "set_ok (st\<lparr>ss_sems := map (\<lambda>(sm, v). sm\<lparr>s_value := i16 (uint v), s_pid := pid\<rparr>) (zip (ss_sems st) vals)\<rparr>)"
    if "set_ok st" using set_ok_zip [OF that, of vals "\<lambda>v. i16 (uint v)"] c by (auto simp: values_ok_def)
  then show ?thesis using c unfolding same_set_def by (simp add: set_ok_def)
qed simp

lemma AbortWait_same:
  assumes "Set_AbortWait waiterid num e st = Ok st'"
  shows "same_set st st'"
proof -
  have n: "nat num < length (ss_sems st)"
    and st': "st' = st\<lparr>ss_sems := (ss_sems st)[nat num := (ss_sems st ! nat num)\<lparr>
        s_waiters := bt_remove waiterid (s_waiters (ss_sems st ! nat num)),
        s_queue := Queue_EventUnregister e (s_queue (ss_sems st ! nat num))\<rparr>]\<rparr>"
    using assms by (simp_all add: Set_AbortWait_def Let_def split: if_splits)
  have "set_ok st'" if "set_ok st"
    unfolding st' using set_ok_sem [OF that n]
    by (intro set_ok_update [OF that]) (auto simp: queue_ok_def Queue_EventUnregister_def)
  then show ?thesis by (simp add: same_set_def st')
qed

section \<open>The registry keeps the invariant\<close>

lemma length_bt_insert: "length (bt_insert k v m) \<le> Suc (length m)"
  by (induction k v m rule: bt_insert.induct) auto

lemma length_bt_remove: "length (bt_remove k m) \<le> length m"
  by (simp add: bt_remove_def)

lemma Set_New_ok: "set_ok ((Set_New now key owner creator perms nsems)\<lparr>ss_id := i\<rparr>)"
  by (auto simp: Set_New_def set_ok_def values_ok_def Sem_default_def queue_ok_def)

lemma findByKey_None:
  assumes "findByKey w key = None" and "bt_wf (sr_semaphores (sw_registry w))"
    and "bt_get (sr_semaphores (sw_registry w)) i = Some a"
  shows "ss_key (sw_sets w ! a) \<noteq> key"
  using assms by (auto simp: findByKey_def find_None_iff bt_get_iff)

lemma findByKey_Some:
  assumes "findByKey w key = Some a" and "bt_wf (sr_semaphores (sw_registry w))"
  shows "\<exists>i. bt_get (sr_semaphores (sw_registry w)) i = Some a \<and> ss_key (sw_sets w ! a) = key"
  using assms by (auto simp: findByKey_def find_Some_iff bt_get_iff) (metis nth_mem)

lemma newSet_new:
  assumes inv: "sem_inv w"
  obtains i where "bt_get (sr_semaphores (sw_registry w)) i = None" "0 \<le> i" "i \<le> i32_MAX"
    "newSet now key owner creator perms nsems w =
      Some (Ok (length (sw_sets w)), w\<lparr>
        sw_registry := (sw_registry w)\<lparr>sr_lastIDUsed := i,
          sr_semaphores := bt_insert i (length (sw_sets w)) (sr_semaphores (sw_registry w))\<rparr>,
        sw_sets := sw_sets w @ [(Set_New now key owner creator perms nsems)\<lparr>ss_id := i\<rparr>]\<rparr>)"
proof -
  obtain i where "newSet_loop (sr_semaphores (sw_registry w)) (sr_lastIDUsed (sw_registry w))
      (i32 (sr_lastIDUsed (sw_registry w) + 1)) = Some (Some i)"
    "bt_get (sr_semaphores (sw_registry w)) i = None" "0 \<le> i" "i \<le> i32_MAX"
    using newSet_loop_finds [OF sem_inv_map(3,4,2) [OF inv]] by blast
  then show thesis by (intro that [of i]) (simp_all add: newSet_def Let_def)
qed

lemma newSet_inv:
  assumes inv: "sem_inv w" and len: "length (sr_semaphores (sw_registry w)) < 32000"
    and key: "key = IPC_PRIVATE \<or> findByKey w key = None"
    and i: "bt_get (sr_semaphores (sw_registry w)) i = None" "0 \<le> i" "i \<le> i32_MAX"
    and set: "ss_id st = i" "ss_key st = key" "\<not> ss_dead st" "set_ok st"
  shows "sem_inv (w\<lparr>
        sw_registry := (sw_registry w)\<lparr>sr_lastIDUsed := i,
          sr_semaphores := bt_insert i (length (sw_sets w)) (sr_semaphores (sw_registry w))\<rparr>,
        sw_sets := sw_sets w @ [st]\<rparr>)"
    (is "sem_inv ?w")
proof -
  let ?m = "sr_semaphores (sw_registry w)"
  note wf = sem_inv_map(1) [OF inv]
  have get: "bt_get (bt_insert i (length (sw_sets w)) ?m) = (bt_get ?m)(i \<mapsto> length (sw_sets w))"
    by (rule bt_get_insert [OF wf])
  have old: "(sw_sets w @ [st]) ! a = sw_sets w ! a" if "bt_get ?m j = Some a" for j a
    using sem_inv_get [OF inv that] by (simp add: nth_append)
  have fresh: "ss_key (sw_sets w ! a) \<noteq> key \<or> key = IPC_PRIVATE" if "bt_get ?m j = Some a" for j a
    using key findByKey_None [OF _ wf that] by blast
  show ?thesis
  proof (rule sem_invI)
    show "bt_wf (sr_semaphores (sw_registry ?w))" using wf by (simp add: bt_wf_insert)
    show "length (sr_semaphores (sw_registry ?w)) \<le> 32000"
      using len length_bt_insert [of i "length (sw_sets w)" ?m] by simp
    show "0 \<le> j \<and> j \<le> i32_MAX \<and> a < length (sw_sets ?w) \<and> ss_id (sw_sets ?w ! a) = j \<and> \<not> ss_dead (sw_sets ?w ! a)"
      if "bt_get (sr_semaphores (sw_registry ?w)) j = Some a" for j a
      using that i set sem_inv_get [OF inv, of j a] old [of j a] by (auto simp: get split: if_splits)
    show "j = k"
      if "bt_get (sr_semaphores (sw_registry ?w)) j = Some a" "bt_get (sr_semaphores (sw_registry ?w)) k = Some b"
        "ss_key (sw_sets ?w ! a) = ss_key (sw_sets ?w ! b)" "ss_key (sw_sets ?w ! a) \<noteq> IPC_PRIVATE" for j a k b
      using that set sem_inv_key [OF inv, of j a k b] old [of j a] old [of k b] fresh [of j a] fresh [of k b]
      by (auto simp: get split: if_splits)
    show "set_ok x" if "x \<in> set (sw_sets ?w)" for x
      using that set sem_inv_sets [OF inv] by auto
  qed (use i in simp_all)
qed

lemma FindOrCreate_inv:
  assumes inv: "sem_inv w" and p: "private = (key = IPC_PRIVATE)"
    and res: "FindOrCreate now ns creds key nsems mode private create exclusive w = Some (r, w')"
  shows "sem_inv w'"
proof (cases "w' = w")
  case False
  obtain i where i: "bt_get (sr_semaphores (sw_registry w)) i = None" "0 \<le> i" "i \<le> i32_MAX"
    and new: "newSet now key (Credentials_FileOwner creds) (Credentials_FileOwner creds) (FilePermissions_FromMode mode) nsems w =
      Some (Ok (length (sw_sets w)), w\<lparr>
        sw_registry := (sw_registry w)\<lparr>sr_lastIDUsed := i,
          sr_semaphores := bt_insert i (length (sw_sets w)) (sr_semaphores (sw_registry w))\<rparr>,
        sw_sets := sw_sets w @ [(Set_New now key (Credentials_FileOwner creds) (Credentials_FileOwner creds)
          (FilePermissions_FromMode mode) nsems)\<lparr>ss_id := i\<rparr>]\<rparr>)"
    by (rule newSet_new [OF inv])
  have "unat SETS_MAX = 32000" by (simp add: SETS_MAX_def SEMMNI_def)
  then have len: "length (sr_semaphores (sw_registry w)) < 32000" and key: "private \<or> findByKey w key = None"
    and "newSet now key (Credentials_FileOwner creds) (Credentials_FileOwner creds) (FilePermissions_FromMode mode) nsems w = Some (r, w')"
    using res False unfolding FindOrCreate_def Let_def
    by (auto simp: bind_eq_Some_conv split: if_splits option.splits)
  then have "w' = w\<lparr>
        sw_registry := (sw_registry w)\<lparr>sr_lastIDUsed := i,
          sr_semaphores := bt_insert i (length (sw_sets w)) (sr_semaphores (sw_registry w))\<rparr>,
        sw_sets := sw_sets w @ [(Set_New now key (Credentials_FileOwner creds) (Credentials_FileOwner creds)
          (FilePermissions_FromMode mode) nsems)\<lparr>ss_id := i\<rparr>]\<rparr>"
    using new by simp
  moreover have "key = IPC_PRIVATE \<or> findByKey w key = None" using key p by simp
  ultimately show ?thesis
    using newSet_inv [OF inv len _ i, of key] Set_New_ok by (simp add: Set_New_def)
qed (use inv in simp)

lemma destroy_ok: "set_ok st \<Longrightarrow> set_ok (SetInternal_destroy st)"
  by (simp add: SetInternal_destroy_def set_ok_def)

lemma RemoveId_cases:
  assumes "SemRegistry_RemoveId ns i creds w = Some (r, w')" and "w' \<noteq> w"
  obtains a where "bt_get (sr_semaphores (sw_registry w)) i = Some a"
    "w' = w\<lparr>sw_registry := (sw_registry w)\<lparr>sr_semaphores := bt_remove (ss_id (sw_sets w ! a)) (sr_semaphores (sw_registry w))\<rparr>,
            sw_sets := (sw_sets w)[a := SetInternal_destroy (sw_sets w ! a)]\<rparr>"
  using assms unfolding SemRegistry_RemoveId_def Let_def
  by (auto simp: bind_eq_Some_conv split: option.splits if_splits)

lemma RemoveId_inv:
  assumes inv: "sem_inv w" and res: "SemRegistry_RemoveId ns i creds w = Some (r, w')"
  shows "sem_inv w'"
proof (cases "w' = w")
  case False
  let ?m = "sr_semaphores (sw_registry w)"
  obtain a where a: "bt_get ?m i = Some a"
    and w': "w' = w\<lparr>sw_registry := (sw_registry w)\<lparr>sr_semaphores := bt_remove (ss_id (sw_sets w ! a)) ?m\<rparr>,
                    sw_sets := (sw_sets w)[a := SetInternal_destroy (sw_sets w ! a)]\<rparr>"
    by (rule RemoveId_cases [OF res False])
  note g = sem_inv_get [OF inv a]
  have get: "bt_get (bt_remove i ?m) = (bt_get ?m)(i := None)" by (rule bt_get_remove)
  have other: "a \<noteq> b" if "bt_get ?m j = Some b" "j \<noteq> i" for j b using sem_inv_get [OF inv that(1)] g that(2) by auto
  show ?thesis
  proof (rule sem_invI)
    show "bt_wf (sr_semaphores (sw_registry w'))" using sem_inv_map(1) [OF inv] by (simp add: w' bt_wf_remove)
    show "length (sr_semaphores (sw_registry w')) \<le> 32000"
      using sem_inv_map(2) [OF inv] length_bt_remove [of i ?m] g by (simp add: w')
    show "0 \<le> j \<and> j \<le> i32_MAX \<and> b < length (sw_sets w') \<and> ss_id (sw_sets w' ! b) = j \<and> \<not> ss_dead (sw_sets w' ! b)"
      if "bt_get (sr_semaphores (sw_registry w')) j = Some b" for j b
      using that sem_inv_get [OF inv, of j b] other [of j b] g by (auto simp: get w' split: if_splits)
    show "j = k"
      if "bt_get (sr_semaphores (sw_registry w')) j = Some x" "bt_get (sr_semaphores (sw_registry w')) k = Some y"
        "ss_key (sw_sets w' ! x) = ss_key (sw_sets w' ! y)" "ss_key (sw_sets w' ! x) \<noteq> IPC_PRIVATE" for j x k y
      using that sem_inv_key [OF inv, of j x k y] other [of j x] other [of k y] g by (auto simp: get w' split: if_splits)
    show "set_ok x" if "x \<in> set (sw_sets w')" for x
      using that g sem_inv_sets [OF inv] destroy_ok [of "sw_sets w ! a"]
        set_update_subset_insert [of "sw_sets w" a "SetInternal_destroy (sw_sets w ! a)"]
      by (auto simp: w')
  qed (use sem_inv_map [OF inv] in \<open>simp_all add: w'\<close>)
qed (use inv in simp)

section \<open>Reachable registries\<close>

lemma with_set_inv:
  assumes "sem_inv w" and "with_set f i w = Some (r, w')"
    and "\<And>st r st'. f st = Some (r, st') \<Longrightarrow> same_set st st'"
  shows "sem_inv w'"
  using assms by (auto simp: with_set_def bind_eq_Some_conv split: option.splits intro!: sem_inv_update)

lemma read_set_world: "read_set f i w = Some (r, w') \<Longrightarrow> w' = w"
  by (auto simp: read_set_def bind_eq_Some_conv split: option.splits)

lemma map_ret_Some: "map_ret f x = Some (r, w) \<longleftrightarrow> (\<exists>r0. x = Some (r0, w) \<and> r = and_then r0 f)"
  by (auto simp: map_ret_def)

lemma setVal_inv: "sem_inv w \<Longrightarrow> setVal t i num val w = Some (r, w') \<Longrightarrow> sem_inv w'"
  unfolding setVal_def by (erule with_set_inv) (auto dest: SetVal_same)

lemma setValAll_inv: "sem_inv w \<Longrightarrow> setValAll t i arr w = Some (r, w') \<Longrightarrow> sem_inv w'"
  unfolding setValAll_def by (erule with_set_inv) (auto dest: SetValAll_same split: sum.splits)

lemma ipcSet_inv: "sem_inv w \<Longrightarrow> ipcSet t i uid gid perms w = Some (r, w') \<Longrightarrow> sem_inv w'"
  unfolding ipcSet_def
  by (erule with_set_inv) (auto simp: bind_eq_Some_conv dest: Change_same split: if_splits)

lemma SysSemctl_inv:
  assumes inv: "sem_inv w" and "SysSemctl t i num cmd arg w = Some (r, w')"
  shows "sem_inv w'"
  using assms setVal_inv [OF inv] setValAll_inv [OF inv] ipcSet_inv [OF inv] RemoveId_inv [OF inv]
  unfolding SysSemctl_def
  by (auto simp: map_ret_Some Let_def sem_remove_def getVal_def getValAll_def getPid_def ipcStat_def getSemzcnt_def
      getSemncnt_def semStat_def semStatAny_def dest!: read_set_world split: if_splits sum.splits)

lemma SysSemgetl_inv:
  assumes "sem_inv w" and "SysSemgetl t key nsems flag w = Some (r, w')"
  shows "sem_inv w'"
  using assms by (auto simp: SysSemgetl_def Let_def bind_eq_Some_conv dest: FindOrCreate_inv)

lemma attempt_inv:
  assumes "sem_inv w" and "\<forall>op \<in> set ops. op_ok op" and "SemTimedOp_attempt t a ops rd w = Some (r, w')"
  shows "sem_inv w'"
  using assms by (auto simp: SemTimedOp_attempt_def bind_eq_Some_conv intro!: sem_inv_update dest: ExecuteOps_same)

lemma AbortWait_at_inv:
  assumes "sem_inv w" and "AbortWait_at t a uid num w = Ok w'"
  shows "sem_inv w'"
  using assms by (auto simp: AbortWait_at_def and_then_def intro!: sem_inv_update dest: AbortWait_same split: sum.splits)

text \<open>The atomic steps of tasks on the registry: a system call that does not block, one attempt of a
  blocking call, and the clean-up after a wait. \<^verbatim>\<open>SemOp\<close> is any \<^verbatim>\<open>i16\<close> but \<^verbatim>\<open>i16::MIN\<close>.\<close>

inductive sem_step :: "sem_world \<Rightarrow> sem_world \<Rightarrow> bool" where
  semget: "SysSemgetl t key nsems flag w = Some (r, w') \<Longrightarrow> sem_step w w'"
| semctl: "SysSemctl t i num cmd arg w = Some (r, w') \<Longrightarrow> sem_step w w'"
| attempt: "\<forall>op \<in> set ops. op_ok op \<Longrightarrow> SemTimedOp_attempt t a ops rd w = Some (r, w') \<Longrightarrow> sem_step w w'"
| abort: "AbortWait_at t a uid num w = Ok w' \<Longrightarrow> sem_step w w'"

definition sem_initial :: "nat \<Rightarrow> sem_world" where
  "sem_initial userNS = \<lparr>sw_registry = SemRegistry_New userNS, sw_sets = []\<rparr>"

lemma sem_initial_inv: "sem_inv (sem_initial userNS)"
  by (rule sem_invI) (simp_all add: sem_initial_def SemRegistry_New_def)

lemma sem_step_inv: "sem_step w w' \<Longrightarrow> sem_inv w \<Longrightarrow> sem_inv w'"
  by (induction rule: sem_step.induct)
    (blast intro: SysSemgetl_inv SysSemctl_inv attempt_inv AbortWait_at_inv)+

lemma sem_reach_inv: "sem_step\<^sup>*\<^sup>* w w' \<Longrightarrow> sem_inv w \<Longrightarrow> sem_inv w'"
  by (induction rule: rtranclp_induct) (auto dest: sem_step_inv)

end
