(* ===== verification/Semaphore_Laws.thy ===== *)
theory Semaphore_Laws
  imports Semaphore_Props
begin

text \<open>
  The laws of System V semaphores over the model of \<open>Semaphore\<close> and \<open>Sem_Syscalls\<close>, stated with
  the invariant and the operation lemmas of \<open>Semaphore_Props\<close>; and the defects of the code that
  the model shows: a value below zero, an out of bounds access and two self-deadlocks.
\<close>

section \<open>A sample task\<close>

definition sample_task :: sem_task where
  "sample_task = \<lparr>t_now = 7, t_ns = [], t_creds = NewRootCredentials 0, t_pid = 42, t_entry = 5,
     t_CopyInOps = (\<lambda>_ _. Err (SysError EFAULT)), t_CopyInTimespec = (\<lambda>_. Err (SysError EFAULT)),
     t_CopyInVals = (\<lambda>_ _. Err (SysError EFAULT)), t_CopyInDS = (\<lambda>_. Err (SysError EFAULT)),
     t_CopyOut = (\<lambda>_ _. Ok ()), t_ThreadGroupWithID = (\<lambda>_. None)\<rparr>"

definition sample_set :: sem_set where
  "sample_set = (Set_New 7 0 \<lparr>fo_UID = 0, fo_GID = 0\<rparr> \<lparr>fo_UID = 0, fo_GID = 0\<rparr> (FilePermissions_FromMode 384) 1)\<lparr>ss_id := 1\<rparr>"

definition sample_world :: sem_world where
  "sample_world = \<lparr>sw_registry = \<lparr>sr_userNS = 0, sr_semaphores = [(1, 0)], sr_lastIDUsed = 1\<rparr>, sw_sets = [sample_set]\<rparr>"

lemma run_result: "map_option fst x = Some r \<Longrightarrow> \<exists>y. x = Some (r, y)"
  by auto

lemma sample_semget: "SysSemgetl sample_task 0 1 384 (sem_initial 0) = Some (Ok 1, sample_world)"
proof -
  have loop: "newSet_loop [] 0 (i32 1) = Some (Some 1)" by (subst newSet_loop.simps) (simp add: i32_def)
  have "FindOrCreate 7 [] (NewRootCredentials 0) 0 1 384 True False False (sem_initial 0) = Some (Ok 0, sample_world)"
    using loop
    by (simp add: FindOrCreate_def sem_initial_def SemRegistry_New_def SEMAPHORES_MAX_def SEMMSL_def SETS_MAX_def
        SEMMNI_def totalSems_def newSet_def sample_world_def sample_set_def Credentials_FileOwner_def NewRootCredentials_def)
      (simp add: SEMAPHORES_TOTAL_MAX_def SEMMNS_def SEMMNI_def SEMMSL_def ROOT_KUID_def ROOT_KGID_def Let_def)
  then show ?thesis
    by (simp add: SysSemgetl_def sample_task_def IPC_PRIVATE_def IPC_CREAT_def IPC_EXCL_def)
      (simp add: sample_world_def sample_set_def)
qed

section \<open>Reachable registries\<close>



section \<open>Operations are atomic\<close>

lemma executeOps_values:
  assumes "set_ok st" and "\<forall>op \<in> set ops. op_ok op" and "\<not> ss_dead st"
    and "\<forall>op \<in> set ops. unat (SemNum op) < length (ss_sems st)"
    and "SetInternal_executeOps now uid ops e pid st = (r, st')"
  shows "(if r = Ok (0, - 1)
     then \<forall>i < length (ss_sems st). s_value (ss_sems st' ! i) = s_value (ss_sems st ! i) + op_sum ops i
     else map s_value (ss_sems st') = map s_value (ss_sems st)) \<and> r \<noteq> Err Panic"
proof (cases "executeOps_loop ops (map s_value (ss_sems st))")
  case (OpsDone vals)
  have v: "length vals = length (ss_sems st)" "\<forall>i < length (ss_sems st). vals ! i = s_value (ss_sems st ! i) + op_sum ops i"
    using executeOps_loop_done [OF OpsDone _ assms(2)] assms(1) by (auto simp: set_ok_def)
  have "map s_value (ss_sems st') = vals"
    using executeOps_done [OF assms(3) OpsDone, of now uid e pid] assms(5) zip_values(1) [OF v(1), of pid "\<lambda>v. v"] by auto
  then have "\<forall>i < length (ss_sems st). s_value (ss_sems st' ! i) = vals ! i" using v(1) by (metis length_map nth_map)
  then show ?thesis using v(2) executeOps_done [OF assms(3) OpsDone, of now uid e pid] assms(5) by auto
next
  case (OpsWait num op em)
  have n: "unat num < length (ss_sems st)" using executeOps_loop_wait [OF OpsWait] by simp
  have "r = Ok (uid, uint num)"
    "map s_value (ss_sems st') = (map s_value (ss_sems st))[unat num := s_value (ss_sems st ! unat num)]"
    using OpsWait assms(3,5) by (auto simp: SetInternal_executeOps_def Let_def map_update)
  moreover have "(map s_value (ss_sems st))[unat num := s_value (ss_sems st ! unat num)] = map s_value (ss_sems st)"
    using n by (simp add: list_update_same_conv)
  moreover have "uint num \<noteq> - 1" using uint_nonnegative [of num] by linarith
  ultimately show ?thesis by simp
next
  case (OpsErr err)
  then show ?thesis
    using assms(3,4,5) executeOps_loop_range [OF OpsErr] by (auto simp: SetInternal_executeOps_def)
qed



section \<open>Creation returns\<close>

text \<open>
  Creating a private set in a reachable registry with room for it always returns, with an
  identifier that was not in use: the search through the identifiers ends although it wraps around
  at the end of the 31-bit range. The new set has the requested number of semaphores, all zero,
  and no other identifier changes its meaning.
\<close>

theorem semget_private_creates:
  assumes "sem_step\<^sup>*\<^sup>* (sem_initial userNS) w" and "0 < nsems" and "nsems \<le> 32000"
    and "length (sr_semaphores (sw_registry w)) < 32000" and "totalSems w \<le> 1024000000 - nat nsems"
  shows "\<exists>i w'. SysSemgetl t IPC_PRIVATE nsems flag w = Some (Ok i, w') \<and>
    findByID (sw_registry w) i = None \<and> 0 \<le> i \<and> i \<le> i32_MAX \<and>
    findByID (sw_registry w') = (findByID (sw_registry w))(i \<mapsto> length (sw_sets w)) \<and>
    map s_value (ss_sems (sw_sets w' ! length (sw_sets w))) = replicate (nat nsems) 0"
proof -
  have inv: "sem_inv w" using sem_reach_inv [OF assms(1) sem_initial_inv] .
  let ?o = "Credentials_FileOwner (t_creds t)" and ?p = "FilePermissions_FromMode ((word_of_int flag :: u16) AND 0x1FF)"
  obtain i where i: "bt_get (sr_semaphores (sw_registry w)) i = None" "0 \<le> i" "i \<le> i32_MAX"
    and new: "newSet (t_now t) IPC_PRIVATE ?o ?o ?p nsems w =
      Some (Ok (length (sw_sets w)), w\<lparr>
        sw_registry := (sw_registry w)\<lparr>sr_lastIDUsed := i,
          sr_semaphores := bt_insert i (length (sw_sets w)) (sr_semaphores (sw_registry w))\<rparr>,
        sw_sets := sw_sets w @ [(Set_New (t_now t) IPC_PRIVATE ?o ?o ?p nsems)\<lparr>ss_id := i\<rparr>]\<rparr>)"
    by (rule newSet_new [OF inv])
  have "unat SETS_MAX = 32000" "uint SEMAPHORES_MAX = 32000" "unat SEMAPHORES_TOTAL_MAX = 1024000000"
    by (simp_all add: SETS_MAX_def SEMAPHORES_MAX_def SEMAPHORES_TOTAL_MAX_def SEMMNI_def SEMMSL_def SEMMNS_def)
  then have "SysSemgetl t IPC_PRIVATE nsems flag w = Some (Ok i, w\<lparr>
        sw_registry := (sw_registry w)\<lparr>sr_lastIDUsed := i,
          sr_semaphores := bt_insert i (length (sw_sets w)) (sr_semaphores (sw_registry w))\<rparr>,
        sw_sets := sw_sets w @ [(Set_New (t_now t) IPC_PRIVATE ?o ?o ?p nsems)\<lparr>ss_id := i\<rparr>]\<rparr>)"
    using assms(2-5) new by (simp add: SysSemgetl_def FindOrCreate_def Let_def)
  moreover have "map s_value (ss_sems (Set_New (t_now t) IPC_PRIVATE ?o ?o ?p nsems)) = replicate (nat nsems) 0"
    by (simp add: Set_New_def Sem_default_def)
  ultimately show ?thesis
    using i bt_get_insert [OF sem_inv_map(1) [OF inv]] by (simp add: findByID_def [abs_def])
qed

theorem semget_private_creates_witness:
  "\<exists>i w'. SysSemgetl sample_task IPC_PRIVATE 2 0 (sem_initial 0) = Some (Ok i, w') \<and>
     findByID (sw_registry w') i = Some 0 \<and> map s_value (ss_sems (sw_sets w' ! 0)) = [0, 0]"
proof -
  have "totalSems (sem_initial 0) = 0" "sr_semaphores (sw_registry (sem_initial 0)) = []" "sw_sets (sem_initial 0) = []"
    by (simp_all add: sem_initial_def SemRegistry_New_def totalSems_def)
  then have "\<exists>i w'. SysSemgetl sample_task IPC_PRIVATE 2 0 (sem_initial 0) = Some (Ok i, w') \<and>
     findByID (sw_registry w') = (findByID (sw_registry (sem_initial 0)))(i \<mapsto> 0) \<and>
     map s_value (ss_sems (sw_sets w' ! 0)) = replicate 2 0"
    using semget_private_creates [of 0 "sem_initial 0" 2 sample_task 0] by auto
  then show ?thesis by (auto simp: numeral_2_eq_2)
qed

section \<open>Wake-ups\<close>

text \<open>A step on a set wakes every waiter of each semaphore whose value it changes, and all of them
  when the set is destroyed.\<close>

definition wakes :: "sem_set \<Rightarrow> sem_set \<Rightarrow> bool" where
  "wakes st st' \<longleftrightarrow> (\<exists>l. ss_woken st' = ss_woken st @ l \<and> length (ss_sems st') = length (ss_sems st) \<and>
     (\<forall>n < length (ss_sems st). s_value (ss_sems st' ! n) \<noteq> s_value (ss_sems st ! n) \<or> ss_dead st' \<noteq> ss_dead st \<longrightarrow>
       set (Sem_wakeWaiters (ss_sems st ! n)) \<subseteq> set l))"

lemma wakes_refl [simp]: "wakes st st"
  by (auto simp: wakes_def)

lemma wakes_all:
  assumes "ss_woken st' = ss_woken st @ concat (map Sem_wakeWaiters (ss_sems st))" "length (ss_sems st') = length (ss_sems st)"
  shows "wakes st st'"
proof -
  have "set (Sem_wakeWaiters (ss_sems st ! n)) \<subseteq> set (concat (map Sem_wakeWaiters (ss_sems st)))"
    if "n < length (ss_sems st)" for n
    using nth_mem [OF that] by auto
  then show ?thesis unfolding wakes_def using assms by blast
qed

lemma wakes_quiet:
  assumes "ss_woken st' = ss_woken st" "ss_dead st' = ss_dead st" "map s_value (ss_sems st') = map s_value (ss_sems st)"
  shows "wakes st st'"
proof -
  have l: "length (ss_sems st') = length (ss_sems st)" using assms(3) by (metis length_map)
  then have "s_value (ss_sems st' ! n) = s_value (ss_sems st ! n)" if "n < length (ss_sems st)" for n
    using that assms(3) by (metis nth_map)
  then show ?thesis unfolding wakes_def using assms l by (intro exI [of _ "[]"]) simp
qed

lemma wakes_one:
  assumes "st' = st\<lparr>ss_sems := (ss_sems st)[n := sm], ss_woken := ss_woken st @ Sem_wakeWaiters sm, ss_changeTime := now\<rparr>"
    and "s_queue sm = s_queue (ss_sems st ! n)"
  shows "wakes st st'"
proof -
  have "set (Sem_wakeWaiters (ss_sems st ! k)) \<subseteq> set (Sem_wakeWaiters sm)"
    if "s_value ((ss_sems st)[n := sm] ! k) \<noteq> s_value (ss_sems st ! k)" for k
    using that assms(2) by (cases "n = k") (simp_all add: Sem_wakeWaiters_def)
  then show ?thesis unfolding wakes_def assms(1) by (intro exI [of _ "Sem_wakeWaiters sm"]) simp
qed

lemma executeOps_wakes: "wakes st (snd (SetInternal_executeOps now uid ops e pid st))"
proof (cases "ss_dead st")
  case False
  then show ?thesis
  proof (cases "executeOps_loop ops (map s_value (ss_sems st))")
    case (OpsDone vals)
    have "length vals = length (ss_sems st)"
      using OpsDone by (metis executeOps_loop_length length_map)
    then show ?thesis unfolding executeOps_done [OF False OpsDone] by (intro wakes_all) simp_all
  next
    case (OpsWait num op em)
    have "(map s_value (ss_sems st))[unat num := s_value (ss_sems st ! unat num)] = map s_value (ss_sems st)"
      using executeOps_loop_wait [OF OpsWait] by (simp add: list_update_same_conv)
    then show ?thesis
      using OpsWait False by (intro wakes_quiet) (simp_all add: SetInternal_executeOps_def Let_def map_update)
  qed (simp add: SetInternal_executeOps_def)
qed (simp add: SetInternal_executeOps_def)

lemma ExecuteOps_wakes:
  assumes "Set_ExecuteOps now uid ns reg ops creds e pid st = Some (r, st')"
  shows "wakes st st'"
  using ExecuteOps_cases [OF assms] executeOps_wakes [of st now uid ops e pid] by (metis snd_conv wakes_refl)

lemma Change_wakes: "Set_Change now ns reg creds owner perms st = Some (r, st') \<Longrightarrow> wakes st st'"
  unfolding Set_Change_def by (auto simp: bind_eq_Some_conv split: if_splits intro!: wakes_quiet)

lemma SetVal_wakes: "Set_SetVal now ns reg num val creds pid st = Some (r, st') \<Longrightarrow> wakes st st'"
  by (cases "st' = st") (simp, erule (1) SetVal_cases, erule wakes_one, simp)

lemma SetValAll_wakes: "Set_SetValAll now ns reg vals creds pid st = Some (r, st') \<Longrightarrow> wakes st st'"
  by (cases "st' = st") (simp, frule (1) SetValAll_cases, rule wakes_all, simp_all)

lemma AbortWait_wakes:
  assumes "Set_AbortWait waiterid num e st = Ok st'"
  shows "wakes st st'"
proof -
  have "nat num < length (ss_sems st)"
    and st': "st' = st\<lparr>ss_sems := (ss_sems st)[nat num := (ss_sems st ! nat num)\<lparr>
        s_waiters := bt_remove waiterid (s_waiters (ss_sems st ! nat num)),
        s_queue := Queue_EventUnregister e (s_queue (ss_sems st ! nat num))\<rparr>]\<rparr>"
    using assms by (simp_all add: Set_AbortWait_def Let_def split: if_splits)
  then show ?thesis by (intro wakes_quiet) (simp_all add: map_update list_update_same_conv)
qed

definition world_wakes :: "sem_world \<Rightarrow> sem_world \<Rightarrow> bool" where
  "world_wakes w w' \<longleftrightarrow> (\<forall>a < length (sw_sets w). wakes (sw_sets w ! a) (sw_sets w' ! a))"

lemma world_wakes_refl [simp]: "world_wakes w w"
  by (simp add: world_wakes_def)

lemma world_wakes_sets:
  assumes "sw_sets w' = (sw_sets w)[a := st]" and "wakes (sw_sets w ! a) st"
  shows "world_wakes w w'"
  unfolding world_wakes_def
proof (intro allI impI)
  fix b assume "b < length (sw_sets w)"
  then show "wakes (sw_sets w ! b) (sw_sets w' ! b)" using assms by (cases "a = b") simp_all
qed

lemma world_wakes_update: "wakes (sw_sets w ! a) st \<Longrightarrow> world_wakes w (w\<lparr>sw_sets := (sw_sets w)[a := st]\<rparr>)"
  by (rule world_wakes_sets) simp_all

lemma with_set_wakes:
  assumes "with_set f i w = Some (r, w')" and "\<And>st r st'. f st = Some (r, st') \<Longrightarrow> wakes st st'"
  shows "world_wakes w w'"
  using assms by (auto simp: with_set_def bind_eq_Some_conv split: option.splits intro!: world_wakes_update)

lemma RemoveId_wakes:
  assumes "SemRegistry_RemoveId ns i creds w = Some (r, w')"
  shows "world_wakes w w'"
proof (cases "w' = w")
  case False
  obtain a where "sw_sets w' = (sw_sets w)[a := SetInternal_destroy (sw_sets w ! a)]"
    by (rule RemoveId_cases [OF assms False]) simp
  then show ?thesis by (rule world_wakes_sets) (rule wakes_all; simp add: SetInternal_destroy_def)
qed simp

lemma FindOrCreate_wakes:
  assumes "FindOrCreate now ns creds key nsems mode private create exclusive w = Some (r, w')"
  shows "world_wakes w w'"
proof (cases "w' = w")
  case False
  then have "\<exists>st. sw_sets w' = sw_sets w @ [st]"
    using assms unfolding FindOrCreate_def Let_def newSet_def
    by (auto simp: bind_eq_Some_conv split: if_splits option.splits)
  then show ?thesis by (auto simp: world_wakes_def nth_append)
qed simp

lemma SysSemctl_wakes:
  assumes "SysSemctl t i num cmd arg w = Some (r, w')"
  shows "world_wakes w w'"
proof -
  have "world_wakes w w'" if "setVal t i num v w = Some (r, w')" for v r
    using that unfolding setVal_def by (rule with_set_wakes) (rule SetVal_wakes)
  moreover have "world_wakes w w'" if "setValAll t i arg w = Some (r, w')" for r
    using that unfolding setValAll_def by (rule with_set_wakes) (auto dest: SetValAll_wakes split: sum.splits)
  moreover have "world_wakes w w'" if "ipcSet t i uid gid perms w = Some (r, w')" for uid gid perms r
    using that unfolding ipcSet_def
    by (rule with_set_wakes) (auto simp: bind_eq_Some_conv dest: Change_wakes split: if_splits)
  ultimately show ?thesis
    using assms RemoveId_wakes unfolding SysSemctl_def
    by (auto simp: map_ret_Some Let_def sem_remove_def getVal_def getValAll_def getPid_def ipcStat_def getSemzcnt_def
        getSemncnt_def semStat_def semStatAny_def dest!: read_set_world split: if_splits sum.splits)
qed

lemma sem_step_wakes: "sem_step w w' \<Longrightarrow> world_wakes w w'"
proof (induction rule: sem_step.induct)
  case (semget t key nsems flag w r w')
  then show ?case by (auto simp: SysSemgetl_def Let_def bind_eq_Some_conv dest: FindOrCreate_wakes)
next
  case (attempt ops t a rd w r w')
  then show ?case by (auto simp: SemTimedOp_attempt_def bind_eq_Some_conv intro!: world_wakes_update dest: ExecuteOps_wakes)
next
  case (abort t a uid num w w')
  then show ?case
    by (auto simp: AbortWait_at_def and_then_def intro!: world_wakes_update dest: AbortWait_wakes split: sum.splits)
qed (rule SysSemctl_wakes)

text \<open>
  C17. No wake-up is lost: when a step of any task changes the value of a semaphore of a reachable
  registry or destroys its set, every entry waiting on that semaphore is notified in that step.
\<close>

theorem semaphore_change_wakes:
  assumes "sem_step\<^sup>*\<^sup>* (sem_initial userNS) w" and "sem_step w w'"
    and "a < length (sw_sets w)" and "n < length (ss_sems (sw_sets w ! a))"
    and "(e, em) \<in> set (s_queue (ss_sems (sw_sets w ! a) ! n))"
    and "s_value (ss_sems (sw_sets w' ! a) ! n) \<noteq> s_value (ss_sems (sw_sets w ! a) ! n) \<or>
      ss_dead (sw_sets w' ! a) \<noteq> ss_dead (sw_sets w ! a)"
  shows "\<exists>l. ss_woken (sw_sets w' ! a) = ss_woken (sw_sets w ! a) @ l \<and> e \<in> set l"
proof -
  have inv: "sem_inv w" using sem_reach_inv [OF assms(1) sem_initial_inv] .
  have "queue_ok (ss_sems (sw_sets w ! a) ! n)"
    using set_ok_sem [OF sem_inv_sets [OF inv nth_mem [OF assms(3)]] assms(4)] by blast
  then have "EVENT_IN AND em \<noteq> 0" using assms(5) unfolding queue_ok_def by blast
  then have "e \<in> set (Sem_wakeWaiters (ss_sems (sw_sets w ! a) ! n))"
    using assms(5) by (force simp: Sem_wakeWaiters_def Queue_Notify_def)
  moreover obtain l where "ss_woken (sw_sets w' ! a) = ss_woken (sw_sets w ! a) @ l"
    "set (Sem_wakeWaiters (ss_sems (sw_sets w ! a) ! n)) \<subseteq> set l"
    using sem_step_wakes [OF assms(2)] assms(3,4,6) unfolding world_wakes_def wakes_def by blast
  ultimately show ?thesis by blast
qed

theorem semaphore_change_wakes_witness:
  "\<exists>w w' l. sem_step\<^sup>*\<^sup>* (sem_initial 0) w \<and> sem_step w w' \<and>
     ss_woken (sw_sets w' ! 0) = ss_woken (sw_sets w ! 0) @ l \<and> 5 \<in> set l"
proof -
  let ?op = "[\<lparr>SemNum = 0, SemOp = - 1, SemFlag = 0\<rparr>]"
  let ?rd = "\<lparr>rd_now = 8, rd_uid = 1, rd_others = (\<lambda>w. w), rd_block = (\<lambda>_. Ok ())\<rparr>"
  let ?w = "sample_world\<lparr>sw_sets := [sample_set\<lparr>ss_sems := [\<lparr>s_value = 0, s_pid = 0, s_queue = [(5, READABLE_EVENT)],
      s_waiters = [(1, - 1)]\<rparr>]\<rparr>]\<rparr>"
  let ?w' = "sample_world\<lparr>sw_sets := [sample_set\<lparr>ss_sems := [\<lparr>s_value = 3, s_pid = 42, s_queue = [(5, READABLE_EVENT)],
      s_waiters = [(1, - 1)]\<rparr>], ss_woken := [5], ss_changeTime := 7\<rparr>]\<rparr>"
  have ops: "\<forall>op \<in> set ?op. op_ok op" by (simp add: op_ok_def)
  have perm: "checkPerms False [] \<lparr>sr_userNS = 0, sr_semaphores = [(1, 0)], sr_lastIDUsed = 1\<rparr> sample_set (NewRootCredentials 0)
      (PermMask_default\<lparr>pm_write := True\<rparr>) = Some True" by code_simp
  have sems: "ss_sems sample_set = [Sem_default]" "\<not> ss_dead sample_set" by code_simp+
  have "SemTimedOp_attempt sample_task 0 ?op ?rd sample_world = Some (Ok (1, 0), ?w)"
    using perm sems
    by (simp add: SemTimedOp_attempt_def Set_ExecuteOps_def sample_world_def sample_task_def findSem_def
        SetInternal_executeOps_def i16_def Queue_EventRegister_def Sem_default_def IPC_NOWAIT_def PermMask_default_def)
  then have wait: "sem_step sample_world ?w" by (rule sem_step.attempt [OF ops])
  have create: "sem_step (sem_initial 0) sample_world" by (rule sem_step.semget, rule sample_semget)
  have reach: "sem_step\<^sup>*\<^sup>* (sem_initial 0) ?w"
    by (rule rtranclp.rtrancl_into_rtrancl [OF r_into_rtranclp [where r = sem_step, OF create] wait])
  have "u64_as_i32 3 = 3" by code_simp
  moreover have "checkPerms False [] (sw_registry ?w) (sw_sets ?w ! 0) (NewRootCredentials 0)
      (PermMask_default\<lparr>pm_write := True\<rparr>) = Some True" by code_simp
  moreover have "Queue_Notify EVENT_IN [(5 :: u64, READABLE_EVENT)] = [5]" "ss_woken sample_set = []" by code_simp+
  ultimately have "SysSemctl sample_task 1 0 SETVAL 3 ?w = Some (Ok 0, ?w')"
    by (simp add: SysSemctl_def map_ret_def setVal_def with_set_def findByID_def bt_get_def sample_world_def
        Set_SetVal_def sample_task_def i16_def findSem_mut_def Sem_wakeWaiters_def)
  then have step: "sem_step ?w ?w'" by (rule sem_step.semctl)
  have "\<exists>l. ss_woken (sw_sets ?w' ! 0) = ss_woken (sw_sets ?w ! 0) @ l \<and> 5 \<in> set l"
    by (rule semaphore_change_wakes [OF reach step, of 0 0 5 READABLE_EVENT]) simp_all
  with reach step show ?thesis by blast
qed

section \<open>Defects\<close>


definition sample_user_set :: sem_set where
  "sample_user_set = sample_set\<lparr>ss_owner := \<lparr>fo_UID = 1000, fo_GID = 1000\<rparr>, ss_creator := \<lparr>fo_UID = 1000, fo_GID = 1000\<rparr>\<rparr>"


text \<open>\<^verbatim>\<open>semget\<close> on an existing key has the same defect for a caller without the permissions.\<close>

lemma semget_hangs:
  assumes "findByKey w key = Some a" and "key \<noteq> IPC_PRIVATE" and "0 \<le> nsems" and "nsems \<le> 32000"
    and "checkPerms False (t_ns t) (sw_registry w) (sw_sets w ! a) (t_creds t)
      (PermMask_FromMode ((word_of_int flag :: u16) AND 0x1FF)) = Some False"
  shows "SysSemgetl t key nsems flag w = None"
proof -
  have m: "uint SEMAPHORES_MAX = 32000" by (simp add: SEMAPHORES_MAX_def SEMMSL_def)
  have "checkPerms True (t_ns t) (sw_registry w) (sw_sets w ! a) (t_creds t)
      (PermMask_FromMode ((word_of_int flag :: u16) AND 0x1FF)) = None"
    using assms(5) by (auto simp: checkPerms_def checkCapability_def Let_def split: if_splits)
  then show ?thesis using assms(1-4) m by (simp add: SysSemgetl_def FindOrCreate_def Let_def not_less)
qed

text \<open>
  Setting the value of the semaphore one past the end of a set, with permission to write,
  passes the range check of \<^verbatim>\<open>findSem_mut\<close> and panics; every number further out is refused with
  \<^verbatim>\<open>ERANGE\<close>.
\<close>

theorem SETVAL_past_end:
  assumes "findByID (sw_registry w) i = Some a" and "0 \<le> u64_as_i32 arg" and "u64_as_i32 arg \<le> VALUE_MAX"
    and "checkPerms False (t_ns t) (sw_registry w) (sw_sets w ! a) (t_creds t) (PermMask_default\<lparr>pm_write := True\<rparr>) = Some True"
    and "int (length (ss_sems (sw_sets w ! a))) \<le> num"
  shows "map_option fst (SysSemctl t i num SETVAL arg w) =
    Some (Err (if num = int (length (ss_sems (sw_sets w ! a))) then Panic else SysError ERANGE))"
proof -
  have "i16 (u64_as_i32 arg) = u64_as_i32 arg" using assms(2,3) by (intro i16_id) simp_all
  then show ?thesis
    using assms
    by (auto simp: SysSemctl_def map_ret_def setVal_def with_set_def Set_SetVal_def findSem_mut_def Let_def)
qed

theorem SETVAL_past_end_witness:
  "map_option fst (SysSemctl sample_task 1 1 SETVAL 3 sample_world) = Some (Err Panic)"
proof -
  have "findByID (sw_registry sample_world) 1 = Some 0" "u64_as_i32 3 = 3" "length (ss_sems (sw_sets sample_world ! 0)) = 1"
    "checkPerms False (t_ns sample_task) (sw_registry sample_world) (sw_sets sample_world ! 0) (t_creds sample_task)
      (PermMask_default\<lparr>pm_write := True\<rparr>) = Some True"
    by code_simp+
  then show ?thesis using SETVAL_past_end [of sample_world 1 0 3 sample_task 1] by simp
qed

text \<open>An operation of \<^verbatim>\<open>i16::MIN\<close> is its own negation, passes both tests and leaves a value below
  zero.\<close>

lemma SemOp_MIN_negative:
  assumes "0 \<le> v" and "v \<le> VALUE_MAX"
  shows "executeOps_loop [\<lparr>SemNum = 0, SemOp = - 32768, SemFlag = f\<rparr>] [v] = OpsDone [v - 32768]"
  using assms by (simp add: Let_def i16_def)

end
