(* ===== verification/Area_Set.thy ===== *)
theory Area_Set
  imports Ranges BTree_Map
begin

text \<open>
  Sets of disjoint areas, each with a value: \<^verbatim>\<open>qlib/mem/areaset.rs\<close>. The areas are nodes of a
  doubly linked list between two sentinels, and a map from start addresses to nodes serves the
  lookups. The shared nodes live in a heap (a list indexed by address) that is part of the state.

  A node reference is an \<^typ>\<open>nat option\<close>: \<open>None\<close> stands for the node a \<^verbatim>\<open>default()\<close> call allocates,
  which is linked to nothing; it is the terminal iterator of the code. A segment and a gap are both
  given by a node, a gap by the node before it.

  The operations of the values (the trait \<^verbatim>\<open>AreaValue\<close>) are a record of functions. Panics are errors,
  and a loop over the list is a partial function whose outcome \<open>None\<close> means that it does not return.
\<close>

section \<open>Data\<close>

record 'v area_value =
  av_Merge :: "'v \<Rightarrow> range \<Rightarrow> range \<Rightarrow> 'v \<Rightarrow> 'v option"
  av_Split :: "'v \<Rightarrow> range \<Rightarrow> u64 \<Rightarrow> 'v \<times> 'v"

type_synonym entry = "nat option"

record 'v area_entry =
  ae_range :: range
  ae_value :: "'v option"
  ae_prev :: entry
  ae_next :: entry

record 'v area_set =
  as_range :: range
  as_head :: nat
  as_tail :: nat
  as_map :: "(u64, nat) btree"
  as_heap :: "'v area_entry list"

datatype area = Seg entry | Gap entry

definition AreaEntry_default :: "'v area_entry" where
  "AreaEntry_default = \<lparr>ae_range = Range_New 0 0, ae_value = None, ae_prev = None, ae_next = None\<rparr>"

definition entry_at :: "'v area_set \<Rightarrow> entry \<Rightarrow> 'v area_entry" where
  "entry_at s e = (case e of None \<Rightarrow> AreaEntry_default | Some a \<Rightarrow> as_heap s ! a)"

definition entry_update :: "entry \<Rightarrow> ('v area_entry \<Rightarrow> 'v area_entry) \<Rightarrow> 'v area_set \<Rightarrow> 'v area_set" where
  "entry_update e f s =
    (case e of None \<Rightarrow> s | Some a \<Rightarrow> s\<lparr>as_heap := (as_heap s)[a := f (as_heap s ! a)]\<rparr>)"

section \<open>Entries\<close>

definition AreaEntry_Dummy :: "u64 \<Rightarrow> u64 \<Rightarrow> 'v area_entry" where
  "AreaEntry_Dummy start len = AreaEntry_default\<lparr>ae_range := Range_New start len\<rparr>"

definition AreaEntry_New :: "u64 \<Rightarrow> u64 \<Rightarrow> 'v \<Rightarrow> 'v area_entry" where
  "AreaEntry_New start len vma = AreaEntry_default\<lparr>ae_range := Range_New start len, ae_value := Some vma\<rparr>"

definition AreaEntry_Remove :: "entry \<Rightarrow> 'v area_set \<Rightarrow> 'v area_set result" where
  "AreaEntry_Remove e s =
    (case (ae_prev (entry_at s e), ae_next (entry_at s e)) of
       (Some prev, Some next) \<Rightarrow>
         Ok (entry_update (Some next) (\<lambda>n. n\<lparr>ae_prev := Some prev\<rparr>)
              (entry_update (Some prev) (\<lambda>p. p\<lparr>ae_next := Some next\<rparr>)
                (entry_update e (\<lambda>c. c\<lparr>ae_prev := None, ae_next := None\<rparr>) s)))
     | _ \<Rightarrow> Err Panic)"

definition AreaEntry_InsertAfter :: "entry \<Rightarrow> range \<Rightarrow> 'v \<Rightarrow> 'v area_set \<Rightarrow> (entry \<times> 'v area_set) result" where
  "AreaEntry_InsertAfter e r vma s =
    (case ae_next (entry_at s e) of
       None \<Rightarrow> Err Panic
     | Some next \<Rightarrow>
         (let n = length (as_heap s);
              s = s\<lparr>as_heap := as_heap s @ [AreaEntry_New (r_start r) (r_len r) vma]\<rparr>;
              s = entry_update e (\<lambda>c. c\<lparr>ae_next := Some n\<rparr>) s;
              s = entry_update (Some n) (\<lambda>c. c\<lparr>ae_prev := e\<rparr>) s;
              s = entry_update (Some next) (\<lambda>c. c\<lparr>ae_prev := Some n\<rparr>) s;
              s = entry_update (Some n) (\<lambda>c. c\<lparr>ae_next := Some next\<rparr>) s
          in Ok (Some n, s)))"

definition AreaEntry_Ok :: "'v area_set \<Rightarrow> entry \<Rightarrow> bool" where
  "AreaEntry_Ok s e \<longleftrightarrow> \<not> (ae_prev (entry_at s e) = None \<or> ae_next (entry_at s e) = None)"

definition AreaEntry_IsHead :: "'v area_set \<Rightarrow> entry \<Rightarrow> bool" where
  "AreaEntry_IsHead s e \<longleftrightarrow> ae_prev (entry_at s e) = None"

definition AreaEntry_IsTail :: "'v area_set \<Rightarrow> entry \<Rightarrow> bool" where
  "AreaEntry_IsTail s e \<longleftrightarrow> ae_next (entry_at s e) = None"

definition AreaEntry_Range :: "'v area_set \<Rightarrow> entry \<Rightarrow> range" where
  "AreaEntry_Range s e = ae_range (entry_at s e)"

definition AreaEntry_NextEntry :: "'v area_set \<Rightarrow> entry \<Rightarrow> entry" where
  "AreaEntry_NextEntry s e = (if AreaEntry_IsTail s e then None else ae_next (entry_at s e))"

definition AreaEntry_PrevEntry :: "'v area_set \<Rightarrow> entry \<Rightarrow> entry" where
  "AreaEntry_PrevEntry s e = (if AreaEntry_IsHead s e then None else ae_prev (entry_at s e))"

text \<open>The inner option is the one of the code, which the only caller unwraps.\<close>

partial_function (option) AreaEntry_NextNonEmptyGap :: "'v area_set \<Rightarrow> entry \<Rightarrow> entry option option" where
  [code]: "AreaEntry_NextNonEmptyGap s cur =
    (if AreaEntry_IsTail s cur then Some None
     else
       let next = AreaEntry_NextEntry s cur;
           end = r_start (AreaEntry_Range s next);
           start = Range_End (AreaEntry_Range s cur)
       in if start \<noteq> end then Some (Some cur) else AreaEntry_NextNonEmptyGap s next)"

partial_function (option) AreaEntry_PrevNoneEmptyGap :: "'v area_set \<Rightarrow> entry \<Rightarrow> entry option option" where
  [code]: "AreaEntry_PrevNoneEmptyGap s cur =
    (if AreaEntry_IsHead s cur then Some None
     else
       let prev = AreaEntry_PrevEntry s cur;
           start = Range_End (AreaEntry_Range s prev);
           end = r_start (AreaEntry_Range s cur)
       in if start \<noteq> end then Some (Some prev) else AreaEntry_PrevNoneEmptyGap s prev)"

section \<open>Segments and gaps\<close>

definition AreaSeg_Value :: "'v area_set \<Rightarrow> entry \<Rightarrow> 'v result" where
  "AreaSeg_Value s e = (case ae_value (entry_at s e) of None \<Rightarrow> Err Panic | Some v \<Rightarrow> Ok v)"

definition AreaSeg_SetValue :: "entry \<Rightarrow> 'v \<Rightarrow> 'v area_set \<Rightarrow> 'v area_set" where
  "AreaSeg_SetValue e v s = entry_update e (\<lambda>c. c\<lparr>ae_value := Some v\<rparr>) s"

definition AreaSeg_PrevGap :: "'v area_set \<Rightarrow> entry \<Rightarrow> entry" where
  "AreaSeg_PrevGap s e = (if AreaEntry_IsHead s e then None else AreaEntry_PrevEntry s e)"

definition AreaSeg_NextGap :: "'v area_set \<Rightarrow> entry \<Rightarrow> entry" where
  "AreaSeg_NextGap s e = (if AreaEntry_IsTail s e then None else e)"

definition AreaSeg_NextSeg :: "'v area_set \<Rightarrow> entry \<Rightarrow> entry" where
  "AreaSeg_NextSeg s e = (if AreaEntry_IsTail s e then e else AreaEntry_NextEntry s e)"

definition AreaSeg_PrevSeg :: "'v area_set \<Rightarrow> entry \<Rightarrow> entry" where
  "AreaSeg_PrevSeg s e = (if AreaEntry_IsHead s e then e else AreaEntry_PrevEntry s e)"

definition AreaGap_Ok :: "'v area_set \<Rightarrow> entry \<Rightarrow> bool" where
  "AreaGap_Ok s g \<longleftrightarrow> \<not> AreaEntry_IsTail s g"

definition AreaGap_PrevSeg :: "'v area_set \<Rightarrow> entry \<Rightarrow> entry" where
  "AreaGap_PrevSeg s g = (if \<not> AreaGap_Ok s g then None else g)"

definition AreaGap_NextSeg :: "'v area_set \<Rightarrow> entry \<Rightarrow> entry" where
  "AreaGap_NextSeg s g = (if \<not> AreaGap_Ok s g then None else AreaEntry_NextEntry s g)"

definition AreaGap_PrevGap :: "'v area_set \<Rightarrow> entry \<Rightarrow> entry" where
  "AreaGap_PrevGap s g = (if \<not> AreaEntry_Ok s g then None else AreaEntry_PrevEntry s g)"

definition AreaGap_NextGap :: "'v area_set \<Rightarrow> entry \<Rightarrow> entry" where
  "AreaGap_NextGap s g = (if \<not> AreaGap_Ok s g then None else AreaEntry_NextEntry s g)"

definition AreaGap_Range :: "'v area_set \<Rightarrow> entry \<Rightarrow> range" where
  "AreaGap_Range s g =
    (if \<not> AreaGap_Ok s g then Range_New 0 0
     else
       let start = Range_End (AreaEntry_Range s g);
           end = r_start (AreaEntry_Range s (AreaEntry_NextEntry s g))
       in Range_New start (end - start))"

definition AreaGap_IsEmpty :: "'v area_set \<Rightarrow> entry \<Rightarrow> bool" where
  "AreaGap_IsEmpty s g \<longleftrightarrow> r_len (AreaGap_Range s g) = 0"

definition AreaSeg_NextNonEmpty :: "'v area_set \<Rightarrow> entry \<Rightarrow> entry \<times> entry" where
  "AreaSeg_NextNonEmpty s e =
    (let gap = AreaSeg_NextGap s e
     in if r_len (AreaGap_Range s gap) \<noteq> 0 then (None, gap) else (AreaGap_NextSeg s gap, None))"

definition Area_AreaSeg :: "area \<Rightarrow> entry" where
  "Area_AreaSeg a = (case a of Seg e \<Rightarrow> e | Gap _ \<Rightarrow> None)"

definition Area_AreaGap :: "area \<Rightarrow> entry" where
  "Area_AreaGap a = (case a of Gap e \<Rightarrow> e | Seg _ \<Rightarrow> None)"

section \<open>Lookups\<close>

definition AreaSet_New :: "u64 \<Rightarrow> u64 \<Rightarrow> 'v area_set" where
  "AreaSet_New start len =
    (let head = AreaEntry_Dummy start 0;
         tail = (if len \<noteq> u64_MAX then AreaEntry_Dummy (start + len) 0 else AreaEntry_Dummy u64_MAX 0)
     in \<lparr>as_range = Range_New start len, as_head = 0, as_tail = 1, as_map = [],
         as_heap = [head\<lparr>ae_next := Some 1\<rparr>, tail\<lparr>ae_prev := Some 0\<rparr>]\<rparr>)"

definition AreaSet_Reset :: "u64 \<Rightarrow> u64 \<Rightarrow> 'v area_set \<Rightarrow> 'v area_set" where
  "AreaSet_Reset start len s =
    (entry_update (Some (as_tail s)) (\<lambda>c. c\<lparr>ae_range := Range_New (start + len) 0\<rparr>)
      (entry_update (Some (as_head s)) (\<lambda>c. c\<lparr>ae_range := Range_New start 0\<rparr>) s))\<lparr>as_range := Range_New start len\<rparr>"

definition AreaSet_IsEmpty :: "'v area_set \<Rightarrow> bool" where
  "AreaSet_IsEmpty s \<longleftrightarrow> length (as_map s) = 0"

definition AreaSet_FirstSeg :: "'v area_set \<Rightarrow> entry result" where
  "AreaSet_FirstSeg s =
    (case AreaEntry_NextEntry s (Some (as_head s)) of None \<Rightarrow> Err Panic | Some a \<Rightarrow> Ok (Some a))"

definition AreaSet_LastSeg :: "'v area_set \<Rightarrow> entry result" where
  "AreaSet_LastSeg s =
    (case AreaEntry_PrevEntry s (Some (as_tail s)) of None \<Rightarrow> Err Panic | Some a \<Rightarrow> Ok (Some a))"

definition AreaSet_FirstGap :: "'v area_set \<Rightarrow> entry" where
  "AreaSet_FirstGap s = Some (as_head s)"

definition AreaSet_LastGap :: "'v area_set \<Rightarrow> entry result" where
  "AreaSet_LastGap s =
    (case AreaEntry_PrevEntry s (Some (as_tail s)) of None \<Rightarrow> Err Panic | Some a \<Rightarrow> Ok (Some a))"

definition AreaSet_FindArea :: "'v area_set \<Rightarrow> u64 \<Rightarrow> area" where
  "AreaSet_FindArea s key =
    (if key < r_start (as_range s) then Seg (Some (as_head s))
     else if key > Range_End (as_range s) then Seg (Some (as_tail s))
     else
       let e = (case bt_floor key (as_map s) of None \<Rightarrow> Some (as_head s) | Some (_, v) \<Rightarrow> Some v)
       in if AreaEntry_Ok s e \<and> Range_Contains (AreaEntry_Range s e) key then Seg e else Gap e)"

definition AreaSet_Find :: "'v area_set \<Rightarrow> u64 \<Rightarrow> entry \<times> entry" where
  "AreaSet_Find s key = (let area = AreaSet_FindArea s key in (Area_AreaSeg area, Area_AreaGap area))"

definition AreaSet_FindSeg :: "'v area_set \<Rightarrow> u64 \<Rightarrow> entry" where
  "AreaSet_FindSeg s key = Area_AreaSeg (AreaSet_FindArea s key)"

definition AreaSet_LowerBoundSeg :: "'v area_set \<Rightarrow> u64 \<Rightarrow> entry" where
  "AreaSet_LowerBoundSeg s key =
    (let (seg, gap) = AreaSet_Find s key
     in if AreaEntry_Ok s seg then seg else if AreaGap_Ok s gap then AreaGap_NextSeg s gap else None)"

definition AreaSet_UpperBoundSeg :: "'v area_set \<Rightarrow> u64 \<Rightarrow> entry" where
  "AreaSet_UpperBoundSeg s key =
    (let (seg, gap) = AreaSet_Find s key
     in if AreaEntry_Ok s seg then seg else if AreaGap_Ok s gap then AreaGap_PrevSeg s gap else None)"

definition AreaSet_FindGap :: "'v area_set \<Rightarrow> u64 \<Rightarrow> entry" where
  "AreaSet_FindGap s key = Area_AreaGap (AreaSet_FindArea s key)"

definition AreaSet_LowerBoundGap :: "'v area_set \<Rightarrow> u64 \<Rightarrow> entry" where
  "AreaSet_LowerBoundGap s key =
    (let (seg, gap) = AreaSet_Find s key
     in if AreaGap_Ok s gap then gap else if AreaEntry_Ok s seg then AreaSeg_NextGap s seg else None)"

definition AreaSet_UpperBoundGap :: "'v area_set \<Rightarrow> u64 \<Rightarrow> entry" where
  "AreaSet_UpperBoundGap s key =
    (let (seg, gap) = AreaSet_Find s key
     in if AreaGap_Ok s gap then gap else if AreaEntry_Ok s seg then AreaSeg_PrevGap s seg else None)"

definition AreaSet_IsEmptyRange :: "'v area_set \<Rightarrow> range \<Rightarrow> bool" where
  "AreaSet_IsEmptyRange s r =
    (if r_len r = 0 then True
     else
       let (_, gap) = AreaSet_Find s (r_start r)
       in if \<not> AreaGap_Ok s gap then False else Range_End r \<le> Range_End (AreaGap_Range s gap))"

partial_function (option) Span_loop :: "'v area_set \<Rightarrow> entry \<Rightarrow> u64 \<Rightarrow> u64 option" where
  [code]: "Span_loop s seg sz =
    (if AreaEntry_Ok s seg then Span_loop s (AreaSeg_NextSeg s seg) (sz + r_len (AreaEntry_Range s seg))
     else Some sz)"

definition AreaSet_Span :: "'v area_set \<Rightarrow> u64 run" where
  "AreaSet_Span s =
    (case AreaSet_FirstSeg s of Inl e \<Rightarrow> fails e | Inr seg \<Rightarrow> map_option Ok (Span_loop s seg 0))"

partial_function (option) SpanRange_loop :: "'v area_set \<Rightarrow> range \<Rightarrow> entry \<Rightarrow> u64 \<Rightarrow> u64 option" where
  [code]: "SpanRange_loop s r seg res =
    (if AreaEntry_Ok s seg \<and> r_start (AreaEntry_Range s seg) < Range_End r
     then SpanRange_loop s r (AreaSeg_NextSeg s seg) (res + r_len (Range_Intersect (AreaEntry_Range s seg) r))
     else Some res)"

definition AreaSet_SpanRange :: "'v area_set \<Rightarrow> range \<Rightarrow> u64 option" where
  "AreaSet_SpanRange s r =
    (if r_len r = 0 then Some 0 else SpanRange_loop s r (AreaSet_LowerBoundSeg s (r_start r)) 0)"

section \<open>Insertion and removal\<close>

definition AreaSet_InsertWithoutMergingUnchecked ::
    "entry \<Rightarrow> range \<Rightarrow> 'v \<Rightarrow> 'v area_set \<Rightarrow> (entry \<times> 'v area_set) result" where
  "AreaSet_InsertWithoutMergingUnchecked gap r val s =
    (let prev = AreaGap_PrevSeg s gap
     in and_then (AreaEntry_InsertAfter prev r val s) (\<lambda>(n, s).
          case n of
            None \<Rightarrow> Err Panic
          | Some a \<Rightarrow> Ok (n, s\<lparr>as_map := bt_insert (r_start r) a (as_map s)\<rparr>)))"

definition AreaSet_InsertWithoutMerging ::
    "entry \<Rightarrow> range \<Rightarrow> 'v \<Rightarrow> 'v area_set \<Rightarrow> (entry \<times> 'v area_set) result" where
  "AreaSet_InsertWithoutMerging gap r val s =
    (let gr = AreaGap_Range s gap
     in if \<not> Range_IsSupersetOf gr r then Err Panic else AreaSet_InsertWithoutMergingUnchecked gap r val s)"

definition AreaSet_Remove :: "entry \<Rightarrow> 'v area_set \<Rightarrow> (entry \<times> 'v area_set) result" where
  "AreaSet_Remove e s =
    (if \<not> AreaEntry_Ok s e then Err Panic
     else
       let prev = AreaSeg_PrevSeg s e;
           s = s\<lparr>as_map := bt_remove (r_start (AreaEntry_Range s e)) (as_map s)\<rparr>
       in and_then (AreaEntry_Remove e s) (\<lambda>s. Ok (AreaSeg_NextGap s prev, s)))"

definition AreaSet_Insert ::
    "'v area_value \<Rightarrow> entry \<Rightarrow> range \<Rightarrow> 'v \<Rightarrow> 'v area_set \<Rightarrow> (entry \<times> 'v area_set) result" where
  "AreaSet_Insert av gap r val s =
    (let prev = AreaGap_PrevSeg s gap;
         next = AreaGap_NextSeg s gap;
         merge_next =
           (if AreaEntry_Ok s next \<and> r_start (AreaEntry_Range s next) = Range_End r then
              (let r2 = AreaEntry_Range s next
               in and_then (AreaSeg_Value s next) (\<lambda>vn.
                 case av_Merge av val r r2 vn of
                   Some mval \<Rightarrow>
                     (let s = entry_update next (\<lambda>c. c\<lparr>ae_range := Range_New (r_start r) (r_len (ae_range c) + r_len r),
                           ae_value := Some mval\<rparr>) s;
                          m = bt_remove (Range_End r) (as_map s)
                      in case next of
                           None \<Rightarrow> Err Panic
                         | Some a \<Rightarrow> Ok (next, s\<lparr>as_map := bt_insert (r_start r) a m\<rparr>))
                 | None \<Rightarrow> AreaSet_InsertWithoutMergingUnchecked gap r val s))
            else AreaSet_InsertWithoutMergingUnchecked gap r val s)
     in if AreaEntry_Ok s prev \<and> Range_End (AreaEntry_Range s prev) > r_start r then Err Panic
        else if AreaEntry_Ok s next \<and> r_start (AreaEntry_Range s next) < Range_End r then Err Panic
        else if AreaEntry_Ok s prev \<and> Range_End (AreaEntry_Range s prev) = r_start r then
          (let r1 = AreaEntry_Range s prev
           in and_then (AreaSeg_Value s prev) (\<lambda>vp.
             case av_Merge av vp r1 r val of
               Some mval \<Rightarrow>
                 (let s = entry_update prev (\<lambda>c. c\<lparr>ae_range := Range_New (r_start (ae_range c)) (r_len (ae_range c) + r_len r),
                       ae_value := Some mval\<rparr>) s
                  in if AreaEntry_Ok s next \<and> r_start (AreaEntry_Range s next) = Range_End r then
                       (let r1 = AreaEntry_Range s prev;
                            r2 = AreaEntry_Range s next
                        in and_then (AreaSeg_Value s next) (\<lambda>vn.
                             case av_Merge av mval r1 r2 vn of
                               Some mval \<Rightarrow>
                                 (let s = entry_update prev (\<lambda>c. c\<lparr>ae_range :=
                                        Range_New (r_start (ae_range c)) (r_len (ae_range c) + r_len r2),
                                        ae_value := Some mval\<rparr>) s
                                  in and_then (AreaSet_Remove next s) (\<lambda>(g, s). Ok (AreaGap_PrevSeg s g, s)))
                             | None \<Rightarrow> Ok (prev, s)))
                     else Ok (prev, s))
             | None \<Rightarrow> merge_next))
        else merge_next)"

definition AreaSet_Add :: "'v area_value \<Rightarrow> range \<Rightarrow> 'v \<Rightarrow> 'v area_set \<Rightarrow> (bool \<times> 'v area_set) result" where
  "AreaSet_Add av r val s =
    (let gap = AreaSet_FindGap s (r_start r)
     in if \<not> AreaGap_Ok s gap then Ok (False, s)
        else if Range_End r > Range_End (AreaGap_Range s gap) then Ok (False, s)
        else and_then (AreaSet_Insert av gap r val s) (\<lambda>(_, s). Ok (True, s)))"

definition AreaSet_AddWithoutMerging :: "range \<Rightarrow> 'v \<Rightarrow> 'v area_set \<Rightarrow> (bool \<times> 'v area_set) result" where
  "AreaSet_AddWithoutMerging r val s =
    (let gap = AreaSet_FindGap s (r_start r)
     in if \<not> AreaGap_Ok s gap then Ok (False, s)
        else if Range_End r > Range_End (AreaGap_Range s gap) then Ok (False, s)
        else and_then (AreaSet_InsertWithoutMergingUnchecked gap r val s) (\<lambda>(_, s). Ok (True, s)))"

fun RemoveAll_entries :: "nat list \<Rightarrow> 'v area_set \<Rightarrow> 'v area_set result" where
  "RemoveAll_entries [] s = Ok s"
| "RemoveAll_entries (e # es) s = and_then (AreaEntry_Remove (Some e) s) (RemoveAll_entries es)"

definition AreaSet_RemoveAll :: "'v area_set \<Rightarrow> 'v area_set result" where
  "AreaSet_RemoveAll s =
    and_then (RemoveAll_entries (map snd (as_map s)) s) (\<lambda>s. Ok (s\<lparr>as_map := []\<rparr>))"

section \<open>Splitting\<close>

definition AreaSet_SplitUnchecked ::
    "'v area_value \<Rightarrow> entry \<Rightarrow> u64 \<Rightarrow> 'v area_set \<Rightarrow> ((entry \<times> entry) \<times> 'v area_set) run" where
  "AreaSet_SplitUnchecked av seg split s =
    (let range = AreaEntry_Range s seg
     in run_bind (Some (AreaSeg_Value s seg)) (\<lambda>v.
       let (val1, val2) = av_Split av v range split;
           end2 = Range_End range;
           s = entry_update seg (\<lambda>c. c\<lparr>ae_range := Range_New (r_start (ae_range c)) (split - r_start range),
                 ae_value := Some val1\<rparr>) s
       in Option.bind (AreaEntry_NextNonEmptyGap s seg) (\<lambda>found.
            case found of
              None \<Rightarrow> fails Panic
            | Some gap \<Rightarrow>
                Some (and_then (AreaSet_InsertWithoutMergingUnchecked gap (Range_New split (end2 - split)) val2 s)
                  (\<lambda>(seg2, s). Ok ((AreaSeg_PrevSeg s seg2, seg2), s))))))"

definition AreaSet_Split ::
    "'v area_value \<Rightarrow> entry \<Rightarrow> u64 \<Rightarrow> 'v area_set \<Rightarrow> ((entry \<times> entry) \<times> 'v area_set) run" where
  "AreaSet_Split av seg split s =
    (if \<not> Range_CanSplitAt (AreaEntry_Range s seg) split then fails Panic
     else AreaSet_SplitUnchecked av seg split s)"

definition AreaSet_SplitAt :: "'v area_value \<Rightarrow> u64 \<Rightarrow> 'v area_set \<Rightarrow> (bool \<times> 'v area_set) run" where
  "AreaSet_SplitAt av split s =
    (let seg = AreaSet_FindSeg s split
     in if \<not> AreaEntry_Ok s seg then returns (False, s)
        else if Range_CanSplitAt (AreaEntry_Range s seg) split
        then run_bind (AreaSet_SplitUnchecked av seg split s) (\<lambda>(_, s). returns (True, s))
        else returns (False, s))"

definition AreaSet_Isolate :: "'v area_value \<Rightarrow> entry \<Rightarrow> range \<Rightarrow> 'v area_set \<Rightarrow> (entry \<times> 'v area_set) run" where
  "AreaSet_Isolate av seg r s =
    run_bind
      (if Range_CanSplitAt (AreaEntry_Range s seg) (r_start r)
       then run_bind (AreaSet_SplitUnchecked av seg (r_start r) s) (\<lambda>((_, tmp), s). returns (tmp, s))
       else returns (seg, s)) (\<lambda>(seg, s).
      if Range_CanSplitAt (AreaEntry_Range s seg) (Range_End r)
      then run_bind (AreaSet_SplitUnchecked av seg (Range_End r) s) (\<lambda>((tmp, _), s). returns (tmp, s))
      else returns (seg, s))"

text \<open>The loop of \<^verbatim>\<open>RemoveRange\<close> keeps the segment that it has just removed as its loop variable.\<close>

partial_function (option) RemoveRange_areas ::
    "'v area_value \<Rightarrow> range \<Rightarrow> entry \<Rightarrow> entry \<Rightarrow> 'v area_set \<Rightarrow> (entry \<times> 'v area_set) run" where
  [code]: "RemoveRange_areas av r seg gap s =
    (if AreaEntry_Ok s seg \<and> r_start (AreaEntry_Range s seg) < Range_End r
     then run_bind (AreaSet_Isolate av seg r s) (\<lambda>(seg, s).
       run_bind (Some (AreaSet_Remove seg s)) (\<lambda>(gap, s). RemoveRange_areas av r seg gap s))
     else returns (gap, s))"

definition AreaSet_RemoveRange :: "'v area_value \<Rightarrow> range \<Rightarrow> 'v area_set \<Rightarrow> (entry \<times> 'v area_set) run" where
  "AreaSet_RemoveRange av r s =
    (let (seg, gap) = AreaSet_Find s (r_start r)
     in run_bind
          (if AreaEntry_Ok s seg
           then run_bind (AreaSet_Isolate av seg r s) (\<lambda>(seg, s). Some (AreaSet_Remove seg s))
           else returns (gap, s)) (\<lambda>(gap, s). RemoveRange_areas av r (AreaGap_NextSeg s gap) gap s))"

section \<open>Merging\<close>

definition AreaSet_MergeUnchecked ::
    "'v area_value \<Rightarrow> entry \<Rightarrow> entry \<Rightarrow> 'v area_set \<Rightarrow> (entry \<times> 'v area_set) result" where
  "AreaSet_MergeUnchecked av first second s =
    (if \<not> AreaEntry_Ok s first \<or> \<not> AreaEntry_Ok s second then Ok (None, s)
     else
       let r1 = AreaEntry_Range s first;
           r2 = AreaEntry_Range s second
       in if Range_End r1 = r_start r2 then
            and_then (AreaSeg_Value s first) (\<lambda>v1. and_then (AreaSeg_Value s second) (\<lambda>v2.
              case av_Merge av v1 r1 r2 v2 of
                None \<Rightarrow> Ok (None, s)
              | Some vma \<Rightarrow>
                  (let s = entry_update first (\<lambda>c. c\<lparr>ae_range := Range_New (r_start (ae_range c)) (r_len (ae_range c) + r_len r2),
                        ae_value := Some vma\<rparr>) s
                   in and_then (AreaSet_Remove second s) (\<lambda>(_, s). Ok (first, s)))))
          else Ok (None, s))"

definition AreaSet_Merge ::
    "'v area_value \<Rightarrow> entry \<Rightarrow> entry \<Rightarrow> 'v area_set \<Rightarrow> (entry \<times> 'v area_set) result" where
  "AreaSet_Merge av first second s =
    (if AreaSeg_NextSeg s first \<noteq> second then Err Panic else AreaSet_MergeUnchecked av first second s)"

partial_function (option) MergeAll_loop ::
    "'v area_value \<Rightarrow> entry \<Rightarrow> entry \<Rightarrow> 'v area_set \<Rightarrow> 'v area_set run" where
  [code]: "MergeAll_loop av seg next s =
    (if AreaEntry_Ok s next
     then run_bind (Some (AreaSet_MergeUnchecked av seg next s)) (\<lambda>(mseg, s).
       let seg = (if AreaEntry_Ok s mseg then mseg else next)
       in MergeAll_loop av seg (AreaSeg_NextSeg s seg) s)
     else returns s)"

definition AreaSet_MergeAll :: "'v area_value \<Rightarrow> 'v area_set \<Rightarrow> 'v area_set run" where
  "AreaSet_MergeAll av s =
    run_bind (Some (AreaSet_FirstSeg s)) (\<lambda>seg.
      if \<not> AreaEntry_Ok s seg then returns s else MergeAll_loop av seg (AreaSeg_NextSeg s seg) s)"

partial_function (option) MergeRange_loop ::
    "'v area_value \<Rightarrow> range \<Rightarrow> entry \<Rightarrow> entry \<Rightarrow> 'v area_set \<Rightarrow> 'v area_set run" where
  [code]: "MergeRange_loop av r seg next s =
    (if AreaEntry_Ok s next \<and> r_start (AreaEntry_Range s next) < Range_End r
     then run_bind (Some (AreaSet_MergeUnchecked av seg next s)) (\<lambda>(mseg, s).
       let seg = (if AreaEntry_Ok s mseg then mseg else next)
       in MergeRange_loop av r seg (AreaSeg_NextSeg s seg) s)
     else returns s)"

definition AreaSet_MergeRange :: "'v area_value \<Rightarrow> range \<Rightarrow> 'v area_set \<Rightarrow> 'v area_set run" where
  "AreaSet_MergeRange av r s =
    (let seg = AreaSet_LowerBoundSeg s (r_start r)
     in if \<not> AreaEntry_Ok s seg then returns s else MergeRange_loop av r seg (AreaSeg_NextSeg s seg) s)"

definition AreaSet_MergeAdjacent :: "'v area_value \<Rightarrow> range \<Rightarrow> 'v area_set \<Rightarrow> 'v area_set result" where
  "AreaSet_MergeAdjacent av r s =
    (let first = AreaSet_FindSeg s (r_start r)
     in and_then
          (if AreaEntry_Ok s first then
             (let prev = AreaSeg_PrevSeg s first
              in if AreaEntry_Ok s prev then and_then (AreaSet_Merge av prev first s) (\<lambda>(_, s). Ok s) else Ok s)
           else Ok s) (\<lambda>s.
          let last = AreaSet_FindSeg s (Range_End r - 1)
          in if AreaEntry_Ok s last then
               (let next = AreaSeg_NextSeg s last
                in if AreaEntry_Ok s next then and_then (AreaSet_Merge av last next s) (\<lambda>(_, s). Ok s) else Ok s)
             else Ok s))"

text \<open>\<open>f\<close> is what the callback does to the value of an entry.\<close>

partial_function (option) ApplyContiguous_loop ::
    "'v area_value \<Rightarrow> range \<Rightarrow> ('v \<Rightarrow> 'v) \<Rightarrow> entry \<Rightarrow> 'v area_set \<Rightarrow> (entry \<times> 'v area_set) run" where
  [code]: "ApplyContiguous_loop av r f seg s =
    run_bind (AreaSet_Isolate av seg r s) (\<lambda>(seg, s).
      let s = entry_update seg (\<lambda>c. c\<lparr>ae_value := map_option f (ae_value c)\<rparr>) s
      in if Range_End (AreaEntry_Range s seg) > Range_End r then returns (None, s)
         else
           let gap = AreaSeg_NextGap s seg
           in if \<not> AreaGap_IsEmpty s gap then returns (gap, s)
              else
                let seg = AreaGap_NextSeg s gap
                in if \<not> AreaEntry_Ok s seg then returns (None, s)
                   else ApplyContiguous_loop av r f seg s)"

definition AreaSet_ApplyContiguous ::
    "'v area_value \<Rightarrow> range \<Rightarrow> ('v \<Rightarrow> 'v) \<Rightarrow> 'v area_set \<Rightarrow> (entry \<times> 'v area_set) run" where
  "AreaSet_ApplyContiguous av r f s =
    (let (seg, gap) = AreaSet_Find s (r_start r)
     in if \<not> AreaEntry_Ok s seg then returns (gap, s) else ApplyContiguous_loop av r f seg s)"

end
