(* ===== verification/Area_Rep.thy ===== *)
theory Area_Rep
  imports Area_Set Linked_List
begin

text \<open>
  The representation of an area set. \<open>rep s xs\<close> says that the heap of \<open>s\<close> holds a doubly linked list
  whose nodes between the sentinels are, in order, the nodes of \<open>xs\<close>, a list of triples of node
  address, range and value; that the ranges are disjoint, in order and within the bounds of the set;
  and that the map indexes the nodes by their starts. Each operation is characterised by what it does
  to \<open>xs\<close>, and \<open>sem\<close> forgets the cutting of the areas: it relates every address to the value there.
\<close>

section \<open>Doubly linked lists\<close>

definition dlist :: "'v area_entry list \<Rightarrow> entry \<Rightarrow> nat list \<Rightarrow> entry \<Rightarrow> bool" where
  "dlist h p xs n \<longleftrightarrow> (\<forall>x \<in> set xs. x < length h) \<and> links (\<lambda>x. ae_prev (h ! x)) (\<lambda>x. ae_next (h ! x)) p xs n"

lemma dlist_simps [simp]:
  "dlist h p [] n"
  "dlist h p (x # xs) n \<longleftrightarrow> x < length h \<and> ae_prev (h ! x) = p \<and> ae_next (h ! x) = first_or n xs \<and> dlist h (Some x) xs n"
  by (auto simp: dlist_def)

lemma dlist_append: "dlist h p (xs @ ys) n \<longleftrightarrow> dlist h p xs (first_or n ys) \<and> dlist h (last_or p xs) ys n"
  by (auto simp: dlist_def links_append)

lemma dlist_bound: "dlist h p xs n \<Longrightarrow> x \<in> set xs \<Longrightarrow> x < length h"
  by (auto simp: dlist_def)

lemma dlist_change:
  assumes "dlist h p xs n" and "distinct xs"
    and "\<And>x. x \<in> set xs \<Longrightarrow> x < length h' \<and> ae_prev (h' ! x) = (if x = hd xs then p' else ae_prev (h ! x)) \<and>
      ae_next (h' ! x) = (if x = last xs then n' else ae_next (h ! x))"
  shows "dlist h' p' xs n'"
  unfolding dlist_def
  using assms(3) links_change [of "\<lambda>x. ae_prev (h ! x)" "\<lambda>x. ae_next (h ! x)" p xs n
      "\<lambda>x. ae_prev (h' ! x)" p' "\<lambda>x. ae_next (h' ! x)" n'] assms(1,2) by (auto simp: dlist_def)

lemma dlist_same:
  assumes "dlist h p xs n" and "\<And>x. x \<in> set xs \<Longrightarrow> x < length h' \<and> ae_prev (h' ! x) = ae_prev (h ! x) \<and> ae_next (h' ! x) = ae_next (h ! x)"
  shows "dlist h' p xs n"
  unfolding dlist_def
  using assms links_same [of "\<lambda>x. ae_prev (h ! x)" "\<lambda>x. ae_next (h ! x)" p xs n
      "\<lambda>x. ae_prev (h' ! x)" "\<lambda>x. ae_next (h' ! x)"] by (auto simp: dlist_def)

section \<open>Areas in order\<close>

definition areas_ok :: "u64 \<Rightarrow> range list \<Rightarrow> u64 \<Rightarrow> bool" where
  "areas_ok lo rs hi \<longleftrightarrow> lo \<le> hi \<and>
     (\<forall>r \<in> set rs. range_ok r \<and> r_len r \<noteq> 0 \<and> lo \<le> r_start r \<and> Range_End r \<le> hi) \<and>
     sorted_wrt (\<lambda>a b. Range_End a \<le> r_start b) rs"

definition rs_end :: "u64 \<Rightarrow> range list \<Rightarrow> u64" where
  "rs_end lo rs = (if rs = [] then lo else Range_End (last rs))"

definition rs_start :: "range list \<Rightarrow> u64 \<Rightarrow> u64" where
  "rs_start rs hi = (case rs of [] \<Rightarrow> hi | r # _ \<Rightarrow> r_start r)"

lemma rs_end_simps [simp]: "rs_end lo [] = lo" "rs_end lo (rs @ [r]) = Range_End r"
  by (simp_all add: rs_end_def)

lemma rs_start_simps [simp]: "rs_start [] hi = hi" "rs_start (r # rs) hi = r_start r"
  by (simp_all add: rs_start_def)

lemma areas_ok_empty [simp]: "areas_ok lo [] hi \<longleftrightarrow> lo \<le> hi"
  by (simp add: areas_ok_def)

lemma area_nonempty: "range_ok r \<Longrightarrow> r_len r \<noteq> 0 \<Longrightarrow> r_start r < Range_End r"
  by (simp add: start_less_End)

lemma areas_ok_before:
  assumes "areas_ok lo (rs1 @ rs2) hi" and "r \<in> set rs1"
  shows "Range_End r \<le> rs_end lo rs1"
proof -
  have "rs1 \<noteq> []" using assms(2) by auto
  then obtain rs where rs1: "rs1 = rs @ [last rs1]" by (metis append_butlast_last_id)
  have last: "range_ok (last rs1)" using assms(1) \<open>rs1 \<noteq> []\<close> unfolding areas_ok_def by simp
  have "r = last rs1 \<or> r \<in> set rs" using assms(2) rs1 by (metis Un_iff list.set(1) list.set(2) set_append singletonD)
  then show ?thesis
  proof
    assume "r \<in> set rs"
    then have "Range_End r \<le> r_start (last rs1)"
      using assms(1) rs1 unfolding areas_ok_def by (metis list.set_intros(1) sorted_wrt_append)
    then show ?thesis using start_le_End [OF last] \<open>rs1 \<noteq> []\<close> by (simp add: rs_end_def)
  qed (use \<open>rs1 \<noteq> []\<close> in \<open>simp add: rs_end_def\<close>)
qed

lemma areas_ok_after:
  assumes "areas_ok lo (rs1 @ rs2) hi" and "r \<in> set rs2"
  shows "rs_start rs2 hi \<le> r_start r"
proof (cases rs2)
  case (Cons q rs)
  have "range_ok q" using assms(1) Cons unfolding areas_ok_def by simp
  moreover have "Range_End q \<le> r_start r" if "r \<in> set rs"
    using assms(1) Cons that unfolding areas_ok_def by (simp add: sorted_wrt_append)
  ultimately show ?thesis using assms(2) Cons start_le_End [of q] by auto
qed (use assms in simp)

lemma areas_ok_gap:
  assumes "areas_ok lo (rs1 @ rs2) hi"
  shows "lo \<le> rs_end lo rs1" "rs_end lo rs1 \<le> rs_start rs2 hi" "rs_start rs2 hi \<le> hi"
proof -
  have "Range_End (last rs1) \<le> r_start q" if "rs1 \<noteq> []" "rs2 = q # rs" for q rs
    using assms that unfolding areas_ok_def by (simp add: sorted_wrt_append)
  moreover have all: "range_ok r \<and> lo \<le> r_start r \<and> Range_End r \<le> hi" if "r \<in> set rs1 \<or> r \<in> set rs2" for r
    using assms that unfolding areas_ok_def by auto
  moreover have "lo \<le> hi" using assms unfolding areas_ok_def by blast
  ultimately show "rs_end lo rs1 \<le> rs_start rs2 hi"
    by (auto simp: rs_end_def rs_start_def split: list.splits)
  show "lo \<le> rs_end lo rs1"
    using all [of "last rs1"] start_le_End [of "last rs1"] last_in_set [of rs1] by (auto simp: rs_end_def)
  show "rs_start rs2 hi \<le> hi"
    using \<open>lo \<le> hi\<close> all [of "hd rs2"] start_le_End [of "hd rs2"] by (cases rs2) auto
qed

lemma areas_ok_remove: "areas_ok lo (rs1 @ r # rs2) hi \<Longrightarrow> areas_ok lo (rs1 @ rs2) hi"
  unfolding areas_ok_def by (auto simp: sorted_wrt_append)

lemma areas_ok_insert:
  assumes ok: "areas_ok lo (rs1 @ rs2) hi" and r: "range_ok r" "r_len r \<noteq> 0"
    and fit: "rs_end lo rs1 \<le> r_start r" "Range_End r \<le> rs_start rs2 hi"
  shows "areas_ok lo (rs1 @ r # rs2) hi"
proof -
  note g = areas_ok_gap [OF ok]
  have "Range_End x \<le> r_start r" if "x \<in> set rs1" for x using areas_ok_before [OF ok that] fit(1) by simp
  moreover have "Range_End r \<le> r_start y" if "y \<in> set rs2" for y using areas_ok_after [OF ok that] fit(2) by simp
  ultimately show ?thesis
    using ok r fit g unfolding areas_ok_def by (auto simp: sorted_wrt_append)
qed

lemma areas_ok_mid:
  assumes "areas_ok lo (rs1 @ r # rs2) hi"
  shows "range_ok r" "r_len r \<noteq> 0" "r_start r < Range_End r" "rs_end lo rs1 \<le> r_start r" "Range_End r \<le> rs_start rs2 hi"
    "lo \<le> r_start r" "Range_End r \<le> hi"
proof -
  show ok: "range_ok r" and len: "r_len r \<noteq> 0" and "lo \<le> r_start r" "Range_End r \<le> hi"
    using assms unfolding areas_ok_def by auto
  show "r_start r < Range_End r" using area_nonempty [OF ok len] .
  show "rs_end lo rs1 \<le> r_start r" using areas_ok_gap(2) [OF assms] by simp
  show "Range_End r \<le> rs_start rs2 hi" using areas_ok_gap(2) [of lo "rs1 @ [r]" rs2 hi] assms by simp
qed

section \<open>Representation\<close>

type_synonym 'v node = "nat \<times> range \<times> 'v"

abbreviation nodes :: "'v node list \<Rightarrow> nat list" where "nodes xs \<equiv> map fst xs"
abbreviation ranges :: "'v node list \<Rightarrow> range list" where "ranges xs \<equiv> map (\<lambda>x. fst (snd x)) xs"

definition lower :: "'v area_set \<Rightarrow> u64" where "lower s = r_start (as_range s)"
definition upper :: "'v area_set \<Rightarrow> u64" where "upper s = Range_End (as_range s)"

definition prv :: "'v area_set \<Rightarrow> 'v node list \<Rightarrow> nat" where
  "prv s xs = (if xs = [] then as_head s else fst (last xs))"

definition nxt :: "'v area_set \<Rightarrow> 'v node list \<Rightarrow> nat" where
  "nxt s xs = (case xs of [] \<Rightarrow> as_tail s | x # _ \<Rightarrow> fst x)"

definition rep :: "'v area_set \<Rightarrow> 'v node list \<Rightarrow> bool" where
  "rep s xs \<longleftrightarrow>
     distinct (as_head s # nodes xs @ [as_tail s]) \<and>
     dlist (as_heap s) None (as_head s # nodes xs @ [as_tail s]) None \<and>
     (\<forall>(p, r, v) \<in> set xs. ae_range (as_heap s ! p) = r \<and> ae_value (as_heap s ! p) = Some v) \<and>
     ae_range (as_heap s ! as_head s) = Range_New (lower s) 0 \<and>
     ae_range (as_heap s ! as_tail s) = Range_New (upper s) 0 \<and>
     areas_ok (lower s) (ranges xs) (upper s) \<and>
     as_map s = map (\<lambda>(p, r, v). (r_start r, p)) xs"

lemma prv_simps [simp]: "prv s [] = as_head s" "prv s (xs @ [x]) = fst x"
  by (simp_all add: prv_def)

lemma nxt_simps [simp]: "nxt s [] = as_tail s" "nxt s (x # xs) = fst x"
  by (simp_all add: nxt_def)

lemma Range_End_0 [simp]: "Range_End (Range_New a 0) = a"
  by (simp add: Range_End_def MAX_RANGE_def)

lemma rep_dlist:
  assumes "rep s (xs1 @ xs2)"
  shows "dlist (as_heap s) None (as_head s # nodes xs1) (Some (nxt s xs2))"
    "dlist (as_heap s) (Some (prv s xs1)) (nodes xs2 @ [as_tail s]) None"
proof -
  have "dlist (as_heap s) None ((as_head s # nodes xs1) @ (nodes xs2 @ [as_tail s])) None"
    using assms by (simp add: rep_def)
  moreover have "first_or None (nodes xs2 @ [as_tail s]) = Some (nxt s xs2)" by (cases xs2) auto
  moreover have "last_or None (as_head s # nodes xs1) = Some (prv s xs1)"
    by (cases xs1 rule: rev_cases) auto
  ultimately show "dlist (as_heap s) None (as_head s # nodes xs1) (Some (nxt s xs2))"
    "dlist (as_heap s) (Some (prv s xs1)) (nodes xs2 @ [as_tail s]) None"
    unfolding dlist_append by simp_all
qed

lemma rep_areas: "rep s xs \<Longrightarrow> areas_ok (lower s) (ranges xs) (upper s)"
  by (simp add: rep_def)

lemma rep_fields:
  "rep s xs \<Longrightarrow> (q, x, y) \<in> set xs \<Longrightarrow> ae_range (as_heap s ! q) = x \<and> ae_value (as_heap s ! q) = Some y"
  unfolding rep_def by blast

lemma rep_node:
  assumes "rep s (xs1 @ (p, r, v) # xs2)"
  shows "ae_range (as_heap s ! p) = r" "ae_value (as_heap s ! p) = Some v" "p < length (as_heap s)"
proof -
  show "ae_range (as_heap s ! p) = r" "ae_value (as_heap s ! p) = Some v" using assms by (auto simp: rep_def)
  have "dlist (as_heap s) None (as_head s # nodes (xs1 @ (p, r, v) # xs2) @ [as_tail s]) None"
    using assms unfolding rep_def by blast
  then show "p < length (as_heap s)" by (rule dlist_bound) simp
qed

lemma rep_sentinels:
  assumes "rep s xs"
  shows "as_head s < length (as_heap s)" "as_tail s < length (as_heap s)" "as_head s \<noteq> as_tail s"
    "ae_prev (as_heap s ! as_head s) = None" "ae_next (as_heap s ! as_tail s) = None"
    "ae_range (as_heap s ! as_head s) = Range_New (lower s) 0" "ae_range (as_heap s ! as_tail s) = Range_New (upper s) 0"
  using assms by (auto simp: rep_def dlist_append)

lemma rep_links:
  assumes "rep s (xs1 @ xs2)"
  shows "ae_next (as_heap s ! prv s xs1) = Some (nxt s xs2)" "ae_prev (as_heap s ! nxt s xs2) = Some (prv s xs1)"
    "Range_End (ae_range (as_heap s ! prv s xs1)) = rs_end (lower s) (ranges xs1)"
    "r_start (ae_range (as_heap s ! nxt s xs2)) = rs_start (ranges xs2) (upper s)"
    "prv s xs1 < length (as_heap s)" "nxt s xs2 < length (as_heap s)"
proof -
  note d = rep_dlist [OF assms]
  show "ae_next (as_heap s ! prv s xs1) = Some (nxt s xs2)" "prv s xs1 < length (as_heap s)"
    using d(1) by (cases xs1 rule: rev_cases; auto simp: dlist_append)+
  show "ae_prev (as_heap s ! nxt s xs2) = Some (prv s xs1)" "nxt s xs2 < length (as_heap s)"
    using d(2) by (cases xs2; auto)+
  show "Range_End (ae_range (as_heap s ! prv s xs1)) = rs_end (lower s) (ranges xs1)"
    using rep_sentinels(6) [OF assms] assms by (cases xs1 rule: rev_cases) (auto simp: rep_def)
  show "r_start (ae_range (as_heap s ! nxt s xs2)) = rs_start (ranges xs2) (upper s)"
    using rep_sentinels(7) [OF assms] assms by (cases xs2) (auto simp: rep_def)
qed

text \<open>The same facts in the vocabulary of the operations.\<close>

lemma entry_at_Some [simp]: "entry_at s (Some a) = as_heap s ! a"
  by (simp add: entry_at_def)

lemma terminal [simp]: "AreaEntry_Ok s None = False" "AreaEntry_IsTail s None" "AreaGap_Ok s None = False"
  by (simp_all add: AreaEntry_Ok_def AreaEntry_IsTail_def AreaGap_Ok_def entry_at_def AreaEntry_default_def)

lemma rep_gap:
  assumes "rep s (xs1 @ xs2)"
  shows "AreaGap_Ok s (Some (prv s xs1))" "AreaEntry_NextEntry s (Some (prv s xs1)) = Some (nxt s xs2)"
    "AreaGap_NextSeg s (Some (prv s xs1)) = Some (nxt s xs2)" "AreaGap_PrevSeg s (Some (prv s xs1)) = Some (prv s xs1)"
    "AreaSeg_NextSeg s (Some (prv s xs1)) = Some (nxt s xs2)" "AreaSeg_NextGap s (Some (prv s xs1)) = Some (prv s xs1)"
    "AreaSeg_PrevSeg s (Some (nxt s xs2)) = Some (prv s xs1)"
    "AreaGap_Range s (Some (prv s xs1)) =
      Range_New (rs_end (lower s) (ranges xs1)) (rs_start (ranges xs2) (upper s) - rs_end (lower s) (ranges xs1))"
  using rep_links [OF assms]
  by (simp_all add: AreaGap_Ok_def AreaEntry_IsTail_def AreaEntry_NextEntry_def AreaGap_NextSeg_def AreaGap_PrevSeg_def
      AreaSeg_NextSeg_def AreaSeg_NextGap_def AreaSeg_PrevSeg_def AreaEntry_IsHead_def AreaEntry_PrevEntry_def
      AreaGap_Range_def AreaEntry_Range_def Let_def)

lemma rep_prv_Ok:
  assumes "rep s (xs1 @ xs2)"
  shows "AreaEntry_Ok s (Some (prv s xs1)) \<longleftrightarrow> xs1 \<noteq> []"
proof (cases xs1 rule: rev_cases)
  case Nil
  then show ?thesis using rep_sentinels(4) [OF assms] by (simp add: AreaEntry_Ok_def)
next
  case (snoc ys y)
  then have "rep s (ys @ y # xs2)" using assms by simp
  from rep_links(2) [OF this] rep_links(1) [OF assms] snoc show ?thesis by (simp add: AreaEntry_Ok_def)
qed

lemma rep_nxt_Ok:
  assumes "rep s (xs1 @ xs2)"
  shows "AreaEntry_Ok s (Some (nxt s xs2)) \<longleftrightarrow> xs2 \<noteq> []"
proof (cases xs2)
  case Nil
  then show ?thesis using rep_sentinels(5) [OF assms] by (simp add: AreaEntry_Ok_def)
next
  case (Cons y ys)
  then have "rep s ((xs1 @ [y]) @ ys)" using assms by simp
  from rep_links(1) [OF this] rep_links(2) [OF assms] Cons show ?thesis by (simp add: AreaEntry_Ok_def)
qed

lemma rep_seg:
  assumes rep: "rep s (xs1 @ (p, r, v) # xs2)"
  shows "AreaEntry_Ok s (Some p)" "AreaEntry_Range s (Some p) = r" "AreaSeg_Value s (Some p) = Ok v"
    "AreaSeg_NextSeg s (Some p) = Some (nxt s xs2)" "AreaSeg_PrevSeg s (Some p) = Some (prv s xs1)"
    "AreaSeg_NextGap s (Some p) = Some p" "AreaGap_NextSeg s (Some p) = Some (nxt s xs2)"
    "AreaGap_Range s (Some p) = Range_New (Range_End r) (rs_start (ranges xs2) (upper s) - Range_End r)"
proof -
  have rep': "rep s ((xs1 @ [(p, r, v)]) @ xs2)" using rep by simp
  show "AreaEntry_Ok s (Some p)" using rep_prv_Ok [OF rep'] by simp
  show "AreaEntry_Range s (Some p) = r" "AreaSeg_Value s (Some p) = Ok v"
    using rep_node [OF rep] by (simp_all add: AreaEntry_Range_def AreaSeg_Value_def)
  show "AreaSeg_NextSeg s (Some p) = Some (nxt s xs2)" "AreaSeg_NextGap s (Some p) = Some p"
    "AreaGap_NextSeg s (Some p) = Some (nxt s xs2)"
    "AreaGap_Range s (Some p) = Range_New (Range_End r) (rs_start (ranges xs2) (upper s) - Range_End r)"
    using rep_gap [OF rep'] by simp_all
  show "AreaSeg_PrevSeg s (Some p) = Some (prv s xs1)" using rep_gap(7) [OF rep] by simp
qed

lemma rep_nxt:
  assumes "rep s (xs1 @ xs2)"
  shows "r_start (AreaEntry_Range s (Some (nxt s xs2))) = rs_start (ranges xs2) (upper s)"
    "Range_End (AreaEntry_Range s (Some (prv s xs1))) = rs_end (lower s) (ranges xs1)"
  using rep_links [OF assms] by (simp_all add: AreaEntry_Range_def)

section \<open>Lookups\<close>

lemma areas_ok_starts:
  "areas_ok lo rs hi \<Longrightarrow> sorted_wrt (\<lambda>a b. r_start a < r_start b) rs"
proof (induction rs)
  case (Cons r rs)
  have "areas_ok lo rs hi" using Cons.prems areas_ok_remove [of lo "[]" r rs hi] by simp
  moreover have "r_start r < r_start x" if "x \<in> set rs" for x
  proof -
    have "Range_End r \<le> r_start x" using Cons.prems that unfolding areas_ok_def by simp
    then show ?thesis using areas_ok_mid(3) [of lo "[]" r rs hi] Cons.prems by simp
  qed
  ultimately show ?case using Cons.IH by simp
qed simp

lemma rep_partition:
  assumes "rep s xs"
  obtains xs1 xs2 where "xs = xs1 @ xs2" "\<forall>r \<in> set (ranges xs1). r_start r \<le> k" "\<forall>r \<in> set (ranges xs2). k < r_start r"
proof -
  let ?P = "\<lambda>x. r_start (fst (snd x)) \<le> k"
  have sorted: "sorted_wrt (\<lambda>a b. r_start a < r_start b) (ranges xs)"
    using areas_ok_starts [OF rep_areas [OF assms]] .
  have "\<forall>r \<in> set (ranges (dropWhile ?P xs)). k < r_start r"
  proof (cases "dropWhile ?P xs")
    case (Cons y ys)
    then have "k < r_start (fst (snd y))" using hd_dropWhile [of ?P xs] by (simp add: not_le)
    moreover have "sorted_wrt (\<lambda>a b. r_start a < r_start b) (ranges (takeWhile ?P xs @ dropWhile ?P xs))"
      using sorted by simp
    then have "sorted_wrt (\<lambda>a b. r_start a < r_start b) (ranges (y # ys))"
      unfolding Cons map_append sorted_wrt_append by blast
    then have "\<forall>r \<in> set (ranges ys). r_start (fst (snd y)) < r_start r" by simp
    ultimately show ?thesis unfolding Cons by (auto intro: less_trans)
  next
    case Nil
    then show ?thesis by (simp only: list.map list.set) blast
  qed
  then show thesis
    by (intro that [of "takeWhile ?P xs" "dropWhile ?P xs"]) (auto dest: set_takeWhileD)
qed

lemma rep_floor:
  assumes "rep s (xs1 @ xs2)" and "\<forall>r \<in> set (ranges xs1). r_start r \<le> k" and "\<forall>r \<in> set (ranges xs2). k < r_start r"
  shows "(case bt_floor k (as_map s) of None \<Rightarrow> Some (as_head s) | Some (_, v) \<Rightarrow> Some v) = Some (prv s xs1)"
proof -
  let ?f = "\<lambda>(p, r, v). (r_start r, p)"
  have "filter (\<lambda>q. fst q \<le> k) (map ?f xs1) = map ?f xs1" using assms(2) by (auto simp: filter_id_conv)
  moreover have "filter (\<lambda>q. fst q \<le> k) (map ?f xs2) = []" using assms(3) by (auto simp: filter_empty_conv not_le)
  moreover have "as_map s = map ?f xs1 @ map ?f xs2" using assms(1) by (simp add: rep_def)
  ultimately have "bt_range_le k (as_map s) = map ?f xs1" by (simp add: bt_range_le_def)
  then show ?thesis
    by (cases xs1 rule: rev_cases) (simp_all add: bt_floor_def split: prod.splits)
qed

lemma FindArea_cases:
  assumes rep: "rep s xs" and k: "lower s \<le> k" "k \<le> upper s"
  obtains (seg) xs1 p r v xs2 where "xs = xs1 @ (p, r, v) # xs2" "k \<in> addrs r" "AreaSet_FindArea s k = Seg (Some p)"
    | (gap) xs1 xs2 where "xs = xs1 @ xs2" "AreaSet_FindArea s k = Gap (Some (prv s xs1))"
      "rs_end (lower s) (ranges xs1) \<le> k" "k < rs_start (ranges xs2) (upper s) \<or> xs2 = [] \<and> k = upper s"
proof -
  obtain xs1 xs2 where xs: "xs = xs1 @ xs2" and le: "\<forall>r \<in> set (ranges xs1). r_start r \<le> k"
    and gt: "\<forall>r \<in> set (ranges xs2). k < r_start r"
    by (rule rep_partition [OF rep])
  have rep': "rep s (xs1 @ xs2)" using rep xs by simp
  have find: "AreaSet_FindArea s k = (if AreaEntry_Ok s (Some (prv s xs1)) \<and>
      Range_Contains (AreaEntry_Range s (Some (prv s xs1))) k then Seg (Some (prv s xs1)) else Gap (Some (prv s xs1)))"
  proof -
    have "\<not> k < r_start (as_range s)" "\<not> Range_End (as_range s) < k" using k by (simp_all add: lower_def upper_def not_less)
    then show ?thesis by (simp only: AreaSet_FindArea_def if_False Let_def rep_floor [OF rep' le gt])
  qed
  have above: "k < rs_start (ranges xs2) (upper s) \<or> xs2 = [] \<and> k = upper s"
    using gt k(2) by (cases xs2) auto
  show thesis
  proof (cases xs1 rule: rev_cases)
    case Nil
    then have "AreaSet_FindArea s k = Gap (Some (prv s xs1))" using find rep_prv_Ok [OF rep'] by simp
    then show thesis using gap [OF xs] above k(1) Nil by simp
  next
    case (snoc ys y)
    obtain p r v where y: "y = (p, r, v)" by (cases y)
    have rep'': "rep s (ys @ (p, r, v) # xs2)" using rep' snoc y by simp
    have ok: "range_ok r" using areas_ok_mid(1) [of "lower s" "ranges ys" r "ranges xs2" "upper s"] rep_areas [OF rep''] by simp
    have find': "AreaSet_FindArea s k = (if k \<in> addrs r then Seg (Some p) else Gap (Some p))"
      using find rep_seg(1,2) [OF rep''] snoc y by (simp add: Contains_iff [OF ok])
    show thesis
    proof (cases "k \<in> addrs r")
      case True
      then show thesis using seg [of ys p r v xs2] find' xs snoc y by simp
    next
      case False
      moreover have "r_start r \<le> k" using le snoc y by simp
      ultimately have "Range_End r \<le> k" by (simp add: addrs_def not_less)
      then show thesis using gap [OF xs] find' False snoc y above by simp
    qed
  qed
qed

section \<open>Changes\<close>

definition same_frame :: "'v area_set \<Rightarrow> 'v area_set \<Rightarrow> bool" where
  "same_frame s s' \<longleftrightarrow> as_range s' = as_range s \<and> as_head s' = as_head s \<and> as_tail s' = as_tail s"

lemma same_frameD:
  assumes "same_frame s s'"
  shows "lower s' = lower s" "upper s' = upper s" "prv s' = prv s" "nxt s' = nxt s"
  using assms by (auto simp: same_frame_def lower_def upper_def prv_def nxt_def fun_eq_iff split: list.splits)

lemma same_frame_refl [simp]: "same_frame s s"
  by (simp add: same_frame_def)

lemma same_frame_trans: "same_frame s t \<Longrightarrow> same_frame t u \<Longrightarrow> same_frame s u"
  by (simp add: same_frame_def)

lemma same_frame_update [simp]: "same_frame s (entry_update e f s)"
  by (simp add: same_frame_def entry_update_def split: option.splits)

lemma bt_insert_append:
  "\<forall>q \<in> set m1. fst q < k \<Longrightarrow> \<forall>q \<in> set m2. k < fst q \<Longrightarrow> bt_insert k v (m1 @ m2) = m1 @ (k, v) # m2"
proof (induction m1)
  case Nil
  then show ?case by (cases m2) auto
next
  case (Cons q m1)
  then show ?case by (cases q) auto
qed

lemma bt_remove_append:
  "\<forall>q \<in> set m1. fst q \<noteq> k \<Longrightarrow> \<forall>q \<in> set m2. fst q \<noteq> k \<Longrightarrow> bt_remove k (m1 @ (k, v) # m2) = m1 @ m2"
  by (simp add: bt_remove_def filter_id_conv)

lemma map_starts:
  assumes "areas_ok lo (ranges (xs1 @ xs2)) hi" and "rs_end lo (ranges xs1) \<le> k" and "k < rs_start (ranges xs2) hi \<or> xs2 = []"
  shows "\<forall>q \<in> set (map (\<lambda>(p, r, v). (r_start r, p)) xs1). fst q < k"
    "\<forall>q \<in> set (map (\<lambda>(p, r, v). (r_start r, p)) xs2). k < fst q"
proof -
  have ok: "areas_ok lo (ranges xs1 @ ranges xs2) hi" using assms(1) by simp
  have "r_start r < k" if "r \<in> set (ranges xs1)" for r
  proof -
    have "Range_End r \<le> k" using areas_ok_before [OF ok that] assms(2) by simp
    moreover have "r_start r < Range_End r" using ok that unfolding areas_ok_def by (auto intro: area_nonempty)
    ultimately show ?thesis by simp
  qed
  then show "\<forall>q \<in> set (map (\<lambda>(p, r, v). (r_start r, p)) xs1). fst q < k" by force
  have "k < r_start r" if "r \<in> set (ranges xs2)" for r
    using areas_ok_after [OF ok that] assms(3) that by auto
  then show "\<forall>q \<in> set (map (\<lambda>(p, r, v). (r_start r, p)) xs2). k < fst q" by force
qed

lemma rep_update_map:
  assumes rep: "rep s (xs1 @ (p, r, v) # xs2)"
    and f: "ae_range (f (as_heap s ! p)) = r'" "ae_value (f (as_heap s ! p)) = Some v'"
      "ae_prev (f (as_heap s ! p)) = ae_prev (as_heap s ! p)" "ae_next (f (as_heap s ! p)) = ae_next (as_heap s ! p)"
    and areas: "areas_ok (lower s) (ranges (xs1 @ (p, r', v') # xs2)) (upper s)"
    and m: "m = map (\<lambda>(p, r, v). (r_start r, p)) (xs1 @ (p, r', v') # xs2)"
  shows "rep ((entry_update (Some p) f s)\<lparr>as_map := m\<rparr>) (xs1 @ (p, r', v') # xs2)"
proof -
  let ?h = "(as_heap s)[p := f (as_heap s ! p)]"
  have p: "p < length (as_heap s)" by (rule rep_node(3) [OF rep])
  have dis: "distinct (as_head s # nodes (xs1 @ (p, r', v') # xs2) @ [as_tail s])" using rep by (simp add: rep_def)
  have "dlist ?h None (as_head s # nodes (xs1 @ (p, r', v') # xs2) @ [as_tail s]) None"
  proof (rule dlist_same)
    show "dlist (as_heap s) None (as_head s # nodes (xs1 @ (p, r', v') # xs2) @ [as_tail s]) None"
      using rep by (simp add: rep_def)
    fix x assume "x \<in> set (as_head s # nodes (xs1 @ (p, r', v') # xs2) @ [as_tail s])"
    then have "x < length (as_heap s)"
      using dlist_bound [of "as_heap s" None "as_head s # nodes (xs1 @ (p, r', v') # xs2) @ [as_tail s]" None x] rep
      by (simp add: rep_def)
    then show "x < length ?h \<and> ae_prev (?h ! x) = ae_prev (as_heap s ! x) \<and> ae_next (?h ! x) = ae_next (as_heap s ! x)"
      using f(3,4) by (cases "x = p") simp_all
  qed
  moreover have "ae_range (?h ! q) = x \<and> ae_value (?h ! q) = Some y" if "(q, x, y) \<in> set (xs1 @ (p, r', v') # xs2)" for q x y
  proof -
    have "(q, x, y) = (p, r', v') \<or> q \<noteq> p \<and> (q, x, y) \<in> set (xs1 @ xs2)"
      using that dis by (auto simp: image_iff)
    then show ?thesis using rep_fields [OF rep, of q x y] f(1,2) p by auto
  qed
  moreover have "as_head s \<noteq> p" "as_tail s \<noteq> p" using dis by auto
  ultimately show ?thesis
    unfolding rep_def using dis rep_sentinels(6,7) [OF rep] areas m
    by (intro conjI) (auto simp: entry_update_def lower_def upper_def)
qed

lemma rep_update:
  assumes rep: "rep s (xs1 @ (p, r, v) # xs2)"
    and f: "ae_range (f (as_heap s ! p)) = r'" "ae_value (f (as_heap s ! p)) = Some v'"
      "ae_prev (f (as_heap s ! p)) = ae_prev (as_heap s ! p)" "ae_next (f (as_heap s ! p)) = ae_next (as_heap s ! p)"
    and r': "r_start r' = r_start r" "range_ok r'" "r_len r' \<noteq> 0" "Range_End r' \<le> rs_start (ranges xs2) (upper s)"
  shows "rep (entry_update (Some p) f s) (xs1 @ (p, r', v') # xs2)"
proof -
  have ok: "areas_ok (lower s) (ranges xs1 @ r # ranges xs2) (upper s)" using rep_areas [OF rep] by simp
  have areas: "areas_ok (lower s) (ranges (xs1 @ (p, r', v') # xs2)) (upper s)"
    using areas_ok_insert [OF areas_ok_remove [OF ok] r'(2,3)] areas_ok_mid(4) [OF ok] r'(1,4) by simp
  have m: "as_map (entry_update (Some p) f s) = map (\<lambda>(p, r, v). (r_start r, p)) (xs1 @ (p, r', v') # xs2)"
    using rep r'(1) by (simp add: rep_def entry_update_def)
  have "rep ((entry_update (Some p) f s)\<lparr>as_map := as_map (entry_update (Some p) f s)\<rparr>) (xs1 @ (p, r', v') # xs2)"
    by (rule rep_update_map [OF rep]) (fact f areas m)+
  then show ?thesis by simp
qed

end
