(* ===== verification/Area_Ops.thy ===== *)
theory Area_Ops
  imports Area_Rep
begin

text \<open>
  The operations of area sets on represented sets: each succeeds and changes the list of nodes as its
  name says. The last sections state the laws in terms of the addresses and their values.
\<close>

section \<open>Insertion and removal of a node\<close>

lemma rep_distinct:
  assumes "rep s (xs1 @ xs2)"
  shows "prv s xs1 \<noteq> nxt s xs2" "prv s xs1 \<in> set (as_head s # nodes xs1)" "nxt s xs2 \<in> set (nodes xs2 @ [as_tail s])"
    "set (as_head s # nodes xs1) \<inter> set (nodes xs2 @ [as_tail s]) = {}"
    "distinct (as_head s # nodes xs1)" "distinct (nodes xs2 @ [as_tail s])"
    "last (as_head s # nodes xs1) = prv s xs1" "hd (nodes xs2 @ [as_tail s]) = nxt s xs2"
proof -
  have d: "distinct ((as_head s # nodes xs1) @ (nodes xs2 @ [as_tail s]))" using assms by (simp add: rep_def)
  show l: "last (as_head s # nodes xs1) = prv s xs1" by (cases xs1 rule: rev_cases) auto
  show h: "hd (nodes xs2 @ [as_tail s]) = nxt s xs2" by (cases xs2) auto
  show p: "prv s xs1 \<in> set (as_head s # nodes xs1)" using last_in_set [of "as_head s # nodes xs1"] l by simp
  show n: "nxt s xs2 \<in> set (nodes xs2 @ [as_tail s])" using hd_in_set [of "nodes xs2 @ [as_tail s]"] h by simp
  show disj: "set (as_head s # nodes xs1) \<inter> set (nodes xs2 @ [as_tail s]) = {}"
    and "distinct (as_head s # nodes xs1)" "distinct (nodes xs2 @ [as_tail s])"
    using d unfolding distinct_append by blast+
  show "prv s xs1 \<noteq> nxt s xs2" using disj p n by (metis IntI empty_iff)
qed

lemma rep_bound:
  assumes "rep s xs" and "x \<in> set (as_head s # nodes xs @ [as_tail s])"
  shows "x < length (as_heap s)"
  using assms dlist_bound [of "as_heap s" None "as_head s # nodes xs @ [as_tail s]" None x] unfolding rep_def by blast

text \<open>Two lists joined by a new link.\<close>

lemma rep_join:
  assumes rep: "rep s (xs1 @ ys @ xs2)"
    and h: "length h' = length (as_heap s)"
      "h' ! prv s xs1 = (as_heap s ! prv s xs1)\<lparr>ae_next := Some (nxt s xs2)\<rparr>"
      "h' ! nxt s xs2 = (as_heap s ! nxt s xs2)\<lparr>ae_prev := Some (prv s xs1)\<rparr>"
      "\<And>x. x \<noteq> prv s xs1 \<Longrightarrow> x \<noteq> nxt s xs2 \<Longrightarrow> x \<notin> set (nodes ys) \<Longrightarrow> h' ! x = as_heap s ! x"
    and m: "m = map (\<lambda>(p, r, v). (r_start r, p)) (xs1 @ xs2)"
  shows "rep (s\<lparr>as_heap := h', as_map := m\<rparr>) (xs1 @ xs2)"
proof -
  define A B where "A = as_head s # nodes xs1" and "B = nodes xs2 @ [as_tail s]"
  have rep1: "rep s (xs1 @ (ys @ xs2))" and rep2: "rep s ((xs1 @ ys) @ xs2)" using rep by simp_all
  note dA = rep_distinct [OF rep1, folded A_def] and dB = rep_distinct [OF rep2, folded B_def]
  have disj: "set A \<inter> set B = {}" "set A \<inter> set (nodes ys) = {}" "set B \<inter> set (nodes ys) = {}"
    using dA(4) dB(4) by (auto simp: A_def B_def)
  have ends: "hd A = as_head s" "last B = as_tail s" "last A = prv s xs1" "hd B = nxt s xs2"
    using dA(7) dB(8) by (simp_all add: A_def B_def)
  have bound: "x < length h'" if "x \<in> set A \<union> set B" for x
    using that rep_bound [OF rep, of x] h(1) by (auto simp: A_def B_def)
  have other: "h' ! x = as_heap s ! x" if "x \<in> set A \<union> set B" "x \<noteq> prv s xs1" "x \<noteq> nxt s xs2" for x
    using that h(4) [of x] disj by blast
  have nA: "x \<noteq> nxt s xs2" if "x \<in> set A" for x using dB(3) disj(1) that by (metis IntI empty_iff)
  have pB: "x \<noteq> prv s xs1" if "x \<in> set B" for x using dA(2) disj(1) that by (metis IntI empty_iff)
  have pr: "ae_prev (as_heap s ! as_head s) = None" and nx: "ae_next (as_heap s ! as_tail s) = None"
    using rep_sentinels(4,5) [OF rep] by simp_all
  have "dlist h' None A (Some (nxt s xs2))"
  proof (rule dlist_change [OF rep_dlist(1) [OF rep1, folded A_def] dA(5)])
    fix x assume x: "x \<in> set A"
    show "x < length h' \<and> ae_prev (h' ! x) = (if x = hd A then None else ae_prev (as_heap s ! x)) \<and>
        ae_next (h' ! x) = (if x = last A then Some (nxt s xs2) else ae_next (as_heap s ! x))"
      unfolding ends using bound [of x] other [of x] x nA [of x] h(2) pr by (cases "x = prv s xs1") simp_all
  qed
  moreover have "dlist h' (Some (prv s xs1)) B None"
  proof (rule dlist_change [OF rep_dlist(2) [OF rep2, folded B_def] dB(6)])
    fix x assume x: "x \<in> set B"
    show "x < length h' \<and> ae_prev (h' ! x) = (if x = hd B then Some (prv s xs1) else ae_prev (as_heap s ! x)) \<and>
        ae_next (h' ! x) = (if x = last B then None else ae_next (as_heap s ! x))"
      unfolding ends using bound [of x] other [of x] x pB [of x] h(3) nx by (cases "x = nxt s xs2") simp_all
  qed
  moreover have "first_or None B = Some (nxt s xs2)" by (cases xs2) (auto simp: B_def)
  moreover have "last_or None A = Some (prv s xs1)" by (cases xs1 rule: rev_cases) (auto simp: A_def)
  ultimately have dl: "dlist h' None (A @ B) None" unfolding dlist_append by simp
  have fields: "ae_range (h' ! x) = ae_range (as_heap s ! x) \<and> ae_value (h' ! x) = ae_value (as_heap s ! x)"
    if "x \<in> set A \<union> set B" for x
    using other [OF that] h(2,3) by (cases "x = prv s xs1"; cases "x = nxt s xs2") auto
  have "areas_ok (lower s) (ranges (xs1 @ xs2)) (upper s)"
  proof -
    have "areas_ok (lower s) (ranges xs1 @ ranges ys @ ranges xs2) (upper s)" using rep_areas [OF rep] by simp
    then show ?thesis unfolding areas_ok_def by (auto simp: sorted_wrt_append)
  qed
  moreover have "ae_range (h' ! q) = x \<and> ae_value (h' ! q) = Some y" if "(q, x, y) \<in> set (xs1 @ xs2)" for q x y
  proof -
    have "q \<in> set A \<union> set B" using that by (force simp: A_def B_def)
    then show ?thesis using fields [of q] rep_fields [OF rep, of q x y] that by auto
  qed
  moreover have "distinct (A @ B)" using dA(5) dB(6) disj(1) unfolding distinct_append by blast
  moreover have "as_head s \<in> set A \<union> set B" "as_tail s \<in> set A \<union> set B" by (simp_all add: A_def B_def)
  ultimately show ?thesis
    unfolding rep_def using dl m fields [of "as_head s"] fields [of "as_tail s"] rep_sentinels(6,7) [OF rep]
    by (intro conjI) (auto simp: lower_def upper_def A_def B_def)
qed

lemma Remove_rep:
  assumes rep: "rep s (xs1 @ (p, r, v) # xs2)"
  obtains s' where "AreaSet_Remove (Some p) s = Ok (Some (prv s xs1), s')" "rep s' (xs1 @ xs2)" "same_frame s s'"
proof -
  have rep1: "rep s (xs1 @ [(p, r, v)] @ xs2)" and rep2: "rep s ((xs1 @ [(p, r, v)]) @ xs2)" using rep by simp_all
  note links = rep_links(1,2,5,6) [OF rep] rep_links(1,2,5,6) [OF rep2]
  let ?a = "prv s xs1" and ?b = "nxt s xs2"
  have "?a \<in> set (as_head s # nodes (xs1 @ [(p, r, v)]))" using rep_distinct(2) [OF rep] by auto
  then have "?a \<noteq> ?b" using rep_distinct(3,4) [OF rep2] by (metis IntI empty_iff)
  then have ne: "p \<noteq> ?a" "p \<noteq> ?b" "?a \<noteq> ?b"
    using rep_distinct(1) [OF rep] rep_distinct(1) [OF rep2] by simp_all
  let ?h = "((as_heap s)[p := (as_heap s ! p)\<lparr>ae_prev := None, ae_next := None\<rparr>])
      [?a := (as_heap s ! ?a)\<lparr>ae_next := Some ?b\<rparr>, ?b := (as_heap s ! ?b)\<lparr>ae_prev := Some ?a\<rparr>]"
  let ?m = "bt_remove (r_start r) (as_map s)"
  have m: "?m = map (\<lambda>(p, r, v). (r_start r, p)) (xs1 @ xs2)"
  proof -
    have ok: "areas_ok (lower s) (ranges (xs1 @ [(p, r, v)] @ xs2)) (upper s)" using rep_areas [OF rep1] .
    have start: "rs_end (lower s) (ranges xs1) \<le> r_start r" "Range_End r \<le> rs_start (ranges xs2) (upper s)" "r_start r < Range_End r"
      using areas_ok_mid [of "lower s" "ranges xs1" r "ranges xs2" "upper s"] ok by simp_all
    have "areas_ok (lower s) (ranges (xs1 @ xs2)) (upper s)"
      using areas_ok_remove [of "lower s" "ranges xs1" r "ranges xs2" "upper s"] ok by simp
    from map_starts [OF this start(1)] start(2,3)
    have "\<forall>q \<in> set (map (\<lambda>(p, r, v). (r_start r, p)) xs1). fst q \<noteq> r_start r"
      "\<forall>q \<in> set (map (\<lambda>(p, r, v). (r_start r, p)) xs2). fst q \<noteq> r_start r" by fastforce+
    from bt_remove_append [OF this] show ?thesis using rep by (simp add: rep_def)
  qed
  have "rep (s\<lparr>as_heap := ?h, as_map := ?m\<rparr>) (xs1 @ xs2)"
    by (rule rep_join [OF rep1 _ _ _ _ m]) (use ne links in auto)
  moreover have "AreaSet_Remove (Some p) s = Ok (Some ?a, s\<lparr>as_heap := ?h, as_map := ?m\<rparr>)"
  proof -
    have "AreaEntry_Remove (Some p) (s\<lparr>as_map := ?m\<rparr>) = Ok (s\<lparr>as_heap := ?h, as_map := ?m\<rparr>)"
      using links ne by (simp add: AreaEntry_Remove_def entry_update_def entry_at_def)
    moreover have "AreaSeg_NextGap (s\<lparr>as_heap := ?h, as_map := ?m\<rparr>) (Some ?a) = Some ?a"
      using links ne by (simp add: AreaSeg_NextGap_def AreaEntry_IsTail_def)
    ultimately show ?thesis
      unfolding AreaSet_Remove_def Let_def using rep_seg(1,2,5) [OF rep] by simp
  qed
  moreover have "same_frame s (s\<lparr>as_heap := ?h, as_map := ?m\<rparr>)" by (simp add: same_frame_def)
  ultimately show thesis using that by blast
qed

lemma Remove_not_Ok:
  assumes rep: "rep s (xs1 @ (p, r, v) # xs2)" and rem: "AreaSet_Remove (Some p) s = Ok (g, s')"
  shows "\<not> AreaEntry_Ok s' (Some p)"
proof -
  have rep2: "rep s ((xs1 @ [(p, r, v)]) @ xs2)" using rep by simp
  note links = rep_links(1,2,5,6) [OF rep] rep_links(1,2,5,6) [OF rep2]
  have "p \<noteq> prv s xs1" "p \<noteq> nxt s xs2" using rep_distinct(1) [OF rep] rep_distinct(1) [OF rep2] by simp_all
  then show ?thesis
    using rem links by (auto simp: AreaSet_Remove_def AreaEntry_Remove_def AreaEntry_Ok_def entry_update_def entry_at_def
        Let_def split: if_splits option.splits)
qed

lemma Insert_unchecked_rep:
  assumes rep: "rep s (xs1 @ xs2)" and r: "range_ok r" "r_len r \<noteq> 0"
    and fit: "rs_end (lower s) (ranges xs1) \<le> r_start r" "Range_End r \<le> rs_start (ranges xs2) (upper s)"
  obtains n s' where "AreaSet_InsertWithoutMergingUnchecked (Some (prv s xs1)) r v s = Ok (Some n, s')"
    "rep s' (xs1 @ (n, r, v) # xs2)" "same_frame s s'"
proof -
  define n where "n = length (as_heap s)"
  define a b where "a = prv s xs1" and "b = nxt s xs2"
  define A B where "A = as_head s # nodes xs1" and "B = nodes xs2 @ [as_tail s]"
  define h where "h = ((as_heap s)[a := (as_heap s ! a)\<lparr>ae_next := Some n\<rparr>, b := (as_heap s ! b)\<lparr>ae_prev := Some n\<rparr>]) @
      [(AreaEntry_New (r_start r) (r_len r) v)\<lparr>ae_prev := Some a, ae_next := Some b\<rparr>]"
  define m where "m = bt_insert (r_start r) n (as_map s)"
  note d = rep_distinct [OF rep, folded A_def B_def a_def b_def] and links = rep_links [OF rep, folded a_def b_def]
  have lt: "a < n" "b < n" "a \<noteq> b" using links(5,6) d(1) by (simp_all add: n_def)
  have bound: "x < n" if "x \<in> set A \<union> set B" for x
    using that rep_bound [OF rep, of x] by (auto simp: A_def B_def n_def)
  have nth: "h ! x = (if x = a then (as_heap s ! a)\<lparr>ae_next := Some n\<rparr> else if x = b then (as_heap s ! b)\<lparr>ae_prev := Some n\<rparr> else as_heap s ! x)"
    if "x < n" for x using that lt by (simp add: h_def nth_append n_def nth_list_update)
  have new: "h ! n = (AreaEntry_New (r_start r) (r_len r) v)\<lparr>ae_prev := Some a, ae_next := Some b\<rparr>" "length h = Suc n"
    by (simp_all add: h_def nth_append n_def)
  have ends: "hd A = as_head s" "last B = as_tail s" "last A = a" "hd B = b" using d(7,8) by (simp_all add: A_def B_def)
  have nA: "x \<noteq> b" if "x \<in> set A" for x using d(3,4) that by (metis IntI empty_iff)
  have pB: "x \<noteq> a" if "x \<in> set B" for x using d(2,4) that by (metis IntI empty_iff)
  have sent: "ae_prev (as_heap s ! as_head s) = None" "ae_next (as_heap s ! as_tail s) = None"
    using rep_sentinels(4,5) [OF rep] by simp_all
  have "dlist h None A (Some n)"
  proof (rule dlist_change [OF rep_dlist(1) [OF rep, folded A_def] d(5)])
    fix x assume x: "x \<in> set A"
    then have "x < n" using bound by blast
    then show "x < length h \<and> ae_prev (h ! x) = (if x = hd A then None else ae_prev (as_heap s ! x)) \<and>
        ae_next (h ! x) = (if x = last A then Some n else ae_next (as_heap s ! x))"
      unfolding ends using nth [of x] nA [OF x] new(2) sent by auto
  qed
  moreover have "dlist h (Some n) B None"
  proof (rule dlist_change [OF rep_dlist(2) [OF rep, folded B_def] d(6)])
    fix x assume x: "x \<in> set B"
    then have "x < n" using bound by blast
    then show "x < length h \<and> ae_prev (h ! x) = (if x = hd B then Some n else ae_prev (as_heap s ! x)) \<and>
        ae_next (h ! x) = (if x = last B then None else ae_next (as_heap s ! x))"
      unfolding ends using nth [of x] pB [OF x] new(2) sent by auto
  qed
  moreover have "first_or None B = Some b" by (cases xs2) (auto simp: B_def b_def)
  moreover have "last_or None A = Some a" by (cases xs1 rule: rev_cases) (auto simp: A_def a_def)
  ultimately have dl: "dlist h None (A @ n # B) None" unfolding dlist_append using new by simp
  have ok: "areas_ok (lower s) (ranges xs1 @ ranges xs2) (upper s)" using rep_areas [OF rep] by simp
  have "m = map (\<lambda>(p, r, v). (r_start r, p)) (xs1 @ (n, r, v) # xs2)"
  proof -
    have "r_start r < rs_start (ranges xs2) (upper s)" using fit(2) area_nonempty [OF r] by simp
    from map_starts [of "lower s" xs1 xs2 "upper s" "r_start r"] this fit(1) ok
    have "\<forall>q \<in> set (map (\<lambda>(p, r, v). (r_start r, p)) xs1). fst q < r_start r"
      "\<forall>q \<in> set (map (\<lambda>(p, r, v). (r_start r, p)) xs2). r_start r < fst q" by simp_all
    from bt_insert_append [OF this] show ?thesis using rep unfolding m_def rep_def by simp
  qed
  moreover have "ae_range (h ! q) = x \<and> ae_value (h ! q) = Some y" if "(q, x, y) \<in> set (xs1 @ (n, r, v) # xs2)" for q x y
  proof (cases "(q, x, y) = (n, r, v)")
    case True
    then show ?thesis using new by (simp add: AreaEntry_New_def Range_New_def)
  next
    case False
    then have old: "(q, x, y) \<in> set (xs1 @ xs2)" using that by auto
    then have "q \<in> set A \<union> set B" by (force simp: A_def B_def)
    then show ?thesis using nth [OF bound, of q] rep_fields [OF rep old] by auto
  qed
  moreover have "n \<notin> set A \<union> set B" using bound by blast
  then have "distinct (A @ n # B)" using d(4,5,6) by auto
  moreover have "areas_ok (lower s) (ranges (xs1 @ (n, r, v) # xs2)) (upper s)"
    using areas_ok_insert [OF ok r fit] by simp
  moreover have "as_head s \<in> set A \<union> set B" "as_tail s \<in> set A \<union> set B" by (simp_all add: A_def B_def)
  then have "ae_range (h ! as_head s) = Range_New (lower s) 0" "ae_range (h ! as_tail s) = Range_New (upper s) 0"
    using nth [OF bound, of "as_head s"] nth [OF bound, of "as_tail s"] rep_sentinels(6,7) [OF rep] by auto
  ultimately have "rep (s\<lparr>as_heap := h, as_map := m\<rparr>) (xs1 @ (n, r, v) # xs2)"
    unfolding rep_def using dl by (intro conjI) (auto simp: lower_def upper_def A_def B_def)
  moreover have "AreaSet_InsertWithoutMergingUnchecked (Some (prv s xs1)) r v s = Ok (Some n, s\<lparr>as_heap := h, as_map := m\<rparr>)"
  proof -
    have "AreaEntry_InsertAfter (Some a) r v s = Ok (Some n, s\<lparr>as_heap := h\<rparr>)"
      using links(1) lt
      by (simp add: AreaEntry_InsertAfter_def Let_def entry_update_def h_def nth_append list_update_append nth_list_update
          flip: n_def)
    then show ?thesis
      using rep_gap(4) [OF rep] by (simp add: AreaSet_InsertWithoutMergingUnchecked_def a_def m_def)
  qed
  moreover have "same_frame s (s\<lparr>as_heap := h, as_map := m\<rparr>)" by (simp add: same_frame_def)
  ultimately show thesis using that by blast
qed

section \<open>Splitting\<close>

lemma split_ranges:
  assumes ok: "range_ok r" and k: "r_start r < k" "k < Range_End r"
  defines "r1 \<equiv> Range_New (r_start r) (k - r_start r)" and "r2 \<equiv> Range_New k (Range_End r - k)"
  shows "range_ok r1" "range_ok r2" "r_len r1 \<noteq> 0" "r_len r2 \<noteq> 0" "Range_End r1 = k" "Range_End r2 = Range_End r"
    "addrs r = addrs r1 \<union> addrs r2"
proof -
  show ends: "Range_End r1 = k" "Range_End r2 = Range_End r" unfolding r1_def r2_def using k by simp_all
  show "range_ok r1" "range_ok r2" unfolding r1_def r2_def using k by (simp_all add: ends_ok)
  show "r_len r1 \<noteq> 0" "r_len r2 \<noteq> 0" unfolding r1_def r2_def using k by simp_all
  show "addrs r = addrs r1 \<union> addrs r2"
    unfolding addrs_def ends using k by (auto simp: r1_def r2_def)
qed

lemma NextNonEmptyGap_here:
  assumes "rep s (xs1 @ (p, r, v) # xs2)" and "Range_End r \<noteq> rs_start (ranges xs2) (upper s)"
  shows "AreaEntry_NextNonEmptyGap s (Some p) = Some (Some (Some p))"
proof -
  have rep': "rep s ((xs1 @ [(p, r, v)]) @ xs2)" using assms(1) by simp
  have "AreaEntry_NextEntry s (Some p) = Some (nxt s xs2)" using rep_gap(2) [OF rep'] by simp
  moreover have "\<not> AreaEntry_IsTail s (Some p)" using rep_gap(1) [OF rep'] by (simp add: AreaGap_Ok_def)
  ultimately show ?thesis
    using assms rep_nxt(1) [OF rep'] rep_seg(2) [OF assms(1)]
    by (subst AreaEntry_NextNonEmptyGap.simps) (simp add: Let_def)
qed

lemma SplitUnchecked_rep:
  assumes rep: "rep s (xs1 @ (p, r, v) # xs2)" and k: "r_start r < k" "k < Range_End r" and sp: "av_Split av v r k = (v1, v2)"
  obtains n s' where "AreaSet_SplitUnchecked av (Some p) k s = returns ((Some p, Some n), s')" "same_frame s s'"
    "rep s' (xs1 @ (p, Range_New (r_start r) (k - r_start r), v1) # (n, Range_New k (Range_End r - k), v2) # xs2)"
proof -
  let ?r1 = "Range_New (r_start r) (k - r_start r)" and ?r2 = "Range_New k (Range_End r - k)"
  have areas: "areas_ok (lower s) (ranges xs1 @ r # ranges xs2) (upper s)" using rep_areas [OF rep] by simp
  note mid = areas_ok_mid [OF areas] and parts = split_ranges [OF mid(1) k]
  let ?f = "\<lambda>c. c\<lparr>ae_range := Range_New (r_start (ae_range c)) (k - r_start r), ae_value := Some v1\<rparr>"
  define s1 where "s1 = entry_update (Some p) ?f s"
  have rep1: "rep s1 (xs1 @ (p, ?r1, v1) # xs2)"
    unfolding s1_def using rep_node(1) [OF rep] parts mid(5) k
    by (intro rep_update [OF rep]) simp_all
  have frame1: "same_frame s s1" by (simp add: s1_def)
  note fr = same_frameD [OF frame1]
  have gap: "AreaEntry_NextNonEmptyGap s1 (Some p) = Some (Some (Some p))"
    using NextNonEmptyGap_here [OF rep1] parts(5) mid(5) k fr by auto
  have rep1': "rep s1 ((xs1 @ [(p, ?r1, v1)]) @ xs2)" using rep1 by simp
  obtain n s' where ins: "AreaSet_InsertWithoutMergingUnchecked (Some p) ?r2 v2 s1 = Ok (Some n, s')"
    and rep2: "rep s' ((xs1 @ [(p, ?r1, v1)]) @ (n, ?r2, v2) # xs2)" and frame2: "same_frame s1 s'"
    using Insert_unchecked_rep [OF rep1' parts(2,4), of v2] parts mid(5) fr by auto
  have "AreaSeg_PrevSeg s' (Some n) = Some p" using rep_seg(5) [OF rep2] by simp
  then have "AreaSet_SplitUnchecked av (Some p) k s = returns ((Some p, Some n), s')"
    unfolding AreaSet_SplitUnchecked_def using rep_seg(2,3) [OF rep] sp gap ins
    by (simp add: Let_def flip: s1_def)
  then show thesis using that rep2 same_frame_trans [OF frame1 frame2] by simp
qed

section \<open>Joining\<close>

lemma join_ranges:
  assumes ok: "range_ok a" "range_ok b" and adj: "Range_End a = r_start b" and ne: "r_len a \<noteq> 0"
  defines "j \<equiv> Range_New (r_start a) (r_len a + r_len b)"
  shows "range_ok j" "Range_End j = Range_End b" "addrs j = addrs a \<union> addrs b" "r_len j \<noteq> 0"
proof -
  have s: "unat (r_start b) = unat (r_start a) + unat (r_len a)" using adj unat_End [OF ok(1)] by simp
  moreover have b: "unat (r_start b) + unat (r_len b) < 18446744073709551616" using ok(2) by (simp add: range_ok_def)
  ultimately have len: "unat (r_len a + r_len b) = unat (r_len a) + unat (r_len b)" by (subst unat_add_no_wrap) simp_all
  show okj: "range_ok j" using s b len by (simp add: j_def range_ok_def)
  show "Range_End j = Range_End b"
    using unat_End [OF okj] unat_End [OF ok(2)] s len by (simp add: word_eq_unat j_def)
  then show "addrs j = addrs a \<union> addrs b"
    unfolding addrs_def adj using start_le_End [OF ok(1)] start_le_End [OF ok(2)] adj by (auto simp: j_def)
  have "0 < unat (r_len a)" using ne by (simp add: unat_gt_0)
  then show "r_len j \<noteq> 0" using len by (auto simp: j_def)
qed

definition keeps_links :: "('v area_entry \<Rightarrow> 'v area_entry) \<Rightarrow> bool" where
  "keeps_links f \<longleftrightarrow> (\<forall>c x. ae_prev (f c) = ae_prev c \<and> ae_next (f c) = ae_next c \<and>
     f (c\<lparr>ae_prev := x\<rparr>) = (f c)\<lparr>ae_prev := x\<rparr> \<and> f (c\<lparr>ae_next := x\<rparr>) = (f c)\<lparr>ae_next := x\<rparr>)"

lemma entry_update_swap:
  "(\<And>c. f (g c) = g (f c)) \<Longrightarrow> entry_update e f (entry_update e' g s) = entry_update e' g (entry_update e f s)"
proof (cases e; cases e')
  fix a b assume fg: "\<And>c. f (g c) = g (f c)" and e: "e = Some a" "e' = Some b"
  show "entry_update e f (entry_update e' g s) = entry_update e' g (entry_update e f s)"
  proof (cases "a = b")
    case True
    then show ?thesis using fg e by (cases "a < length (as_heap s)") (simp_all add: entry_update_def list_update_beyond)
  qed (use e in \<open>simp add: entry_update_def list_update_swap\<close>)
qed (simp_all add: entry_update_def)

lemma Remove_update:
  assumes f: "keeps_links f" and ne: "p \<noteq> n"
    and rem: "AreaSet_Remove (Some n) s = Ok (g, t)"
  shows "AreaSet_Remove (Some n) (entry_update (Some p) f s) = Ok (g, entry_update (Some p) f t)"
proof -
  let ?u = "entry_update (Some p) f"
  have "ae_prev (h[p := f (h ! p)] ! a) = ae_prev (h ! a) \<and> ae_next (h[p := f (h ! p)] ! a) = ae_next (h ! a)" for h a
    using f by (cases "a = p"; cases "p < length h") (simp_all add: keeps_links_def list_update_beyond)
  then have links: "ae_prev (entry_at (?u x) e) = ae_prev (entry_at x e)" "ae_next (entry_at (?u x) e) = ae_next (entry_at x e)" for x e
    by (cases e; simp add: entry_update_def entry_at_def)+
  have n: "AreaEntry_Range (?u x) (Some n) = AreaEntry_Range x (Some n)" for x
    using ne by (simp add: AreaEntry_Range_def entry_update_def)
  have m: "(?u x)\<lparr>as_map := y\<rparr> = ?u (x\<lparr>as_map := y\<rparr>)" "as_map (?u x) = as_map x" for x y
    by (simp_all add: entry_update_def)
  have swap: "entry_update e h (?u x) = ?u (entry_update e h x)" if "\<And>c. f (h c) = h (f c)" for e h x
    using entry_update_swap [of f h] that by simp
  have "AreaEntry_Remove e (?u x) = and_then (AreaEntry_Remove e x) (\<lambda>y. Ok (?u y))" for e x
    using f by (auto simp: AreaEntry_Remove_def links keeps_links_def swap split: option.splits)
  moreover have "AreaEntry_Ok (?u x) e = AreaEntry_Ok x e" "AreaSeg_PrevSeg (?u x) e = AreaSeg_PrevSeg x e"
    "AreaSeg_NextGap (?u x) e = AreaSeg_NextGap x e" for x e
    by (simp_all add: AreaEntry_Ok_def AreaSeg_PrevSeg_def AreaSeg_NextGap_def AreaEntry_IsHead_def AreaEntry_IsTail_def
        AreaEntry_PrevEntry_def links)
  ultimately show ?thesis
    using rem unfolding AreaSet_Remove_def Let_def n m
    by (auto simp: and_then_def split: if_splits sum.splits)
qed

text \<open>A node absorbs its neighbour.\<close>

lemma Absorb_rep:
  fixes s :: "'v area_set" and w :: 'v
  assumes rep: "rep s (xs1 @ (p, rp, vp) # (n, rn, vn) # xs2)" and adj: "Range_End rp = r_start rn"
  defines "f \<equiv> \<lambda>c. c\<lparr>ae_range := Range_New (r_start (ae_range c)) (r_len (ae_range c) + r_len rn), ae_value := Some w\<rparr>"
  obtains s' where "AreaSet_Remove (Some n) (entry_update (Some p) f s) = Ok (Some p, s')" "same_frame s s'"
    "rep s' (xs1 @ (p, Range_New (r_start rp) (r_len rp + r_len rn), w) # xs2)"
proof -
  have rep': "rep s ((xs1 @ [(p, rp, vp)]) @ (n, rn, vn) # xs2)" using rep by simp
  obtain t where rem: "AreaSet_Remove (Some n) s = Ok (Some p, t)"
    and t: "rep t (xs1 @ (p, rp, vp) # xs2)" "same_frame s t"
    using Remove_rep [OF rep'] by auto
  have ne: "p \<noteq> n" using rep by (auto simp: rep_def)
  have "keeps_links f" by (simp add: keeps_links_def f_def)
  then have "AreaSet_Remove (Some n) (entry_update (Some p) f s) = Ok (Some p, entry_update (Some p) f t)"
    using ne rem by (rule Remove_update)
  moreover have areas: "areas_ok (lower s) (ranges xs1 @ rp # rn # ranges xs2) (upper s)"
    "areas_ok (lower s) ((ranges xs1 @ [rp]) @ rn # ranges xs2) (upper s)" using rep_areas [OF rep] by simp_all
  note mid = areas_ok_mid [OF areas(1)] areas_ok_mid [OF areas(2)]
  note join = join_ranges [OF mid(1,8) adj mid(2)]
  have "rep (entry_update (Some p) f t) (xs1 @ (p, Range_New (r_start rp) (r_len rp + r_len rn), w) # xs2)"
    by (rule rep_update [OF t(1)])
      (use rep_node(1) [OF t(1)] join mid(12) same_frameD [OF t(2)] in \<open>simp_all add: f_def\<close>)
  moreover have "same_frame s (entry_update (Some p) f t)" by (rule same_frame_trans [OF t(2)]) simp
  ultimately show thesis using that by blast
qed

section \<open>Values at addresses\<close>

definition sem :: "('v \<Rightarrow> 'w) \<Rightarrow> 'v node list \<Rightarrow> (u64 \<times> 'w) set" where
  "sem view xs = (\<Union>(p, r, v) \<in> set xs. addrs r \<times> {view v})"

lemma sem_simps [simp]:
  "sem view [] = {}" "sem view ((p, r, v) # xs) = addrs r \<times> {view v} \<union> sem view xs"
  "sem view (xs @ ys) = sem view xs \<union> sem view ys"
  by (auto simp: sem_def)

lemma sem_before:
  assumes "areas_ok lo (ranges (xs1 @ xs2)) hi" and "(k, w) \<in> sem view xs1"
  shows "k < rs_end lo (ranges xs1)"
proof -
  obtain p r v where "(p, r, v) \<in> set xs1" and k: "k \<in> addrs r" using assms(2) by (auto simp: sem_def)
  then have "r \<in> set (ranges xs1)" by force
  then have "Range_End r \<le> rs_end lo (ranges xs1)" using areas_ok_before [of lo "ranges xs1" "ranges xs2" hi r] assms(1) by simp
  then show ?thesis using k by (auto simp: addrs_def intro: less_le_trans)
qed

lemma sem_after:
  assumes "areas_ok lo (ranges (xs1 @ xs2)) hi" and "(k, w) \<in> sem view xs2"
  shows "rs_start (ranges xs2) hi \<le> k"
proof -
  obtain p r v where "(p, r, v) \<in> set xs2" and k: "k \<in> addrs r" using assms(2) by (auto simp: sem_def)
  then have "r \<in> set (ranges xs2)" by force
  then have "rs_start (ranges xs2) hi \<le> r_start r" using areas_ok_after [of lo "ranges xs1" "ranges xs2" hi r] assms(1) by simp
  then show ?thesis using k by (auto simp: addrs_def intro: order_trans)
qed

text \<open>The value that a lookup finds.\<close>

definition value_at :: "'v area_set \<Rightarrow> u64 \<Rightarrow> 'v option" where
  "value_at s k = (case AreaSet_FindArea s k of Seg e \<Rightarrow> ae_value (entry_at s e) | Gap _ \<Rightarrow> None)"

lemma value_at_iff:
  assumes rep: "rep s xs" and k: "lower s \<le> k" "k \<le> upper s"
  shows "map_option view (value_at s k) = Some w \<longleftrightarrow> (k, w) \<in> sem view xs"
  using rep k
proof (cases rule: FindArea_cases)
  case (seg xs1 p r v xs2)
  have rep': "rep s (xs1 @ (p, r, v) # xs2)" "rep s ((xs1 @ [(p, r, v)]) @ xs2)" using rep seg(1) by simp_all
  have areas: "areas_ok (lower s) (ranges xs1 @ r # ranges xs2) (upper s)" using rep_areas [OF rep'(1)] by simp
  note mid = areas_ok_mid [OF areas]
  have in': "r_start r \<le> k" "k < Range_End r" using seg(2) by (simp_all add: addrs_def)
  have "(k, w) \<notin> sem view xs1"
    using sem_before [OF rep_areas [OF rep'(1)], of k w view] mid(4) in'(1) by auto
  moreover have "(k, w) \<notin> sem view xs2"
    using sem_after [OF rep_areas [OF rep'(2)], of k w view] mid(5) in'(2) by auto
  ultimately show ?thesis
    using seg rep_node(2) [OF rep'(1)] by (auto simp: value_at_def)
next
  case (gap xs1 xs2)
  have rep': "rep s (xs1 @ xs2)" using rep gap(1) by simp
  have "(k, w) \<notin> sem view xs1"
    using sem_before [OF rep_areas [OF rep'], of k w view] gap(3) by auto
  moreover have "(k, w) \<notin> sem view xs2"
    using sem_after [OF rep_areas [OF rep'], of k w view] gap(4) by auto
  ultimately show ?thesis using gap by (auto simp: value_at_def)
qed

text \<open>What holds of every node holds of every address, and back, since no segment is empty.\<close>

lemma sem_values:
  assumes "areas_ok lo (ranges xs) hi"
  shows "(\<forall>x \<in> set xs. P (view (snd (snd x)))) \<longleftrightarrow> (\<forall>(k, w) \<in> sem view xs. P w)"
proof
  assume all: "\<forall>(k, w) \<in> sem view xs. P w"
  show "\<forall>x \<in> set xs. P (view (snd (snd x)))"
  proof
    fix x assume x: "x \<in> set xs"
    then have "fst (snd x) \<in> set (ranges xs)" by simp
    then have "r_start (fst (snd x)) < Range_End (fst (snd x))" using assms area_nonempty unfolding areas_ok_def by blast
    then have "(r_start (fst (snd x)), view (snd (snd x))) \<in> sem view xs" using x by (auto simp: sem_def addrs_def intro!: bexI [of _ x])
    then show "P (view (snd (snd x)))" using all by blast
  qed
qed (auto simp: sem_def)

text \<open>The result of inserting a range between two lists of nodes: the range is part of the node that is
  returned, which may have absorbed its neighbours.\<close>

definition inserted :: "('v \<Rightarrow> 'w) \<Rightarrow> range \<Rightarrow> 'v \<Rightarrow> 'v area_set \<Rightarrow> 'v node list \<Rightarrow> 'v node list \<Rightarrow> entry \<times> 'v area_set \<Rightarrow> bool" where
  "inserted view r v s xs1 xs2 res \<longleftrightarrow> (\<exists>q s' ys1 rq vq ys2. res = (Some q, s') \<and> same_frame s s' \<and>
     rep s' (ys1 @ (q, rq, vq) # ys2) \<and> view vq = view v \<and> r_start rq \<le> r_start r \<and>
     (ys2 = xs2 \<and> Range_End rq = Range_End r \<and> sem view (ys1 @ [(q, rq, vq)]) = sem view xs1 \<union> addrs r \<times> {view v} \<or>
      (\<exists>n rn vn. xs2 = (n, rn, vn) # ys2 \<and> view vn = view v \<and> r_start rn = Range_End r \<and> Range_End rq = Range_End rn \<and>
         sem view (ys1 @ [(q, rq, vq)]) = sem view xs1 \<union> addrs r \<times> {view v} \<union> addrs rn \<times> {view v})))"

text \<open>The contract of the values: merging needs equal values and keeps them, splitting keeps the
  value on both sides, up to the part of the value that \<open>view\<close> shows. The values of a set are the
  \<open>good\<close> ones.\<close>

locale area_values =
  fixes av :: "'v area_value" and view :: "'v \<Rightarrow> 'w" and good :: "'w \<Rightarrow> bool"
  assumes merge_view: "good (view v1) \<Longrightarrow> good (view v2) \<Longrightarrow> av_Merge av v1 r1 r2 v2 = Some v \<Longrightarrow>
      view v = view v1 \<and> view v2 = view v1"
    and split_view: "good (view v) \<Longrightarrow> av_Split av v r k = (v1, v2) \<Longrightarrow> view v1 = view v \<and> view v2 = view v"
begin

lemma SplitUnchecked_sem:
  assumes rep: "rep s (xs1 @ (p, r, v) # xs2)" and good: "good (view v)" and k: "r_start r < k" "k < Range_End r"
  obtains n s' r1 v1 r2 v2 where "AreaSet_SplitUnchecked av (Some p) k s = returns ((Some p, Some n), s')" "same_frame s s'"
    "rep s' (xs1 @ (p, r1, v1) # (n, r2, v2) # xs2)" "view v1 = view v" "view v2 = view v"
    "r_start r1 = r_start r" "Range_End r1 = k" "r_start r2 = k" "Range_End r2 = Range_End r" "addrs r = addrs r1 \<union> addrs r2"
proof -
  obtain v1 v2 where sp: "av_Split av v r k = (v1, v2)" by (cases "av_Split av v r k")
  have areas: "areas_ok (lower s) (ranges xs1 @ r # ranges xs2) (upper s)" using rep_areas [OF rep] by simp
  note parts = split_ranges [OF areas_ok_mid(1) [OF areas] k]
  obtain n s' where "AreaSet_SplitUnchecked av (Some p) k s = returns ((Some p, Some n), s')" "same_frame s s'"
    "rep s' (xs1 @ (p, Range_New (r_start r) (k - r_start r), v1) # (n, Range_New k (Range_End r - k), v2) # xs2)"
    by (rule SplitUnchecked_rep [OF rep k sp])
  then show thesis using that split_view [OF good sp] parts by simp
qed

text \<open>\<open>Isolate\<close> cuts a segment at the ends of the range that lie inside it, and returns the middle
  part.\<close>

lemma Isolate_sem:
  assumes rep: "rep s (xs1 @ (p, r, v) # xs2)" and good: "good (view v)"
  obtains q rq vq pre post s' where "AreaSet_Isolate av (Some p) reg s = returns (Some q, s')" "same_frame s s'"
    "rep s' (xs1 @ pre @ (q, rq, vq) # post @ xs2)" "view vq = view v" "\<forall>x \<in> set (pre @ post). view (snd (snd x)) = view v"
    "sem view (pre @ (q, rq, vq) # post) = addrs r \<times> {view v}"
    "r_start rq = (if Range_CanSplitAt r (r_start reg) then r_start reg else r_start r)"
    "Range_End rq = (if r_start rq < Range_End reg \<and> Range_End reg < Range_End r then Range_End reg else Range_End r)"
    "length pre = (if Range_CanSplitAt r (r_start reg) then 1 else 0)"
    "length post = (if r_start rq < Range_End reg \<and> Range_End reg < Range_End r then 1 else 0)"
    "pre \<noteq> [] \<Longrightarrow> r_start (fst (snd (hd pre))) = r_start r"
proof -
  obtain q rq vq pre s1 where first: "(if Range_CanSplitAt (AreaEntry_Range s (Some p)) (r_start reg)
       then run_bind (AreaSet_SplitUnchecked av (Some p) (r_start reg) s) (\<lambda>((_, tmp), s). returns (tmp, s))
       else returns (Some p, s)) = returns (Some q, s1)" and f1: "same_frame s s1"
    and rep1: "rep s1 (xs1 @ pre @ (q, rq, vq) # xs2)" and vq: "view vq = view v" "\<forall>x \<in> set pre. view (snd (snd x)) = view v"
    and sem1: "sem view (pre @ [(q, rq, vq)]) = addrs r \<times> {view v}"
    and st: "r_start rq = (if Range_CanSplitAt r (r_start reg) then r_start reg else r_start r)" "Range_End rq = Range_End r"
    and len: "length pre = (if Range_CanSplitAt r (r_start reg) then 1 else 0)" "pre \<noteq> [] \<Longrightarrow> r_start (fst (snd (hd pre))) = r_start r"
  proof (cases "Range_CanSplitAt r (r_start reg)")
    case True
    then have k: "r_start r < r_start reg" "r_start reg < Range_End r" by (simp_all add: Range_CanSplitAt_def)
    from SplitUnchecked_sem [OF rep good k] obtain n s' r1 v1 r2 v2 where
      sp: "AreaSet_SplitUnchecked av (Some p) (r_start reg) s = returns ((Some p, Some n), s')" "same_frame s s'"
      "rep s' (xs1 @ (p, r1, v1) # (n, r2, v2) # xs2)" "view v1 = view v" "view v2 = view v"
      "r_start r1 = r_start r" "r_start r2 = r_start reg" "Range_End r2 = Range_End r" "addrs r = addrs r1 \<union> addrs r2"
      by metis
    show thesis
      by (rule that [of n s' "[(p, r1, v1)]" r2 v2]) (use sp True rep_seg(2) [OF rep] in auto)
  next
    case False
    show thesis by (rule that [of p s "[]" r v]) (use False rep rep_seg(2) [OF rep] in auto)
  qed
  have rep1': "rep s1 ((xs1 @ pre) @ (q, rq, vq) # xs2)" using rep1 by simp
  have iso: "AreaSet_Isolate av (Some p) reg s =
     (if Range_CanSplitAt (AreaEntry_Range s1 (Some q)) (Range_End reg)
      then run_bind (AreaSet_SplitUnchecked av (Some q) (Range_End reg) s1) (\<lambda>((tmp, _), s). returns (tmp, s))
      else returns (Some q, s1))"
    unfolding AreaSet_Isolate_def first by simp
  show thesis
  proof (cases "Range_CanSplitAt rq (Range_End reg)")
    case True
    then have k: "r_start rq < Range_End reg" "Range_End reg < Range_End rq" by (simp_all add: Range_CanSplitAt_def)
    from SplitUnchecked_sem [OF rep1' good [folded vq(1)] k] obtain n s' r1 v1 r2 v2 where
      sp: "AreaSet_SplitUnchecked av (Some q) (Range_End reg) s1 = returns ((Some q, Some n), s')" "same_frame s1 s'"
      "rep s' ((xs1 @ pre) @ (q, r1, v1) # (n, r2, v2) # xs2)" "view v1 = view vq" "view v2 = view vq"
      "r_start r1 = r_start rq" "Range_End r1 = Range_End reg" "addrs rq = addrs r1 \<union> addrs r2"
      by metis
    have semq: "sem view (pre @ (q, r1, v1) # [(n, r2, v2)]) = addrs r \<times> {view v}"
      using sem1 sp(4,5,8) vq(1) by auto
    show thesis
      by (rule that [of q s' pre r1 v1 "[(n, r2, v2)]"])
        (use sp True iso rep_seg(2) [OF rep1'] same_frame_trans [OF f1] vq st len k semq in auto)
  next
    case False
    show thesis
      by (rule that [of q s1 pre rq vq "[]"])
        (use False iso rep_seg(2) [OF rep1'] f1 rep1 vq st len sem1 in \<open>auto simp: Range_CanSplitAt_def\<close>)
  qed
qed

text \<open>\<open>Insert\<close> adds the addresses of the range. It may extend the segment before or after, and
  returns the segment that now holds the range.\<close>

lemma InsertWithoutMerging_sem:
  assumes rep: "rep s (xs1 @ xs2)" and r: "range_ok r" "r_len r \<noteq> 0"
    and fit: "rs_end (lower s) (ranges xs1) \<le> r_start r" "Range_End r \<le> rs_start (ranges xs2) (upper s)"
  obtains res where "AreaSet_InsertWithoutMergingUnchecked (Some (prv s xs1)) r v s = Ok res" "inserted view r v s xs1 xs2 res"
proof -
  obtain n s' where ins: "AreaSet_InsertWithoutMergingUnchecked (Some (prv s xs1)) r v s = Ok (Some n, s')"
    and *: "rep s' (xs1 @ (n, r, v) # xs2)" "same_frame s s'"
    by (rule Insert_unchecked_rep [OF rep r fit, of v])
  have "inserted view r v s xs1 xs2 (Some n, s')"
    unfolding inserted_def
    by (rule exI [of _ n], rule exI [of _ s'], rule exI [of _ xs1], rule exI [of _ r], rule exI [of _ v], rule exI [of _ xs2])
      (simp add: *)
  with ins show thesis by (rule that)
qed

lemma Insert_next_sem:
  assumes rep: "rep s (xs1 @ (n, rn, vn) # xs2)" and r: "range_ok r" "r_len r \<noteq> 0"
    and fit: "rs_end (lower s) (ranges xs1) \<le> r_start r" "Range_End r = r_start rn"
    and mg: "av_Merge av v r rn vn = Some w" and good: "good (view v)" "good (view vn)"
  defines "s1 \<equiv> entry_update (Some n) (\<lambda>c. c\<lparr>ae_range := Range_New (r_start r) (r_len (ae_range c) + r_len r), ae_value := Some w\<rparr>) s"
  shows "inserted view r v s xs1 ((n, rn, vn) # xs2) (Some n, s1\<lparr>as_map := bt_insert (r_start r) n (bt_remove (Range_End r) (as_map s1))\<rparr>)"
proof -
  have areas: "areas_ok (lower s) (ranges xs1 @ rn # ranges xs2) (upper s)" using rep_areas [OF rep] by simp
  note mid = areas_ok_mid [OF areas] and less = area_nonempty [OF r]
  note join = join_ranges [OF r(1) mid(1) fit(2) r(2)]
  let ?j = "Range_New (r_start r) (r_len r + r_len rn)"
  let ?m = "bt_insert (r_start r) n (bt_remove (Range_End r) (as_map s1))"
  have areas0: "areas_ok (lower s) (ranges (xs1 @ xs2)) (upper s)" using areas_ok_remove [OF areas] by simp
  have k: "r_start rn < rs_start (ranges xs2) (upper s)" using mid(3,5) by (rule less_le_trans)
  have k': "r_start r < rs_start (ranges xs2) (upper s)" using less fit(2) k by simp
  have rn: "\<forall>q \<in> set (map (\<lambda>(p, r, v). (r_start r, p)) xs1). fst q < r_start rn"
    "\<forall>q \<in> set (map (\<lambda>(p, r, v). (r_start r, p)) xs2). r_start rn < fst q"
    using map_starts [OF areas0 mid(4)] k by blast+
  have "bt_remove (Range_End r) (as_map s1) = map (\<lambda>(p, r, v). (r_start r, p)) xs1 @ map (\<lambda>(p, r, v). (r_start r, p)) xs2"
    unfolding fit(2) using rn rep
    by (subst bt_remove_append [symmetric, of _ "r_start rn" _ n]) (auto simp: s1_def entry_update_def rep_def)
  moreover have st: "\<forall>q \<in> set (map (\<lambda>(p, r, v). (r_start r, p)) xs1). fst q < r_start r"
    "\<forall>q \<in> set (map (\<lambda>(p, r, v). (r_start r, p)) xs2). r_start r < fst q"
    using map_starts [OF areas0 fit(1)] k' by blast+
  ultimately have m: "?m = map (\<lambda>(p, r, v). (r_start r, p)) (xs1 @ (n, ?j, w) # xs2)"
    using bt_insert_append [OF st] by simp
  have areas': "areas_ok (lower s) (ranges (xs1 @ (n, ?j, w) # xs2)) (upper s)"
    using areas_ok_insert [OF areas_ok_remove [OF areas] join(1,4)] join(2) mid(5) fit(1) by simp
  have "rep (s1\<lparr>as_map := ?m\<rparr>) (xs1 @ (n, ?j, w) # xs2)"
    unfolding s1_def
    by (rule rep_update_map [OF rep _ _ _ _ areas']) (use rep_node(1) [OF rep] m in \<open>simp_all add: s1_def add.commute\<close>)
  moreover have "same_frame s (s1\<lparr>as_map := ?m\<rparr>)" using same_frame_update [of s "Some n"] by (simp add: s1_def same_frame_def)
  moreover have "view w = view v" "view vn = view v" using merge_view [OF good mg] by simp_all
  ultimately show ?thesis
    unfolding inserted_def using join(2,3) fit(2)
    by (intro exI [of _ n] exI [of _ "s1\<lparr>as_map := ?m\<rparr>"] exI [of _ xs1] exI [of _ ?j] exI [of _ w] exI [of _ xs2]) auto
qed

lemma insertedI:
  assumes "same_frame s s'" "rep s' (ys1 @ (q, rq, vq) # xs2)" "view vq = view v" "r_start rq \<le> r_start r"
    "Range_End rq = Range_End r" "sem view (ys1 @ [(q, rq, vq)]) = sem view xs1 \<union> addrs r \<times> {view v}"
  shows "inserted view r v s xs1 xs2 (Some q, s')"
  unfolding inserted_def using assms by (intro exI [of _ q] exI [of _ s'] exI conjI disjI1) (rule refl | assumption)+

lemma insertedI_next:
  assumes "same_frame s s'" "rep s' (ys1 @ (q, rq, vq) # ys2)" "view vq = view v" "r_start rq \<le> r_start r"
    "view vn = view v" "r_start rn = Range_End r" "Range_End rq = Range_End rn"
    "sem view (ys1 @ [(q, rq, vq)]) = sem view xs1 \<union> addrs r \<times> {view v} \<union> addrs rn \<times> {view v}"
  shows "inserted view r v s xs1 ((n, rn, vn) # ys2) (Some q, s')"
  unfolding inserted_def using assms
  by (intro exI [of _ q] exI [of _ s'] exI [of _ ys1] exI [of _ rq] exI [of _ vq] exI [of _ ys2] conjI disjI2
      exI [of _ n] exI [of _ rn] exI [of _ vn]) simp_all

lemma Insert_prev_sem:
  assumes rep: "rep s (xs1 @ (p, rp, vp) # xs2)" and r: "range_ok r" "r_len r \<noteq> 0"
    and fit: "Range_End rp = r_start r" "Range_End r \<le> rs_start (ranges xs2) (upper s)"
    and mg: "av_Merge av vp rp r v = Some w" and good: "good (view vp)" "good (view v)"
  defines "j \<equiv> Range_New (r_start rp) (r_len rp + r_len r)"
  defines "s1 \<equiv> entry_update (Some p) (\<lambda>c. c\<lparr>ae_range := Range_New (r_start (ae_range c)) (r_len (ae_range c) + r_len r), ae_value := Some w\<rparr>) s"
  shows "rep s1 (xs1 @ (p, j, w) # xs2)" "same_frame s s1" "Range_End j = Range_End r" "r_start j \<le> r_start r"
    "view w = view v" "sem view (xs1 @ [(p, j, w)]) = sem view (xs1 @ [(p, rp, vp)]) \<union> addrs r \<times> {view v}"
proof -
  have areas: "areas_ok (lower s) (ranges xs1 @ rp # ranges xs2) (upper s)" using rep_areas [OF rep] by simp
  note mid = areas_ok_mid [OF areas]
  note join = join_ranges [OF mid(1) r(1) fit(1) mid(2), folded j_def]
  show "rep s1 (xs1 @ (p, j, w) # xs2)"
    unfolding s1_def by (rule rep_update [OF rep]) (use rep_node(1) [OF rep] join fit(2) in \<open>simp_all add: j_def\<close>)
  show "same_frame s s1" by (simp add: s1_def)
  show "Range_End j = Range_End r" by (rule join(2))
  show "r_start j \<le> r_start r" using mid(3) fit(1) by (simp add: j_def)
  have "view v = view vp" "view w = view vp" using merge_view [OF good mg] by simp_all
  then show "view w = view v" "sem view (xs1 @ [(p, j, w)]) = sem view (xs1 @ [(p, rp, vp)]) \<union> addrs r \<times> {view v}"
    using join(3) by auto
qed

lemma Insert_both_sem:
  assumes rep: "rep s (ys @ (p, rp, vp) # xs2)" and r: "range_ok r" "r_len r \<noteq> 0"
    and fit: "Range_End rp = r_start r" "Range_End r \<le> rs_start (ranges xs2) (upper s)"
    and mg: "av_Merge av vp rp r v = Some w" and good: "good (view vp)" "good (view v)" "\<forall>x \<in> set xs2. good (view (snd (snd x)))"
  defines "s1 \<equiv> entry_update (Some p) (\<lambda>c. c\<lparr>ae_range := Range_New (r_start (ae_range c)) (r_len (ae_range c) + r_len r), ae_value := Some w\<rparr>) s"
  defines "next \<equiv> Some (nxt s xs2)"
  obtains res where "(if AreaEntry_Ok s1 next \<and> r_start (AreaEntry_Range s1 next) = Range_End r then
      and_then (AreaSeg_Value s1 next) (\<lambda>vn.
         case av_Merge av w (AreaEntry_Range s1 (Some p)) (AreaEntry_Range s1 next) vn of
           Some mval \<Rightarrow> and_then (AreaSet_Remove next (entry_update (Some p) (\<lambda>c. c\<lparr>ae_range :=
                  Range_New (r_start (ae_range c)) (r_len (ae_range c) + r_len (AreaEntry_Range s1 next)),
                  ae_value := Some mval\<rparr>) s1)) (\<lambda>(g, s). Ok (AreaGap_PrevSeg s g, s))
         | None \<Rightarrow> Ok (Some p, s1))
      else Ok (Some p, s1)) = Ok res" "inserted view r v s (ys @ [(p, rp, vp)]) xs2 res"
proof -
  define j where "j = Range_New (r_start rp) (r_len rp + r_len r)"
  note I = Insert_prev_sem [OF rep r fit mg good(1,2), folded j_def s1_def]
  have rep1: "rep s1 ((ys @ [(p, j, w)]) @ xs2)" using I(1) by simp
  note fr = same_frameD [OF I(2)]
  have prev: "inserted view r v s (ys @ [(p, rp, vp)]) xs2 (Some p, s1)"
    by (rule insertedI [OF I(2,1,5,4,3,6)])
  have next': "AreaEntry_Ok s1 next \<longleftrightarrow> xs2 \<noteq> []" "r_start (AreaEntry_Range s1 next) = rs_start (ranges xs2) (upper s)"
    using rep_nxt_Ok [OF rep1] rep_nxt(1) [OF rep1] fr by (simp_all add: next_def)
  show thesis
  proof (cases "xs2 \<noteq> [] \<and> rs_start (ranges xs2) (upper s) = Range_End r")
    case False
    then show thesis using that [OF _ prev] next' by auto
  next
    case True
    then obtain n rn vn ys2 where xs2: "xs2 = (n, rn, vn) # ys2" by (cases xs2) auto
    then have adj: "Range_End r = r_start rn" and n: "next = Some n" using True by (simp_all add: next_def)
    have rep2: "rep s1 (ys @ (p, j, w) # (n, rn, vn) # ys2)" using I(1) xs2 by simp
    note seg = rep_seg(1-3) [OF I(1)] rep_seg(1-3) [OF rep1 [unfolded xs2]]
    show thesis
    proof (cases "av_Merge av w j rn vn")
      case None
      then show thesis using that [OF _ prev] n seg adj by simp
    next
      case (Some w2)
      have "Range_End j = r_start rn" using I(3) adj by simp
      from Absorb_rep [OF rep2 this, of w2] obtain s' where
        rem: "AreaSet_Remove (Some n) (entry_update (Some p) (\<lambda>c. c\<lparr>ae_range := Range_New (r_start (ae_range c)) (r_len (ae_range c) + r_len rn),
            ae_value := Some w2\<rparr>) s1) = Ok (Some p, s')"
        and s': "same_frame s1 s'" "rep s' (ys @ (p, Range_New (r_start j) (r_len j + r_len rn), w2) # ys2)" by blast
      have "AreaGap_PrevSeg s' (Some p) = Some p"
        using rep_gap(4) [of s' "ys @ [(p, Range_New (r_start j) (r_len j + r_len rn), w2)]" ys2] s'(2) by simp
      moreover have "inserted view r v s (ys @ [(p, rp, vp)]) xs2 (Some p, s')"
        unfolding xs2
      proof (rule insertedI_next [OF same_frame_trans [OF I(2) s'(1)] s'(2)])
        have areas: "areas_ok (lower s1) (ranges ys @ j # rn # ranges ys2) (upper s1)"
          "areas_ok (lower s1) ((ranges ys @ [j]) @ rn # ranges ys2) (upper s1)" using rep_areas [OF rep2] by simp_all
        note join = join_ranges [OF areas_ok_mid(1) [OF areas(1)] areas_ok_mid(1) [OF areas(2)] _ areas_ok_mid(2) [OF areas(1)]]
        have eq: "Range_End j = r_start rn" using I(3) adj by simp
        show "view w2 = view v" "view vn = view v" using merge_view [OF _ _ Some] I(5) good(2,3) xs2 by simp_all
        then show "sem view (ys @ [(p, Range_New (r_start j) (r_len j + r_len rn), w2)]) =
            sem view (ys @ [(p, rp, vp)]) \<union> addrs r \<times> {view v} \<union> addrs rn \<times> {view v}"
          using I(5,6) join(3) [OF eq] by auto
        show "Range_End (Range_New (r_start j) (r_len j + r_len rn)) = Range_End rn" by (rule join(2) [OF eq])
        show "r_start (Range_New (r_start j) (r_len j + r_len rn)) \<le> r_start r" "r_start rn = Range_End r"
          using I(4) adj by simp_all
      qed
      ultimately show thesis using that n seg adj Some rem by simp
    qed
  qed
qed

lemma Insert_sem:
  assumes rep: "rep s (xs1 @ xs2)" and r: "range_ok r" "r_len r \<noteq> 0"
    and fit: "rs_end (lower s) (ranges xs1) \<le> r_start r" "Range_End r \<le> rs_start (ranges xs2) (upper s)"
    and good: "\<forall>x \<in> set (xs1 @ xs2). good (view (snd (snd x)))" "good (view v)"
  obtains res where "AreaSet_Insert av (Some (prv s xs1)) r v s = Ok res" "inserted view r v s xs1 xs2 res"
proof -
  define a b where "a = prv s xs1" and "b = nxt s xs2"
  note gap = rep_gap [OF rep, folded a_def b_def] and okp = rep_prv_Ok [OF rep, folded a_def]
    and okn = rep_nxt_Ok [OF rep, folded b_def] and ends = rep_nxt [OF rep, folded a_def b_def]
  define M where "M =
           (if AreaEntry_Ok s (Some b) \<and> r_start (AreaEntry_Range s (Some b)) = Range_End r then
              (let r2 = AreaEntry_Range s (Some b)
               in and_then (AreaSeg_Value s (Some b)) (\<lambda>vn.
                 case av_Merge av v r r2 vn of
                   Some mval \<Rightarrow>
                     (let s = entry_update (Some b) (\<lambda>c. c\<lparr>ae_range := Range_New (r_start r) (r_len (ae_range c) + r_len r),
                           ae_value := Some mval\<rparr>) s;
                          m = bt_remove (Range_End r) (as_map s)
                      in case Some b of
                           None \<Rightarrow> Err Panic
                         | Some a \<Rightarrow> Ok (Some b, s\<lparr>as_map := bt_insert (r_start r) a m\<rparr>))
                 | None \<Rightarrow> AreaSet_InsertWithoutMergingUnchecked (Some a) r v s))
            else AreaSet_InsertWithoutMergingUnchecked (Some a) r v s)"
  obtain res0 where plain: "AreaSet_InsertWithoutMergingUnchecked (Some a) r v s = Ok res0" "inserted view r v s xs1 xs2 res0"
    unfolding a_def by (rule InsertWithoutMerging_sem [OF rep r fit])
  obtain res1 where M: "M = Ok res1" "inserted view r v s xs1 xs2 res1"
  proof (cases "xs2 \<noteq> [] \<and> rs_start (ranges xs2) (upper s) = Range_End r")
    case True
    then obtain n rn vn ys2 where xs2: "xs2 = (n, rn, vn) # ys2" by (cases xs2) auto
    then have adj: "Range_End r = r_start rn" using True by simp
    have rep': "rep s (xs1 @ (n, rn, vn) # ys2)" using rep xs2 by simp
    show thesis
    proof (cases "av_Merge av v r rn vn")
      case None
      then have "M = Ok res0" using plain(1) rep_seg(1-3) [OF rep'] xs2 adj by (simp add: M_def b_def)
      then show thesis using plain(2) that by blast
    next
      case (Some w)
      have "good (view vn)" using good(1) xs2 by simp
      from Insert_next_sem [OF rep' r fit(1) adj Some good(2) this, folded xs2] show thesis
        by (rule that [rotated]) (use Some rep_seg(1-3) [OF rep'] xs2 adj in \<open>simp add: M_def b_def Let_def\<close>)
    qed
  next
    case False
    then have "M = Ok res0" using plain(1) okn ends(1) by (auto simp: M_def)
    then show thesis using plain(2) that by blast
  qed
  have ins: "AreaSet_Insert av (Some a) r v s =
    (if xs1 \<noteq> [] \<and> rs_end (lower s) (ranges xs1) = r_start r then
          (let r1 = AreaEntry_Range s (Some a)
           in and_then (AreaSeg_Value s (Some a)) (\<lambda>vp.
             case av_Merge av vp r1 r v of
               Some mval \<Rightarrow>
                 (let s = entry_update (Some a) (\<lambda>c. c\<lparr>ae_range := Range_New (r_start (ae_range c)) (r_len (ae_range c) + r_len r),
                       ae_value := Some mval\<rparr>) s
                  in if AreaEntry_Ok s (Some b) \<and> r_start (AreaEntry_Range s (Some b)) = Range_End r then
                       (let r1 = AreaEntry_Range s (Some a);
                            r2 = AreaEntry_Range s (Some b)
                        in and_then (AreaSeg_Value s (Some b)) (\<lambda>vn.
                             case av_Merge av mval r1 r2 vn of
                               Some mval \<Rightarrow>
                                 (let s = entry_update (Some a) (\<lambda>c. c\<lparr>ae_range :=
                                        Range_New (r_start (ae_range c)) (r_len (ae_range c) + r_len r2),
                                        ae_value := Some mval\<rparr>) s
                                  in and_then (AreaSet_Remove (Some b) s) (\<lambda>(g, s). Ok (AreaGap_PrevSeg s g, s)))
                             | None \<Rightarrow> Ok (Some a, s)))
                     else Ok (Some a, s))
             | None \<Rightarrow> M))
     else M)"
  proof -
    have "\<not> (xs1 \<noteq> [] \<and> r_start r < rs_end (lower s) (ranges xs1))"
      "\<not> (AreaEntry_Ok s (Some b) \<and> r_start (AreaEntry_Range s (Some b)) < Range_End r)"
      using fit ends by auto
    then show ?thesis
      unfolding AreaSet_Insert_def Let_def gap(3,4) M_def ends(2) okp by (simp only: if_False)
  qed
  show thesis
  proof (cases "xs1 \<noteq> [] \<and> rs_end (lower s) (ranges xs1) = r_start r")
    case False
    then have "AreaSet_Insert av (Some a) r v s = M" unfolding ins by (simp only: if_False)
    then show thesis using that M by (simp add: a_def)
  next
    case True
    then obtain ys p rp vp where xs1: "xs1 = ys @ [(p, rp, vp)]" by (metis rev_exhaust prod_cases3)
    then have adj: "Range_End rp = r_start r" and p: "a = p" using True by (simp_all add: a_def)
    have rep': "rep s (ys @ (p, rp, vp) # xs2)" using rep xs1 by simp
    show thesis
    proof (cases "av_Merge av vp rp r v")
      case None
      then have "AreaSet_Insert av (Some a) r v s = M" unfolding ins using rep_seg(2,3) [OF rep'] p by simp
      then show thesis using that M by (simp add: a_def)
    next
      case (Some w)
      have gp: "good (view vp)" "\<forall>x \<in> set xs2. good (view (snd (snd x)))" using good(1) xs1 by auto
      show thesis
        by (rule Insert_both_sem [OF rep' r adj fit(2) Some gp(1) good(2) gp(2)], rule that [folded a_def], subst ins, unfold Let_def p b_def)
          (use rep_seg(2,3) [OF rep'] True xs1 Some in simp_all)
    qed
  qed
qed

text \<open>\<open>Isolate\<close> on a segment that meets the range returns the part inside it.\<close>

lemma Isolate_meet:
  assumes rep: "rep s (xs1 @ (p, rp, vp) # xs2)" and good: "good (view vp)" and less: "r_start r < Range_End r"
    and meet: "r_start rp < Range_End r" "r_start r < Range_End rp"
  obtains pre q rq vq post s' where "AreaSet_Isolate av (Some p) r s = returns (Some q, s')"
    "same_frame s s'" "rep s' ((xs1 @ pre) @ (q, rq, vq) # (post @ xs2))" "view vq = view vp" "addrs rq = addrs rp \<inter> addrs r"
    "sem view (pre @ post) = addrs rp \<times> {view vp} - addrs r \<times> UNIV"
    "sem view pre \<inter> addrs r \<times> UNIV = {}" "post = [] \<or> Range_End r \<le> rs_start (ranges post) (upper s)"
    "r_start r \<le> r_start rp \<Longrightarrow> pre = []"
proof -
  obtain q rq vq pre post s1 where iso: "AreaSet_Isolate av (Some p) r s = returns (Some q, s1)" "same_frame s s1"
    and rep1: "rep s1 (xs1 @ pre @ (q, rq, vq) # post @ xs2)" and vq: "view vq = view vp"
    and sem: "sem view (pre @ (q, rq, vq) # post) = addrs rp \<times> {view vp}"
    and st: "r_start rq = (if Range_CanSplitAt rp (r_start r) then r_start r else r_start rp)"
      "Range_End rq = (if r_start rq < Range_End r \<and> Range_End r < Range_End rp then Range_End r else Range_End rp)"
    and len: "length pre = (if Range_CanSplitAt rp (r_start r) then 1 else 0)"
      "length post = (if r_start rq < Range_End r \<and> Range_End r < Range_End rp then 1 else 0)"
    by (rule Isolate_sem [OF rep good, of r])
  note fr = same_frameD [OF iso(2)]
  have rep1': "rep s1 ((xs1 @ pre) @ (q, rq, vq) # (post @ xs2))" using rep1 by simp
  have areas: "areas_ok (lower s) (ranges ((xs1 @ pre) @ (q, rq, vq) # post @ xs2)) (upper s)"
    "areas_ok (lower s) (ranges (xs1 @ pre) @ rq # ranges (post @ xs2)) (upper s)"
    using rep_areas [OF rep1'] fr by simp_all
  note mid = areas_ok_mid [OF areas(2)]
  have q: "r_start r \<le> r_start rq" "r_start rq < Range_End r" "Range_End rq \<le> Range_End r"
    using st meet less by (auto simp: Range_CanSplitAt_def not_less split: if_splits)
  then have inside: "addrs rq \<subseteq> addrs r" by (auto simp: addrs_def intro: order_trans less_le_trans)
  have part: "addrs rq = addrs rp \<inter> addrs r"
  proof -
    have "r_start rq = max (r_start rp) (r_start r)" using st(1) meet(2) by (auto simp: Range_CanSplitAt_def max_def)
    moreover have "Range_End rq = min (Range_End rp) (Range_End r)" using st(2) q(2) by (auto simp: min_def)
    ultimately show ?thesis by (auto simp: addrs_def)
  qed
  have below: "k < r_start r" if "(k, w) \<in> sem view pre" for k w
  proof -
    have "pre \<noteq> []" using that by auto
    then have "r_start rq = r_start r" using len(1) st(1) by (auto split: if_splits)
    moreover have "(k, w) \<in> sem view (xs1 @ pre)" using that by simp
    from sem_before [OF areas(1) this] have "k < r_start rq" using mid(4) by simp
    ultimately show ?thesis by simp
  qed
  have above: "Range_End r \<le> rs_start (ranges post) (upper s)" if "post \<noteq> []"
  proof -
    have "Range_End rq = Range_End r" using len(2) st(2) that by (auto split: if_splits)
    then show ?thesis using mid(5) that by (cases post) simp_all
  qed
  have above': "Range_End r \<le> k" if "(k, w) \<in> sem view post" for k w
  proof -
    have ne: "post \<noteq> []" using that by auto
    have "(k, w) \<in> sem view (post @ xs2)" using that by simp
    from sem_after [OF _ this, of "lower s" "xs1 @ pre" "upper s"]
    have "rs_start (ranges (post @ xs2)) (upper s) \<le> k" using areas_ok_remove [OF areas(2)] by simp
    then show ?thesis using above [OF ne] ne by (cases post) auto
  qed
  have "sem view (pre @ post) = addrs rp \<times> {view vp} - addrs r \<times> UNIV"
    unfolding sem [symmetric] using inside below above' by (fastforce simp: addrs_def not_less)
  moreover have "sem view pre \<inter> addrs r \<times> UNIV = {}" using below by (fastforce simp: addrs_def)
  moreover have "pre = []" if "r_start r \<le> r_start rp"
    using len(1) that by (auto simp: Range_CanSplitAt_def split: if_splits)
  moreover have "post = [] \<or> Range_End r \<le> rs_start (ranges post) (upper s)" using above by blast
  ultimately show thesis by (intro that [OF iso(1,2) rep1' vq part]) blast+
qed

text \<open>\<open>Isolate\<close> and \<open>Remove\<close> together cut the range out of a segment.\<close>

text \<open>The loop of \<^verbatim>\<open>RemoveRange\<close> ends after one segment: the removed entry is no longer linked.\<close>

lemma RemoveRange_once:
  assumes rep: "rep s (xs1 @ (p, rp, vp) # xs2)" and good: "good (view vp)" and less: "r_start r < Range_End r"
    and meet: "r_start rp < Range_End r" "r_start r < Range_End rp"
  obtains gap' s' ys where "RemoveRange_areas av r (Some p) gap s = returns (gap', s')" "same_frame s s'" "rep s' ys"
    "sem view ys = sem view xs1 \<union> (addrs rp \<times> {view vp} - addrs r \<times> UNIV) \<union> sem view xs2"
proof -
  obtain pre q rq vq post s1 where iso: "AreaSet_Isolate av (Some p) r s = returns (Some q, s1)" "same_frame s s1"
    and rep1: "rep s1 ((xs1 @ pre) @ (q, rq, vq) # (post @ xs2))"
    and rest: "sem view (pre @ post) = addrs rp \<times> {view vp} - addrs r \<times> UNIV"
      "sem view pre \<inter> addrs r \<times> UNIV = {}" "post = [] \<or> Range_End r \<le> rs_start (ranges post) (upper s)"
      "r_start r \<le> r_start rp \<Longrightarrow> pre = []"
    by (rule Isolate_meet [OF rep good less meet], rule that)
  obtain s' where rem: "AreaSet_Remove (Some q) s1 = Ok (Some (prv s1 (xs1 @ pre)), s')"
    and rep2: "rep s' ((xs1 @ pre) @ post @ xs2)" "same_frame s1 s'" by (rule Remove_rep [OF rep1])
  have "RemoveRange_areas av r (Some q) gap s' = returns (gap, s')" for gap
    using Remove_not_Ok [OF rep1 rem] by (subst RemoveRange_areas.simps) simp
  then have "RemoveRange_areas av r (Some p) gap s = returns (Some (prv s1 (xs1 @ pre)), s')"
    using rep_seg(1,2) [OF rep] meet(1) iso(1) rem by (subst RemoveRange_areas.simps) simp
  moreover have "sem view ((xs1 @ pre) @ post @ xs2) = sem view xs1 \<union> (addrs rp \<times> {view vp} - addrs r \<times> UNIV) \<union> sem view xs2"
    using rest(1) by auto
  ultimately show thesis using that same_frame_trans [OF iso(2) rep2(2)] rep2(1) by blast
qed

section \<open>Merging\<close>

lemma MergeUnchecked_sem:
  assumes rep: "rep s (xs1 @ (p, rp, vp) # (n, rn, vn) # xs2)" and good: "good (view vp)" "good (view vn)"
  shows "(\<exists>s' rq vq. AreaSet_MergeUnchecked av (Some p) (Some n) s = Ok (Some p, s') \<and> same_frame s s' \<and>
       rep s' (xs1 @ (p, rq, vq) # xs2) \<and> sem view [(p, rq, vq)] = sem view [(p, rp, vp), (n, rn, vn)] \<and>
       r_start rq = r_start rp \<and> Range_End rq = Range_End rn) \<or>
     AreaSet_MergeUnchecked av (Some p) (Some n) s = Ok (None, s)"
proof -
  have rep': "rep s ((xs1 @ [(p, rp, vp)]) @ (n, rn, vn) # xs2)" using rep by simp
  note seg = rep_seg(1-3) [OF rep] rep_seg(1-3) [OF rep']
  show ?thesis
  proof (cases "Range_End rp = r_start rn \<and> (\<exists>w. av_Merge av vp rp rn vn = Some w)")
    case True
    then obtain w where adj: "Range_End rp = r_start rn" and w: "av_Merge av vp rp rn vn = Some w" by blast
    have areas: "areas_ok (lower s) (ranges xs1 @ rp # rn # ranges xs2) (upper s)"
      "areas_ok (lower s) ((ranges xs1 @ [rp]) @ rn # ranges xs2) (upper s)" using rep_areas [OF rep] by simp_all
    note join = join_ranges [OF areas_ok_mid(1) [OF areas(1)] areas_ok_mid(1) [OF areas(2)] adj areas_ok_mid(2) [OF areas(1)]]
    from Absorb_rep [OF rep adj, of w] obtain s' where
      "AreaSet_Remove (Some n) (entry_update (Some p) (\<lambda>c. c\<lparr>ae_range := Range_New (r_start (ae_range c)) (r_len (ae_range c) + r_len rn),
          ae_value := Some w\<rparr>) s) = Ok (Some p, s')"
      and s': "same_frame s s'" "rep s' (xs1 @ (p, Range_New (r_start rp) (r_len rp + r_len rn), w) # xs2)" by blast
    then have "AreaSet_MergeUnchecked av (Some p) (Some n) s = Ok (Some p, s')"
      using seg adj w by (simp add: AreaSet_MergeUnchecked_def Let_def)
    moreover have "sem view [(p, Range_New (r_start rp) (r_len rp + r_len rn), w)] = sem view [(p, rp, vp), (n, rn, vn)]"
      using join(3) merge_view [OF good w] by auto
    ultimately show ?thesis
      using s' join(2) by (intro disjI1 exI [of _ s'] exI [of _ "Range_New (r_start rp) (r_len rp + r_len rn)"] exI [of _ w]) simp
  next
    case False
    then show ?thesis using seg by (auto simp: AreaSet_MergeUnchecked_def Let_def split: option.splits)
  qed
qed

end

end
