(* ===== verification/File_Lock.thy ===== *)
theory File_Lock
  imports Area_Ops BTree_Map Wait_List
begin

text \<open>
  Locks on regions of a file: \<^verbatim>\<open>qlib/kernel/fs/lock.rs\<close>, with the callers \<^verbatim>\<open>PosixLock\<close>,
  \<^verbatim>\<open>PosixTestLock\<close> and \<^verbatim>\<open>SysFlock\<close> of \<^verbatim>\<open>qkernel/src/syscalls/sys_file.rs\<close>.

  The locked regions of an inode are an area set whose values are locks: a set of readers or one
  writer. A \<^verbatim>\<open>Lock\<close> is a shared object, but no two segments ever share one (a split copies the
  lock and a merge keeps one of the two), so the model stores locks by value in the segments. A call
  that waits is described by its rounds, as for semaphores: what the other tasks did while the
  caller slept and what the blocker returned; a call whose rounds are used up is still asleep,
  outcome \<open>None\<close>.
\<close>

section \<open>Locks\<close>

datatype LockType = ReadLock | WriteLock

record owner_info =
  oi_pid :: int

record lock =
  lk_Readers :: "(u64, owner_info) btree"
  lk_Writer :: "u64 option"
  lk_WriterInfo :: owner_info

definition OwnerInfo_default :: owner_info where "OwnerInfo_default = \<lparr>oi_pid = 0\<rparr>"

definition Lock_default :: lock where
  "Lock_default = \<lparr>lk_Readers = [], lk_Writer = None, lk_WriterInfo = OwnerInfo_default\<rparr>"

definition Lock_IsHeld :: "lock \<Rightarrow> u64 \<Rightarrow> bool" where
  "Lock_IsHeld l uid = (if lk_Writer l = Some uid then True else bt_get (lk_Readers l) uid \<noteq> None)"

definition Lock_Lock :: "u64 \<Rightarrow> owner_info \<Rightarrow> LockType \<Rightarrow> lock \<Rightarrow> lock result" where
  "Lock_Lock uid owner t l =
    (case t of
       ReadLock \<Rightarrow>
         if bt_get (lk_Readers l) uid \<noteq> None then Ok l
         else if lk_Writer l \<noteq> None then
           (if lk_Writer l \<noteq> Some uid then Err Panic
            else
              let l = l\<lparr>lk_Readers := [], lk_Writer := None\<rparr>
              in Ok (l\<lparr>lk_Readers := bt_insert uid owner (lk_Readers l)\<rparr>))
         else Ok (l\<lparr>lk_Readers := bt_insert uid owner (lk_Readers l)\<rparr>)
     | WriteLock \<Rightarrow>
         if lk_Writer l = Some uid then Ok l
         else
           let readers = length (lk_Readers l)
           in if readers > 0 \<and> readers \<noteq> 1 then Err Panic
              else if readers > 0 \<and> bt_get (lk_Readers l) uid = None then Err Panic
              else Ok (l\<lparr>lk_Readers := [], lk_Writer := Some uid, lk_WriterInfo := owner\<rparr>))"

definition MakeLock :: "u64 \<Rightarrow> LockType \<Rightarrow> owner_info \<Rightarrow> lock" where
  "MakeLock uid t owner =
    (let val = Lock_default
     in case t of
          ReadLock \<Rightarrow> val\<lparr>lk_Readers := bt_insert uid owner (lk_Readers val)\<rparr>
        | WriteLock \<Rightarrow> val\<lparr>lk_Writer := Some uid, lk_WriterInfo := owner\<rparr>)"

definition Lock_Merge :: "lock \<Rightarrow> range \<Rightarrow> range \<Rightarrow> lock \<Rightarrow> lock option" where
  "Lock_Merge v1 r1 r2 v2 =
    (if length (lk_Readers v1) \<noteq> length (lk_Readers v2) then None
     else if \<not> list_all (\<lambda>(i, _). bt_get (lk_Readers v2) i \<noteq> None) (lk_Readers v1) then None
     else if lk_Writer v1 \<noteq> lk_Writer v2 then None
     else Some v2)"

definition Lock_Split :: "lock \<Rightarrow> range \<Rightarrow> u64 \<Rightarrow> lock \<times> lock" where
  "Lock_Split v1 r split =
    (let v2 = Lock_default;
         v2 = v2\<lparr>lk_Readers := fold (\<lambda>(r, ow). bt_insert r ow) (lk_Readers v1) (lk_Readers v2)\<rparr>
     in (v1, v2\<lparr>lk_Writer := lk_Writer v1, lk_WriterInfo := lk_WriterInfo v1\<rparr>))"

definition lock_value :: "lock area_value" where
  "lock_value = \<lparr>av_Merge = Lock_Merge, av_Split = Lock_Split\<rparr>"

section \<open>The locks of an inode\<close>

type_synonym lock_set = "lock area_set"

record locks =
  ls_locks :: lock_set
  ls_queue :: "(u64 \<times> u64) list"

definition Locks_default :: locks where
  "Locks_default = \<lparr>ls_locks = AreaSet_New 0 MAX_RANGE, ls_queue = []\<rparr>"

partial_function (option) Lockable_loop :: "range \<Rightarrow> (lock \<Rightarrow> bool) \<Rightarrow> lock_set \<Rightarrow> entry \<Rightarrow> bool run" where
  [code]: "Lockable_loop r check s seg =
    (if AreaEntry_Ok s seg \<and> r_start (AreaEntry_Range s seg) < Range_End r then
       run_bind (Some (AreaSeg_Value s seg)) (\<lambda>value.
         if \<not> check value then returns False
         else Lockable_loop r check s (AreaSeg_NextSeg s seg))
     else returns True)"

definition Lockable :: "range \<Rightarrow> (lock \<Rightarrow> bool) \<Rightarrow> lock_set \<Rightarrow> bool run" where
  "Lockable r check s = Lockable_loop r check s (AreaSet_LowerBoundSeg s (r_start r))"

definition CanLock_check :: "u64 \<Rightarrow> LockType \<Rightarrow> lock \<Rightarrow> bool" where
  "CanLock_check uid t value =
    (case t of
       ReadLock \<Rightarrow> (case lk_Writer value of None \<Rightarrow> True | Some w \<Rightarrow> w = uid)
     | WriteLock \<Rightarrow>
         if lk_Writer value = None
         then length (lk_Readers value) = 1 \<and> bt_get (lk_Readers value) uid \<noteq> None
         else lk_Writer value = Some uid)"

definition CanLock :: "u64 \<Rightarrow> LockType \<Rightarrow> range \<Rightarrow> lock_set \<Rightarrow> bool run" where
  "CanLock uid t r s = Lockable r (CanLock_check uid t) s"

partial_function (option) Lock_loop ::
    "u64 \<Rightarrow> owner_info \<Rightarrow> LockType \<Rightarrow> range \<Rightarrow> entry \<Rightarrow> lock_set \<Rightarrow> lock_set run" where
  [code]: "Lock_loop uid owner t r seg s =
    (if AreaEntry_Ok s seg \<and> r_start (AreaEntry_Range s seg) < Range_End r then
       run_bind
         (if Range_End (AreaEntry_Range s seg) > Range_End r
          then run_bind (AreaSet_SplitUnchecked lock_value seg (Range_End r) s) (\<lambda>((tmp, _), s). returns (tmp, s))
          else returns (seg, s)) (\<lambda>(seg, s).
         run_bind (Some (AreaSeg_Value s seg)) (\<lambda>value.
         run_bind (Some (Lock_Lock uid owner t value)) (\<lambda>value.
           let s = AreaSeg_SetValue seg value s;
               gap = AreaSeg_NextGap s seg;
               gr = Range_Intersect (AreaGap_Range s gap) r
           in if r_len gr > 0
              then run_bind (Some (AreaSet_Insert lock_value gap gr (MakeLock uid t owner) s)) (\<lambda>(seg, s).
                     Lock_loop uid owner t r (AreaSeg_NextSeg s seg) s)
              else Lock_loop uid owner t r (AreaGap_NextSeg s gap) s)))
     else returns s)"

definition LocksInternal_Lock ::
    "u64 \<Rightarrow> owner_info \<Rightarrow> LockType \<Rightarrow> range \<Rightarrow> lock_set \<Rightarrow> (bool \<times> lock_set) run" where
  "LocksInternal_Lock uid owner t r s =
    (if r_len r = 0 then returns (True, s)
     else run_bind (CanLock uid t r s) (\<lambda>can.
       if \<not> can then returns (False, s)
       else
         let (seg, gap) = AreaSet_Find s (r_start r)
         in run_bind
              (if AreaGap_Ok s gap then
                 run_bind (Some (AreaSet_Insert lock_value gap (Range_Intersect (AreaGap_Range s gap) r)
                     (MakeLock uid t owner) s)) (\<lambda>(seg, s). returns (AreaSeg_NextSeg s seg, s))
               else if r_start (AreaEntry_Range s seg) < r_start r then
                 run_bind (AreaSet_Split lock_value seg (r_start r) s) (\<lambda>((_, tmp), s). returns (tmp, s))
               else returns (seg, s)) (\<lambda>(seg, s).
              run_bind (Lock_loop uid owner t r seg s) (\<lambda>s. returns (True, s)))))"

definition without_reader :: "u64 \<Rightarrow> lock \<Rightarrow> lock" where
  "without_reader uid value =
    Lock_default\<lparr>lk_Readers := fold (\<lambda>(r, ow) m. if r \<noteq> uid then bt_insert r ow m else m) (lk_Readers value) []\<rparr>"

partial_function (option) Unlock_loop :: "u64 \<Rightarrow> range \<Rightarrow> entry \<Rightarrow> lock_set \<Rightarrow> lock_set run" where
  [code]: "Unlock_loop uid r seg s =
    (if AreaEntry_Ok s seg \<and> r_start (AreaEntry_Range s seg) < Range_End r then
       run_bind (Some (AreaSeg_Value s seg)) (\<lambda>value.
       if \<not> Lock_IsHeld value uid then Unlock_loop uid r (AreaSeg_NextSeg s seg) s
       else
         run_bind (AreaSet_Isolate lock_value seg r s) (\<lambda>(seg, s).
         run_bind (Some (AreaSeg_Value s seg)) (\<lambda>value.
           let (remove, s) =
             (if lk_Writer value = Some uid then (True, s)
              else if bt_get (lk_Readers value) uid \<noteq> None then
                (if length (lk_Readers value) = 1 then (True, s)
                 else (False, AreaSeg_SetValue seg (without_reader uid value) s))
              else (False, s))
           in if remove
              then run_bind (Some (AreaSet_Remove seg s)) (\<lambda>(gap, s). Unlock_loop uid r (AreaGap_NextSeg s gap) s)
              else Unlock_loop uid r (AreaSeg_NextSeg s seg) s)))
     else returns s)"

definition LocksInternal_Unlock :: "u64 \<Rightarrow> range \<Rightarrow> lock_set \<Rightarrow> lock_set run" where
  "LocksInternal_Unlock uid r s =
    (if r_len r = 0 then returns s else Unlock_loop uid r (AreaSet_UpperBoundSeg s (r_start r)) s)"

section \<open>Blocking and queries\<close>

definition EVENTMASK_ALL :: u64 where "EVENTMASK_ALL = 0xFFFF"

record lock_round =
  lr_others :: "locks \<Rightarrow> locks"
  lr_block :: "unit result"

fun LockRegion ::
    "u64 \<Rightarrow> u64 \<Rightarrow> owner_info \<Rightarrow> LockType \<Rightarrow> range \<Rightarrow> bool \<Rightarrow> lock_round list \<Rightarrow> locks \<Rightarrow> (bool result \<times> locks) run" where
  "LockRegion e uid owner t r block rds l =
    run_bind (LocksInternal_Lock uid owner t r (ls_locks l)) (\<lambda>(res, s).
      let l = l\<lparr>ls_locks := s\<rparr>
      in if \<not> res \<and> block then
           (let l = l\<lparr>ls_queue := Queue_EventRegister e EVENTMASK_ALL (ls_queue l)\<rparr>
            in case rds of
                 [] \<Rightarrow> None
               | rd # rds \<Rightarrow>
                   (let l = lr_others rd l;
                        l = l\<lparr>ls_queue := Queue_EventUnregister e (ls_queue l)\<rparr>
                    in case lr_block rd of
                         Inl err \<Rightarrow> returns (Err (if err = ErrInterrupted then SysError ERESTARTSYS else err), l)
                       | Inr _ \<Rightarrow> LockRegion e uid owner t r block rds l))
         else returns (Ok res, l))"

definition UnlockRegion :: "u64 \<Rightarrow> range \<Rightarrow> locks \<Rightarrow> (locks \<times> u64 list) run" where
  "UnlockRegion uid r l =
    run_bind (LocksInternal_Unlock uid r (ls_locks l)) (\<lambda>s.
      returns (l\<lparr>ls_locks := s\<rparr>, Queue_Notify EVENTMASK_ALL (ls_queue l)))"

record Flock =
  fl_Type :: int
  fl_Whence :: int
  fl_Start :: int
  fl_Len :: int
  fl_Pid :: int

definition F_RDLCK :: int where "F_RDLCK = 0"
definition F_WRLCK :: int where "F_WRLCK = 1"
definition F_UNLCK :: int where "F_UNLCK = 2"

partial_function (option) testRegion_loop ::
    "range \<Rightarrow> (lock \<Rightarrow> u64 \<Rightarrow> u64 \<Rightarrow> Flock option) \<Rightarrow> lock_set \<Rightarrow> entry \<Rightarrow> Flock option run" where
  [code]: "testRegion_loop r check s seg =
    (if AreaEntry_Ok s seg \<and> r_start (AreaEntry_Range s seg) < Range_End r then
       run_bind (Some (AreaSeg_Value s seg)) (\<lambda>lock.
         case check lock (r_start (AreaEntry_Range s seg)) (r_len (AreaEntry_Range s seg)) of
           Some f \<Rightarrow> returns (Some f)
         | None \<Rightarrow> testRegion_loop r check s (AreaSeg_NextSeg s seg))
     else returns None)"

definition testRegion :: "range \<Rightarrow> (lock \<Rightarrow> u64 \<Rightarrow> u64 \<Rightarrow> Flock option) \<Rightarrow> lock_set \<Rightarrow> Flock option run" where
  "testRegion r check s = testRegion_loop r check s (AreaSet_LowerBoundSeg s (r_start r))"

text \<open>A check that finds a conflict fills in the lock description and stops the search.\<close>

definition TestRegion_check :: "u64 \<Rightarrow> LockType \<Rightarrow> lock \<Rightarrow> u64 \<Rightarrow> u64 \<Rightarrow> Flock option" where
  "TestRegion_check uid t l start len =
    (let conflict = (\<lambda>ty pid. Some \<lparr>fl_Type = ty, fl_Whence = 0, fl_Start = u64_as_i64 start, fl_Len = u64_as_i64 len, fl_Pid = pid\<rparr>)
     in case t of
          ReadLock \<Rightarrow>
            if lk_Writer l = None \<or> lk_Writer l = Some uid then None
            else conflict F_WRLCK (oi_pid (lk_WriterInfo l))
        | WriteLock \<Rightarrow>
            if lk_Writer l = None then
              (case find (\<lambda>(k, _). k \<noteq> uid) (lk_Readers l) of
                 Some (k, v) \<Rightarrow> conflict F_RDLCK (oi_pid v)
               | None \<Rightarrow> None)
            else if lk_Writer l = Some uid then None
            else conflict F_WRLCK (oi_pid (lk_WriterInfo l)))"

definition TestRegion :: "u64 \<Rightarrow> LockType \<Rightarrow> range \<Rightarrow> locks \<Rightarrow> Flock run" where
  "TestRegion uid t r l =
    (let f = \<lparr>fl_Type = F_UNLCK, fl_Whence = 0, fl_Start = 0, fl_Len = 0, fl_Pid = 0\<rparr>
     in run_bind (testRegion r (TestRegion_check uid t) (ls_locks l)) (\<lambda>c.
          returns (case c of None \<Rightarrow> f | Some f \<Rightarrow> f)))"

section \<open>Ranges of lock requests\<close>

definition SEEK_SET :: int where "SEEK_SET = 0"
definition SEEK_CUR :: int where "SEEK_CUR = 1"
definition SEEK_END :: int where "SEEK_END = 2"

definition ComputeRange :: "int \<Rightarrow> int \<Rightarrow> int \<Rightarrow> range result" where
  "ComputeRange start len offset =
    (let offset = i64 (offset + start)
     in if offset < 0 then Err (SysError EINVAL)
        else
          and_then
            (if len > 0 then Ok (i64_as_u64 (i64 (offset + len)), offset)
             else if len < 0 then
               (let signedEnd = offset;
                    offset = i64 (offset + len)
                in if offset < 0 then Err (SysError EINVAL)
                   else if signedEnd < offset then Err (SysError EOVERFLOW)
                   else Ok (i64_as_u64 signedEnd, offset))
             else Ok (MAX_RANGE, offset)) (\<lambda>(end, offset).
            let n = (if end = MAX_RANGE then MAX_RANGE else end - i64_as_u64 offset)
            in Ok (Range_New (i64_as_u64 offset) n)))"

text \<open>The current offset and the size of the file are what \<^verbatim>\<open>Seek\<close> and \<^verbatim>\<open>UnstableAttr\<close> return.\<close>

definition ComputeLockRange :: "int result \<Rightarrow> int result \<Rightarrow> int \<Rightarrow> int \<Rightarrow> int \<Rightarrow> range result" where
  "ComputeLockRange Seek UnstableAttr_Size start len whence =
    and_then
      (if whence = SEEK_SET then Ok 0
       else if whence = SEEK_CUR then Seek
       else if whence = SEEK_END then and_then UnstableAttr_Size (\<lambda>size. Ok (i64 size))
       else Err (SysError EINVAL)) (\<lambda>offset. ComputeRange start len offset)"

section \<open>System calls\<close>

text \<open>What the calls read of the task and of the file: the copied lock description, the identifier
  of the descriptor table and of the open file, the process identifier, the file's flags, offset
  and size, and the wait entry.\<close>

record lock_task =
  lt_CopyIn :: "Flock result"
  lt_CopyOut :: "Flock \<Rightarrow> unit result"
  lt_GetFile :: "unit result"
  lt_fdTbl :: u64
  lt_fileId :: u64
  lt_pid :: int
  lt_Read :: bool
  lt_Write :: bool
  lt_Path :: bool
  lt_Seek :: "int result"
  lt_Size :: "int result"
  lt_entry :: u64

definition PosixLock :: "lock_task \<Rightarrow> bool \<Rightarrow> lock_round list \<Rightarrow> locks \<Rightarrow> (unit result \<times> locks \<times> u64 list) run" where
  "PosixLock task block rds posix =
    (case lt_CopyIn task of
       Inl err \<Rightarrow> returns (Err err, posix, [])
     | Inr flock \<Rightarrow>
       (case ComputeLockRange (lt_Seek task) (lt_Size task) (fl_Start flock) (fl_Len flock) (fl_Whence flock) of
          Inl err \<Rightarrow> returns (Err err, posix, [])
        | Inr rng \<Rightarrow>
          (let lockUniqueID = lt_fdTbl task;
               acquire = (\<lambda>t. run_bind (LockRegion (lt_entry task) lockUniqueID \<lparr>oi_pid = lt_pid task\<rparr> t rng block rds posix)
                 (\<lambda>(r, posix). returns (and_then r (\<lambda>res. if res then Ok () else Err (SysError EAGAIN)), posix, [])))
           in if i64_as_u64 (fl_Type flock) = i64_as_u64 F_RDLCK then
                (if \<not> lt_Read task then returns (Err (SysError EBADF), posix, []) else acquire ReadLock)
              else if i64_as_u64 (fl_Type flock) = i64_as_u64 F_WRLCK then
                (if \<not> lt_Write task then returns (Err (SysError EBADF), posix, []) else acquire WriteLock)
              else if i64_as_u64 (fl_Type flock) = i64_as_u64 F_UNLCK then
                run_bind (UnlockRegion lockUniqueID rng posix) (\<lambda>(posix, woken). returns (Ok (), posix, woken))
              else returns (Err (SysError EINVAL), posix, []))))"

definition PosixTestLock :: "lock_task \<Rightarrow> locks \<Rightarrow> unit run" where
  "PosixTestLock task posix =
    run_bind (Some (lt_CopyIn task)) (\<lambda>flock.
    run_bind (Some (if fl_Type flock = F_RDLCK then Ok ReadLock
                    else if fl_Type flock = F_WRLCK then Ok WriteLock
                    else Err (SysError EINVAL))) (\<lambda>typ.
    run_bind (Some (ComputeLockRange (lt_Seek task) (lt_Size task) (fl_Start flock) (fl_Len flock) (fl_Whence flock))) (\<lambda>r.
    run_bind (TestRegion (lt_fdTbl task) typ r posix) (\<lambda>newFlock. Some (lt_CopyOut task newFlock)))))"

definition LOCK_SH :: int where "LOCK_SH = 1"
definition LOCK_EX :: int where "LOCK_EX = 2"
definition LOCK_NB :: int where "LOCK_NB = 4"
definition LOCK_UN :: int where "LOCK_UN = 8"

definition SysFlock :: "lock_task \<Rightarrow> int \<Rightarrow> lock_round list \<Rightarrow> locks \<Rightarrow> (int result \<times> locks \<times> u64 list) run" where
  "SysFlock task operation rds bsd =
    (case lt_GetFile task of Inl err \<Rightarrow> returns (Err err, bsd, []) | Inr _ \<Rightarrow>
     if lt_Path task then returns (Err (SysError EBADF), bsd, [])
     else
       let nonblocking = (operation AND LOCK_NB \<noteq> 0);
           operation = operation AND NOT LOCK_NB;
           lockUniqueId = lt_fileId task;
           rng = Range_New 0 MAX_RANGE;
           acquire = (\<lambda>t. run_bind (LockRegion (lt_entry task) lockUniqueId OwnerInfo_default t rng (\<not> nonblocking) rds bsd)
             (\<lambda>(r, bsd). returns (and_then r (\<lambda>res. if res then Ok 0
                 else Err (SysError (if nonblocking then EWOULDBLOCK else EINTR))), bsd, [])))
       in if operation = LOCK_EX then acquire WriteLock
          else if operation = LOCK_SH then acquire ReadLock
          else if operation = LOCK_UN then
            run_bind (UnlockRegion lockUniqueId rng bsd) (\<lambda>(bsd, woken). returns (Ok 0, bsd, woken))
          else returns (Err (SysError EINVAL), bsd, []))"

end
