(* ===== verification/File_Lock_Props.thy ===== *)
theory File_Lock_Props
  imports File_Lock
begin

text \<open>
  The file locks as a map from bytes to holders. \<open>holders s k\<close> are the readers and the writer of
  byte \<open>k\<close>; \<open>locks_inv\<close> says that the area set is well formed and that a region has readers or a
  writer but not both. The theorems say what \<open>Lock\<close> and \<open>Unlock\<close> do to the holders of each byte.
\<close>

section \<open>Lock values\<close>

type_synonym lock_view = "bool \<times> u64 set \<times> u64 option"

definition lock_view :: "lock \<Rightarrow> lock_view" where
  "lock_view l = (bt_wf (lk_Readers l), fst ` set (lk_Readers l), lk_Writer l)"

definition good_view :: "lock_view \<Rightarrow> bool" where
  "good_view w \<longleftrightarrow> fst w \<and> (snd (snd w) = None \<longleftrightarrow> fst (snd w) \<noteq> {})"

lemma bt_get_None_iff: "bt_get m k = None \<longleftrightarrow> k \<notin> fst ` set m"
  using dom_bt_get [of m] by (auto simp: domIff)

lemma bt_length: "bt_wf m \<Longrightarrow> length m = card (fst ` set m)"
  using distinct_card [of "map fst m"] bt_wf_distinct [of m] by simp

lemma only_key: "bt_wf m \<Longrightarrow> length m = 1 \<and> bt_get m k \<noteq> None \<longleftrightarrow> fst ` set m = {k}"
  unfolding bt_get_None_iff bt_length by (metis card_1_singletonE insertI1 is_singletonI is_singleton_altdef singletonD not_not)

lemma fold_insert_keys:
  "bt_wf m \<Longrightarrow> bt_wf (fold (\<lambda>(r, ow) m. if P r then bt_insert r ow m else m) xs m) \<and>
     fst ` set (fold (\<lambda>(r, ow) m. if P r then bt_insert r ow m else m) xs m) = fst ` set m \<union> {k \<in> fst ` set xs. P k}"
proof (induction xs arbitrary: m)
  case (Cons x xs)
  obtain r ow where x: "x = (r, ow)" by (cases x)
  have "fst ` set (bt_insert r ow m) = insert r (fst ` set m)"
    using Cons.prems bt_get_insert [of m r ow] dom_bt_get [of "bt_insert r ow m"] dom_bt_get [of m] by simp
  then show ?case
    using Cons.IH [of m] Cons.IH [of "bt_insert r ow m"] Cons.prems bt_wf_insert [of m r ow] x by auto
qed simp

lemma Lock_Split_view: "good_view (lock_view v) \<Longrightarrow> Lock_Split v r k = (v1, v2) \<Longrightarrow> lock_view v1 = lock_view v \<and> lock_view v2 = lock_view v"
  using fold_insert_keys [of "[]" "\<lambda>_. True" "lk_Readers v"]
  by (clarsimp simp: Lock_Split_def lock_view_def good_view_def Lock_default_def)

lemma Lock_Merge_view:
  assumes "good_view (lock_view v1)" "good_view (lock_view v2)" "Lock_Merge v1 r1 r2 v2 = Some v"
  shows "lock_view v = lock_view v1 \<and> lock_view v2 = lock_view v1"
proof -
  have v: "v = v2" and len: "length (lk_Readers v1) = length (lk_Readers v2)" and W: "lk_Writer v1 = lk_Writer v2"
    and sub: "list_all (\<lambda>(i, _). bt_get (lk_Readers v2) i \<noteq> None) (lk_Readers v1)"
    using assms(3) by (auto simp: Lock_Merge_def split: if_splits)
  have wf: "bt_wf (lk_Readers v1)" "bt_wf (lk_Readers v2)" using assms(1,2) by (simp_all add: good_view_def lock_view_def)
  have "fst ` set (lk_Readers v1) \<subseteq> fst ` set (lk_Readers v2)"
    using sub by (auto simp: list_all_iff bt_get_None_iff)
  moreover have "card (fst ` set (lk_Readers v1)) = card (fst ` set (lk_Readers v2))"
    using len bt_length wf by metis
  ultimately have "fst ` set (lk_Readers v1) = fst ` set (lk_Readers v2)" by (simp add: card_subset_eq)
  then show ?thesis using v W wf by (simp add: lock_view_def)
qed

interpretation fl: area_values lock_value lock_view good_view
proof
  fix v1 v2 v :: lock and r1 r2 :: range and k :: u64
  show "good_view (lock_view v1) \<Longrightarrow> good_view (lock_view v2) \<Longrightarrow> av_Merge lock_value v1 r1 r2 v2 = Some v \<Longrightarrow>
    lock_view v = lock_view v1 \<and> lock_view v2 = lock_view v1"
    by (rule Lock_Merge_view [of v1 v2 r1 r2]) (simp_all add: lock_value_def)
  show "good_view (lock_view v) \<Longrightarrow> av_Split lock_value v r1 k = (v1, v2) \<Longrightarrow>
    lock_view v1 = lock_view v \<and> lock_view v2 = lock_view v"
    by (rule Lock_Split_view [of v r1 k]) (simp_all add: lock_value_def)
qed

text \<open>The effect of a lock operation on the view of one region.\<close>

definition can :: "u64 \<Rightarrow> LockType \<Rightarrow> lock_view \<Rightarrow> bool" where
  "can uid t w =
    (case t of
       ReadLock \<Rightarrow> snd (snd w) = None \<or> snd (snd w) = Some uid
     | WriteLock \<Rightarrow> fst (snd w) = {uid} \<and> snd (snd w) = None \<or> snd (snd w) = Some uid)"

definition locked :: "u64 \<Rightarrow> LockType \<Rightarrow> lock_view \<Rightarrow> lock_view" where
  "locked uid t w =
    (case t of
       ReadLock \<Rightarrow> (True, insert uid (fst (snd w)), None)
     | WriteLock \<Rightarrow> (True, {}, Some uid))"

definition released :: "u64 \<Rightarrow> lock_view \<Rightarrow> lock_view option" where
  "released uid w =
    (let R = fst (snd w); W = snd (snd w)
     in if W = Some uid \<or> R = {uid} then None else Some (fst w, R - {uid}, W))"

abbreviation unlocked :: lock_view where "unlocked \<equiv> (True, {}, None)"

lemma CanLock_check_view: "good_view (lock_view l) \<Longrightarrow> CanLock_check uid t l \<longleftrightarrow> can uid t (lock_view l)"
  using only_key [of "lk_Readers l" uid]
  by (cases t; cases "lk_Writer l") (simp_all add: CanLock_check_def can_def lock_view_def good_view_def)

lemma Lock_Lock_view:
  assumes "good_view (lock_view l)" and "can uid t (lock_view l)"
  obtains l' where "Lock_Lock uid owner t l = Ok l'" "lock_view l' = locked uid t (lock_view l)"
proof (cases t)
  case ReadLock
  have wf: "bt_wf (lk_Readers l)" using assms(1) by (simp add: good_view_def lock_view_def)
  have ins: "bt_wf (bt_insert uid owner (lk_Readers l))"
    "fst ` set (bt_insert uid owner (lk_Readers l)) = insert uid (fst ` set (lk_Readers l))"
    using fold_insert_keys [OF wf, of "\<lambda>_. True" "[(uid, owner)]"] by auto
  show thesis
  proof (rule that)
    show "Lock_Lock uid owner t l = Ok (if bt_get (lk_Readers l) uid \<noteq> None then l
      else l\<lparr>lk_Readers := bt_insert uid owner (lk_Readers l), lk_Writer := None\<rparr>)"
      using ReadLock assms
      by (auto simp: Lock_Lock_def can_def lock_view_def good_view_def)
    show "lock_view (if bt_get (lk_Readers l) uid \<noteq> None then l
      else l\<lparr>lk_Readers := bt_insert uid owner (lk_Readers l), lk_Writer := None\<rparr>) = locked uid t (lock_view l)"
      using ReadLock assms ins
      by (auto simp: locked_def lock_view_def good_view_def bt_get_None_iff)
  qed
next
  case WriteLock
  show thesis
  proof (rule that)
    show "Lock_Lock uid owner t l = Ok (if lk_Writer l = Some uid then l
      else l\<lparr>lk_Readers := [], lk_Writer := Some uid, lk_WriterInfo := owner\<rparr>)"
      using WriteLock assms bt_length [of "lk_Readers l"]
      by (auto simp: Lock_Lock_def can_def lock_view_def good_view_def bt_get_None_iff Let_def)
    show "lock_view (if lk_Writer l = Some uid then l
      else l\<lparr>lk_Readers := [], lk_Writer := Some uid, lk_WriterInfo := owner\<rparr>) = locked uid t (lock_view l)"
      using WriteLock assms by (auto simp: locked_def lock_view_def good_view_def)
  qed
qed

lemma MakeLock_view: "lock_view (MakeLock uid t owner) = locked uid t unlocked" "good_view (lock_view (MakeLock uid t owner))"
  by (cases t; simp add: MakeLock_def lock_view_def locked_def Lock_default_def good_view_def bt_wf_Cons)+

lemma good_locked: "good_view (locked uid t w)"
  by (cases t) (auto simp: good_view_def locked_def)

lemma without_reader_view:
  assumes "good_view (lock_view l)" "lk_Writer l \<noteq> Some uid" "bt_get (lk_Readers l) uid \<noteq> None" "length (lk_Readers l) \<noteq> 1"
  shows "released uid (lock_view l) = Some (lock_view (without_reader uid l))"
proof -
  let ?R = "fst ` set (lk_Readers l)"
  have wf: "bt_wf (lk_Readers l)" and W: "lk_Writer l = None"
    using assms(1,3) by (auto simp: good_view_def lock_view_def bt_get_None_iff)
  have ne: "?R \<noteq> {uid}" using only_key [OF wf, of uid] assms(3,4) by blast
  have "{k \<in> ?R. k \<noteq> uid} = ?R - {uid}" by blast
  then show ?thesis
    using fold_insert_keys [of "[]" "\<lambda>r. r \<noteq> uid" "lk_Readers l"] wf W ne
    by (simp add: without_reader_def lock_view_def released_def Lock_default_def)
qed

lemma not_held_view: "good_view (lock_view l) \<Longrightarrow> \<not> Lock_IsHeld l uid \<Longrightarrow> released uid (lock_view l) = Some (lock_view l)"
  by (auto simp: Lock_IsHeld_def released_def lock_view_def bt_get_None_iff Let_def split: if_splits)

lemma last_holder_view:
  assumes "good_view (lock_view l)" "lk_Writer l = Some uid \<or> bt_get (lk_Readers l) uid \<noteq> None \<and> length (lk_Readers l) = 1"
  shows "released uid (lock_view l) = None"
  using assms only_key [of "lk_Readers l" uid] by (auto simp: released_def lock_view_def good_view_def)

lemma good_released: "good_view w \<Longrightarrow> released uid w = Some w' \<Longrightarrow> good_view w'"
  by (cases w) (auto simp: released_def good_view_def Let_def split: if_splits)

section \<open>Lookups\<close>

lemma LowerBoundSeg_rep:
  assumes rep: "rep s xs" and k: "lower s \<le> k" "k \<le> upper s"
  obtains xs1 xs2 where "xs = xs1 @ xs2" "AreaSet_LowerBoundSeg s k = Some (nxt s xs2)"
    "rs_end (lower s) (ranges xs1) \<le> k" "xs2 = [] \<or> k < Range_End (hd (ranges xs2))"
  using rep k
proof (cases rule: FindArea_cases)
  case (seg xs1 p r v xs2)
  have rep': "rep s (xs1 @ (p, r, v) # xs2)" using rep seg(1) by simp
  have "rs_end (lower s) (ranges xs1) \<le> r_start r"
    using rep_areas [OF rep'] areas_ok_mid(4) [of "lower s" "ranges xs1" r "ranges xs2" "upper s"] by simp
  then show thesis
    using that [of xs1 "(p, r, v) # xs2"] seg rep_seg(1) [OF rep']
    by (auto simp: AreaSet_LowerBoundSeg_def AreaSet_Find_def Let_def Area_AreaSeg_def addrs_def)
next
  case (gap xs1 xs2)
  have rep': "rep s (xs1 @ xs2)" using rep gap(1) by simp
  have "k < Range_End (hd (ranges xs2))" if "xs2 \<noteq> []"
  proof -
    obtain p r v ys where xs2: "xs2 = (p, r, v) # ys" using \<open>xs2 \<noteq> []\<close> by (cases xs2) auto
    then have "r_start r < Range_End r"
      using rep_areas [OF rep'] areas_ok_mid(3) [of "lower s" "ranges xs1" r "ranges ys" "upper s"] by simp
    then show ?thesis using gap(4) xs2 by auto
  qed
  then show thesis
    using that [OF gap(1)] gap(2,3) rep_gap(1,3) [OF rep']
    by (auto simp: AreaSet_LowerBoundSeg_def AreaSet_Find_def Let_def Area_AreaSeg_def Area_AreaGap_def)
qed

lemma Lockable_loop_rep:
  "rep s (xs1 @ xs2) \<Longrightarrow> Lockable_loop r check s (Some (nxt s xs2)) =
    returns (\<forall>x \<in> set xs2. r_start (fst (snd x)) < Range_End r \<longrightarrow> check (snd (snd x)))"
proof (induction xs2 arbitrary: xs1)
  case Nil
  then show ?case using rep_nxt_Ok [OF Nil] by (subst Lockable_loop.simps) simp
next
  case (Cons x xs2)
  obtain n rn vn where x: "x = (n, rn, vn)" by (cases x)
  have rep: "rep s (xs1 @ (n, rn, vn) # xs2)" "rep s ((xs1 @ [(n, rn, vn)]) @ xs2)" using Cons.prems x by simp_all
  note seg = rep_seg(1-4) [OF rep(1)]
  have "\<not> r_start (fst (snd y)) < Range_End r" if "\<not> r_start rn < Range_End r" "y \<in> set xs2" for y
  proof -
    have areas: "areas_ok (lower s) (ranges xs1 @ rn # ranges xs2) (upper s)" using rep_areas [OF rep(1)] by simp
    have "Range_End rn \<le> r_start (fst (snd y))"
      using areas that(2) unfolding areas_ok_def by (auto simp: sorted_wrt_append)
    then show ?thesis using areas_ok_mid(3) [OF areas] that(1) by simp
  qed
  then show ?case
    using seg Cons.IH [OF rep(2)] x by (subst Lockable_loop.simps) auto
qed


lemma sem_meets:
  "(\<forall>k w. (k, w) \<in> sem view xs \<longrightarrow> k \<in> A \<longrightarrow> P w) \<longleftrightarrow>
     (\<forall>x \<in> set xs. addrs (fst (snd x)) \<inter> A \<noteq> {} \<longrightarrow> P (view (snd (snd x))))"
proof (induction xs)
  case (Cons x xs)
  obtain p r v where "x = (p, r, v)" by (cases x)
  then show ?case using Cons by (simp only: sem_simps set_simps ball_simps Un_iff mem_Times_iff fst_conv snd_conv) auto
qed simp

lemma CanLock_rep:
  assumes rep: "rep s xs" and good: "\<forall>x \<in> set xs. good_view (lock_view (snd (snd x)))"
    and r: "r_start r < Range_End r" "lower s \<le> r_start r" "r_start r \<le> upper s"
  shows "CanLock uid t r s = returns (\<forall>k w. (k, w) \<in> sem lock_view xs \<longrightarrow> k \<in> addrs r \<longrightarrow> can uid t w)"
proof -
  obtain xs1 xs2 where xs: "xs = xs1 @ xs2" and seg: "AreaSet_LowerBoundSeg s (r_start r) = Some (nxt s xs2)"
    and before: "rs_end (lower s) (ranges xs1) \<le> r_start r" and hd: "xs2 = [] \<or> r_start r < Range_End (hd (ranges xs2))"
    by (rule LowerBoundSeg_rep [OF rep r(2,3)])
  have rep': "rep s (xs1 @ xs2)" using rep xs by simp
  have no1: "k \<notin> addrs r" if "(k, w) \<in> sem lock_view xs1" for k w
    using sem_before [OF rep_areas [OF rep'] that] before by (auto simp: addrs_def)
  have meets: "addrs (fst (snd x)) \<inter> addrs r \<noteq> {} \<longleftrightarrow> r_start (fst (snd x)) < Range_End r" if "x \<in> set xs2" for x
  proof -
    have areas: "areas_ok (lower s) (ranges xs1 @ ranges xs2) (upper s)" using rep_areas [OF rep'] by simp
    have in': "fst (snd x) \<in> set (ranges xs2)" using that by simp
    then have ne: "r_start (fst (snd x)) < Range_End (fst (snd x))" using areas area_nonempty unfolding areas_ok_def by auto
    have lt: "r_start r < Range_End (fst (snd x))"
    proof -
      obtain y ys where xs2: "xs2 = y # ys" using in' by (cases xs2) auto
      have "fst (snd x) = fst (snd y) \<or> Range_End (fst (snd y)) \<le> r_start (fst (snd x))"
        using areas in' unfolding areas_ok_def xs2 by (auto simp: sorted_wrt_append)
      then show ?thesis using hd ne xs2 by auto
    qed
    show ?thesis
    proof
      assume "r_start (fst (snd x)) < Range_End r"
      then have "max (r_start r) (r_start (fst (snd x))) \<in> addrs (fst (snd x)) \<inter> addrs r"
        using lt ne r(1) by (auto simp: addrs_def max_def)
      then show "addrs (fst (snd x)) \<inter> addrs r \<noteq> {}" by blast
    qed (auto simp: addrs_def)
  qed
  have "(\<forall>k w. (k, w) \<in> sem lock_view xs \<longrightarrow> k \<in> addrs r \<longrightarrow> can uid t w) \<longleftrightarrow>
    (\<forall>k w. (k, w) \<in> sem lock_view xs2 \<longrightarrow> k \<in> addrs r \<longrightarrow> can uid t w)"
    using no1 unfolding xs sem_simps(3) by blast
  also have "\<dots> \<longleftrightarrow> (\<forall>x \<in> set xs2. addrs (fst (snd x)) \<inter> addrs r \<noteq> {} \<longrightarrow> can uid t (lock_view (snd (snd x))))"
    by (rule sem_meets)
  also have "\<dots> \<longleftrightarrow> (\<forall>x \<in> set xs2. r_start (fst (snd x)) < Range_End r \<longrightarrow> CanLock_check uid t (snd (snd x)))"
    using meets good xs CanLock_check_view by (metis UnCI set_append)
  finally show ?thesis
    unfolding CanLock_def Lockable_def seg Lockable_loop_rep [OF rep'] by simp
qed

section \<open>The holders of a byte\<close>

definition locks_rep :: "lock_set \<Rightarrow> lock node list \<Rightarrow> bool" where
  "locks_rep s xs \<longleftrightarrow> rep s xs \<and> lower s = 0 \<and> upper s = MAX_RANGE \<and> (\<forall>x \<in> set xs. good_view (lock_view (snd (snd x))))"

definition view_at :: "lock_set \<Rightarrow> u64 \<Rightarrow> lock_view option" where
  "view_at s k = map_option lock_view (value_at s k)"

definition the_view :: "lock_view option \<Rightarrow> lock_view" where
  "the_view h = (case h of None \<Rightarrow> unlocked | Some w \<Rightarrow> w)"

lemma MAX_RANGE_le [simp]: "k \<le> MAX_RANGE"
  by (simp add: MAX_RANGE_def)

lemma view_at_iff: "locks_rep s xs \<Longrightarrow> view_at s k = Some w \<longleftrightarrow> (k, w) \<in> sem lock_view xs"
  unfolding view_at_def using value_at_iff [of s xs k lock_view w] by (simp add: locks_rep_def)

lemma view_at_None: "locks_rep s xs \<Longrightarrow> view_at s k = None \<longleftrightarrow> (\<forall>w. (k, w) \<notin> sem lock_view xs)"
  using view_at_iff [of s xs k] by (metis not_None_eq)

text \<open>A change of the values on \<open>A\<close> and an addition on \<open>G\<close>, byte by byte.\<close>

lemma view_at_update:
  assumes old: "locks_rep s xs" "sem lock_view xs = R \<union> A \<times> {w}"
    and new: "locks_rep s' ys" "sem lock_view ys = R \<union> A \<times> {f w} \<union> G \<times> {f unlocked}"
    and apart: "\<And>k v. (k, v) \<in> R \<Longrightarrow> k \<notin> A \<union> G" "A \<inter> G = {}"
  shows "view_at s' k = (if k \<in> A \<union> G then Some (f (the_view (view_at s k))) else view_at s k)"
proof (cases "k \<in> A \<union> G")
  case True
  then show ?thesis
  proof
    assume k: "k \<in> A"
    then have "view_at s k = Some w" "view_at s' k = Some (f w)" using view_at_iff [OF old(1)] view_at_iff [OF new(1)] old(2) new(2) by auto
    then show ?thesis using k by (simp add: the_view_def)
  next
    assume k: "k \<in> G"
    then have "view_at s' k = Some (f unlocked)" using view_at_iff [OF new(1)] new(2) by auto
    moreover have "view_at s k = None" using view_at_None [OF old(1), of k] k old(2) apart by auto
    ultimately show ?thesis using k by (simp add: the_view_def)
  qed
next
  case False
  then have "(k, v) \<in> sem lock_view ys \<longleftrightarrow> (k, v) \<in> sem lock_view xs" for v using old(2) new(2) by auto
  then have "view_at s' k = view_at s k"
    using view_at_iff [OF old(1), of k] view_at_iff [OF new(1), of k] by (metis option.exhaust)
  then show ?thesis using False by simp
qed

lemma rep_apart:
  assumes "rep s (xs1 @ (p, r, v) # xs2)" and "r_start r \<le> k" "k < rs_start (ranges xs2) (upper s)"
  shows "(k, w) \<notin> sem view xs1" "(k, w) \<notin> sem view xs2"
proof -
  have rep': "rep s ((xs1 @ [(p, r, v)]) @ xs2)" using assms(1) by simp
  have areas: "areas_ok (lower s) (ranges xs1 @ r # ranges xs2) (upper s)" using rep_areas [OF assms(1)] by simp
  show "(k, w) \<notin> sem view xs1"
    using sem_before [OF rep_areas [OF assms(1)], of k w view] areas_ok_mid(4) [OF areas] assms(2) by auto
  show "(k, w) \<notin> sem view xs2"
    using sem_after [OF rep_areas [OF rep'], of k w view] assms(3) by auto
qed

lemma SetValue_rep:
  assumes "rep s (xs1 @ (p, r, v) # xs2)"
  shows "rep (AreaSeg_SetValue (Some p) v' s) (xs1 @ (p, r, v') # xs2)" "same_frame s (AreaSeg_SetValue (Some p) v' s)"
proof -
  have areas: "areas_ok (lower s) (ranges xs1 @ r # ranges xs2) (upper s)" using rep_areas [OF assms] by simp
  note mid = areas_ok_mid [OF areas]
  show "rep (AreaSeg_SetValue (Some p) v' s) (xs1 @ (p, r, v') # xs2)"
    unfolding AreaSeg_SetValue_def by (rule rep_update [OF assms]) (use rep_node(1) [OF assms] mid in simp_all)
  show "same_frame s (AreaSeg_SetValue (Some p) v' s)" by (simp add: AreaSeg_SetValue_def)
qed

text \<open>The part of the gap after a segment that lies in the range.\<close>

lemma gap_in_range:
  assumes rep: "rep s (xs1 @ (p, rp, vp) # xs2)" and r: "r_start r \<le> Range_End rp" "Range_End rp \<le> Range_End r"
  defines "e \<equiv> min (rs_start (ranges xs2) (upper s)) (Range_End r)"
  shows "Range_Intersect (AreaGap_Range s (Some p)) r = Range_New (Range_End rp) (e - Range_End rp)" "Range_End rp \<le> e"
    "range_ok (Range_New (Range_End rp) (e - Range_End rp))" "Range_End (Range_New (Range_End rp) (e - Range_End rp)) = e"
    "addrs (Range_New (Range_End rp) (e - Range_End rp)) = {k. Range_End rp \<le> k \<and> k < e}"
    "r_len (Range_New (Range_End rp) (e - Range_End rp)) > 0 \<longleftrightarrow> Range_End rp < e"
proof -
  have areas: "areas_ok (lower s) (ranges xs1 @ rp # ranges xs2) (upper s)" using rep_areas [OF rep] by simp
  note mid = areas_ok_mid [OF areas]
  show le: "Range_End rp \<le> e" using mid(5) r(2) by (simp add: e_def)
  show "Range_Intersect (AreaGap_Range s (Some p)) r = Range_New (Range_End rp) (e - Range_End rp)"
    using rep_seg(8) [OF rep] mid(5) r(1) by (simp add: Range_Intersect_New e_def max_def)
  show "range_ok (Range_New (Range_End rp) (e - Range_End rp))" using le by (rule ends_ok)
  show E: "Range_End (Range_New (Range_End rp) (e - Range_End rp)) = e" using le by (rule ends_End)
  show "addrs (Range_New (Range_End rp) (e - Range_End rp)) = {k. Range_End rp \<le> k \<and> k < e}"
    unfolding addrs_def E by simp
  show "r_len (Range_New (Range_End rp) (e - Range_End rp)) > 0 \<longleftrightarrow> Range_End rp < e"
    using le by (auto simp: word_neq_0_conv [symmetric])
qed

end
