(* ===== verification/File_Lock_Thms.thy ===== *)
theory File_Lock_Thms
  imports File_Lock_Props
begin

text \<open>
  The loops of \<open>Lock\<close> and \<open>Unlock\<close>, each first as one step on the list of segments, and the theorems
  on the holders of each byte.
\<close>

lemma locks_rep_views:
  assumes "rep s' ys" "same_frame s s'" "locks_rep s xs"
    and "\<And>k v. (k, v) \<in> sem lock_view ys \<Longrightarrow> (k, v) \<in> sem lock_view xs \<or> good_view v"
  shows "locks_rep s' ys"
proof -
  have "\<forall>(k, v) \<in> sem lock_view xs. good_view v"
    using assms(3) sem_values [of "lower s" xs "upper s" good_view lock_view] rep_areas [of s xs] by (simp add: locks_rep_def)
  then have "\<forall>(k, v) \<in> sem lock_view ys. good_view v" using assms(4) by blast
  then show ?thesis
    using assms(1,3) same_frameD [OF assms(2)] sem_values [of "lower s'" ys "upper s'" good_view lock_view] rep_areas [of s' ys]
    by (simp add: locks_rep_def)
qed

lemma locks_repI:
  assumes "rep s' ys" "same_frame s s'" "locks_rep s xs" "sem lock_view ys = sem lock_view xs \<union> A \<times> {w}" "A \<noteq> {} \<Longrightarrow> good_view w"
  shows "locks_rep s' ys"
  by (rule locks_rep_views [OF assms(1-3)]) (use assms(4,5) in auto)

section \<open>One step of Lock\<close>

text \<open>The step from segment \<open>n\<close> leaves the loop in front of the segments \<open>zs\<close>. It has locked bytes
  of the range below \<open>zs\<close>, all of them unless a byte was already held in exactly the requested way.\<close>

definition lock_progress ::
    "u64 \<Rightarrow> LockType \<Rightarrow> range \<Rightarrow> u64 \<Rightarrow> u64 \<Rightarrow> u64 set \<Rightarrow> lock_set \<Rightarrow> lock_set \<Rightarrow> bool" where
  "lock_progress uid t r from till D s s' \<longleftrightarrow>
     D \<subseteq> {k \<in> addrs r. from \<le> k \<and> k < till} \<and>
     (\<forall>k. view_at s' k = (if k \<in> D then Some (locked uid t (the_view (view_at s k))) else view_at s k)) \<and>
     ((\<forall>k \<in> addrs r. from \<le> k \<longrightarrow> view_at s k \<noteq> Some (locked uid t unlocked)) \<longrightarrow>
        D = {k \<in> addrs r. from \<le> k \<and> k < till}) \<and>
     (\<forall>k \<in> addrs r - D. from \<le> k \<longrightarrow> k < till \<longrightarrow> view_at s k = None \<or> view_at s k = Some (locked uid t unlocked))"

text \<open>A segment that runs past the end of the range is cut there.\<close>

lemma Lock_step_last:
  assumes loc: "locks_rep s (xs1 @ (n, rn, vn) # xs2)" and r: "r_start r \<le> r_start rn"
    and seg: "r_start rn < Range_End r" "Range_End r < Range_End rn" and can: "can uid t (lock_view vn)"
  obtains s' ys D where "Lock_loop uid owner t r (Some n) s = returns s'" "locks_rep s' ys"
    "lock_progress uid t r (r_start rn) (Range_End r) D s s'"
proof -
  have rep: "rep s (xs1 @ (n, rn, vn) # xs2)" and good: "good_view (lock_view vn)" using loc by (auto simp: locks_rep_def)
  obtain m s1 r1 v1 r2 v2 where sp: "AreaSet_SplitUnchecked lock_value (Some n) (Range_End r) s = returns ((Some n, Some m), s1)"
    "same_frame s s1" "rep s1 (xs1 @ (n, r1, v1) # (m, r2, v2) # xs2)" "lock_view v1 = lock_view vn" "lock_view v2 = lock_view vn"
    "r_start r1 = r_start rn" "Range_End r1 = Range_End r" "r_start r2 = Range_End r" "Range_End r2 = Range_End rn"
    "addrs rn = addrs r1 \<union> addrs r2"
    by (rule fl.SplitUnchecked_sem [OF rep good seg])
  obtain l' where l': "Lock_Lock uid owner t v1 = Ok l'" "lock_view l' = locked uid t (lock_view vn)"
    using Lock_Lock_view [of v1 uid t owner] good can sp(4) by metis
  define s2 where "s2 = AreaSeg_SetValue (Some n) l' s1"
  have rep2: "rep s2 (xs1 @ (n, r1, l') # (m, r2, v2) # xs2)" "same_frame s1 s2"
    unfolding s2_def by (rule SetValue_rep [OF sp(3)])+
  have rep2': "rep s2 ((xs1 @ [(n, r1, l')]) @ (m, r2, v2) # xs2)" using rep2(1) by simp
  note segs = rep_seg [OF rep] and segs1 = rep_seg [OF sp(3)] and segs2 = rep_seg [OF rep2(1)] and segm = rep_seg [OF rep2']
  have gap: "Range_Intersect (AreaGap_Range s2 (Some n)) r = Range_New (Range_End r1) (min (r_start r2) (Range_End r) - Range_End r1)"
    using gap_in_range(1) [OF rep2(1), of r] r seg sp(7) by simp
  have stop: "Lock_loop uid owner t r (Some m) s2 = returns s2"
    using segm(1,2) sp(8) by (subst Lock_loop.simps) simp
  have "Lock_loop uid owner t r (Some n) s = returns s2"
    using segs(1,2) seg sp(1) segs1(3) l'(1) segs2(6,7) gap sp(7,8) stop
    by (subst Lock_loop.simps) (simp add: Let_def flip: s2_def)
  moreover have loc2: "locks_rep s2 (xs1 @ (n, r1, l') # (m, r2, v2) # xs2)"
    using rep2(1) loc same_frameD [OF sp(2)] same_frameD [OF rep2(2)] l'(2) sp(5) good good_locked
    by (simp add: locks_rep_def)
  moreover have "lock_progress uid t r (r_start rn) (Range_End r) (addrs r1) s s2"
  proof -
    let ?R = "sem lock_view xs1 \<union> addrs r2 \<times> {lock_view vn} \<union> sem lock_view xs2"
    have D: "addrs r1 = {k \<in> addrs r. r_start rn \<le> k \<and> k < Range_End r}"
      unfolding addrs_def using sp(6,7) r by auto
    have "view_at s2 k = (if k \<in> addrs r1 \<union> {} then Some (locked uid t (the_view (view_at s k))) else view_at s k)" for k
    proof (rule view_at_update [where R = ?R, OF loc _ loc2])
      show "sem lock_view (xs1 @ (n, rn, vn) # xs2) = ?R \<union> addrs r1 \<times> {lock_view vn}" using sp(10) by auto
      show "sem lock_view (xs1 @ (n, r1, l') # (m, r2, v2) # xs2) =
        ?R \<union> addrs r1 \<times> {locked uid t (lock_view vn)} \<union> {} \<times> {locked uid t unlocked}" using l'(2) sp(5) by auto
      fix k v assume "(k, v) \<in> ?R"
      then show "k \<notin> addrs r1 \<union> {}"
        using rep_apart [OF rep2(1), of k v lock_view] sp(6,7,8) by (auto simp: addrs_def)
    qed simp
    then show ?thesis unfolding lock_progress_def using D by simp
  qed
  ultimately show thesis using that by blast
qed

text \<open>Filling a gap as far as the range goes. The new region may be merged with the segment after it,
  which is then skipped.\<close>

lemma Insert_made:
  fixes uid :: u64 and t :: LockType
  assumes loc: "locks_rep s (xs1 @ xs2)" and g: "rs_end (lower s) (ranges xs1) \<le> g" "g < e"
    and e: "e = min (rs_start (ranges xs2) MAX_RANGE) (Range_End r)"
  defines "made \<equiv> locked uid t unlocked"
  obtains q s' ys zs where
    "AreaSet_Insert lock_value (Some (prv s xs1)) (Range_New g (e - g)) (MakeLock uid t owner) s = Ok (Some q, s')"
    "AreaSeg_NextSeg s' (Some q) = Some (nxt s' zs)" "locks_rep s' (ys @ zs)"
    "sem lock_view (ys @ zs) = sem lock_view (xs1 @ xs2) \<union> {k. g \<le> k \<and> k < e} \<times> {made}"
    "zs = xs2 \<or> (\<exists>x. xs2 = x # zs)" "e \<le> rs_start (ranges zs) MAX_RANGE"
    "rs_start (ranges zs) MAX_RANGE \<noteq> e \<Longrightarrow> Range_End r \<le> e \<or> (e, made) \<in> sem lock_view (xs1 @ xs2)"
    "\<And>k w. e \<le> k \<Longrightarrow> k < rs_start (ranges zs) MAX_RANGE \<Longrightarrow> (k, w) \<in> sem lock_view (xs1 @ xs2) \<Longrightarrow> w = made"
proof -
  let ?gr = "Range_New g (e - g)"
  have rep: "rep s (xs1 @ xs2)" and up: "upper s = MAX_RANGE"
    and nodes: "\<forall>x \<in> set (xs1 @ xs2). good_view (lock_view (snd (snd x)))" using loc by (auto simp: locks_rep_def)
  have gr: "range_ok ?gr" "Range_End ?gr = e" "r_len ?gr \<noteq> 0" using g(2) by (simp_all add: ends_ok)
  have addrs_gr: "addrs ?gr = {k. g \<le> k \<and> k < e}" unfolding addrs_def gr(2) by simp
  have fit: "rs_end (lower s) (ranges xs1) \<le> r_start ?gr" "Range_End ?gr \<le> rs_start (ranges xs2) (upper s)"
    using g(1) e up unfolding gr(2) by simp_all
  obtain res where ins: "AreaSet_Insert lock_value (Some (prv s xs1)) ?gr (MakeLock uid t owner) s = Ok res"
    and res: "inserted lock_view ?gr (MakeLock uid t owner) s xs1 xs2 res"
    by (rule fl.Insert_sem [OF rep gr(1,3) fit nodes MakeLock_view(2)])
  define T where "T = sem lock_view xs1 \<union> {k. g \<le> k \<and> k < e} \<times> {made}"
  obtain q s2 ys1 rq vq ys2 where q: "res = (Some q, s2)" "same_frame s s2" "rep s2 (ys1 @ (q, rq, vq) # ys2)"
    and alt: "ys2 = xs2 \<and> sem lock_view (ys1 @ [(q, rq, vq)]) = T \<or>
      (\<exists>n rn vn. xs2 = (n, rn, vn) # ys2 \<and> lock_view vn = made \<and> r_start rn = e \<and>
        sem lock_view (ys1 @ [(q, rq, vq)]) = T \<union> addrs rn \<times> {made})"
    using res unfolding inserted_def MakeLock_view(1) gr(2) addrs_gr T_def made_def by blast
  have sem2: "sem lock_view ((ys1 @ [(q, rq, vq)]) @ ys2) = sem lock_view (xs1 @ xs2) \<union> {k. g \<le> k \<and> k < e} \<times> {made}"
    unfolding sem_simps(3) [of _ "ys1 @ [(q, rq, vq)]" ys2] sem_simps(3) [of _ xs1 xs2]
    using alt by (elim disjE exE conjE) (auto simp: T_def simp del: sem_simps(3))
  have rep2: "rep s2 ((ys1 @ [(q, rq, vq)]) @ ys2)" using q(3) by simp
  have loc2: "locks_rep s2 ((ys1 @ [(q, rq, vq)]) @ ys2)"
    by (rule locks_repI [OF rep2 q(2) loc sem2]) (simp add: made_def good_locked)
  have merged: "e \<le> rs_start (ranges ys2) MAX_RANGE \<and> (e, made) \<in> sem lock_view (xs1 @ xs2)"
    if xs2: "xs2 = (n, rn, vn) # ys2" "lock_view vn = made" "r_start rn = e" for n rn vn
  proof -
    have "areas_ok (lower s) (ranges xs1 @ rn # ranges ys2) (upper s)" using rep_areas [OF rep] xs2(1) by simp
    from areas_ok_mid(3,5) [OF this] show ?thesis using xs2 up by (auto simp: addrs_def)
  qed
  have till: "e \<le> rs_start (ranges ys2) MAX_RANGE \<and>
      (rs_start (ranges ys2) MAX_RANGE \<noteq> e \<longrightarrow> Range_End r \<le> e \<or> (e, made) \<in> sem lock_view (xs1 @ xs2))"
  proof (cases "ys2 = xs2")
    case True
    then show ?thesis unfolding e by (auto simp: min_def)
  next
    case False
    then show ?thesis using alt merged by blast
  qed
  have zs: "ys2 = xs2 \<or> (\<exists>x. xs2 = x # ys2)" using alt by blast
  have skipped: "w = made" if k: "e \<le> k" "k < rs_start (ranges ys2) MAX_RANGE" "(k, w) \<in> sem lock_view (xs1 @ xs2)" for k w
  proof -
    have "(k, w) \<notin> sem lock_view xs1" using sem_before [OF rep_areas [OF rep], of k w lock_view] g k(1) by auto
    then have in2: "(k, w) \<in> sem lock_view xs2" using k(3) by simp
    show ?thesis using alt
    proof (elim disjE exE conjE)
      assume "ys2 = xs2"
      then show ?thesis using sem_after [OF rep_areas [OF rep], of k w lock_view] in2 k(2) up by auto
    next
      fix n rn vn assume x: "xs2 = (n, rn, vn) # ys2" "lock_view vn = made"
      then have "rep s ((xs1 @ [(n, rn, vn)]) @ ys2)" using rep by simp
      then have "(k, w) \<notin> sem lock_view ys2" using sem_after [OF rep_areas, of s "xs1 @ [(n, rn, vn)]" ys2 k w lock_view] k(2) up by auto
      then show ?thesis using in2 x by simp
    qed
  qed
  show thesis
    by (rule that [OF ins [unfolded q(1)] rep_seg(4) [OF q(3)] loc2 sem2 zs]) (use till in blast, use till in blast, rule skipped)
qed

text \<open>A segment inside the range is locked, and the gap after it is filled as far as the range goes.\<close>

lemma Lock_step_next:
  assumes loc: "locks_rep s (xs1 @ (n, rn, vn) # xs2)" and r: "r_start r \<le> r_start rn"
    and seg: "Range_End rn \<le> Range_End r" and can: "can uid t (lock_view vn)"
  obtains s' ys zs D where "Lock_loop uid owner t r (Some n) s = Lock_loop uid owner t r (Some (nxt s' zs)) s'"
    "locks_rep s' (ys @ zs)" "lock_progress uid t r (r_start rn) (rs_start (ranges zs) MAX_RANGE) D s s'"
    "zs = xs2 \<or> (\<exists>x. xs2 = x # zs)"
proof -
  have rep: "rep s (xs1 @ (n, rn, vn) # xs2)" and good: "good_view (lock_view vn)" and up: "upper s = MAX_RANGE"
    using loc by (auto simp: locks_rep_def)
  have areas: "areas_ok (lower s) (ranges xs1 @ rn # ranges xs2) (upper s)" using rep_areas [OF rep] by simp
  note mid = areas_ok_mid [OF areas]
  have start: "r_start rn < Range_End r" using mid(3) seg by simp
  obtain l' where l': "Lock_Lock uid owner t vn = Ok l'" "lock_view l' = locked uid t (lock_view vn)"
    by (rule Lock_Lock_view [OF good can])
  define s1 where "s1 = AreaSeg_SetValue (Some n) l' s"
  have rep1: "rep s1 (xs1 @ (n, rn, l') # xs2)" "same_frame s s1"
    unfolding s1_def by (rule SetValue_rep [OF rep])+
  have rep1': "rep s1 ((xs1 @ [(n, rn, l')]) @ xs2)" using rep1(1) by simp
  note fr = same_frameD [OF rep1(2)]
  have loc1: "locks_rep s1 (xs1 @ (n, rn, l') # xs2)"
    using rep1(1) loc fr l'(2) good_locked by (simp add: locks_rep_def)
  define e where "e = min (rs_start (ranges xs2) MAX_RANGE) (Range_End r)"
  define gr where "gr = Range_New (Range_End rn) (e - Range_End rn)"
  have le: "r_start r \<le> Range_End rn" using r mid(3) by simp
  note gap = gap_in_range [OF rep1(1) le seg, unfolded fr up, folded e_def gr_def]
  have loop: "Lock_loop uid owner t r (Some n) s =
    (if r_len gr > 0
     then run_bind (Some (AreaSet_Insert lock_value (Some n) gr (MakeLock uid t owner) s1)) (\<lambda>(seg, s).
            Lock_loop uid owner t r (AreaSeg_NextSeg s seg) s)
     else Lock_loop uid owner t r (Some (nxt s1 xs2)) s1)"
  proof -
    have "\<not> Range_End r < Range_End rn" using seg by simp
    then show ?thesis
      using rep_seg(1-3) [OF rep] start l'(1) rep_seg(6,7) [OF rep1(1)] gap(1)
      by (subst Lock_loop.simps) (simp add: Let_def flip: s1_def)
  qed
  have within: "r_start rn \<le> k \<and> k < rs_start (ranges xs2) (upper s)" if "k \<in> addrs rn \<union> addrs gr" for k
  proof -
    have "e \<le> rs_start (ranges xs2) (upper s)" using up by (simp add: e_def)
    moreover have "r_start rn \<le> Range_End rn" using mid(3) by simp
    ultimately show ?thesis
      using that mid(5) unfolding Un_iff gap(5) by (auto simp: addrs_def intro: less_le_trans order_trans)
  qed
  have apart: "k \<notin> addrs rn \<union> addrs gr" if "(k, v) \<in> sem lock_view xs1 \<union> sem lock_view xs2" for k v
    using that rep_apart [OF rep, of k v lock_view] within [of k] by blast
  have disj: "addrs rn \<inter> addrs gr = {}" unfolding gap(5) by (auto simp: addrs_def)
  have sub: "addrs rn \<union> addrs gr = {k \<in> addrs r. r_start rn \<le> k \<and> k < e}"
  proof -
    have "Range_End rn \<le> e" "e \<le> Range_End r" "r_start rn \<le> Range_End rn" using gap(2) mid(3) by (simp_all add: e_def)
    moreover have "r_start r \<le> Range_End rn" by (rule le)
    ultimately show ?thesis unfolding gap(5) using r by (auto simp: addrs_def intro: less_le_trans order_trans)
  qed
  have new: "view_at s' k = (if k \<in> addrs rn \<union> addrs gr then Some (locked uid t (the_view (view_at s k))) else view_at s k)"
    if "locks_rep s' ys" "sem lock_view ys = sem lock_view xs1 \<union> sem lock_view xs2 \<union> addrs rn \<times> {locked uid t (lock_view vn)} \<union>
      addrs gr \<times> {locked uid t unlocked}" for s' ys k
    by (rule view_at_update [where R = "sem lock_view xs1 \<union> sem lock_view xs2", OF loc _ that]) (use apart disj in auto)
  have progress: "lock_progress uid t r (r_start rn) till (addrs rn \<union> addrs gr) s s'"
    if "locks_rep s' ys" "sem lock_view ys = sem lock_view xs1 \<union> sem lock_view xs2 \<union> addrs rn \<times> {locked uid t (lock_view vn)} \<union>
      addrs gr \<times> {locked uid t unlocked}" and till: "e \<le> till" "till \<noteq> e \<Longrightarrow> Range_End r \<le> e \<or> view_at s e = Some (locked uid t unlocked)"
      "\<And>k w. e \<le> k \<Longrightarrow> k < till \<Longrightarrow> view_at s k = Some w \<Longrightarrow> w = locked uid t unlocked"
    for s' ys till
  proof -
    have "{k \<in> addrs r. r_start rn \<le> k \<and> k < e} \<subseteq> {k \<in> addrs r. r_start rn \<le> k \<and> k < till}" using till(1) by auto
    moreover have "{k \<in> addrs r. r_start rn \<le> k \<and> k < till} \<subseteq> {k \<in> addrs r. r_start rn \<le> k \<and> k < e}"
      if exact: "\<forall>k \<in> addrs r. r_start rn \<le> k \<longrightarrow> view_at s k \<noteq> Some (locked uid t unlocked)"
    proof (cases "till = e \<or> Range_End r \<le> e")
      case False
      then have "e \<in> addrs r" "r_start rn \<le> e" using gap(2) mid(3) le by (auto simp: addrs_def)
      then show ?thesis using exact till(2) False by auto
    qed (auto simp: addrs_def)
    moreover have "view_at s k = None \<or> view_at s k = Some (locked uid t unlocked)"
      if "k \<in> addrs r - {k \<in> addrs r. r_start rn \<le> k \<and> k < e}" "r_start rn \<le> k" "k < till" for k
      using till(3) [of k] that by (cases "view_at s k") auto
    ultimately show ?thesis unfolding lock_progress_def sub [symmetric] using new [OF that(1,2)] by auto
  qed
  have sem1: "sem lock_view (xs1 @ (n, rn, l') # xs2) = sem lock_view xs1 \<union> sem lock_view xs2 \<union> addrs rn \<times> {locked uid t (lock_view vn)}"
    using l'(2) by auto
  show thesis
  proof (cases "r_len gr > 0")
    case False
    then have e: "e = Range_End rn" using gap(2,6) by simp
    then have "addrs gr = {}" unfolding gap(5) by auto
    then have "lock_progress uid t r (r_start rn) (rs_start (ranges xs2) MAX_RANGE) (addrs rn \<union> addrs gr) s s1"
    proof (intro progress [OF loc1])
      fix k w assume k: "e \<le> k" "k < rs_start (ranges xs2) MAX_RANGE" "view_at s k = Some w"
      then have "(k, w) \<in> sem lock_view (xs1 @ (n, rn, vn) # xs2)" using view_at_iff [OF loc] by blast
      moreover have "k \<notin> addrs rn" "r_start rn \<le> k" using k(1) e mid(3) by (auto simp: addrs_def)
      ultimately show "w = locked uid t unlocked" using rep_apart [OF rep, of k w lock_view] k(2) up by auto
    qed (use sem1 in \<open>auto simp: e_def min_def split: if_splits\<close>)
    moreover have "Lock_loop uid owner t r (Some n) s = Lock_loop uid owner t r (Some (nxt s1 xs2)) s1" using loop False by simp
    moreover have "locks_rep s1 ((xs1 @ [(n, rn, l')]) @ xs2)" using loc1 by simp
    ultimately show thesis using that by blast
  next
    case True
    have loc1': "locks_rep s1 ((xs1 @ [(n, rn, l')]) @ xs2)" using loc1 by simp
    have lt: "Range_End rn < e" using True gap(6) by simp
    have fit: "rs_end (lower s1) (ranges (xs1 @ [(n, rn, l')])) \<le> Range_End rn" by simp
    obtain q s2 ys zs where ins: "AreaSet_Insert lock_value (Some n) gr (MakeLock uid t owner) s1 = Ok (Some q, s2)"
      and q: "AreaSeg_NextSeg s2 (Some q) = Some (nxt s2 zs)" and loc2: "locks_rep s2 (ys @ zs)"
      and sem2: "sem lock_view (ys @ zs) = sem lock_view ((xs1 @ [(n, rn, l')]) @ xs2) \<union> {k. Range_End rn \<le> k \<and> k < e} \<times> {locked uid t unlocked}"
      and zs: "zs = xs2 \<or> (\<exists>x. xs2 = x # zs)" and till: "e \<le> rs_start (ranges zs) MAX_RANGE"
        "rs_start (ranges zs) MAX_RANGE \<noteq> e \<Longrightarrow> Range_End r \<le> e \<or> (e, locked uid t unlocked) \<in> sem lock_view ((xs1 @ [(n, rn, l')]) @ xs2)"
        "\<And>k w. e \<le> k \<Longrightarrow> k < rs_start (ranges zs) MAX_RANGE \<Longrightarrow> (k, w) \<in> sem lock_view ((xs1 @ [(n, rn, l')]) @ xs2) \<Longrightarrow>
          w = locked uid t unlocked"
      by (rule Insert_made [OF loc1' fit lt e_def, of uid t owner, unfolded prv_simps fst_conv, folded gr_def], rule that)
    have "lock_progress uid t r (r_start rn) (rs_start (ranges zs) MAX_RANGE) (addrs rn \<union> addrs gr) s s2"
    proof (rule progress [OF loc2 _ till(1)])
      show "sem lock_view (ys @ zs) = sem lock_view xs1 \<union> sem lock_view xs2 \<union> addrs rn \<times> {locked uid t (lock_view vn)} \<union>
          addrs gr \<times> {locked uid t unlocked}" unfolding sem2 gap(5) using l'(2) by auto
      assume "rs_start (ranges zs) MAX_RANGE \<noteq> e"
      from till(2) [OF this] show "Range_End r \<le> e \<or> view_at s e = Some (locked uid t unlocked)"
        using view_at_iff [OF loc, of e "locked uid t unlocked"] lt by (auto simp: addrs_def)
    next
      fix k w assume k: "e \<le> k" "k < rs_start (ranges zs) MAX_RANGE" "view_at s k = Some w"
      then have "(k, w) \<in> sem lock_view (xs1 @ (n, rn, vn) # xs2)" using view_at_iff [OF loc] by blast
      moreover have "k \<notin> addrs rn" using k(1) lt by (auto simp: addrs_def)
      ultimately show "w = locked uid t unlocked" using till(3) [OF k(1,2), of w] by auto
    qed
    moreover have "Lock_loop uid owner t r (Some n) s = Lock_loop uid owner t r (Some (nxt s2 zs)) s2" using loop True ins q by simp
    ultimately show thesis using that loc2 zs by blast
  qed
qed

section \<open>The loop of Lock\<close>

lemma lock_progress_refl: "Range_End r \<le> a \<Longrightarrow> lock_progress uid t r a (Range_End r) {} s s"
  by (auto simp: lock_progress_def addrs_def)

lemma lock_progress_trans:
  assumes P1: "lock_progress uid t r a m D1 s s1" and P2: "lock_progress uid t r m (Range_End r) D2 s1 s2" and le: "a \<le> m"
  shows "lock_progress uid t r a (Range_End r) (D1 \<union> D2) s s2"
proof -
  have sub: "D1 \<subseteq> {k \<in> addrs r. a \<le> k \<and> k < m}" "D2 \<subseteq> {k \<in> addrs r. m \<le> k \<and> k < Range_End r}"
    using P1 P2 by (simp_all add: lock_progress_def)
  have v1: "view_at s1 k = (if k \<in> D1 then Some (locked uid t (the_view (view_at s k))) else view_at s k)" for k
    using P1 by (simp add: lock_progress_def)
  have v2: "view_at s2 k = (if k \<in> D2 then Some (locked uid t (the_view (view_at s1 k))) else view_at s1 k)" for k
    using P2 by (simp add: lock_progress_def)
  have apart: "k \<notin> D1" if "m \<le> k" for k using sub(1) that by auto
  have "D1 \<union> D2 \<subseteq> {k \<in> addrs r. a \<le> k \<and> k < Range_End r}" using sub le by (auto simp: addrs_def)
  moreover have "view_at s2 k = (if k \<in> D1 \<union> D2 then Some (locked uid t (the_view (view_at s k))) else view_at s k)" for k
    using v1 v2 apart [of k] sub(2) by auto
  moreover have "D1 \<union> D2 = {k \<in> addrs r. a \<le> k \<and> k < Range_End r}"
    if exact: "\<forall>k \<in> addrs r. a \<le> k \<longrightarrow> view_at s k \<noteq> Some (locked uid t unlocked)"
  proof -
    have "D1 = {k \<in> addrs r. a \<le> k \<and> k < m}" using P1 exact by (simp add: lock_progress_def)
    moreover have "\<forall>k \<in> addrs r. m \<le> k \<longrightarrow> view_at s1 k \<noteq> Some (locked uid t unlocked)"
      using exact v1 apart le by auto
    then have "D2 = {k \<in> addrs r. m \<le> k \<and> k < Range_End r}" using P2 by (simp add: lock_progress_def)
    ultimately show ?thesis using le by (auto simp: addrs_def)
  qed
  moreover have "view_at s k = None \<or> view_at s k = Some (locked uid t unlocked)"
    if k: "k \<in> addrs r" "k \<notin> D1 \<union> D2" "a \<le> k" "k < Range_End r" for k
  proof (cases "k < m")
    case True
    then show ?thesis using P1 k by (simp add: lock_progress_def)
  next
    case False
    then have "view_at s1 k = None \<or> view_at s1 k = Some (locked uid t unlocked)" using P2 k by (simp add: lock_progress_def)
    then show ?thesis using v1 [of k] k(2) by simp
  qed
  ultimately show ?thesis by (auto simp: lock_progress_def)
qed

lemma Lock_loop_progress:
  assumes "locks_rep s (xs1 @ xs2)" "r_start r \<le> rs_start (ranges xs2) MAX_RANGE"
    "\<forall>x \<in> set xs2. r_start (fst (snd x)) < Range_End r \<longrightarrow> can uid t (lock_view (snd (snd x)))"
  shows "\<exists>s' ys D. Lock_loop uid owner t r (Some (nxt s xs2)) s = returns s' \<and> locks_rep s' ys \<and>
    lock_progress uid t r (rs_start (ranges xs2) MAX_RANGE) (Range_End r) D s s'"
  using assms
proof (induction "length xs2" arbitrary: s xs1 xs2 rule: less_induct)
  case less
  have rep: "rep s (xs1 @ xs2)" and up: "upper s = MAX_RANGE" using less.prems(1) by (simp_all add: locks_rep_def)
  show ?case
  proof (cases "xs2 \<noteq> [] \<and> rs_start (ranges xs2) MAX_RANGE < Range_End r")
    case False
    then have "Range_End r \<le> rs_start (ranges xs2) MAX_RANGE" by auto
    moreover have "Lock_loop uid owner t r (Some (nxt s xs2)) s = returns s"
      using False rep_nxt_Ok [OF rep] rep_nxt(1) [OF rep] up by (subst Lock_loop.simps) auto
    ultimately show ?thesis using less.prems(1) lock_progress_refl by blast
  next
    case True
    then obtain n rn vn xs3 where xs2: "xs2 = (n, rn, vn) # xs3" by (cases xs2) auto
    have loc: "locks_rep s (xs1 @ (n, rn, vn) # xs3)" using less.prems(1) xs2 by simp
    have r: "r_start r \<le> r_start rn" and start: "r_start rn < Range_End r" and can: "can uid t (lock_view vn)"
      using less.prems(2,3) True xs2 by auto
    have areas: "areas_ok (lower s) (ranges xs1 @ rn # ranges xs3) (upper s)" using rep_areas [OF rep] xs2 by simp
    note mid = areas_ok_mid [OF areas]
    show ?thesis
    proof (cases "Range_End r < Range_End rn")
      case True
      from Lock_step_last [OF loc r start True can] show ?thesis using xs2 by (metis list.simps(9) nxt_simps(2) fst_conv snd_conv rs_start_simps(2))
    next
      case False
      then have le: "Range_End rn \<le> Range_End r" by simp
      obtain s1 ys zs D1 where step: "Lock_loop uid owner t r (Some n) s = Lock_loop uid owner t r (Some (nxt s1 zs)) s1"
        and loc1: "locks_rep s1 (ys @ zs)" and P1: "lock_progress uid t r (r_start rn) (rs_start (ranges zs) MAX_RANGE) D1 s s1"
        and zs: "zs = xs3 \<or> (\<exists>x. xs3 = x # zs)"
        by (rule Lock_step_next [OF loc r le can])
      have le': "r_start rn \<le> rs_start (ranges zs) MAX_RANGE"
      proof -
        have areas0: "areas_ok (lower s) ((ranges xs1 @ [rn]) @ ranges xs3) (upper s)" using areas by simp
        have "rs_start (ranges xs3) MAX_RANGE \<le> rs_start (ranges zs) MAX_RANGE"
        proof (cases "zs = []")
          case False
          then obtain z zs' where z: "zs = z # zs'" by (cases zs) auto
          then have "fst (snd z) \<in> set (ranges xs3)" using zs by auto
          from areas_ok_after [OF areas0 this] show ?thesis using z up by simp
        qed simp
        then show ?thesis using mid(3,5) up by auto
      qed
      have len: "length zs < length xs2" and sub: "set zs \<subseteq> set xs2" using zs xs2 by auto
      have start1: "r_start r \<le> rs_start (ranges zs) MAX_RANGE" using r le' by (rule order_trans)
      have can1: "\<forall>x \<in> set zs. r_start (fst (snd x)) < Range_End r \<longrightarrow> can uid t (lock_view (snd (snd x)))"
        using less.prems(3) sub by blast
      obtain s' ys' D2 where "Lock_loop uid owner t r (Some (nxt s1 zs)) s1 = returns s'" "locks_rep s' ys'"
        "lock_progress uid t r (rs_start (ranges zs) MAX_RANGE) (Range_End r) D2 s1 s'"
        using less.hyps [OF len loc1 start1 can1] by blast
      then show ?thesis using step lock_progress_trans [OF P1 _ le'] xs2 by auto
    qed
  qed
qed

section \<open>Lock\<close>

lemma lock_progress_view: "view_at s = view_at s1 \<Longrightarrow> lock_progress uid t r a b D s1 s' \<Longrightarrow> lock_progress uid t r a b D s s'"
  by (simp add: lock_progress_def)

text \<open>The loop started in front of \<open>zs\<close>, when the bytes of the range below are done.\<close>

lemma Lock_loop_from:
  assumes "locks_rep s1 (ys @ zs)" and P1: "lock_progress uid t r (r_start r) (rs_start (ranges zs) MAX_RANGE) D1 s s1"
    and "r_start r \<le> rs_start (ranges zs) MAX_RANGE"
    and "\<forall>x \<in> set zs. r_start (fst (snd x)) < Range_End r \<longrightarrow> can uid t (lock_view (snd (snd x)))"
  shows "\<exists>s' ys D. run_bind (Lock_loop uid owner t r (Some (nxt s1 zs)) s1) (\<lambda>s. returns (True, s)) = returns (True, s') \<and>
    locks_rep s' ys \<and> lock_progress uid t r (r_start r) (Range_End r) D s s'"
proof -
  obtain s' ys' D2 where "Lock_loop uid owner t r (Some (nxt s1 zs)) s1 = returns s'" "locks_rep s' ys'"
    "lock_progress uid t r (rs_start (ranges zs) MAX_RANGE) (Range_End r) D2 s1 s'"
    using Lock_loop_progress [OF assms(1,3,4)] by blast
  then show ?thesis using lock_progress_trans [OF P1 _ assms(3)] by auto
qed

lemma can_after:
  assumes loc: "locks_rep s (ys @ zs)" and "r_start r \<le> rs_start (ranges zs) MAX_RANGE"
    and can: "\<forall>k w. (k, w) \<in> sem lock_view (ys @ zs) \<longrightarrow> k \<in> addrs r \<longrightarrow> can uid t w"
  shows "\<forall>x \<in> set zs. r_start (fst (snd x)) < Range_End r \<longrightarrow> can uid t (lock_view (snd (snd x)))"
proof (intro ballI impI)
  fix x assume x: "x \<in> set zs" and lt: "r_start (fst (snd x)) < Range_End r"
  have areas: "areas_ok (lower s) (ranges ys @ ranges zs) MAX_RANGE" using loc rep_areas [of s "ys @ zs"] by (simp add: locks_rep_def)
  have in': "fst (snd x) \<in> set (ranges zs)" using x by simp
  have "r_start r \<le> r_start (fst (snd x))" using areas_ok_after [OF areas in'] assms(2) by simp
  then have "r_start (fst (snd x)) \<in> addrs r" using lt by (simp add: addrs_def)
  moreover have "r_start (fst (snd x)) < Range_End (fst (snd x))" using areas in' area_nonempty unfolding areas_ok_def by auto
  then have "(r_start (fst (snd x)), lock_view (snd (snd x))) \<in> sem lock_view (ys @ zs)"
    using x by (cases x) (auto simp: sem_def addrs_def intro!: bexI [of _ x])
  ultimately show "can uid t (lock_view (snd (snd x)))" using can by blast
qed

lemma Lock_from_seg:
  assumes loc: "locks_rep s (xs1 @ (p, rp, vp) # xs2)" and k: "r_start r \<in> addrs rp"
    and can: "\<forall>k w. (k, w) \<in> sem lock_view (xs1 @ (p, rp, vp) # xs2) \<longrightarrow> k \<in> addrs r \<longrightarrow> can uid t w"
  shows "\<exists>s' ys D. run_bind
      (if r_start rp < r_start r
       then run_bind (AreaSet_Split lock_value (Some p) (r_start r) s) (\<lambda>((_, tmp), s). returns (tmp, s))
       else returns (Some p, s)) (\<lambda>(seg, s). run_bind (Lock_loop uid owner t r seg s) (\<lambda>s. returns (True, s))) = returns (True, s') \<and>
    locks_rep s' ys \<and> lock_progress uid t r (r_start r) (Range_End r) D s s'"
proof -
  have rep: "rep s (xs1 @ (p, rp, vp) # xs2)" and good: "good_view (lock_view vp)" using loc by (auto simp: locks_rep_def)
  have in': "r_start rp \<le> r_start r" "r_start r < Range_End rp" using k by (simp_all add: addrs_def)
  have none: "lock_progress uid t r (r_start r) (r_start r) {} s s'" if "view_at s' = view_at s" for s'
    using that by (auto simp: lock_progress_def)
  show ?thesis
  proof (cases "r_start rp < r_start r")
    case True
    obtain m s1 r1 v1 r2 v2 where sp: "AreaSet_SplitUnchecked lock_value (Some p) (r_start r) s = returns ((Some p, Some m), s1)"
      "same_frame s s1" "rep s1 (xs1 @ (p, r1, v1) # (m, r2, v2) # xs2)" "lock_view v1 = lock_view vp" "lock_view v2 = lock_view vp"
      "r_start r2 = r_start r" "addrs rp = addrs r1 \<union> addrs r2"
      by (rule fl.SplitUnchecked_sem [OF rep good True in'(2)])
    let ?ys = "xs1 @ [(p, r1, v1)]" and ?zs = "(m, r2, v2) # xs2"
    have sem1: "sem lock_view (?ys @ ?zs) = sem lock_view (xs1 @ (p, rp, vp) # xs2) \<union> {} \<times> {unlocked}" using sp(4,5,7) by auto
    have loc1: "locks_rep s1 (?ys @ ?zs)" by (rule locks_repI [OF _ sp(2) loc sem1]) (use sp(3) in simp_all)
    have "view_at s1 k = view_at s k" for k
      using view_at_iff [OF loc, of k] view_at_iff [OF loc1, of k] sem1 by (metis Sigma_empty1 Un_empty_right option.exhaust)
    then have P: "lock_progress uid t r (r_start r) (rs_start (ranges ?zs) MAX_RANGE) {} s s1" using none [of s1] sp(6) by auto
    have le: "r_start r \<le> rs_start (ranges ?zs) MAX_RANGE" using sp(6) by simp
    have can1: "\<forall>k w. (k, w) \<in> sem lock_view (?ys @ ?zs) \<longrightarrow> k \<in> addrs r \<longrightarrow> can uid t w" unfolding sem1 using can by simp
    have "AreaSet_Split lock_value (Some p) (r_start r) s = returns ((Some p, Some m), s1)"
      using sp(1) rep_seg(2) [OF rep] True in'(2) by (simp add: AreaSet_Split_def Range_CanSplitAt_def)
    with Lock_loop_from [OF loc1 P le can_after [OF loc1 le can1], of owner] True show ?thesis by simp
  next
    case False
    then have eq: "r_start rp = r_start r" using in'(1) by simp
    let ?zs = "(p, rp, vp) # xs2"
    have le: "r_start r \<le> rs_start (ranges ?zs) MAX_RANGE" using eq by simp
    have P: "lock_progress uid t r (r_start r) (rs_start (ranges ?zs) MAX_RANGE) {} s s" using none [of s] eq by simp
    from Lock_loop_from [OF loc P le can_after [OF loc le can], of owner] False show ?thesis by simp
  qed
qed

lemma Lock_from_gap:
  assumes loc: "locks_rep s (xs1 @ xs2)" and r: "r_start r < Range_End r"
    and gap: "rs_end (lower s) (ranges xs1) \<le> r_start r" "r_start r < rs_start (ranges xs2) MAX_RANGE"
    and can: "\<forall>k w. (k, w) \<in> sem lock_view (xs1 @ xs2) \<longrightarrow> k \<in> addrs r \<longrightarrow> can uid t w"
  shows "\<exists>s' ys D. run_bind (run_bind (Some (AreaSet_Insert lock_value (Some (prv s xs1))
        (Range_Intersect (AreaGap_Range s (Some (prv s xs1))) r) (MakeLock uid t owner) s))
      (\<lambda>(seg, s). returns (AreaSeg_NextSeg s seg, s))) (\<lambda>(seg, s). run_bind (Lock_loop uid owner t r seg s) (\<lambda>s. returns (True, s))) =
        returns (True, s') \<and>
    locks_rep s' ys \<and> lock_progress uid t r (r_start r) (Range_End r) D s s'"
proof -
  have rep: "rep s (xs1 @ xs2)" and up: "upper s = MAX_RANGE" using loc by (auto simp: locks_rep_def)
  have areas: "areas_ok (lower s) (ranges xs1 @ ranges xs2) (upper s)" using rep_areas [OF rep] by simp
  define e where "e = min (rs_start (ranges xs2) MAX_RANGE) (Range_End r)"
  have lt: "r_start r < e" using r gap(2) by (simp add: e_def)
  have I: "Range_Intersect (AreaGap_Range s (Some (prv s xs1))) r = Range_New (r_start r) (e - r_start r)"
    using rep_gap(8) [OF rep] areas_ok_gap(2) [OF areas] up gap(1) by (simp add: Range_Intersect_New e_def max_def)
  obtain q s2 ys zs where ins: "AreaSet_Insert lock_value (Some (prv s xs1)) (Range_New (r_start r) (e - r_start r)) (MakeLock uid t owner) s = Ok (Some q, s2)"
    and q: "AreaSeg_NextSeg s2 (Some q) = Some (nxt s2 zs)" and loc2: "locks_rep s2 (ys @ zs)"
    and sem2: "sem lock_view (ys @ zs) = sem lock_view (xs1 @ xs2) \<union> {k. r_start r \<le> k \<and> k < e} \<times> {locked uid t unlocked}"
    and zs: "zs = xs2 \<or> (\<exists>x. xs2 = x # zs)" and till: "e \<le> rs_start (ranges zs) MAX_RANGE"
      "rs_start (ranges zs) MAX_RANGE \<noteq> e \<Longrightarrow> Range_End r \<le> e \<or> (e, locked uid t unlocked) \<in> sem lock_view (xs1 @ xs2)"
      "\<And>k w. e \<le> k \<Longrightarrow> k < rs_start (ranges zs) MAX_RANGE \<Longrightarrow> (k, w) \<in> sem lock_view (xs1 @ xs2) \<Longrightarrow> w = locked uid t unlocked"
    by (rule Insert_made [OF loc gap(1) lt e_def, of uid t owner], rule that)
  let ?G = "{k. r_start r \<le> k \<and> k < e}"
  have e_le: "e \<le> Range_End r" by (simp add: e_def)
  have e': "e \<le> rs_start (ranges xs2) (upper s)" using up by (simp add: e_def)
  have views: "view_at s2 k = (if k \<in> {} \<union> ?G then Some (locked uid t (the_view (view_at s k))) else view_at s k)" for k
  proof (rule view_at_update [where R = "sem lock_view (xs1 @ xs2)" and w = unlocked, OF loc _ loc2])
    fix k v assume kv: "(k, v) \<in> sem lock_view (xs1 @ xs2)"
    show "k \<notin> {} \<union> ?G"
      using kv sem_before [OF rep_areas [OF rep], of k v lock_view] sem_after [OF rep_areas [OF rep], of k v lock_view] gap(1) e' by auto
  qed (use sem2 in auto)
  have le: "r_start r \<le> rs_start (ranges zs) MAX_RANGE" using lt till(1) by simp
  have P: "lock_progress uid t r (r_start r) (rs_start (ranges zs) MAX_RANGE) ?G s s2"
  proof -
    have sub: "?G \<subseteq> {k \<in> addrs r. r_start r \<le> k \<and> k < rs_start (ranges zs) MAX_RANGE}"
      using till(1) e_le by (auto simp: addrs_def)
    have "?G = {k \<in> addrs r. r_start r \<le> k \<and> k < rs_start (ranges zs) MAX_RANGE}"
      if exact: "\<forall>k \<in> addrs r. r_start r \<le> k \<longrightarrow> view_at s k \<noteq> Some (locked uid t unlocked)"
    proof (cases "rs_start (ranges zs) MAX_RANGE = e \<or> Range_End r \<le> e")
      case False
      then have "e \<in> addrs r" "r_start r \<le> e" using lt by (auto simp: addrs_def)
      then show ?thesis using exact till(2) False view_at_iff [OF loc, of e "locked uid t unlocked"] by auto
    qed (use till(1) e_le in \<open>auto simp: addrs_def\<close>)
    moreover have "view_at s k = None \<or> view_at s k = Some (locked uid t unlocked)"
      if "k \<in> addrs r - ?G" "r_start r \<le> k" "k < rs_start (ranges zs) MAX_RANGE" for k
    proof (cases "view_at s k")
      case (Some w)
      then have "(k, w) \<in> sem lock_view (xs1 @ xs2)" using view_at_iff [OF loc] by blast
      moreover have "e \<le> k" using that(1,2) by (simp add: not_less)
      ultimately show ?thesis using till(3) that(3) Some by blast
    qed simp
    ultimately show ?thesis unfolding lock_progress_def using views sub by simp
  qed
  have can2: "\<forall>k w. (k, w) \<in> sem lock_view (ys @ zs) \<longrightarrow> k \<in> addrs r \<longrightarrow> can uid t w"
    unfolding sem2 using can by (auto simp: can_def locked_def split: LockType.splits)
  from Lock_loop_from [OF loc2 P le can_after [OF loc2 le can2], of owner] show ?thesis
    unfolding I using ins q by simp
qed

lemma Lock_result:
  assumes loc: "locks_rep s xs" and r: "r_start r < Range_End r"
  shows "if \<forall>k \<in> addrs r. can uid t (the_view (view_at s k)) \<or> view_at s k = None
    then \<exists>s' ys D. LocksInternal_Lock uid owner t r s = returns (True, s') \<and> locks_rep s' ys \<and>
      lock_progress uid t r (r_start r) (Range_End r) D s s'
    else LocksInternal_Lock uid owner t r s = returns (False, s)"
proof -
  have rep: "rep s xs" and lo: "lower s = 0" and up: "upper s = MAX_RANGE"
    and good: "\<forall>x \<in> set xs. good_view (lock_view (snd (snd x)))" using loc by (auto simp: locks_rep_def)
  have len: "r_len r \<noteq> 0" using r by (auto simp: Range_End_def MAX_RANGE_def)
  have bounds: "lower s \<le> r_start r" "r_start r \<le> upper s" using lo up by simp_all
  define P where "P \<longleftrightarrow> (\<forall>k w. (k, w) \<in> sem lock_view xs \<longrightarrow> k \<in> addrs r \<longrightarrow> can uid t w)"
  have P: "P \<longleftrightarrow> (\<forall>k \<in> addrs r. can uid t (the_view (view_at s k)) \<or> view_at s k = None)"
  proof -
    have *: "can uid t (the_view (view_at s k)) \<or> view_at s k = None \<longleftrightarrow> (\<forall>w. (k, w) \<in> sem lock_view xs \<longrightarrow> can uid t w)" for k
      unfolding view_at_iff [OF loc, symmetric] by (cases "view_at s k") (simp_all add: the_view_def)
    show ?thesis unfolding P_def * by blast
  qed
  have CanLock: "CanLock uid t r s = returns P" unfolding P_def by (rule CanLock_rep [OF rep good r bounds])
  show ?thesis
  proof (cases P)
    case False
    then show ?thesis unfolding P [symmetric] using len CanLock by (simp add: LocksInternal_Lock_def)
  next
    case True
    let ?start = "let (seg, gap) = AreaSet_Find s (r_start r)
         in run_bind
              (if AreaGap_Ok s gap then
                 run_bind (Some (AreaSet_Insert lock_value gap (Range_Intersect (AreaGap_Range s gap) r)
                     (MakeLock uid t owner) s)) (\<lambda>(seg, s). returns (AreaSeg_NextSeg s seg, s))
               else if r_start (AreaEntry_Range s seg) < r_start r then
                 run_bind (AreaSet_Split lock_value seg (r_start r) s) (\<lambda>((_, tmp), s). returns (tmp, s))
               else returns (seg, s)) (\<lambda>(seg, s).
              run_bind (Lock_loop uid owner t r seg s) (\<lambda>s. returns (True, s)))"
    have unf: "LocksInternal_Lock uid owner t r s = ?start"
      using len CanLock True by (simp add: LocksInternal_Lock_def)
    have "\<exists>s' ys D. ?start = returns (True, s') \<and> locks_rep s' ys \<and> lock_progress uid t r (r_start r) (Range_End r) D s s'"
      using rep bounds
    proof (cases rule: FindArea_cases)
      case (seg xs1 p rp vp xs2)
      have rep': "rep s (xs1 @ (p, rp, vp) # xs2)" using rep seg(1) by simp
      show ?thesis
        using Lock_from_seg [of s xs1 p rp vp xs2 r uid t owner] loc True seg rep_seg(2) [OF rep']
        unfolding P_def by (simp add: AreaSet_Find_def Area_AreaSeg_def Area_AreaGap_def)
    next
      case (gap xs1 xs2)
      have rep': "rep s (xs1 @ xs2)" using rep gap(1) by simp
      have "r_start r < rs_start (ranges xs2) MAX_RANGE"
        using gap(4) up r less_le_trans [OF r MAX_RANGE_le] by auto
      then show ?thesis
        using Lock_from_gap [of s xs1 xs2 r uid t owner] loc r True gap rep_gap(1) [OF rep']
        unfolding P_def by (simp add: AreaSet_Find_def Area_AreaSeg_def Area_AreaGap_def)
    qed
    then show ?thesis unfolding P [symmetric] unf using True by simp
  qed
qed

end
