(* ===== verification/File_Unlock.thy ===== *)
theory File_Unlock
  imports File_Lock_Thms
begin

text \<open>
  The loop of \<open>Unlock\<close>, one step at a time, from a segment that meets the range.
\<close>

definition unlock_progress :: "u64 \<Rightarrow> range \<Rightarrow> u64 \<Rightarrow> u64 \<Rightarrow> lock_set \<Rightarrow> lock_set \<Rightarrow> bool" where
  "unlock_progress uid r from till s s' \<longleftrightarrow>
     (\<forall>k. view_at s' k = (if k \<in> addrs r \<and> from \<le> k \<and> k < till then Option.bind (view_at s k) (released uid) else view_at s k))"

lemma unlock_progress_refl: "Range_End r \<le> a \<Longrightarrow> unlock_progress uid r a (Range_End r) s s"
  by (auto simp: unlock_progress_def)

lemma unlock_progress_trans:
  assumes P1: "unlock_progress uid r a m s s1" and P2: "unlock_progress uid r m (Range_End r) s1 s2" and le: "a \<le> m"
  shows "unlock_progress uid r a (Range_End r) s s2"
  using assms unfolding unlock_progress_def by (auto simp: addrs_def not_less)

text \<open>The view of a segment and of the gap behind it, when the segments \<open>xs2\<close> follow.\<close>

lemma view_at_seg:
  assumes loc: "locks_rep s (xs1 @ (n, rn, vn) # xs2)" and k: "r_start rn \<le> k" "k < rs_start (ranges xs2) MAX_RANGE"
  shows "view_at s k = (if k \<in> addrs rn then Some (lock_view vn) else None)"
proof -
  have rep: "rep s (xs1 @ (n, rn, vn) # xs2)" and up: "upper s = MAX_RANGE" using loc by (auto simp: locks_rep_def)
  have no: "(k, w) \<notin> sem lock_view xs1 \<union> sem lock_view xs2" for w using rep_apart [OF rep k(1), of w lock_view] k(2) up by auto
  show ?thesis
  proof (cases "k \<in> addrs rn")
    case True
    then show ?thesis using view_at_iff [OF loc, of k "lock_view vn"] by simp
  next
    case False
    then show ?thesis using view_at_None [OF loc, of k] no by simp
  qed
qed

text \<open>A segment whose view changes or that goes away changes the views of its bytes alone.\<close>

lemma view_at_replace:
  assumes loc: "locks_rep s xs" and loc2: "locks_rep s2 ys" and old: "sem lock_view xs = R \<union> A \<times> {w}"
    and new: "sem lock_view ys = R \<union> A \<times> (case x of None \<Rightarrow> {} | Some w \<Rightarrow> {w})" and apart: "\<And>k w. (k, w) \<in> R \<Longrightarrow> k \<notin> A"
  shows "view_at s2 k = (if k \<in> A then x else view_at s k)" "k \<in> A \<Longrightarrow> view_at s k = Some w"
proof -
  show at: "k \<in> A \<Longrightarrow> view_at s k = Some w" using view_at_iff [OF loc, of k w] old by auto
  show "view_at s2 k = (if k \<in> A then x else view_at s k)"
  proof (cases "k \<in> A")
    case True
    then have "(k, v) \<in> sem lock_view ys \<longleftrightarrow> x = Some v" for v using apart [of k v] new by (auto split: option.splits)
    then show ?thesis using view_at_iff [OF loc2, of k] True by (metis option.exhaust)
  next
    case False
    then have "(k, v) \<in> sem lock_view ys \<longleftrightarrow> (k, v) \<in> sem lock_view xs" for v unfolding new old by auto
    then show ?thesis using view_at_iff [OF loc, of k] view_at_iff [OF loc2, of k] False by (metis option.exhaust)
  qed
qed

lemma Unlock_step_other:
  assumes loc: "locks_rep s (xs1 @ (n, rn, vn) # xs2)" and start: "r_start rn < Range_End r" and other: "\<not> Lock_IsHeld vn uid"
  shows "Unlock_loop uid r (Some n) s = Unlock_loop uid r (Some (nxt s xs2)) s"
    "unlock_progress uid r (r_start rn) (rs_start (ranges xs2) MAX_RANGE) s s"
proof -
  have rep: "rep s (xs1 @ (n, rn, vn) # xs2)" and good: "good_view (lock_view vn)" using loc by (auto simp: locks_rep_def)
  show "Unlock_loop uid r (Some n) s = Unlock_loop uid r (Some (nxt s xs2)) s"
    using rep_seg(1-4) [OF rep] start other by (subst Unlock_loop.simps) simp
  show "unlock_progress uid r (r_start rn) (rs_start (ranges xs2) MAX_RANGE) s s"
    unfolding unlock_progress_def using view_at_seg [OF loc] not_held_view [OF good other] by auto
qed

text \<open>One round on a segment that the owner holds, once \<open>Isolate\<close> has cut it.\<close>

lemma Unlock_step_isolated:
  assumes loc: "locks_rep s (xs1 @ (n, rn, vn) # xs2)" and start: "r_start rn < Range_End r" and held: "Lock_IsHeld vn uid"
    and iso: "AreaSet_Isolate lock_value (Some n) r s = returns (Some q, s1)" "same_frame s s1"
    and rep1: "rep s1 ((xs1 @ pre) @ (q, rq, vq) # (post @ xs2))" and vq: "lock_view vq = lock_view vn"
    and old: "sem lock_view (xs1 @ (n, rn, vn) # xs2) =
      (sem lock_view xs1 \<union> sem lock_view xs2 \<union> sem lock_view (pre @ post)) \<union> addrs rq \<times> {lock_view vn}"
  obtains s2 ys where "Unlock_loop uid r (Some n) s = Unlock_loop uid r (Some (nxt s2 (post @ xs2))) s2"
    "locks_rep s2 (ys @ post @ xs2)"
    "sem lock_view (ys @ post @ xs2) = (sem lock_view xs1 \<union> sem lock_view xs2 \<union> sem lock_view (pre @ post)) \<union>
      addrs rq \<times> (case released uid (lock_view vn) of None \<Rightarrow> {} | Some w \<Rightarrow> {w})"
proof -
  have rep: "rep s (xs1 @ (n, rn, vn) # xs2)" and good: "good_view (lock_view vn)" using loc by (auto simp: locks_rep_def)
  have goodq: "good_view (lock_view vq)" using good vq by simp
  let ?zs = "post @ xs2" and ?R = "sem lock_view xs1 \<union> sem lock_view xs2 \<union> sem lock_view (pre @ post)"
  note fr = same_frameD [OF iso(2)]
  have step: "Unlock_loop uid r (Some n) s =
     (let (remove, s) =
             (if lk_Writer vq = Some uid then (True, s1)
              else if bt_get (lk_Readers vq) uid \<noteq> None then
                (if length (lk_Readers vq) = 1 then (True, s1)
                 else (False, AreaSeg_SetValue (Some q) (without_reader uid vq) s1))
              else (False, s1))
           in if remove
              then run_bind (Some (AreaSet_Remove (Some q) s)) (\<lambda>(gap, s). Unlock_loop uid r (AreaGap_NextSeg s gap) s)
              else Unlock_loop uid r (AreaSeg_NextSeg s (Some q)) s)"
    using rep_seg(1-3) [OF rep] start held iso(1) rep_seg(3) [OF rep1] by (subst Unlock_loop.simps) simp
  have heldq: "lk_Writer vq = Some uid \<or> bt_get (lk_Readers vq) uid \<noteq> None"
  proof -
    have "fst ` set (lk_Readers vq) = fst ` set (lk_Readers vn)" "lk_Writer vq = lk_Writer vn" using vq by (simp_all add: lock_view_def)
    then show ?thesis using held by (auto simp: Lock_IsHeld_def bt_get_None_iff split: if_splits)
  qed
  show thesis
  proof (cases "lk_Writer vq = Some uid \<or> bt_get (lk_Readers vq) uid \<noteq> None \<and> length (lk_Readers vq) = 1")
    case True
    obtain s2 where rem: "AreaSet_Remove (Some q) s1 = Ok (Some (prv s1 (xs1 @ pre)), s2)"
      and s2: "rep s2 ((xs1 @ pre) @ ?zs)" "same_frame s1 s2" by (rule Remove_rep [OF rep1])
    have gone: "released uid (lock_view vn) = None" using last_holder_view [OF goodq True] vq by simp
    have "AreaGap_NextSeg s2 (Some (prv s1 (xs1 @ pre))) = Some (nxt s2 ?zs)"
      using rep_gap(3) [OF s2(1)] same_frameD [OF s2(2)] by simp
    then have lp: "Unlock_loop uid r (Some n) s = Unlock_loop uid r (Some (nxt s2 ?zs)) s2"
      using step True rem by auto
    have new: "sem lock_view ((xs1 @ pre) @ ?zs) = ?R \<union> addrs rq \<times> (case released uid (lock_view vn) of None \<Rightarrow> {} | Some w \<Rightarrow> {w})"
      unfolding gone by auto
    have loc2: "locks_rep s2 ((xs1 @ pre) @ ?zs)"
      by (rule locks_rep_views [OF s2(1) same_frame_trans [OF iso(2) s2(2)] loc]) (unfold new old gone, auto)
    show thesis by (rule that [OF lp loc2 new])
  next
    case False
    then have rd: "lk_Writer vq \<noteq> Some uid" "bt_get (lk_Readers vq) uid \<noteq> None" "length (lk_Readers vq) \<noteq> 1" using heldq by auto
    define s2 where "s2 = AreaSeg_SetValue (Some q) (without_reader uid vq) s1"
    have s2: "rep s2 ((xs1 @ pre) @ (q, rq, without_reader uid vq) # ?zs)" "same_frame s1 s2"
      unfolding s2_def by (rule SetValue_rep [OF rep1])+
    have rel: "released uid (lock_view vn) = Some (lock_view (without_reader uid vq))"
      using without_reader_view [OF goodq rd] vq by simp
    let ?ys = "xs1 @ pre @ [(q, rq, without_reader uid vq)]"
    have lp: "Unlock_loop uid r (Some n) s = Unlock_loop uid r (Some (nxt s2 ?zs)) s2"
      using step rd rep_seg(4) [OF s2(1)] by (simp flip: s2_def)
    have new: "sem lock_view (?ys @ ?zs) = ?R \<union> addrs rq \<times> (case released uid (lock_view vn) of None \<Rightarrow> {} | Some w \<Rightarrow> {w})"
      unfolding rel by auto
    have loc2: "locks_rep s2 (?ys @ ?zs)"
      by (rule locks_rep_views [OF _ same_frame_trans [OF iso(2) s2(2)] loc])
        (use s2(1) in simp, unfold new old rel, use good_released [OF good rel] in auto)
    show thesis by (rule that [OF lp loc2 new])
  qed
qed

text \<open>A segment that the owner holds is cut at the ends of the range; the part inside loses the
  owner or goes away.\<close>

lemma Unlock_step_held:
  assumes loc: "locks_rep s (xs1 @ (n, rn, vn) # xs2)" and less: "r_start r < Range_End r"
    and meet: "r_start rn < Range_End r" "r_start r < Range_End rn" and held: "Lock_IsHeld vn uid"
  obtains s' ys zs where "Unlock_loop uid r (Some n) s = Unlock_loop uid r (Some (nxt s' zs)) s'"
    "locks_rep s' (ys @ zs)" "unlock_progress uid r (r_start rn) (rs_start (ranges zs) MAX_RANGE) s s'"
    "zs = xs2 \<or> zs \<noteq> [] \<and> Range_End r \<le> rs_start (ranges zs) MAX_RANGE" "r_start rn \<le> rs_start (ranges zs) MAX_RANGE"
proof -
  have rep: "rep s (xs1 @ (n, rn, vn) # xs2)" and good: "good_view (lock_view vn)" and up: "upper s = MAX_RANGE"
    using loc by (auto simp: locks_rep_def)
  have areas: "areas_ok (lower s) (ranges xs1 @ rn # ranges xs2) (upper s)" using rep_areas [OF rep] by simp
  note mid = areas_ok_mid [OF areas]
  obtain pre q rq vq post s1 where iso: "AreaSet_Isolate lock_value (Some n) r s = returns (Some q, s1)" "same_frame s s1"
    and rep1: "rep s1 ((xs1 @ pre) @ (q, rq, vq) # (post @ xs2))" and vq: "lock_view vq = lock_view vn"
    and rq: "addrs rq = addrs rn \<inter> addrs r"
    and sem1: "sem lock_view (pre @ post) = addrs rn \<times> {lock_view vn} - addrs r \<times> UNIV"
    and post: "post = [] \<or> Range_End r \<le> rs_start (ranges post) (upper s)"
    by (rule fl.Isolate_meet [OF rep good less meet], rule that)
  note fr = same_frameD [OF iso(2)]
  define R where "R = sem lock_view xs1 \<union> sem lock_view xs2 \<union> sem lock_view (pre @ post)"
  have old: "sem lock_view (xs1 @ (n, rn, vn) # xs2) = R \<union> addrs rq \<times> {lock_view vn}"
    unfolding R_def rq sem1 by auto
  let ?zs = "post @ xs2"
  have start: "rs_start (ranges ?zs) MAX_RANGE = (if post = [] then rs_start (ranges xs2) MAX_RANGE else rs_start (ranges post) MAX_RANGE)"
    by (cases post) auto
  have inpost: "rs_start (ranges post) MAX_RANGE < Range_End rn" if ne: "post \<noteq> []"
  proof -
    obtain p' r' v' xs where x: "post = (p', r', v') # xs" using ne by (metis list.exhaust prod_cases3)
    have "areas_ok (lower s1) (ranges (xs1 @ pre @ [(q, rq, vq)]) @ r' # ranges (xs @ xs2)) (upper s1)"
      using rep_areas [OF rep1] x by simp
    then have "r_start r' < Range_End r'" by (rule areas_ok_mid(3))
    then have "(r_start r', lock_view v') \<in> sem lock_view (pre @ post)" using x by (simp add: addrs_def)
    then have "r_start r' \<in> addrs rn" unfolding sem1 by blast
    then show ?thesis using x by (simp add: addrs_def)
  qed
  have zs: "?zs = xs2 \<or> ?zs \<noteq> [] \<and> Range_End r \<le> rs_start (ranges ?zs) MAX_RANGE" using post start up by auto
  have le: "r_start rn \<le> rs_start (ranges ?zs) MAX_RANGE" using start post meet(1) mid(3,5) up by auto
  have apart: "k \<notin> addrs rq" if "(k, w) \<in> R" for k w
  proof
    assume "k \<in> addrs rq"
    then have k: "k \<in> addrs rn" "k \<in> addrs r" using rq by blast+
    then have "r_start rn \<le> k" "k < rs_start (ranges xs2) (upper s)" using mid(5) by (auto simp: addrs_def)
    from rep_apart [OF rep this, of w lock_view] show False using that k unfolding R_def sem1 by blast
  qed
  have progress: "unlock_progress uid r (r_start rn) (rs_start (ranges ?zs) MAX_RANGE) s s2"
    if loc2: "locks_rep s2 ys" and new: "sem lock_view ys = R \<union> addrs rq \<times> (case released uid (lock_view vn) of None \<Rightarrow> {} | Some w \<Rightarrow> {w})"
    for s2 ys
    unfolding unlock_progress_def
  proof
    fix k
    show "view_at s2 k = (if k \<in> addrs r \<and> r_start rn \<le> k \<and> k < rs_start (ranges ?zs) MAX_RANGE
        then Option.bind (view_at s k) (released uid) else view_at s k)"
    proof (cases "k \<in> addrs rq")
      case True
      then have "view_at s k = Some (lock_view vn)" "view_at s2 k = released uid (lock_view vn)"
        using view_at_replace [OF loc loc2 old new apart] by simp_all
      moreover have k: "k \<in> addrs rn" "k \<in> addrs r" using True rq by blast+
      then have "k < Range_End rn" "k < Range_End r" "r_start rn \<le> k" by (simp_all add: addrs_def)
      moreover from this have "k < rs_start (ranges ?zs) MAX_RANGE" using start post mid(5) up by (auto intro: less_le_trans)
      ultimately show ?thesis using k by simp
    next
      case False
      then have same: "view_at s2 k = view_at s k" using view_at_replace(1) [OF loc loc2 old new apart] by simp
      have "view_at s k = None" if k: "k \<in> addrs r" "r_start rn \<le> k" "k < rs_start (ranges ?zs) MAX_RANGE"
      proof -
        have out: "k \<notin> addrs rn" using False rq k(1) by blast
        then have "Range_End rn \<le> k" "k < Range_End r" using k(1,2) by (auto simp: addrs_def)
        then have "k < rs_start (ranges post) MAX_RANGE" if "post \<noteq> []" using post that up by (auto intro: less_le_trans)
        with inpost \<open>Range_End rn \<le> k\<close> have "post = []" by fastforce
        then show ?thesis using view_at_seg [OF loc k(2)] out k(3) start by simp
      qed
      then show ?thesis using same by auto
    qed
  qed
  obtain s2 ys where lp: "Unlock_loop uid r (Some n) s = Unlock_loop uid r (Some (nxt s2 ?zs)) s2" and loc2: "locks_rep s2 (ys @ ?zs)"
    and new: "sem lock_view (ys @ ?zs) = R \<union> addrs rq \<times> (case released uid (lock_view vn) of None \<Rightarrow> {} | Some w \<Rightarrow> {w})"
    by (rule Unlock_step_isolated [OF loc meet(1) held iso rep1 vq old [unfolded R_def]]) (rule that, simp_all add: R_def)
  show thesis by (rule that [OF lp loc2 progress [OF loc2 new] zs le])
qed

text \<open>A segment in front of the range that the owner holds is released as a whole.\<close>

lemma Unlock_step_before:
  assumes loc: "locks_rep s (xs1 @ (n, rn, vn) # xs2)" and less: "r_start r < Range_End r"
    and before: "Range_End rn \<le> r_start r" and held: "Lock_IsHeld vn uid"
  obtains s' ys where "Unlock_loop uid r (Some n) s = Unlock_loop uid r (Some (nxt s' xs2)) s'" "locks_rep s' (ys @ xs2)"
    "\<And>k. view_at s' k = (if k \<in> addrs rn then Option.bind (view_at s k) (released uid) else view_at s k)"
proof -
  have rep: "rep s (xs1 @ (n, rn, vn) # xs2)" using loc by (auto simp: locks_rep_def)
  have areas: "areas_ok (lower s) (ranges xs1 @ rn # ranges xs2) (upper s)" using rep_areas [OF rep] by simp
  note mid = areas_ok_mid [OF areas]
  have start: "r_start rn < Range_End r" using mid(3) before less by simp
  have iso: "AreaSet_Isolate lock_value (Some n) r s = returns (Some n, s)"
  proof -
    have "\<not> Range_CanSplitAt rn (r_start r)" "\<not> Range_CanSplitAt rn (Range_End r)"
      using before less by (auto simp: Range_CanSplitAt_def)
    then show ?thesis using rep_seg(2) [OF rep] by (simp add: AreaSet_Isolate_def)
  qed
  let ?R = "sem lock_view xs1 \<union> sem lock_view xs2 \<union> sem lock_view ([] @ [])"
  have rep1: "rep s ((xs1 @ []) @ (n, rn, vn) # ([] @ xs2))" using rep by simp
  have old: "sem lock_view (xs1 @ (n, rn, vn) # xs2) = ?R \<union> addrs rn \<times> {lock_view vn}" by auto
  have apart: "k \<notin> addrs rn" if "(k, w) \<in> ?R" for k w
  proof
    assume "k \<in> addrs rn"
    then have "r_start rn \<le> k" "k < rs_start (ranges xs2) (upper s)" using mid(5) by (auto simp: addrs_def)
    from rep_apart [OF rep this, of w lock_view] show False using that by auto
  qed
  obtain s' ys where s': "Unlock_loop uid r (Some n) s = Unlock_loop uid r (Some (nxt s' ([] @ xs2))) s'"
    "locks_rep s' (ys @ [] @ xs2)"
    "sem lock_view (ys @ [] @ xs2) = ?R \<union> addrs rn \<times> (case released uid (lock_view vn) of None \<Rightarrow> {} | Some w \<Rightarrow> {w})"
    by (rule Unlock_step_isolated [OF loc start held iso same_frame_refl rep1 refl old], rule that)
  have "view_at s' k = (if k \<in> addrs rn then Option.bind (view_at s k) (released uid) else view_at s k)" for k
    using view_at_replace [OF loc s'(2) old s'(3) apart, where k = k] by simp
  with s'(1,2) show thesis using that by simp
qed

lemma after_meets:
  assumes rep: "rep s (xs1 @ (n, rn, vn) # xs2)" and meet: "k < Range_End rn"
  shows "xs2 = [] \<or> k < Range_End (hd (ranges xs2))"
proof (cases xs2)
  case (Cons x ys)
  obtain p' r' v' where x: "x = (p', r', v')" by (cases x)
  have areas: "areas_ok (lower s) (ranges xs1 @ rn # r' # ranges ys) (upper s)" using rep_areas [OF rep] Cons x by simp
  have "r_start r' < Range_End r'" by (rule areas_ok_mid(3) [of "lower s" "ranges xs1 @ [rn]" r' "ranges ys" "upper s"]) (use areas in simp)
  moreover have "Range_End rn \<le> r_start r'" using areas_ok_mid(5) [OF areas] by simp
  ultimately show ?thesis using meet Cons x by (auto intro: less_trans less_le_trans)
qed simp

lemma Unlock_loop_stop:
  assumes "locks_rep s (xs1 @ xs2)" and "xs2 = [] \<or> Range_End r \<le> rs_start (ranges xs2) MAX_RANGE"
  shows "Unlock_loop uid r (Some (nxt s xs2)) s = returns s"
proof -
  have rep: "rep s (xs1 @ xs2)" "upper s = MAX_RANGE" using assms(1) by (simp_all add: locks_rep_def)
  then have "\<not> (AreaEntry_Ok s (Some (nxt s xs2)) \<and> r_start (AreaEntry_Range s (Some (nxt s xs2))) < Range_End r)"
    using rep_nxt_Ok [OF rep(1)] rep_nxt(1) [OF rep(1)] assms(2) by auto
  then show ?thesis by (subst Unlock_loop.simps) (simp only: if_False)
qed

text \<open>The loop from a list of segments of which all meet or follow the range.\<close>

lemma Unlock_loop_progress:
  assumes "locks_rep s (xs1 @ xs2)" and less: "r_start r < Range_End r"
    and "xs2 = [] \<or> r_start r < Range_End (hd (ranges xs2))"
  shows "\<exists>s' ys. Unlock_loop uid r (Some (nxt s xs2)) s = returns s' \<and> locks_rep s' ys \<and>
    unlock_progress uid r (rs_start (ranges xs2) MAX_RANGE) (Range_End r) s s'"
  using assms
proof (induction xs2 arbitrary: s xs1)
  case Nil
  then show ?case using Unlock_loop_stop [of s xs1 "[]" r] unlock_progress_refl [of r MAX_RANGE] by auto
next
  case (Cons x xs2)
  obtain n rn vn where x: "x = (n, rn, vn)" by (cases x)
  note loc = Cons.prems(1) [unfolded x]
  have rep: "rep s (xs1 @ (n, rn, vn) # xs2)" and up: "upper s = MAX_RANGE" using loc by (simp_all add: locks_rep_def)
  show ?case
  proof (cases "r_start rn < Range_End r")
    case False
    then show ?thesis using Unlock_loop_stop [OF loc, of r uid] unlock_progress_refl [of r "r_start rn"] loc x by auto
  next
    case True
    have meet: "r_start r < Range_End rn" using Cons.prems(3) x by simp
    obtain s1 ys zs where step: "Unlock_loop uid r (Some n) s = Unlock_loop uid r (Some (nxt s1 zs)) s1"
      and loc1: "locks_rep s1 (ys @ zs)" and P1: "unlock_progress uid r (r_start rn) (rs_start (ranges zs) MAX_RANGE) s s1"
      and zs: "zs = xs2 \<or> zs \<noteq> [] \<and> Range_End r \<le> rs_start (ranges zs) MAX_RANGE" and le: "r_start rn \<le> rs_start (ranges zs) MAX_RANGE"
    proof (cases "Lock_IsHeld vn uid")
      case True
      then show ?thesis using Unlock_step_held [OF loc less \<open>r_start rn < Range_End r\<close> meet True] that by blast
    next
      case False
      have areas: "areas_ok (lower s) (ranges xs1 @ rn # ranges xs2) (upper s)" using rep_areas [OF rep] by simp
      have "locks_rep s ((xs1 @ [(n, rn, vn)]) @ xs2)" using loc by simp
      moreover have "r_start rn \<le> rs_start (ranges xs2) MAX_RANGE" using areas_ok_mid(3,5) [OF areas] up by simp
      ultimately show ?thesis using that Unlock_step_other [OF loc True False] by blast
    qed
    obtain s' ys' where s': "Unlock_loop uid r (Some (nxt s1 zs)) s1 = returns s'" "locks_rep s' ys'"
      "unlock_progress uid r (rs_start (ranges zs) MAX_RANGE) (Range_End r) s1 s'"
    proof (cases "zs = [] \<or> Range_End r \<le> rs_start (ranges zs) MAX_RANGE")
      case True
      then show ?thesis using that Unlock_loop_stop [OF loc1 True] loc1 unlock_progress_refl [of r "rs_start (ranges zs) MAX_RANGE"] by auto
    next
      case False
      then have "zs = xs2" using zs by blast
      moreover have "xs2 = [] \<or> r_start r < Range_End (hd (ranges xs2))" using after_meets [OF rep meet] .
      ultimately show ?thesis using Cons.IH [of s1 ys] loc1 less that by blast
    qed
    then show ?thesis using step unlock_progress_trans [OF P1 s'(3) le] x by auto
  qed
qed

section \<open>Results\<close>

text \<open>When some lock covers the first byte of the range, the owner loses exactly the range.\<close>

lemma Unlock_result:
  assumes loc: "locks_rep s xs" and r: "r_start r < Range_End r" and at: "view_at s (r_start r) \<noteq> None"
  shows "\<exists>s' ys. LocksInternal_Unlock uid r s = returns s' \<and> locks_rep s' ys \<and>
    (\<forall>k. view_at s' k = (if k \<in> addrs r then Option.bind (view_at s k) (released uid) else view_at s k))"
proof -
  have rep: "rep s xs" and lo: "lower s = 0" and up: "upper s = MAX_RANGE" using loc by (auto simp: locks_rep_def)
  have len: "r_len r \<noteq> 0" using r by (auto simp: Range_End_def MAX_RANGE_def)
  have bounds: "lower s \<le> r_start r" "r_start r \<le> upper s" using lo up by simp_all
  show ?thesis using rep bounds
  proof (cases rule: FindArea_cases)
    case (seg xs1 p rp vp xs2)
    let ?zs = "(p, rp, vp) # xs2"
    have loc': "locks_rep s (xs1 @ ?zs)" and rep': "rep s (xs1 @ ?zs)" using loc rep seg(1) by simp_all
    have "AreaSet_UpperBoundSeg s (r_start r) = Some (nxt s ?zs)"
      using seg(3) rep_seg(1) [OF rep'] by (simp add: AreaSet_UpperBoundSeg_def AreaSet_Find_def Area_AreaSeg_def Area_AreaGap_def)
    then have un: "LocksInternal_Unlock uid r s = Unlock_loop uid r (Some (nxt s ?zs)) s"
      using len by (simp add: LocksInternal_Unlock_def)
    have in': "r_start rp \<le> r_start r" "r_start r < Range_End rp" using seg(2) by (simp_all add: addrs_def)
    obtain s' ys where s': "Unlock_loop uid r (Some (nxt s ?zs)) s = returns s'" "locks_rep s' ys"
      "unlock_progress uid r (r_start rp) (Range_End r) s s'"
      using Unlock_loop_progress [OF loc' r, of uid] in'(2) by auto
    have eq: "k \<in> addrs r \<and> r_start rp \<le> k \<and> k < Range_End r \<longleftrightarrow> k \<in> addrs r" for k
      using in'(1) by (auto simp: addrs_def)
    show ?thesis by (intro exI conjI, subst un, rule s'(1), rule s'(2), rule s'(3) [unfolded unlock_progress_def eq])
  next
    case (gap xs1 xs2)
    have loc': "locks_rep s (xs1 @ xs2)" using loc gap(1) by simp
    have areas: "areas_ok (lower s) (ranges (xs1 @ xs2)) (upper s)" using rep_areas [OF rep] gap(1) by simp
    have "r_start r < rs_start (ranges xs2) MAX_RANGE" using gap(4) up less_le_trans [OF r MAX_RANGE_le] by auto
    then have "(r_start r, w) \<notin> sem lock_view (xs1 @ xs2)" for w
      using sem_before [OF areas, of "r_start r" w lock_view] sem_after [OF areas, of "r_start r" w lock_view] gap(3) up by auto
    then have "view_at s (r_start r) = None" using view_at_None [OF loc', of "r_start r"] by simp
    then show ?thesis using at by simp
  qed
qed

text \<open>When no lock covers a byte up to the first one of the range, nothing is released.\<close>

lemma Unlock_before:
  assumes loc: "locks_rep s xs" and r: "r_start r < Range_End r" and none: "\<forall>k \<le> r_start r. view_at s k = None"
  shows "LocksInternal_Unlock uid r s = returns s"
proof -
  have rep: "rep s xs" and lo: "lower s = 0" and up: "upper s = MAX_RANGE" using loc by (auto simp: locks_rep_def)
  have len: "r_len r \<noteq> 0" using r by (auto simp: Range_End_def MAX_RANGE_def)
  have bounds: "lower s \<le> r_start r" "r_start r \<le> upper s" using lo up by simp_all
  show ?thesis using rep bounds
  proof (cases rule: FindArea_cases)
    case (seg xs1 p rp vp xs2)
    have "locks_rep s (xs1 @ (p, rp, vp) # xs2)" using loc seg(1) by simp
    then have "view_at s (r_start r) = Some (lock_view vp)" using view_at_iff [of s _ "r_start r" "lock_view vp"] seg(2) by auto
    then show ?thesis using none by auto
  next
    case (gap xs1 xs2)
    have loc': "locks_rep s (xs1 @ xs2)" and rep': "rep s (xs1 @ xs2)" using loc rep gap(1) by simp_all
    have xs1: "xs1 = []"
    proof (rule ccontr)
      assume "xs1 \<noteq> []"
      then obtain ys p rp vp where x: "xs1 = ys @ [(p, rp, vp)]" by (metis rev_exhaust prod_cases3)
      have "r_start rp < Range_End rp" using rep_areas [OF rep'] areas_ok_mid(3) [of "lower s" "ranges ys" rp "ranges xs2" "upper s"] x by simp
      moreover from this have "view_at s (r_start rp) = Some (lock_view vp)"
        using view_at_iff [OF loc', of "r_start rp" "lock_view vp"] x by (auto simp: addrs_def)
      moreover have "Range_End rp \<le> r_start r" using gap(3) x by simp
      ultimately show False using none using less_imp_le [OF less_le_trans [of "r_start rp" "Range_End rp" "r_start r"]] by auto
    qed
    have "AreaSet_UpperBoundSeg s (r_start r) = Some (prv s [])"
      using gap(2) xs1 rep_gap(1,4) [OF rep'] by (simp add: AreaSet_UpperBoundSeg_def AreaSet_Find_def Area_AreaSeg_def Area_AreaGap_def)
    moreover have "\<not> AreaEntry_Ok s (Some (prv s []))" using rep_prv_Ok [of s "[]" xs2] rep' xs1 by simp
    then have "Unlock_loop uid r (Some (prv s [])) s = returns s"
      by (subst Unlock_loop.simps) (simp only: simp_thms if_False)
    ultimately show ?thesis using len by (simp add: LocksInternal_Unlock_def)
  qed
qed

text \<open>In every case the call returns and a byte keeps its holders or loses the owner.\<close>

lemma Unlock_always:
  assumes loc: "locks_rep s xs" and r: "r_start r < Range_End r"
  shows "\<exists>s' ys. LocksInternal_Unlock uid r s = returns s' \<and> locks_rep s' ys \<and>
    (\<forall>k. view_at s' k = view_at s k \<or> view_at s' k = Option.bind (view_at s k) (released uid))"
proof (cases "view_at s (r_start r) \<noteq> None \<or> (\<forall>k \<le> r_start r. view_at s k = None)")
  case True
  then show ?thesis using Unlock_result [OF loc r, of uid] Unlock_before [OF loc r, of uid] loc by metis
next
  case False
  have rep: "rep s xs" and lo: "lower s = 0" and up: "upper s = MAX_RANGE" using loc by (auto simp: locks_rep_def)
  have len: "r_len r \<noteq> 0" using r by (auto simp: Range_End_def MAX_RANGE_def)
  have bounds: "lower s \<le> r_start r" "r_start r \<le> upper s" using lo up by simp_all
  show ?thesis using rep bounds
  proof (cases rule: FindArea_cases)
    case (seg xs1 p rp vp xs2)
    have "locks_rep s (xs1 @ (p, rp, vp) # xs2)" using loc seg(1) by simp
    then have "view_at s (r_start r) = Some (lock_view vp)" using view_at_iff [of s _ "r_start r" "lock_view vp"] seg(2) by auto
    then show ?thesis using False by simp
  next
    case (gap xs1 xs2)
    have below: "r_start r < rs_start (ranges xs2) MAX_RANGE" using gap(4) up less_le_trans [OF r MAX_RANGE_le] by auto
    have "xs1 \<noteq> []"
    proof
      assume "xs1 = []"
      then have "(k, w) \<notin> sem lock_view xs" if "k \<le> r_start r" for k w
        using sem_after [OF rep_areas [of s "[] @ xs2"], of k w lock_view] rep gap(1) below up that by auto
      then show False using False view_at_None [OF loc] by blast
    qed
    then obtain ys p rp vp where x: "xs1 = ys @ [(p, rp, vp)]" by (metis rev_exhaust prod_cases3)
    have loc': "locks_rep s (ys @ (p, rp, vp) # xs2)" and rep': "rep s (ys @ (p, rp, vp) # xs2)"
      and locx: "locks_rep s ((ys @ [(p, rp, vp)]) @ xs2)" and rep'': "rep s (xs1 @ xs2)" using loc rep gap(1) x by simp_all
    have before: "Range_End rp \<le> r_start r" using gap(3) x by simp
    have ubs: "LocksInternal_Unlock uid r s = Unlock_loop uid r (Some p) s"
      using gap(2) x rep_gap(1,4) [OF rep''] len
      by (simp add: LocksInternal_Unlock_def AreaSet_UpperBoundSeg_def AreaSet_Find_def Area_AreaSeg_def Area_AreaGap_def)
    have areas: "areas_ok (lower s) (ranges ys @ rp # ranges xs2) (upper s)" using rep_areas [OF rep'] by simp
    have hd: "xs2 = [] \<or> r_start r < Range_End (hd (ranges xs2))"
    proof (cases xs2)
      case (Cons z zs)
      then have "areas_ok (lower s) ((ranges ys @ [rp]) @ fst (snd z) # ranges zs) (upper s)" using areas by simp
      then have "r_start (fst (snd z)) < Range_End (fst (snd z))" by (rule areas_ok_mid(3))
      then show ?thesis using below Cons by (cases z) auto
    qed simp
    show ?thesis
    proof (cases "Lock_IsHeld vp uid")
      case True
      obtain s1 zs where s1: "Unlock_loop uid r (Some p) s = Unlock_loop uid r (Some (nxt s1 xs2)) s1" "locks_rep s1 (zs @ xs2)"
        "\<And>k. view_at s1 k = (if k \<in> addrs rp then Option.bind (view_at s k) (released uid) else view_at s k)"
        by (rule Unlock_step_before [OF loc' r before True], rule that)
      obtain s' zs' where s': "Unlock_loop uid r (Some (nxt s1 xs2)) s1 = returns s'" "locks_rep s' zs'"
        "unlock_progress uid r (rs_start (ranges xs2) MAX_RANGE) (Range_End r) s1 s'"
        using Unlock_loop_progress [OF s1(2) r hd, of uid] by blast
      have "view_at s' k = view_at s k \<or> view_at s' k = Option.bind (view_at s k) (released uid)" for k
        using s1(3) [of k] s'(3) before unfolding unlock_progress_def by (auto simp: addrs_def)
      then show ?thesis using ubs s1(1) s'(1,2) by auto
    next
      case False
      have "r_start rp < Range_End r" using areas_ok_mid(3) [OF areas] before r by simp
      then have "Unlock_loop uid r (Some p) s = Unlock_loop uid r (Some (nxt s xs2)) s" using Unlock_step_other(1) [OF loc' _ False] by blast
      then show ?thesis using ubs Unlock_loop_progress [OF locx r hd, of uid] unfolding unlock_progress_def by metis
    qed
  qed
qed

end
