(* ===== verification/Lock_Spec.thy ===== *)
theory Lock_Spec
  imports File_Unlock
begin

text \<open>
  What file locks promise, stated per byte: \<open>holders s k\<close> are the readers and the writer of byte
  \<open>k\<close>, \<open>may_lock\<close> is the compatibility rule, and \<open>granted\<close> and \<open>dropped\<close> are what a lock and an
  unlock do to the holders of one byte. The lemmas tie these to the views of the segments, and the
  locale \<open>byte_locks\<close> is the contract of a lock table that a client relies on; its invariant
  \<open>exclusive\<close> holds after every sequence of calls.
\<close>

section \<open>Holders of a byte\<close>

type_synonym holders = "u64 set \<times> u64 option"

definition nobody :: holders where "nobody = ({}, None)"

definition holders :: "lock_set \<Rightarrow> u64 \<Rightarrow> holders" where
  "holders s k = (case value_at s k of None \<Rightarrow> nobody | Some l \<Rightarrow> (fst ` set (lk_Readers l), lk_Writer l))"

definition locks_inv :: "lock_set \<Rightarrow> bool" where
  "locks_inv s \<longleftrightarrow> (\<exists>xs. locks_rep s xs)"

definition may_lock :: "u64 \<Rightarrow> LockType \<Rightarrow> holders \<Rightarrow> bool" where
  "may_lock uid t h =
    (case t of
       ReadLock \<Rightarrow> snd h = None \<or> snd h = Some uid
     | WriteLock \<Rightarrow> fst h \<subseteq> {uid} \<and> snd h = None \<or> snd h = Some uid)"

definition granted :: "u64 \<Rightarrow> LockType \<Rightarrow> holders \<Rightarrow> holders" where
  "granted uid t h = (case t of ReadLock \<Rightarrow> (insert uid (fst h), None) | WriteLock \<Rightarrow> ({}, Some uid))"

definition dropped :: "u64 \<Rightarrow> holders \<Rightarrow> holders" where
  "dropped uid h = (fst h - {uid}, if snd h = Some uid then None else snd h)"

definition exclusive :: "holders \<Rightarrow> bool" where
  "exclusive h \<longleftrightarrow> snd h = None \<or> fst h = {}"

definition lockable_range :: "range \<Rightarrow> bool" where
  "lockable_range r \<longleftrightarrow> r_len r = 0 \<or> r_start r < Range_End r"

lemma holders_view: "holders s k = (case view_at s k of None \<Rightarrow> nobody | Some w \<Rightarrow> snd w)"
  by (simp add: holders_def view_at_def lock_view_def split: option.split)

lemma view_at_good: "locks_rep s xs \<Longrightarrow> view_at s k = Some w \<Longrightarrow> good_view w"
proof -
  assume loc: "locks_rep s xs" and "view_at s k = Some w"
  then have "(k, w) \<in> sem lock_view xs" using view_at_iff [OF loc] by blast
  then show "good_view w" using loc by (auto simp: sem_def locks_rep_def)
qed

lemma holders_nobody: "locks_rep s xs \<Longrightarrow> holders s k = nobody \<longleftrightarrow> view_at s k = None"
  using view_at_good [of s xs k] by (auto simp: holders_view nobody_def good_view_def split: option.split)

lemma may_lock_nobody [simp]: "may_lock uid t nobody"
  by (simp add: may_lock_def nobody_def split: LockType.split)

lemma may_lock_view:
  assumes "locks_rep s xs"
  shows "may_lock uid t (holders s k) \<longleftrightarrow> can uid t (the_view (view_at s k)) \<or> view_at s k = None"
proof (cases "view_at s k")
  case (Some w)
  then have "good_view w" using view_at_good assms by blast
  then show ?thesis using Some
    by (cases w) (auto simp: holders_view may_lock_def can_def the_view_def good_view_def split: LockType.split)
qed (simp add: holders_view)

lemma locked_view: "snd (locked uid t w) = granted uid t (snd w)"
  by (simp add: locked_def granted_def split: LockType.split)

lemma the_view_holders: "snd (the_view (view_at s k)) = holders s k"
  by (simp add: the_view_def holders_view nobody_def split: option.split)

lemma released_view:
  "good_view w \<Longrightarrow> (case released uid w of None \<Rightarrow> nobody | Some w \<Rightarrow> snd w) = dropped uid (snd w)"
  by (cases w) (auto simp: released_def dropped_def nobody_def good_view_def)

lemma dropped_nobody [simp]: "dropped uid nobody = nobody"
  by (simp add: dropped_def nobody_def)

lemma holders_released:
  assumes "locks_rep s xs" and "view_at s' k = Option.bind (view_at s k) (released uid)"
  shows "holders s' k = dropped uid (holders s k)"
  using released_view [OF view_at_good [OF assms(1)], of k _ uid] assms(2)
  by (cases "view_at s k") (simp_all add: holders_view)

lemma granted_twice: "granted uid t (granted uid t h) = granted uid t h"
  by (simp add: granted_def split: LockType.split)

section \<open>Operations per byte\<close>

lemma Lock_bytes:
  assumes inv: "locks_inv s" and r: "r_start r < Range_End r"
  shows "if \<forall>k \<in> addrs r. may_lock uid t (holders s k)
    then \<exists>s'. LocksInternal_Lock uid owner t r s = returns (True, s') \<and> locks_inv s' \<and>
      (\<forall>k. holders s' k = holders s k \<or> k \<in> addrs r \<and> holders s' k = granted uid t (holders s k)) \<and>
      (\<forall>k \<in> addrs r. holders s k \<noteq> nobody \<longrightarrow> holders s' k = granted uid t (holders s k)) \<and>
      ((\<forall>k \<in> addrs r. holders s k \<noteq> granted uid t nobody) \<longrightarrow> (\<forall>k \<in> addrs r. holders s' k = granted uid t (holders s k)))
    else LocksInternal_Lock uid owner t r s = returns (False, s)"
proof -
  obtain xs where loc: "locks_rep s xs" using inv by (auto simp: locks_inv_def)
  note res = Lock_result [OF loc r, of uid t owner, folded may_lock_view [OF loc]]
  show ?thesis
  proof (cases "\<forall>k \<in> addrs r. may_lock uid t (holders s k)")
    case True
    obtain s' ys D where s': "LocksInternal_Lock uid owner t r s = returns (True, s')" "locks_rep s' ys"
      and P: "lock_progress uid t r (r_start r) (Range_End r) D s s'" using res [unfolded if_P [OF True]] by blast
    have D: "D \<subseteq> addrs r" using P by (auto simp: lock_progress_def)
    have in_D: "holders s' k = granted uid t (holders s k)" if "k \<in> D" for k
    proof -
      have "view_at s' k = Some (locked uid t (the_view (view_at s k)))" using P that by (simp add: lock_progress_def)
      then show ?thesis unfolding holders_view [of s'] by (simp add: locked_view the_view_holders)
    qed
    have out_D: "holders s' k = holders s k" if "k \<notin> D" for k
      using P that by (simp add: lock_progress_def holders_view)
    have made: "snd (locked uid t unlocked) = granted uid t nobody" by (simp add: locked_view nobody_def)
    have skip: "holders s k = nobody \<or> holders s k = granted uid t nobody" if "k \<in> addrs r" "k \<notin> D" for k
    proof -
      have "r_start r \<le> k" "k < Range_End r" using that(1) by (simp_all add: addrs_def)
      then have "view_at s k = None \<or> view_at s k = Some (locked uid t unlocked)" using P that unfolding lock_progress_def by blast
      then show ?thesis using made by (auto simp: holders_view)
    qed
    have all: "D = addrs r" if "\<forall>k \<in> addrs r. holders s k \<noteq> granted uid t nobody"
    proof -
      have "view_at s k \<noteq> Some (locked uid t unlocked)" if "k \<in> addrs r" for k
        using made that \<open>\<forall>k \<in> addrs r. holders s k \<noteq> granted uid t nobody\<close> by (auto simp: holders_view)
      then have "D = {k \<in> addrs r. r_start r \<le> k \<and> k < Range_End r}" using P unfolding lock_progress_def by blast
      then show ?thesis by (auto simp: addrs_def)
    qed
    have "locks_inv s'" using s'(2) by (auto simp: locks_inv_def)
    moreover have "holders s' k = holders s k \<or> k \<in> addrs r \<and> holders s' k = granted uid t (holders s k)" for k
      using in_D out_D D by blast
    moreover have "holders s' k = granted uid t (holders s k)" if "k \<in> addrs r" "holders s k \<noteq> nobody" for k
      using in_D [of k] out_D [of k] skip [of k] that granted_twice [of uid t nobody] by (cases "k \<in> D") auto
    ultimately show ?thesis using True s'(1) in_D all by auto
  next
    case False
    show ?thesis unfolding if_not_P [OF False] using res [unfolded if_not_P [OF False]] .
  qed
qed

lemma Unlock_bytes:
  assumes inv: "locks_inv s" and r: "r_start r < Range_End r"
  shows "\<exists>s'. LocksInternal_Unlock uid r s = returns s' \<and> locks_inv s' \<and>
      (\<forall>k. holders s' k = holders s k \<or> holders s' k = dropped uid (holders s k)) \<and>
      (holders s (r_start r) \<noteq> nobody \<longrightarrow>
        (\<forall>k. holders s' k = (if k \<in> addrs r then dropped uid (holders s k) else holders s k))) \<and>
      ((\<forall>k \<le> r_start r. holders s k = nobody) \<longrightarrow> s' = s)"
proof -
  obtain xs where loc: "locks_rep s xs" using inv by (auto simp: locks_inv_def)
  note nob = holders_nobody [OF loc]
  obtain s' ys where s': "LocksInternal_Unlock uid r s = returns s'" "locks_rep s' ys"
    "\<And>k. view_at s' k = view_at s k \<or> view_at s' k = Option.bind (view_at s k) (released uid)"
    using Unlock_always [OF loc r, of uid] by blast
  have "holders s' k = holders s k \<or> holders s' k = dropped uid (holders s k)" for k
    using s'(3) [of k] holders_released [OF loc] by (auto simp: holders_view)
  moreover have "holders s' k = (if k \<in> addrs r then dropped uid (holders s k) else holders s k)"
    if "holders s (r_start r) \<noteq> nobody" for k
  proof -
    have "view_at s' k = (if k \<in> addrs r then Option.bind (view_at s k) (released uid) else view_at s k)"
      using Unlock_result [OF loc r, of uid] that nob s'(1) by auto
    then show ?thesis using holders_released [OF loc, of s' k uid] by (auto simp: holders_view)
  qed
  moreover have "s' = s" if "\<forall>k \<le> r_start r. holders s k = nobody"
    using Unlock_before [OF loc r, of uid] that nob s'(1) by auto
  moreover have "locks_inv s'" using s'(2) by (auto simp: locks_inv_def)
  ultimately show ?thesis using s'(1) by blast
qed

section \<open>The contract of a lock table\<close>

text \<open>The calls of several owners on one table, in the order in which they get its mutex.\<close>

datatype lock_call = Acquire u64 owner_info LockType range | Release u64 range

fun call_owner :: "lock_call \<Rightarrow> u64" where
  "call_owner (Acquire uid owner t r) = uid"
| "call_owner (Release uid r) = uid"

fun call_range :: "lock_call \<Rightarrow> range" where
  "call_range (Acquire uid owner t r) = r"
| "call_range (Release uid r) = r"

fun lock_calls ::
    "(u64 \<Rightarrow> owner_info \<Rightarrow> LockType \<Rightarrow> range \<Rightarrow> 's \<Rightarrow> (bool \<times> 's) run) \<Rightarrow> (u64 \<Rightarrow> range \<Rightarrow> 's \<Rightarrow> 's run) \<Rightarrow>
      lock_call list \<Rightarrow> 's \<Rightarrow> 's run" where
  "lock_calls lock unlock [] s = returns s"
| "lock_calls lock unlock (Acquire uid owner t r # cs) s =
    run_bind (lock uid owner t r s) (\<lambda>(_, s). lock_calls lock unlock cs s)"
| "lock_calls lock unlock (Release uid r # cs) s =
    run_bind (unlock uid r s) (\<lambda>s. lock_calls lock unlock cs s)"

definition holds :: "u64 \<Rightarrow> LockType \<Rightarrow> holders \<Rightarrow> bool" where
  "holds uid t h = (case t of ReadLock \<Rightarrow> uid \<in> fst h | WriteLock \<Rightarrow> snd h = Some uid)"

lemma granted_others: "exclusive h \<Longrightarrow> may_lock uid t h \<Longrightarrow> holds me t' h \<Longrightarrow> me \<noteq> uid \<Longrightarrow> holds me t' (granted uid t h)"
  by (auto simp: exclusive_def may_lock_def granted_def holds_def split: LockType.splits)

lemma dropped_others: "holds me t' h \<Longrightarrow> me \<noteq> uid \<Longrightarrow> holds me t' (dropped uid h)"
  by (auto simp: dropped_def holds_def split: LockType.splits)

locale byte_locks =
  fixes lock :: "u64 \<Rightarrow> owner_info \<Rightarrow> LockType \<Rightarrow> range \<Rightarrow> 's \<Rightarrow> (bool \<times> 's) run"
    and unlock :: "u64 \<Rightarrow> range \<Rightarrow> 's \<Rightarrow> 's run"
    and inv :: "'s \<Rightarrow> bool" and held :: "'s \<Rightarrow> u64 \<Rightarrow> holders"
  assumes lock_law: "inv s \<Longrightarrow> lockable_range r \<Longrightarrow> \<exists>b s'. lock uid owner t r s = returns (b, s') \<and> inv s' \<and>
      (\<forall>k. held s' k = held s k \<or> may_lock uid t (held s k) \<and> held s' k = granted uid t (held s k))"
    and unlock_law: "inv s \<Longrightarrow> lockable_range r \<Longrightarrow> \<exists>s'. unlock uid r s = returns s' \<and> inv s' \<and>
      (\<forall>k. held s' k = held s k \<or> held s' k = dropped uid (held s k))"
    and exclusive_law: "inv s \<Longrightarrow> exclusive (held s k)"
begin

lemma call_step:
  assumes "inv s" "lockable_range (call_range c)"
  obtains s1 where "lock_calls lock unlock (c # cs) s = lock_calls lock unlock cs s1" "inv s1"
    "\<And>me t k. call_owner c \<noteq> me \<Longrightarrow> holds me t (held s k) \<Longrightarrow> holds me t (held s1 k)"
proof (cases c)
  case (Acquire uid owner t r)
  obtain b s1 where s1: "lock uid owner t r s = returns (b, s1)" "inv s1"
    "\<And>k. held s1 k = held s k \<or> may_lock uid t (held s k) \<and> held s1 k = granted uid t (held s k)"
    using lock_law [of s r uid owner t] assms Acquire by auto
  show thesis
  proof (rule that [of s1])
    show "holds me t' (held s1 k)" if "call_owner c \<noteq> me" "holds me t' (held s k)" for me t' k
      using s1(3) [of k] granted_others [OF exclusive_law [OF assms(1)] _ that(2), of uid t] that Acquire by auto
  qed (use s1 Acquire in simp_all)
next
  case (Release uid r)
  obtain s1 where s1: "unlock uid r s = returns s1" "inv s1"
    "\<And>k. held s1 k = held s k \<or> held s1 k = dropped uid (held s k)"
    using unlock_law [of s r uid] assms Release by auto
  show thesis
  proof (rule that [of s1])
    show "holds me t' (held s1 k)" if "call_owner c \<noteq> me" "holds me t' (held s k)" for me t' k
      using s1(3) [of k] dropped_others [OF that(2), of uid] that Release by auto
  qed (use s1 Release in simp_all)
qed

lemma calls_keep:
  assumes "inv s" "\<forall>c \<in> set cs. lockable_range (call_range c)"
  shows "\<exists>s'. lock_calls lock unlock cs s = returns s' \<and> inv s' \<and>
    (\<forall>k. exclusive (held s' k)) \<and>
    (\<forall>me t k. me \<notin> call_owner ` set cs \<longrightarrow> holds me t (held s k) \<longrightarrow> holds me t (held s' k))"
  using assms
proof (induction cs arbitrary: s)
  case (Cons c cs)
  obtain s1 where s1: "lock_calls lock unlock (c # cs) s = lock_calls lock unlock cs s1" "inv s1"
    "\<And>me t k. call_owner c \<noteq> me \<Longrightarrow> holds me t (held s k) \<Longrightarrow> holds me t (held s1 k)"
    by (rule call_step [of s c cs]) (use Cons.prems in simp_all)
  obtain s' where s': "lock_calls lock unlock cs s1 = returns s'" "inv s'"
    "\<And>me t k. me \<notin> call_owner ` set cs \<Longrightarrow> holds me t (held s1 k) \<Longrightarrow> holds me t (held s' k)"
    using Cons.IH [OF s1(2)] Cons.prems by auto
  have "holds me t (held s' k)" if "me \<notin> call_owner ` set (c # cs)" "holds me t (held s k)" for me t k
    using s1(3) s'(3) that by auto
  then show ?case using s1(1) s'(1,2) exclusive_law by auto
qed (simp add: exclusive_law)

end

lemma lockable_range_cases: "lockable_range r \<Longrightarrow> r_len r \<noteq> 0 \<Longrightarrow> r_start r < Range_End r"
  by (simp add: lockable_range_def)

interpretation fb: byte_locks LocksInternal_Lock LocksInternal_Unlock locks_inv holders
proof
  fix s r uid owner t assume inv: "locks_inv s" and r: "lockable_range r"
  show "\<exists>b s'. LocksInternal_Lock uid owner t r s = returns (b, s') \<and> locks_inv s' \<and>
      (\<forall>k. holders s' k = holders s k \<or> may_lock uid t (holders s k) \<and> holders s' k = granted uid t (holders s k))"
  proof (cases "r_len r = 0")
    case True
    then have "LocksInternal_Lock uid owner t r s = returns (True, s)" by (simp add: LocksInternal_Lock_def)
    then show ?thesis using inv by auto
  next
    case False
    note lock = Lock_bytes [OF inv lockable_range_cases [OF r False], of uid t owner]
    show ?thesis
    proof (cases "\<forall>k \<in> addrs r. may_lock uid t (holders s k)")
      case True
      then show ?thesis using lock [unfolded if_P [OF True]] by blast
    next
      case False
      then show ?thesis using lock [unfolded if_not_P [OF False]] inv by blast
    qed
  qed
next
  fix s r uid assume inv: "locks_inv s" and r: "lockable_range r"
  show "\<exists>s'. LocksInternal_Unlock uid r s = returns s' \<and> locks_inv s' \<and>
      (\<forall>k. holders s' k = holders s k \<or> holders s' k = dropped uid (holders s k))"
  proof (cases "r_len r = 0")
    case True
    then have "LocksInternal_Unlock uid r s = returns s" by (simp add: LocksInternal_Unlock_def)
    then show ?thesis using inv by auto
  next
    case False
    then show ?thesis using Unlock_bytes [OF inv lockable_range_cases [OF r False], of uid] by blast
  qed
next
  fix s k assume "locks_inv s"
  then obtain xs where loc: "locks_rep s xs" by (auto simp: locks_inv_def)
  show "exclusive (holders s k)"
    using view_at_good [OF loc, of k] by (auto simp: holders_view exclusive_def nobody_def good_view_def split: option.split)
qed

end
