(* ===== verification/Lock_Laws.thy ===== *)
theory Lock_Laws
  imports Lock_Spec
begin

text \<open>
  The properties of file locks: what a lock and an unlock do to every byte, exclusion over any
  sequence of calls, the search for conflicts, the range of a request, blocking requests and
  \<^verbatim>\<open>flock\<close>.
\<close>

section \<open>Shared lemmas\<close>

lemma New_rep: "rep (AreaSet_New 0 MAX_RANGE) []"
  by (simp add: rep_def AreaSet_New_def dlist_def lower_def upper_def AreaEntry_Dummy_def areas_ok_def MAX_RANGE_def Range_End_def
      Range_New_def AreaEntry_default_def)

lemma default_inv: "locks_inv (ls_locks Locks_default)"
  unfolding locks_inv_def locks_rep_def
  by (rule exI [of _ "[]"]) (simp add: Locks_default_def New_rep, simp add: AreaSet_New_def lower_def upper_def Range_New_def Range_End_def MAX_RANGE_def)

lemma default_holders: "holders (ls_locks Locks_default) k = nobody"
proof -
  have "locks_rep (ls_locks Locks_default) []"
    by (simp add: locks_rep_def Locks_default_def New_rep) (simp add: AreaSet_New_def lower_def upper_def Range_New_def Range_End_def MAX_RANGE_def)
  then show ?thesis using view_at_None [of "ls_locks Locks_default" "[]" k] by (simp add: holders_view)
qed

text \<open>The tables that a lock and an unlock of whole ranges specify.\<close>

definition spec_lock :: "u64 \<Rightarrow> LockType \<Rightarrow> range \<Rightarrow> (u64 \<Rightarrow> holders) \<Rightarrow> u64 \<Rightarrow> holders" where
  "spec_lock uid t r T = (\<lambda>k. if k \<in> addrs r then granted uid t (T k) else T k)"

definition spec_unlock :: "u64 \<Rightarrow> range \<Rightarrow> (u64 \<Rightarrow> holders) \<Rightarrow> u64 \<Rightarrow> holders" where
  "spec_unlock uid r T = (\<lambda>k. if k \<in> addrs r then dropped uid (T k) else T k)"

definition grantable :: "u64 \<Rightarrow> LockType \<Rightarrow> range \<Rightarrow> (u64 \<Rightarrow> holders) \<Rightarrow> bool" where
  "grantable uid t r T \<longleftrightarrow> (\<forall>k \<in> addrs r. may_lock uid t (T k))"

lemma lock_default:
  assumes r: "r_start r < Range_End r"
  obtains s where "LocksInternal_Lock uid owner t r (ls_locks Locks_default) = returns (True, s)" "locks_inv s"
    "\<And>k. holders s k = (if k \<in> addrs r then granted uid t nobody else nobody)"
proof -
  have may: "\<forall>k \<in> addrs r. may_lock uid t (holders (ls_locks Locks_default) k)" by (simp add: default_holders)
  have ne: "granted uid t nobody \<noteq> nobody" by (simp add: granted_def nobody_def split: LockType.split)
  obtain s where "LocksInternal_Lock uid owner t r (ls_locks Locks_default) = returns (True, s)" "locks_inv s"
    "\<And>k. holders s k = nobody \<or> k \<in> addrs r \<and> holders s k = granted uid t nobody"
    "\<And>k. k \<in> addrs r \<Longrightarrow> holders s k = granted uid t nobody"
    using Lock_bytes [OF default_inv r, of uid t owner, unfolded if_P [OF may]] ne unfolding default_holders by metis
  then show thesis using that [of s] by metis
qed

lemma Range_Max_less: "r_start Range_Max < Range_End Range_Max"
  by (simp add: Range_Max_def Range_End_def MAX_RANGE_def word_gt_0)

lemma small_range:
  assumes "a < 1000" "n < 1000" "0 < n"
  shows "r_start (Range_New a n) < Range_End (Range_New a n)" "addrs (Range_New a n) = {k. a \<le> k \<and> k < a + n}"
proof -
  have "n \<noteq> MAX_RANGE" using assms(2) by (auto simp: MAX_RANGE_def)
  then have "Range_End (Range_New a n) = a + n" by (simp add: Range_End_def)
  moreover have "a < a + n" using assms by (simp add: word_less_nat_alt unat_word_ariths(1))
  ultimately show "r_start (Range_New a n) < Range_End (Range_New a n)" "addrs (Range_New a n) = {k. a \<le> k \<and> k < a + n}"
    by (simp_all add: addrs_def)
qed

section \<open>Locking and unlocking\<close>

text \<open>C19. \<^verbatim>\<open>Lock\<close> always returns and decides as the byte rule does: it fails, changing nothing, when
  some byte of the range may not be locked; otherwise it succeeds, keeps the table well formed,
  gives every byte of the range that already has a holder its new holders, gives a free byte the
  new lock or leaves it free, and changes no other byte.\<close>

theorem Lock_decides:
  assumes "locks_inv s" and "r_start r < Range_End r"
  shows "if grantable uid t r (holders s)
    then \<exists>s'. LocksInternal_Lock uid owner t r s = returns (True, s') \<and> locks_inv s' \<and>
      (\<forall>k. if k \<in> addrs r \<and> holders s k \<noteq> nobody then holders s' k = granted uid t (holders s k)
           else holders s' k = holders s k \<or> k \<in> addrs r \<and> holders s' k = granted uid t nobody)
    else LocksInternal_Lock uid owner t r s = returns (False, s)"
proof (cases "grantable uid t r (holders s)")
  case True
  note lock = Lock_bytes [OF assms, of uid t owner, folded grantable_def, unfolded if_P [OF True]]
  then obtain s' where s': "LocksInternal_Lock uid owner t r s = returns (True, s')" "locks_inv s'"
    "\<And>k. holders s' k = holders s k \<or> k \<in> addrs r \<and> holders s' k = granted uid t (holders s k)"
    "\<And>k. k \<in> addrs r \<Longrightarrow> holders s k \<noteq> nobody \<Longrightarrow> holders s' k = granted uid t (holders s k)" by blast
  have "if k \<in> addrs r \<and> holders s k \<noteq> nobody then holders s' k = granted uid t (holders s k)
      else holders s' k = holders s k \<or> k \<in> addrs r \<and> holders s' k = granted uid t nobody" for k
    using s'(3) [of k] s'(4) [of k] by auto
  then show ?thesis unfolding if_P [OF True] using s'(1,2) by blast
next
  case False
  show ?thesis unfolding if_not_P [OF False]
    using Lock_bytes [OF assms, of uid t owner, folded grantable_def, unfolded if_not_P [OF False]] .
qed

theorem Lock_decides_witness:
  "\<exists>s'. LocksInternal_Lock 1 OwnerInfo_default WriteLock (Range_New 0 10) (ls_locks Locks_default) = returns (True, s') \<and> locks_inv s'"
proof -
  have "r_start (Range_New 0 10) < Range_End (Range_New 0 10)" by (rule small_range) simp_all
  from Lock_decides [OF default_inv this, of 1 WriteLock OwnerInfo_default] show ?thesis
    by (auto simp: grantable_def default_holders)
qed

text \<open>C20. When no byte of the range is already held exactly as requested by the owner alone, a
  permitted \<^verbatim>\<open>Lock\<close> implements the specified table update: every byte of the range gets the new
  holders and every other byte keeps its own.\<close>

theorem Lock_refines:
  assumes "locks_inv s" and "r_start r < Range_End r" and "grantable uid t r (holders s)"
    and "\<forall>k \<in> addrs r. holders s k \<noteq> granted uid t nobody"
  shows "\<exists>s'. LocksInternal_Lock uid owner t r s = returns (True, s') \<and> locks_inv s' \<and> holders s' = spec_lock uid t r (holders s)"
proof -
  obtain s' where s': "LocksInternal_Lock uid owner t r s = returns (True, s')" "locks_inv s'"
    "\<And>k. holders s' k = holders s k \<or> k \<in> addrs r \<and> holders s' k = granted uid t (holders s k)"
    "\<And>k. k \<in> addrs r \<Longrightarrow> holders s' k = granted uid t (holders s k)"
    using Lock_bytes [OF assms(1,2), of uid t owner, folded grantable_def, unfolded if_P [OF assms(3)]] assms(4) by blast
  have "holders s' k = spec_lock uid t r (holders s) k" for k using s'(3,4) [of k] by (auto simp: spec_lock_def)
  then show ?thesis using s'(1,2) by blast
qed

theorem Lock_refines_witness:
  "\<exists>s'. LocksInternal_Lock 1 OwnerInfo_default WriteLock (Range_New 0 10) (ls_locks Locks_default) = returns (True, s') \<and>
     holders s' 9 = ({}, Some 1) \<and> holders s' 10 = ({}, None)"
proof -
  have r: "r_start (Range_New 0 10) < Range_End (Range_New 0 10)" by (rule small_range) simp_all
  have "9 \<in> addrs (Range_New 0 10)" "10 \<notin> addrs (Range_New 0 10)" by (simp_all add: small_range)
  with Lock_refines [OF default_inv r, of 1 WriteLock OwnerInfo_default] show ?thesis
    by (auto simp: grantable_def default_holders spec_lock_def granted_def nobody_def may_lock_def)
qed

text \<open>C21. When some lock covers the first byte of the range, \<^verbatim>\<open>Unlock\<close> implements the specified
  table update: the owner loses exactly the bytes of the range, and every other lock stays.\<close>

theorem Unlock_refines:
  assumes "locks_inv s" and "r_start r < Range_End r" and "holders s (r_start r) \<noteq> nobody"
  shows "\<exists>s'. LocksInternal_Unlock uid r s = returns s' \<and> locks_inv s' \<and> holders s' = spec_unlock uid r (holders s)"
  using Unlock_bytes [OF assms(1,2), of uid] assms(3) unfolding spec_unlock_def by blast

theorem Unlock_refines_witness:
  "\<exists>s s'. LocksInternal_Lock 1 OwnerInfo_default WriteLock (Range_New 0 10) (ls_locks Locks_default) = returns (True, s) \<and>
     LocksInternal_Unlock 1 (Range_New 0 5) s = returns s' \<and> holders s' 3 = nobody \<and> holders s' 7 = ({}, Some 1)"
proof -
  have r: "r_start (Range_New 0 10) < Range_End (Range_New 0 10)" "r_start (Range_New 0 5) < Range_End (Range_New 0 5)"
    by (rule small_range; simp)+
  obtain s where s: "LocksInternal_Lock 1 OwnerInfo_default WriteLock (Range_New 0 10) (ls_locks Locks_default) = returns (True, s)"
    "locks_inv s" "\<And>k. holders s k = (if k \<in> addrs (Range_New 0 10) then granted 1 WriteLock nobody else nobody)"
    by (rule lock_default [OF r(1), of 1 OwnerInfo_default WriteLock], rule that)
  have "holders s (r_start (Range_New 0 5)) \<noteq> nobody" unfolding s(3) by (simp add: small_range granted_def nobody_def)
  from Unlock_refines [OF s(2) r(2) this, of 1] s(1) show ?thesis
    by (auto simp: spec_unlock_def s(3) small_range granted_def nobody_def dropped_def)
qed

text \<open>\<^verbatim>\<open>Unlock\<close> starts from the segment at or below the first byte of the range. When no byte up to
  there is held it releases nothing, whatever the owner holds further up in the range.\<close>

theorem Unlock_releases_nothing:
  assumes "locks_inv s" and "r_start r < Range_End r" and "\<forall>k \<le> r_start r. holders s k = nobody"
  shows "LocksInternal_Unlock uid r s = returns s"
  using Unlock_bytes [OF assms(1,2), of uid] assms(3) by blast

theorem Unlock_releases_nothing_witness:
  "\<exists>s. LocksInternal_Lock 1 OwnerInfo_default WriteLock (Range_New 10 10) (ls_locks Locks_default) = returns (True, s) \<and>
     LocksInternal_Unlock 1 Range_Max s = returns s \<and> holders s 15 = ({}, Some 1)"
proof -
  have r: "r_start (Range_New 10 10) < Range_End (Range_New 10 10)" by (rule small_range) simp_all
  obtain s where s: "LocksInternal_Lock 1 OwnerInfo_default WriteLock (Range_New 10 10) (ls_locks Locks_default) = returns (True, s)"
    "locks_inv s" "\<And>k. holders s k = (if k \<in> addrs (Range_New 10 10) then granted 1 WriteLock nobody else nobody)"
    by (rule lock_default [OF r, of 1 OwnerInfo_default WriteLock], rule that)
  have "\<forall>k \<le> r_start Range_Max. holders s k = nobody" unfolding s(3) by (simp add: small_range Range_Max_def)
  from Unlock_releases_nothing [OF s(2) Range_Max_less this, of 1] s(1) show ?thesis
    by (auto simp: s(3) small_range granted_def nobody_def)
qed

text \<open>C22. Exclusion over any sequence of calls: every call returns, no byte ever has a writer and a
  reader at once, and a lock that an owner holds on a byte stays until that owner makes a call,
  whatever locks and unlocks the other owners issue.\<close>

theorem locks_exclude:
  assumes "locks_inv s" and "\<forall>c \<in> set cs. lockable_range (call_range c)" and "me \<notin> call_owner ` set cs"
  shows "\<exists>s'. lock_calls LocksInternal_Lock LocksInternal_Unlock cs s = returns s' \<and> locks_inv s' \<and>
    (\<forall>k. exclusive (holders s' k)) \<and> (\<forall>t k. holds me t (holders s k) \<longrightarrow> holds me t (holders s' k))"
  using fb.calls_keep [OF assms(1,2)] assms(3) by blast

theorem locks_exclude_witness:
  "\<exists>s s'. LocksInternal_Lock 1 OwnerInfo_default WriteLock (Range_New 10 10) (ls_locks Locks_default) = returns (True, s) \<and>
     lock_calls LocksInternal_Lock LocksInternal_Unlock
       [Acquire 2 OwnerInfo_default ReadLock (Range_New 0 20), Release 2 Range_Max] s = returns s' \<and> holders s' 15 = ({}, Some 1)"
proof -
  let ?cs = "[Acquire 2 OwnerInfo_default ReadLock (Range_New 0 20), Release 2 Range_Max]"
  have r: "r_start (Range_New 10 10) < Range_End (Range_New 10 10)" "r_start (Range_New 0 20) < Range_End (Range_New 0 20)"
    by (rule small_range; simp)+
  have "\<forall>c \<in> set ?cs. lockable_range (call_range c)"
    using r(2) Range_Max_less by (simp add: lockable_range_def)
  moreover obtain s where s: "LocksInternal_Lock 1 OwnerInfo_default WriteLock (Range_New 10 10) (ls_locks Locks_default) = returns (True, s)"
    "locks_inv s" "\<And>k. holders s k = (if k \<in> addrs (Range_New 10 10) then granted 1 WriteLock nobody else nobody)"
    by (rule lock_default [OF r(1), of 1 OwnerInfo_default WriteLock], rule that)
  ultimately obtain s' where s': "lock_calls LocksInternal_Lock LocksInternal_Unlock ?cs s = returns s'"
    "exclusive (holders s' 15)" "holds 1 WriteLock (holders s 15) \<longrightarrow> holds 1 WriteLock (holders s' 15)"
    using locks_exclude [of s ?cs 1] by auto
  have "holders s' 15 = ({}, Some 1)"
    using s'(2,3) s(3) by (cases "holders s' 15") (simp add: small_range holds_def granted_def exclusive_def)
  then show ?thesis using s(1) s'(1) by blast
qed

end
