(* ===== verification/Lock_Calls.thy ===== *)
theory Lock_Calls
  imports Lock_Laws
begin

text \<open>
  The calls on top of the lock table: the search for a conflict that \<^verbatim>\<open>F_GETLK\<close> makes, the range
  of a request, blocking requests, and \<^verbatim>\<open>flock\<close>, whose locks always cover the whole file.
\<close>

section \<open>Searching for a conflict\<close>

lemma testRegion_loop_rep:
  assumes "rep s (xs1 @ xs2)" and "\<forall>x \<in> set xs2. \<forall>a n. check (snd (snd x)) a n = None \<longleftrightarrow> ok (snd (snd x))"
  shows "\<exists>c. testRegion_loop r check s (Some (nxt s xs2)) = returns c \<and> Lockable_loop r ok s (Some (nxt s xs2)) = returns (c = None) \<and>
    (\<forall>f. c = Some f \<longrightarrow> (\<exists>x \<in> set xs2. check (snd (snd x)) (r_start (fst (snd x))) (r_len (fst (snd x))) = Some f))"
  using assms
proof (induction xs2 arbitrary: xs1)
  case Nil
  then show ?case using rep_nxt_Ok [OF Nil(1)] by (subst testRegion_loop.simps, subst Lockable_loop.simps) simp
next
  case (Cons x xs2)
  obtain n rn vn where x: "x = (n, rn, vn)" by (cases x)
  have rep: "rep s (xs1 @ (n, rn, vn) # xs2)" "rep s ((xs1 @ [(n, rn, vn)]) @ xs2)" using Cons.prems(1) x by simp_all
  note seg = rep_seg(1-4) [OF rep(1)]
  obtain c where c: "testRegion_loop r check s (Some (nxt s xs2)) = returns c" "Lockable_loop r ok s (Some (nxt s xs2)) = returns (c = None)"
    "\<And>f. c = Some f \<Longrightarrow> \<exists>x \<in> set xs2. check (snd (snd x)) (r_start (fst (snd x))) (r_len (fst (snd x))) = Some f"
    using Cons.IH [OF rep(2)] Cons.prems(2) by auto
  have ok: "check vn (r_start rn) (r_len rn) = None \<longleftrightarrow> ok vn" using Cons.prems(2) x by auto
  define res where "res = (if r_start rn < Range_End r
    then case check vn (r_start rn) (r_len rn) of Some f \<Rightarrow> Some f | None \<Rightarrow> c else None)"
  have "testRegion_loop r check s (Some n) = returns res"
    using seg c(1) by (subst testRegion_loop.simps) (simp add: res_def split: option.split)
  moreover have "Lockable_loop r ok s (Some n) = returns (res = None)"
    using seg c(2) ok by (subst Lockable_loop.simps) (auto simp: res_def split: option.split)
  moreover have "\<exists>x \<in> set (x # xs2). check (snd (snd x)) (r_start (fst (snd x))) (r_len (fst (snd x))) = Some f" if "res = Some f" for f
    using that c(3) x by (auto simp: res_def split: if_splits option.splits)
  ultimately show ?case using x by auto
qed

lemma find_other: "find (\<lambda>(k, _). k \<noteq> uid) xs = None \<longleftrightarrow> fst ` set xs \<subseteq> {uid}"
  by (auto simp: find_None_iff)

lemma TestRegion_check_view:
  assumes "good_view (lock_view v)"
  shows "TestRegion_check uid t v a n = None \<longleftrightarrow> CanLock_check uid t v"
proof (cases "t = WriteLock \<and> lk_Writer v = None")
  case True
  then have "TestRegion_check uid t v a n = None \<longleftrightarrow> find (\<lambda>(k, _). k \<noteq> uid) (lk_Readers v) = None"
    by (simp add: TestRegion_check_def split: option.split)
  also have "\<dots> \<longleftrightarrow> fst ` set (lk_Readers v) = {uid}"
    unfolding find_other using assms True by (auto simp: good_view_def lock_view_def subset_singleton_iff)
  finally show ?thesis unfolding CanLock_check_view [OF assms] using True by (simp add: can_def lock_view_def)
next
  case False
  then show ?thesis unfolding CanLock_check_view [OF assms]
    by (auto simp: TestRegion_check_def can_def lock_view_def split: LockType.split)
qed

lemma TestRegion_check_type: "TestRegion_check uid t v a n = Some f \<Longrightarrow> fl_Type f \<noteq> F_UNLCK"
  by (auto simp: TestRegion_check_def F_RDLCK_def F_WRLCK_def F_UNLCK_def split: LockType.splits if_splits option.splits)

text \<open>C23. \<^verbatim>\<open>TestRegion\<close> always returns, and it reports that the region is free (\<^verbatim>\<open>F_UNLCK\<close>) exactly when
  a lock of that type by that owner would be granted.\<close>

theorem TestRegion_agrees:
  assumes "locks_inv (ls_locks l)" and "r_start r < Range_End r"
  shows "\<exists>f. TestRegion uid t r l = returns f \<and> (fl_Type f = F_UNLCK \<longleftrightarrow> grantable uid t r (holders (ls_locks l)))"
proof -
  let ?s = "ls_locks l"
  obtain xs where loc: "locks_rep ?s xs" using assms(1) by (auto simp: locks_inv_def)
  have rep: "rep ?s xs" and good: "\<forall>x \<in> set xs. good_view (lock_view (snd (snd x)))"
    and bounds: "lower ?s \<le> r_start r" "r_start r \<le> upper ?s" using loc by (auto simp: locks_rep_def)
  obtain xs1 xs2 where xs: "xs = xs1 @ xs2" and seg: "AreaSet_LowerBoundSeg ?s (r_start r) = Some (nxt ?s xs2)"
    by (rule LowerBoundSeg_rep [OF rep bounds])
  have rep': "rep ?s (xs1 @ xs2)" using rep xs by simp
  have "\<forall>x \<in> set xs2. \<forall>a n. TestRegion_check uid t (snd (snd x)) a n = None \<longleftrightarrow> CanLock_check uid t (snd (snd x))"
    using good xs TestRegion_check_view by auto
  from testRegion_loop_rep [OF rep' this, of r] obtain c
    where c: "testRegion_loop r (TestRegion_check uid t) ?s (Some (nxt ?s xs2)) = returns c"
      "Lockable_loop r (CanLock_check uid t) ?s (Some (nxt ?s xs2)) = returns (c = None)"
      "\<And>f. c = Some f \<Longrightarrow> fl_Type f \<noteq> F_UNLCK" using TestRegion_check_type by blast
  have "CanLock uid t r ?s = returns (c = None)" using c(2) seg by (simp add: CanLock_def Lockable_def)
  then have "c = None \<longleftrightarrow> (\<forall>k w. (k, w) \<in> sem lock_view xs \<longrightarrow> k \<in> addrs r \<longrightarrow> can uid t w)"
    using CanLock_rep [OF rep good assms(2) bounds] by simp
  also have "\<dots> \<longleftrightarrow> grantable uid t r (holders ?s)"
  proof -
    have "may_lock uid t (holders ?s k) \<longleftrightarrow> (\<forall>w. (k, w) \<in> sem lock_view xs \<longrightarrow> can uid t w)" for k
      unfolding may_lock_view [OF loc] view_at_iff [OF loc, symmetric] by (cases "view_at ?s k") (simp_all add: the_view_def)
    then show ?thesis unfolding grantable_def by blast
  qed
  finally show ?thesis using c(1,3) seg by (cases c) (auto simp: TestRegion_def testRegion_def)
qed

theorem TestRegion_agrees_witness:
  "\<exists>s f. LocksInternal_Lock 1 OwnerInfo_default WriteLock (Range_New 10 10) (ls_locks Locks_default) = returns (True, s) \<and>
     TestRegion 2 ReadLock (Range_New 0 11) \<lparr>ls_locks = s, ls_queue = []\<rparr> = returns f \<and> fl_Type f \<noteq> F_UNLCK"
proof -
  have r: "r_start (Range_New 10 10) < Range_End (Range_New 10 10)" "r_start (Range_New 0 11) < Range_End (Range_New 0 11)"
    by (rule small_range; simp)+
  obtain s where s: "LocksInternal_Lock 1 OwnerInfo_default WriteLock (Range_New 10 10) (ls_locks Locks_default) = returns (True, s)"
    "locks_inv s" "\<And>k. holders s k = (if k \<in> addrs (Range_New 10 10) then granted 1 WriteLock nobody else nobody)"
    by (rule lock_default [OF r(1), of 1 OwnerInfo_default WriteLock], rule that)
  have "\<not> may_lock 2 ReadLock (holders s 10)" unfolding s(3) by (simp add: small_range may_lock_def granted_def)
  moreover have "10 \<in> addrs (Range_New 0 11)" by (simp add: small_range)
  ultimately have "\<not> grantable 2 ReadLock (Range_New 0 11) (holders s)"
    unfolding grantable_def by blast
  then show ?thesis using TestRegion_agrees [of "\<lparr>ls_locks = s, ls_queue = []\<rparr>", OF _ r(2), of 2 ReadLock] s(1,2) by auto
qed

section \<open>The range of a request\<close>

lemma i64_sum_as_u64: "i64_as_u64 (i64 x) = word_of_int x"
proof -
  have "i64 x mod 18446744073709551616 = x mod 18446744073709551616" unfolding i64_def by (simp only: mod_diff_left_eq) simp
  then show ?thesis unfolding i64_as_u64_def word_of_int_eq_iff take_bit_eq_mod by simp
qed

lemma uint_of: "0 \<le> x \<Longrightarrow> x < 18446744073709551616 \<Longrightarrow> uint (word_of_int x :: u64) = x"
  by (simp add: uint_word_of_int)

lemma uint_MAX_RANGE: "uint MAX_RANGE = 18446744073709551615"
  by (simp add: MAX_RANGE_def unsigned_minus_1_eq_mask mask_eq_exp_minus_1)



section \<open>Blocking requests\<close>

declare LockRegion.simps [simp del]

text \<open>One attempt of a blocking request.\<close>

lemma LockRegion_attempt:
  assumes "locks_inv (ls_locks l)" and "r_start r < Range_End r"
  shows "grantable uid t r (holders (ls_locks l)) \<Longrightarrow>
      \<exists>s'. LockRegion e uid owner t r block rds l = returns (Ok True, l\<lparr>ls_locks := s'\<rparr>) \<and> locks_inv s'"
    "\<not> grantable uid t r (holders (ls_locks l)) \<Longrightarrow> LocksInternal_Lock uid owner t r (ls_locks l) = returns (False, ls_locks l)"
proof -
  note lock = Lock_bytes [OF assms, of uid t owner, folded grantable_def]
  show "\<exists>s'. LockRegion e uid owner t r block rds l = returns (Ok True, l\<lparr>ls_locks := s'\<rparr>) \<and> locks_inv s'"
    if ok: "grantable uid t r (holders (ls_locks l))"
    using lock [unfolded if_P [OF ok]] by (subst LockRegion.simps) auto
  show "LocksInternal_Lock uid owner t r (ls_locks l) = returns (False, ls_locks l)"
    if no: "\<not> grantable uid t r (holders (ls_locks l))"
    using lock [unfolded if_not_P [OF no]] .
qed



lemma lock_got: "(case m of Some (Inr (True, s)) \<Rightarrow> P s | _ \<Rightarrow> False) \<Longrightarrow> \<exists>s. m = returns (True, s) \<and> P s"
  by (auto split: option.splits sum.splits bool.splits)

text \<open>\<^verbatim>\<open>Lock\<close> can report success without covering its range: an owner that holds a write lock on
  bytes 20 to 29 and asks for bytes 0 to 99 gets \<open>True\<close>, yet byte 50 stays free.\<close>

theorem Lock_misses_gap:
  "\<exists>s s'. LocksInternal_Lock 1 OwnerInfo_default WriteLock (Range_New 20 10) (ls_locks Locks_default) = returns (True, s) \<and>
     LocksInternal_Lock 1 OwnerInfo_default WriteLock (Range_New 0 100) s = returns (True, s') \<and>
     holders s' 10 = ({}, Some 1) \<and> holders s' 50 = nobody"
proof -
  have "(case LocksInternal_Lock 1 OwnerInfo_default WriteLock (Range_New 20 10) (ls_locks Locks_default) of
      Some (Inr (True, s)) \<Rightarrow> (case LocksInternal_Lock 1 OwnerInfo_default WriteLock (Range_New 0 100) s of
        Some (Inr (True, s')) \<Rightarrow> holders s' 10 = ({}, Some 1) \<and> holders s' 50 = nobody
      | _ \<Rightarrow> False) | _ \<Rightarrow> False)" by code_simp
  from lock_got [OF this] obtain s where s: "LocksInternal_Lock 1 OwnerInfo_default WriteLock (Range_New 20 10) (ls_locks Locks_default) = returns (True, s)"
    "(case LocksInternal_Lock 1 OwnerInfo_default WriteLock (Range_New 0 100) s of
        Some (Inr (True, s')) \<Rightarrow> holders s' 10 = ({}, Some 1) \<and> holders s' 50 = nobody | _ \<Rightarrow> False)" by blast
  from lock_got [OF s(2)] s(1) show ?thesis by blast
qed

section \<open>Whole-file locks\<close>

text \<open>\<^verbatim>\<open>flock\<close> always locks the whole file, so that all bytes below the largest offset have the same
  holders.\<close>

definition flock_state :: "locks \<Rightarrow> holders \<Rightarrow> bool" where
  "flock_state l h \<longleftrightarrow> locks_inv (ls_locks l) \<and> (\<forall>k \<in> addrs Range_Max. holders (ls_locks l) k = h)"

definition flock_op :: "LockType \<Rightarrow> int" where
  "flock_op t = (case t of ReadLock \<Rightarrow> LOCK_SH | WriteLock \<Rightarrow> LOCK_EX)"

lemma flock_lock:
  assumes st: "flock_state l h" and may: "may_lock uid t h"
  obtains s' where "LocksInternal_Lock uid owner t Range_Max (ls_locks l) = returns (True, s')"
    "flock_state (l\<lparr>ls_locks := s'\<rparr>) (granted uid t h)"
proof -
  have inv: "locks_inv (ls_locks l)" and h: "\<And>k. k \<in> addrs Range_Max \<Longrightarrow> holders (ls_locks l) k = h"
    using st by (auto simp: flock_state_def)
  have ok: "\<forall>k \<in> addrs Range_Max. may_lock uid t (holders (ls_locks l) k)" using h may by simp
  obtain s' where s': "LocksInternal_Lock uid owner t Range_Max (ls_locks l) = returns (True, s')" "locks_inv s'"
    "\<And>k. k \<in> addrs Range_Max \<Longrightarrow> holders (ls_locks l) k \<noteq> nobody \<Longrightarrow> holders s' k = granted uid t (holders (ls_locks l) k)"
    "(\<forall>k \<in> addrs Range_Max. holders (ls_locks l) k \<noteq> granted uid t nobody) \<Longrightarrow>
      (\<forall>k \<in> addrs Range_Max. holders s' k = granted uid t (holders (ls_locks l) k))"
    using Lock_bytes [OF inv Range_Max_less, of uid t owner, unfolded if_P [OF ok]] by blast
  have "holders s' k = granted uid t h" if "k \<in> addrs Range_Max" for k
  proof (cases "h = nobody")
    case True
    then have "h \<noteq> granted uid t nobody" by (simp add: granted_def nobody_def split: LockType.split)
    then show ?thesis using s'(4) h that by simp
  next
    case False
    then show ?thesis using s'(3) h that by simp
  qed
  then show thesis using that [OF s'(1)] s'(2) by (simp add: flock_state_def)
qed

lemma flock_unlock:
  assumes st: "flock_state l h"
  obtains s' where "LocksInternal_Unlock uid Range_Max (ls_locks l) = returns s'" "flock_state (l\<lparr>ls_locks := s'\<rparr>) (dropped uid h)"
proof -
  have inv: "locks_inv (ls_locks l)" and h: "\<And>k. k \<in> addrs Range_Max \<Longrightarrow> holders (ls_locks l) k = h"
    using st by (auto simp: flock_state_def)
  have zero: "0 \<in> addrs Range_Max" "r_start Range_Max = 0" using Range_Max_less by (simp_all add: addrs_def Range_Max_def)
  note un = Unlock_bytes [OF inv Range_Max_less, of uid]
  obtain s' where s': "LocksInternal_Unlock uid Range_Max (ls_locks l) = returns s'" "locks_inv s'"
    "h \<noteq> nobody \<Longrightarrow> \<forall>k. holders s' k = (if k \<in> addrs Range_Max then dropped uid (holders (ls_locks l) k) else holders (ls_locks l) k)"
    "h = nobody \<Longrightarrow> s' = ls_locks l"
    using un h [OF zero(1)] unfolding zero(2) by auto
  have "holders s' k = dropped uid h" if "k \<in> addrs Range_Max" for k
    using s'(3,4) h [OF that] that by (cases "h = nobody") simp_all
  then show thesis using that [OF s'(1)] s'(2) by (simp add: flock_state_def)
qed

lemma Range_Max_New: "Range_New 0 MAX_RANGE = Range_Max"
  by (simp add: Range_New_def Range_Max_def)

text \<open>C26. \<^verbatim>\<open>flock\<close> refines one lock word per file: on a table where every byte has the holders \<open>h\<close>, a
  non-blocking request succeeds exactly when \<open>h\<close> allows it and otherwise fails with \<^verbatim>\<open>EWOULDBLOCK\<close> and
  changes nothing, and an unlock takes the owner out of \<open>h\<close> and notifies every waiter.\<close>

theorem SysFlock_refines:
  assumes "flock_state bsd h" and "lt_GetFile task = Ok ()" and "\<not> lt_Path task"
  shows "(if may_lock (lt_fileId task) t h
      then \<exists>bsd'. SysFlock task (flock_op t + LOCK_NB) [] bsd = returns (Ok 0, bsd', []) \<and> flock_state bsd' (granted (lt_fileId task) t h)
      else SysFlock task (flock_op t + LOCK_NB) [] bsd = returns (Err (SysError EWOULDBLOCK), bsd, [])) \<and>
    (\<exists>bsd'. SysFlock task LOCK_UN [] bsd = returns (Ok 0, bsd', Queue_Notify EVENTMASK_ALL (ls_queue bsd)) \<and>
      flock_state bsd' (dropped (lt_fileId task) h))"
proof -
  let ?uid = "lt_fileId task"
  have flock: "SysFlock task (flock_op t + LOCK_NB) [] bsd =
    run_bind (LockRegion (lt_entry task) ?uid OwnerInfo_default t Range_Max False [] bsd)
      (\<lambda>(r, bsd). returns (and_then r (\<lambda>res. if res then Ok 0 else Err (SysError EWOULDBLOCK)), bsd, []))"
    using assms(2,3) by (cases t) (simp_all add: SysFlock_def flock_op_def LOCK_SH_def LOCK_EX_def LOCK_NB_def LOCK_UN_def Range_Max_New)
  have inv: "locks_inv (ls_locks bsd)" and h: "\<And>k. k \<in> addrs Range_Max \<Longrightarrow> holders (ls_locks bsd) k = h"
    using assms(1) by (auto simp: flock_state_def)
  have "if may_lock ?uid t h
      then \<exists>bsd'. SysFlock task (flock_op t + LOCK_NB) [] bsd = returns (Ok 0, bsd', []) \<and> flock_state bsd' (granted ?uid t h)
      else SysFlock task (flock_op t + LOCK_NB) [] bsd = returns (Err (SysError EWOULDBLOCK), bsd, [])"
  proof (cases "may_lock ?uid t h")
    case True
    obtain s' where "LocksInternal_Lock ?uid OwnerInfo_default t Range_Max (ls_locks bsd) = returns (True, s')"
      "flock_state (bsd\<lparr>ls_locks := s'\<rparr>) (granted ?uid t h)" by (rule flock_lock [OF assms(1) True])
    then show ?thesis unfolding flock using True by (subst LockRegion.simps) auto
  next
    case False
    have "0 \<in> addrs Range_Max" using Range_Max_less by (simp add: addrs_def Range_Max_def)
    then have "\<not> grantable ?uid t Range_Max (holders (ls_locks bsd))" using h False unfolding grantable_def by force
    from LockRegion_attempt(2) [OF inv Range_Max_less this, of OwnerInfo_default]
    show ?thesis unfolding flock using False by (subst LockRegion.simps) simp
  qed
  moreover obtain s' where "LocksInternal_Unlock ?uid Range_Max (ls_locks bsd) = returns s'"
    "flock_state (bsd\<lparr>ls_locks := s'\<rparr>) (dropped ?uid h)" by (rule flock_unlock [OF assms(1)])
  then have "\<exists>bsd'. SysFlock task LOCK_UN [] bsd = returns (Ok 0, bsd', Queue_Notify EVENTMASK_ALL (ls_queue bsd)) \<and>
      flock_state bsd' (dropped ?uid h)"
    using assms(2,3) by (simp add: SysFlock_def LOCK_EX_def LOCK_SH_def LOCK_UN_def LOCK_NB_def UnlockRegion_def Range_Max_New)
  ultimately show ?thesis by blast
qed

theorem SysFlock_refines_witness:
  "\<exists>bsd'. SysFlock \<lparr>lt_CopyIn = Err Panic, lt_CopyOut = (\<lambda>_. Ok ()), lt_GetFile = Ok (), lt_fdTbl = 1, lt_fileId = 4, lt_pid = 9,
       lt_Read = True, lt_Write = True, lt_Path = False, lt_Seek = Ok 0, lt_Size = Ok 0, lt_entry = 7\<rparr> (LOCK_EX + LOCK_NB) [] Locks_default =
     returns (Ok 0, bsd', []) \<and> flock_state bsd' ({}, Some 4)"
proof -
  let ?task = "\<lparr>lt_CopyIn = Err Panic, lt_CopyOut = (\<lambda>_. Ok ()), lt_GetFile = Ok (), lt_fdTbl = 1, lt_fileId = 4, lt_pid = 9,
       lt_Read = True, lt_Write = True, lt_Path = False, lt_Seek = Ok 0, lt_Size = Ok 0, lt_entry = 7\<rparr>"
  have st: "flock_state Locks_default nobody" by (simp add: flock_state_def default_inv default_holders)
  show ?thesis using SysFlock_refines [OF st, of ?task WriteLock] by (simp add: flock_op_def granted_def)
qed

end
