(* ===== verification/Ring_Buf.thy ===== *)
theory Ring_Buf
  imports Quark_Prelude
begin

text \<open>
  The byte streams behind sockets and pipes: \<^verbatim>\<open>qlib/bytestream.rs\<close>.

  A ring buffer has a power of two of bytes and two 32 bit counters, of the bytes read and of the
  bytes written, which run freely and wrap around; its flags say whether a reader or a writer waits.
  \<^verbatim>\<open>SocketBufIovs\<close> names up to two stretches of memory by address and length. Memory is a function
  from addresses to bytes that the operations which follow addresses read and change. A copy out of
  the bounds of a slice panics.

  An allocator hands out the counters, the flags and the bytes of a new buffer; they are the
  argument \<open>fresh\<close> of \<open>RingBuf_New\<close>, since shared memory may already hold a running buffer.
\<close>

section \<open>Memory and strings\<close>

type_synonym memory = "u64 \<Rightarrow> u8"

definition mem_read :: "memory \<Rightarrow> u64 \<Rightarrow> nat \<Rightarrow> u8 list" where
  "mem_read m a n = map (\<lambda>i. m (a + word_of_nat i)) [0..<n]"

fun mem_write :: "memory \<Rightarrow> u64 \<Rightarrow> u8 list \<Rightarrow> memory" where
  "mem_write m a [] = m"
| "mem_write m a (b # bs) = mem_write (m(a := b)) (a + 1) bs"

text \<open>Well-formed UTF-8, as \<^verbatim>\<open>from_utf8\<close> of the standard library decides it.\<close>

definition utf8_cont :: "u8 \<Rightarrow> bool" where
  "utf8_cont b \<longleftrightarrow> 0x80 \<le> b \<and> b \<le> 0xBF"

function utf8_valid :: "u8 list \<Rightarrow> bool" where
  "utf8_valid bs =
    (case bs of
       [] \<Rightarrow> True
     | b # bs \<Rightarrow>
         if b < 0x80 then utf8_valid bs
         else if 0xC2 \<le> b \<and> b \<le> 0xDF then
           (case bs of b1 # bs \<Rightarrow> utf8_cont b1 \<and> utf8_valid bs | _ \<Rightarrow> False)
         else if 0xE0 \<le> b \<and> b \<le> 0xEF then
           (case bs of
              b1 # b2 # bs \<Rightarrow>
                utf8_cont b1 \<and> (b = 0xE0 \<longrightarrow> 0xA0 \<le> b1) \<and> (b = 0xED \<longrightarrow> b1 \<le> 0x9F) \<and> utf8_cont b2 \<and> utf8_valid bs
            | _ \<Rightarrow> False)
         else if 0xF0 \<le> b \<and> b \<le> 0xF4 then
           (case bs of
              b1 # b2 # b3 # bs \<Rightarrow>
                utf8_cont b1 \<and> (b = 0xF0 \<longrightarrow> 0x90 \<le> b1) \<and> (b = 0xF4 \<longrightarrow> b1 \<le> 0x8F) \<and> utf8_cont b2 \<and> utf8_cont b3 \<and>
                utf8_valid bs
            | _ \<Rightarrow> False)
         else False)"
  by pat_completeness auto
termination by (relation "measure length") (auto split: list.splits)

declare utf8_valid.simps [simp del]

section \<open>Stretches of memory\<close>

record IoVec =
  io_start :: u64
  io_len :: u64

record SocketBufIovs =
  si_iov0 :: IoVec
  si_iov1 :: IoVec
  si_cnt :: u32

definition IoVec_default :: IoVec where
  "IoVec_default = \<lparr>io_start = 0, io_len = 0\<rparr>"

definition SocketBufIovs_default :: SocketBufIovs where
  "SocketBufIovs_default = \<lparr>si_iov0 = IoVec_default, si_iov1 = IoVec_default, si_cnt = 0\<rparr>"

definition SocketBufIovs_New :: "IoVec list \<Rightarrow> SocketBufIovs result" where
  "SocketBufIovs_New iovs =
    (case iovs of
       [] \<Rightarrow> Ok SocketBufIovs_default
     | [a] \<Rightarrow> Ok (SocketBufIovs_default\<lparr>si_iov0 := a, si_cnt := 1\<rparr>)
     | [a, b] \<Rightarrow> Ok \<lparr>si_iov0 = a, si_iov1 = b, si_cnt = 2\<rparr>
     | _ \<Rightarrow> Err (SysError EINVAL))"

text \<open>A buffer at address \<open>a\<close> with \<open>n\<close> bytes.\<close>

definition SocketBufIovs_NewFromBuf :: "u64 \<Rightarrow> u64 \<Rightarrow> SocketBufIovs result" where
  "SocketBufIovs_NewFromBuf a n =
    (if n = 0 then Err Panic
     else Ok (SocketBufIovs_default\<lparr>si_iov0 := \<lparr>io_start = a, io_len = n\<rparr>, si_cnt := 1\<rparr>))"

definition SocketBufIovs_Iovs :: "SocketBufIovs \<Rightarrow> IoVec list result" where
  "SocketBufIovs_Iovs d =
    (if unat (si_cnt d) \<le> 2 then Ok (take (unat (si_cnt d)) [si_iov0 d, si_iov1 d]) else Err Panic)"

definition SocketBufIovs_Count :: "SocketBufIovs \<Rightarrow> u64 result" where
  "SocketBufIovs_Count d = and_then (SocketBufIovs_Iovs d) (\<lambda>iovs. Ok (sum_list (map io_len iovs)))"

definition SocketBufIovs_Consume :: "u64 \<Rightarrow> SocketBufIovs \<Rightarrow> SocketBufIovs result" where
  "SocketBufIovs_Consume sz d =
    and_then (SocketBufIovs_Count d) (\<lambda>count.
      if \<not> sz \<le> count then Err Panic
      else if io_len (si_iov0 d) > sz then
        Ok (d\<lparr>si_iov0 := \<lparr>io_start = io_start (si_iov0 d) + sz, io_len = io_len (si_iov0 d) - sz\<rparr>\<rparr>)
      else if io_len (si_iov0 d) = sz then
        Ok (d\<lparr>si_iov0 := si_iov1 d, si_cnt := si_cnt d - 1\<rparr>)
      else
        Ok (d\<lparr>si_iov0 := \<lparr>io_start = io_start (si_iov1 d) + (sz - io_len (si_iov0 d)), io_len = count - sz\<rparr>,
              si_cnt := 1\<rparr>))"

text \<open>The second stretch is copied from the address of the first one.\<close>

definition SocketBufIovs_ReadVec :: "memory \<Rightarrow> u64 \<Rightarrow> SocketBufIovs \<Rightarrow> (u8 list \<times> SocketBufIovs) result" where
  "SocketBufIovs_ReadVec m sz d =
    and_then (SocketBufIovs_Count d) (\<lambda>count.
      if \<not> sz \<le> count then Err Panic
      else
        let first = io_len (si_iov0 d);
            buf = (if first \<ge> sz then mem_read m (io_start (si_iov0 d)) (unat sz)
                   else mem_read m (io_start (si_iov0 d)) (unat first) @
                        mem_read m (io_start (si_iov0 d)) (unat (sz - first)))
        in and_then (SocketBufIovs_Consume sz d) (\<lambda>d. Ok (buf, d)))"

definition SocketBufIovs_ReadString :: "memory \<Rightarrow> u64 \<Rightarrow> SocketBufIovs \<Rightarrow> (u8 list result \<times> SocketBufIovs) result" where
  "SocketBufIovs_ReadString m sz d =
    and_then (SocketBufIovs_ReadVec m sz d) (\<lambda>(buf, d).
    and_then (SocketBufIovs_Consume sz d) (\<lambda>d.
      Ok (if utf8_valid buf then Ok buf else Err (SysError EINVAL), d)))"

text \<open>An object of \<open>sz\<close> bytes is the list of its bytes.\<close>

definition SocketBufIovs_ReadObj :: "memory \<Rightarrow> u64 \<Rightarrow> SocketBufIovs \<Rightarrow> (u8 list \<times> SocketBufIovs) result" where
  "SocketBufIovs_ReadObj m sz d =
    and_then (SocketBufIovs_Count d) (\<lambda>datasize.
      if datasize < sz then Err (SysError EAGAIN)
      else if io_len (si_iov0 d) \<ge> sz then
        (let data = mem_read m (io_start (si_iov0 d)) (unat sz)
         in and_then (SocketBufIovs_Consume sz d) (\<lambda>d. Ok (data, d)))
      else
        and_then (SocketBufIovs_ReadVec m sz d) (\<lambda>(b, d).
          if sz = 0 then Err Panic
          else and_then (SocketBufIovs_Consume sz d) (\<lambda>d. Ok (b, d))))"

definition SocketBufIovs_WriteSlice :: "u8 list \<Rightarrow> memory \<Rightarrow> SocketBufIovs \<Rightarrow> (memory \<times> SocketBufIovs) result" where
  "SocketBufIovs_WriteSlice data m d =
    (let sz = word_of_nat (length data)
     in and_then (SocketBufIovs_Count d) (\<lambda>count.
          if count < sz then Err (SysError EAGAIN)
          else
            let first = io_len (si_iov0 d);
                m = (if first \<ge> sz then mem_write m (io_start (si_iov0 d)) data
                     else mem_write (mem_write m (io_start (si_iov0 d)) (take (unat first) data))
                            (io_start (si_iov1 d)) (drop (unat first) data))
            in and_then (SocketBufIovs_Consume sz d) (\<lambda>d. Ok (m, d))))"

section \<open>Ring buffers\<close>

record ring_buf =
  rb_addr :: u64
  rb_bytes :: "u8 list"
  rb_ringMask :: u32
  rb_head :: u32
  rb_tail :: u32
  rb_waitingRead :: bool
  rb_waitingWrite :: bool

datatype RingeBufAllocator = HeapAllocator | ShareAllocator bool

definition IsPowerOfTwo :: "u64 \<Rightarrow> bool" where
  "IsPowerOfTwo x \<longleftrightarrow> x AND (x - 1) = 0"

definition RING_PAGE_SIZE :: u64 where "RING_PAGE_SIZE = 0x1000"

definition AllocHeadTail :: "RingeBufAllocator \<Rightarrow> ring_buf \<Rightarrow> ring_buf" where
  "AllocHeadTail allocator r =
    (case allocator of
       HeapAllocator \<Rightarrow> r\<lparr>rb_head := 0, rb_tail := 0\<rparr>
     | ShareAllocator init \<Rightarrow> if init then r\<lparr>rb_head := 0, rb_tail := 0\<rparr> else r)"

definition AllocWaitingRW :: "RingeBufAllocator \<Rightarrow> ring_buf \<Rightarrow> ring_buf" where
  "AllocWaitingRW allocator r =
    (case allocator of
       HeapAllocator \<Rightarrow> r\<lparr>rb_waitingRead := True, rb_waitingWrite := False\<rparr>
     | ShareAllocator init \<Rightarrow> if init then r\<lparr>rb_waitingRead := True, rb_waitingWrite := False\<rparr> else r)"

definition AlllocBuf :: "RingeBufAllocator \<Rightarrow> u64 \<Rightarrow> ring_buf \<Rightarrow> ring_buf result" where
  "AlllocBuf allocator pageCount r =
    (case allocator of
       HeapAllocator \<Rightarrow> if IsPowerOfTwo pageCount then Ok r else Err Panic
     | ShareAllocator _ \<Rightarrow> Ok r)"

definition RingBuf_New :: "u64 \<Rightarrow> RingeBufAllocator \<Rightarrow> ring_buf \<Rightarrow> ring_buf result" where
  "RingBuf_New pagecount allocator fresh =
    and_then (AlllocBuf allocator pagecount (AllocWaitingRW allocator (AllocHeadTail allocator fresh))) (\<lambda>r.
      Ok (r\<lparr>rb_ringMask := ucast (pagecount * RING_PAGE_SIZE - 1)\<rparr>))"

definition RingBuf_Len :: "ring_buf \<Rightarrow> u64" where
  "RingBuf_Len r = ucast (rb_ringMask r + 1)"

definition RingBuf_GetRawBuf :: "ring_buf \<Rightarrow> u64 \<times> u64" where
  "RingBuf_GetRawBuf r = (rb_addr r, RingBuf_Len r)"

definition RingBuf_AvailableDataSize :: "ring_buf \<Rightarrow> u64" where
  "RingBuf_AvailableDataSize r = ucast (rb_tail r - rb_head r)"

definition RingBuf_AvailableSpace :: "ring_buf \<Rightarrow> u64" where
  "RingBuf_AvailableSpace r = RingBuf_Len r - RingBuf_AvailableDataSize r"

definition RingBuf_SetWaitingWrite :: "ring_buf \<Rightarrow> ring_buf" where
  "RingBuf_SetWaitingWrite r = r\<lparr>rb_waitingWrite := True\<rparr>"

definition RingBuf_SetWaitingRead :: "ring_buf \<Rightarrow> ring_buf" where
  "RingBuf_SetWaitingRead r = r\<lparr>rb_waitingRead := True\<rparr>"

definition RingBuf_ResetWaitingRead :: "ring_buf \<Rightarrow> bool \<times> ring_buf" where
  "RingBuf_ResetWaitingRead r = (rb_waitingRead r, r\<lparr>rb_waitingRead := False\<rparr>)"

definition RingBuf_ResetWaitingWrite :: "ring_buf \<Rightarrow> bool \<times> ring_buf" where
  "RingBuf_ResetWaitingWrite r = (rb_waitingWrite r, r\<lparr>rb_waitingWrite := False\<rparr>)"

definition slice :: "u8 list \<Rightarrow> u64 \<Rightarrow> u64 \<Rightarrow> u8 list result" where
  "slice bs a b =
    (if a \<le> b \<and> unat b \<le> length bs then Ok (take (unat b - unat a) (drop (unat a) bs)) else Err Panic)"

definition overwrite :: "u8 list \<Rightarrow> u64 \<Rightarrow> u64 \<Rightarrow> u8 list \<Rightarrow> u8 list result" where
  "overwrite bs a b new =
    (if a \<le> b \<and> unat b \<le> length bs \<and> length new = unat b - unat a
     then Ok (take (unat a) bs @ new @ drop (unat b) bs) else Err Panic)"

definition RingBuf_read :: "u8 list \<Rightarrow> ring_buf \<Rightarrow> ((bool \<times> u64) \<times> u8 list \<times> ring_buf) result" where
  "RingBuf_read buf r =
    (let head = rb_head r;
         tail = rb_tail r;
         available = ucast (tail - head) :: u64;
         available = (if available > word_of_nat (length buf) then word_of_nat (length buf) else available);
         readpos = ucast (head AND rb_ringMask r) :: u64;
         toEnd = RingBuf_Len r - readpos;
         (firstLen, hasSecond) = (if toEnd < available then (toEnd, True) else (available, False))
     in and_then (slice (rb_bytes r) readpos (readpos + firstLen)) (\<lambda>first.
        and_then (overwrite buf 0 firstLen first) (\<lambda>buf.
        and_then
          (if hasSecond then
             (let secondLen = available - firstLen
              in and_then (slice (rb_bytes r) 0 secondLen) (\<lambda>second. overwrite buf firstLen (firstLen + secondLen) second))
           else Ok buf) (\<lambda>buf.
          let r = r\<lparr>rb_head := head + ucast available\<rparr>;
              r = (if RingBuf_AvailableDataSize r = 0 then RingBuf_SetWaitingRead r else r);
              (waitingWrite, r) = RingBuf_ResetWaitingWrite r
          in Ok ((waitingWrite, available), buf, r)))))"

definition RingBuf_GetReadBuf :: "ring_buf \<Rightarrow> (u64 \<times> u64 \<times> bool) option" where
  "RingBuf_GetReadBuf r =
    (let available = ucast (rb_tail r - rb_head r) :: u64
     in if available = 0 then None
        else
          let readpos = ucast (rb_head r AND rb_ringMask r) :: u64;
              toEnd = RingBuf_Len r - readpos
          in if toEnd < available then Some (rb_addr r + readpos, toEnd, True)
             else Some (rb_addr r + readpos, available, False))"

definition RingBuf_GetDataBuf :: "ring_buf \<Rightarrow> u64 \<times> u64" where
  "RingBuf_GetDataBuf r =
    (let available = ucast (rb_tail r - rb_head r) :: u64
     in if available = 0 then (0, 0)
        else
          let readpos = ucast (rb_head r AND rb_ringMask r) :: u64;
              toEnd = RingBuf_Len r - readpos
          in if toEnd < available then (rb_addr r + readpos, toEnd) else (rb_addr r + readpos, available))"

definition RingBuf_PrepareDataIovs :: "ring_buf \<Rightarrow> SocketBufIovs \<Rightarrow> SocketBufIovs result" where
  "RingBuf_PrepareDataIovs r d =
    (let available = ucast (rb_tail r - rb_head r) :: u64
     in if available = 0 then Ok (d\<lparr>si_cnt := 0\<rparr>)
        else
          let readPos = ucast (rb_head r AND rb_ringMask r) :: u64;
              toEnd = RingBuf_Len r - readPos
          in if \<not> readPos < RingBuf_Len r then Err Panic
             else if toEnd < available then
               Ok \<lparr>si_iov0 = \<lparr>io_start = rb_addr r + readPos, io_len = toEnd\<rparr>,
                si_iov1 = \<lparr>io_start = rb_addr r, io_len = available - toEnd\<rparr>, si_cnt = 2\<rparr>
             else Ok (d\<lparr>si_iov0 := \<lparr>io_start = rb_addr r + readPos, io_len = available\<rparr>, si_cnt := 1\<rparr>))"

definition RingBuf_Consume :: "u64 \<Rightarrow> ring_buf \<Rightarrow> bool \<times> ring_buf" where
  "RingBuf_Consume count r =
    (let r = r\<lparr>rb_head := rb_head r + ucast count\<rparr>;
         r = (if RingBuf_AvailableDataSize r = 0 then RingBuf_SetWaitingRead r else r)
     in RingBuf_ResetWaitingWrite r)"

definition RingBuf_ConsumeWithCheck :: "u64 \<Rightarrow> ring_buf \<Rightarrow> (bool \<times> ring_buf) result" where
  "RingBuf_ConsumeWithCheck count r =
    (if RingBuf_AvailableDataSize r < count then Err (SysError EINVAL) else Ok (RingBuf_Consume count r))"

definition RingBuf_GetWriteBuf :: "ring_buf \<Rightarrow> (u64 \<times> u64 \<times> bool) option" where
  "RingBuf_GetWriteBuf r =
    (let available = ucast (rb_tail r - rb_head r) :: u64
     in if available = RingBuf_Len r then None
        else
          let writePos = ucast (rb_tail r AND rb_ringMask r) :: u64;
              writeSize = RingBuf_Len r - available;
              toEnd = RingBuf_Len r - writePos
          in if toEnd < writeSize then Some (rb_addr r + writePos, toEnd, True)
             else Some (rb_addr r + writePos, writeSize, False))"

definition RingBuf_PrepareSpaceIovs :: "ring_buf \<Rightarrow> SocketBufIovs \<Rightarrow> SocketBufIovs result" where
  "RingBuf_PrepareSpaceIovs r d =
    (let available = ucast (rb_tail r - rb_head r) :: u64
     in if available = RingBuf_Len r then Ok (d\<lparr>si_cnt := 0\<rparr>)
        else
          let writePos = ucast (rb_tail r AND rb_ringMask r) :: u64;
              writeSize = RingBuf_Len r - available;
              toEnd = RingBuf_Len r - writePos
          in if \<not> writePos < RingBuf_Len r then Err Panic
             else if toEnd < writeSize then
               Ok \<lparr>si_iov0 = \<lparr>io_start = rb_addr r + writePos, io_len = toEnd\<rparr>,
                si_iov1 = \<lparr>io_start = rb_addr r, io_len = writeSize - toEnd\<rparr>, si_cnt = 2\<rparr>
             else Ok (d\<lparr>si_iov0 := \<lparr>io_start = rb_addr r + writePos, io_len = writeSize\<rparr>, si_cnt := 1\<rparr>))"

definition RingBuf_GetSpaceBuf :: "ring_buf \<Rightarrow> u64 \<times> u64" where
  "RingBuf_GetSpaceBuf r =
    (let available = ucast (rb_tail r - rb_head r) :: u64
     in if available = RingBuf_Len r then (0, 0)
        else
          let writePos = ucast (rb_tail r AND rb_ringMask r) :: u64;
              writeSize = RingBuf_Len r - available;
              toEnd = RingBuf_Len r - writePos
          in if toEnd < writeSize then (rb_addr r + writePos, toEnd) else (rb_addr r + writePos, writeSize))"

definition RingBuf_Produce :: "u64 \<Rightarrow> ring_buf \<Rightarrow> bool \<times> ring_buf" where
  "RingBuf_Produce count r =
    (let r = r\<lparr>rb_tail := rb_tail r + ucast count\<rparr>;
         r = (if RingBuf_AvailableSpace r = 0 then RingBuf_SetWaitingWrite r else r)
     in RingBuf_ResetWaitingRead r)"

definition RingBuf_ProduceWithCheck :: "u64 \<Rightarrow> ring_buf \<Rightarrow> (bool \<times> ring_buf) result" where
  "RingBuf_ProduceWithCheck count r =
    (if RingBuf_AvailableDataSize r + count > RingBuf_Len r then Err (SysError EINVAL) else Ok (RingBuf_Produce count r))"

definition RingBuf_write :: "u8 list \<Rightarrow> ring_buf \<Rightarrow> ((bool \<times> u64) \<times> ring_buf) result" where
  "RingBuf_write buf r =
    (let head = rb_head r;
         tail = rb_tail r;
         available = ucast (tail - head) :: u64;
         writePos = ucast (tail AND rb_ringMask r) :: u64;
         writeSize = RingBuf_Len r - available;
         writeSize = (if writeSize > word_of_nat (length buf) then word_of_nat (length buf) else writeSize);
         toEnd = RingBuf_Len r - writePos;
         (firstLen, hasSecond) = (if toEnd < writeSize then (toEnd, True) else (writeSize, False))
     in and_then (slice buf 0 firstLen) (\<lambda>first.
        and_then (overwrite (rb_bytes r) writePos (writePos + firstLen) first) (\<lambda>bytes.
        and_then
          (if hasSecond then
             (let secondLen = writeSize - firstLen
              in and_then (slice buf firstLen (firstLen + secondLen)) (\<lambda>second. overwrite bytes 0 secondLen second))
           else Ok bytes) (\<lambda>bytes.
          let r = r\<lparr>rb_bytes := bytes, rb_tail := tail + ucast writeSize\<rparr>;
              r = (if RingBuf_AvailableSpace r = 0 then RingBuf_SetWaitingWrite r else r);
              (trigger, r) = RingBuf_ResetWaitingRead r
          in Ok ((trigger, writeSize), r)))))"

definition RingBuf_writeFull :: "u8 list \<Rightarrow> ring_buf \<Rightarrow> ((bool \<times> u64) \<times> ring_buf) result" where
  "RingBuf_writeFull buf r =
    (let available = ucast (rb_tail r - rb_head r) :: u64
     in if available < word_of_nat (length buf) then (if utf8_valid buf then Err QueueFull else Err Panic)
        else RingBuf_write buf r)"

definition RingBuf_readViaAddr :: "u64 \<Rightarrow> u64 \<Rightarrow> memory \<Rightarrow> ring_buf \<Rightarrow> ((bool \<times> u64) \<times> memory \<times> ring_buf) result" where
  "RingBuf_readViaAddr buf count m r =
    and_then (RingBuf_read (mem_read m buf (unat count)) r) (\<lambda>(res, bs, r). Ok (res, mem_write m buf bs, r))"

definition RingBuf_writeViaAddr :: "u64 \<Rightarrow> u64 \<Rightarrow> memory \<Rightarrow> ring_buf \<Rightarrow> ((bool \<times> u64) \<times> ring_buf) result" where
  "RingBuf_writeViaAddr buf count m r = RingBuf_write (mem_read m buf (unat count)) r"

end
