(* ===== verification/Ring_Buf_Props.thy ===== *)
theory Ring_Buf_Props
  imports Ring_Buf
begin

text \<open>
  A ring buffer refines a queue of bytes. \<open>ring_ok\<close> is its invariant and \<open>content\<close> the bytes that
  it holds, oldest first: the prefix of the rotated buffer. The code's two copies are a rotation of
  the list, for every position of the counters, also when these wrap around.
\<close>

section \<open>Rotations\<close>

lemma rotate_take_drop: "n \<le> length xs \<Longrightarrow> rotate n xs = drop n xs @ take n xs"
  by (cases "n = length xs") (simp_all add: rotate_drop_take)

lemma take_rotate: "p \<le> length bs \<Longrightarrow> n \<le> length bs \<Longrightarrow>
  take n (rotate p bs) = (if length bs - p < n then drop p bs @ take (n - (length bs - p)) bs else take n (drop p bs))"
  by (cases "bs = []") (auto simp: rotate_take_drop min_def not_le)

text \<open>What a put at position \<open>p\<close> that runs over the end leaves.\<close>

definition ring_put :: "u8 list \<Rightarrow> nat \<Rightarrow> u8 list \<Rightarrow> u8 list" where
  "ring_put bs p new =
    (let f = length bs - p
     in if f < length new
        then drop f new @ drop (length new - f) (take p bs) @ take f new
        else take p bs @ new @ drop (p + length new) bs)"

lemma length_ring_put [simp]: "p \<le> length bs \<Longrightarrow> length new \<le> length bs \<Longrightarrow> length (ring_put bs p new) = length bs"
  by (simp add: ring_put_def Let_def)

lemma rotate_ring_put:
  assumes p: "p \<le> length bs" and n: "length new \<le> length bs"
  shows "rotate p (ring_put bs p new) = new @ drop (length new) (rotate p bs)"
proof (cases "length bs - p < length new")
  case True
  let ?f = "length bs - p"
  let ?b = "drop ?f new @ drop (length new - ?f) (take p bs)"
  have len: "length ?b = p" using True p n by simp
  have "ring_put bs p new = ?b @ take ?f new" using True by (simp add: ring_put_def Let_def)
  then have "rotate p (ring_put bs p new) = take ?f new @ ?b" using rotate_append [of ?b "take ?f new"] len by simp
  also have "\<dots> = new @ drop (length new - ?f) (take p bs)" by (simp add: append_assoc [symmetric] del: append_assoc)
  also have "drop (length new - ?f) (take p bs) = drop (length new) (rotate p bs)" using True p by (simp add: rotate_take_drop)
  finally show ?thesis .
next
  case False
  let ?q = "new @ drop (p + length new) bs"
  have "rotate p (ring_put bs p new) = ?q @ take p bs"
    using rotate_append [of "take p bs" ?q] False p by (simp add: ring_put_def Let_def)
  also have "\<dots> = new @ drop (length new) (rotate p bs)" using False p by (simp add: rotate_take_drop add.commute)
  finally show ?thesis .
qed

text \<open>The queue after a put behind the \<open>a\<close> oldest bytes, and after \<open>n\<close> bytes were taken.\<close>

lemma ring_push:
  assumes bs: "length bs' = length bs" and a: "a + length new \<le> length bs"
    and put: "rotate (h + a) bs' = new @ drop (length new) (rotate (h + a) bs)"
  shows "take (a + length new) (rotate h bs') = take a (rotate h bs) @ new"
proof -
  let ?X = "rotate h bs'" and ?Y = "rotate h bs"
  have eq: "drop a ?X @ take a ?X = new @ drop (length new) (drop a ?Y @ take a ?Y)"
    using put a bs by (simp add: rotate_rotate [symmetric] rotate_take_drop add.commute)
  have tk: "take a ?X = take a ?Y"
  proof -
    have "take a ?X = drop (length bs - a) (drop a ?X @ take a ?X)" using bs by simp
    also have "\<dots> = drop (length bs - a) (new @ drop (length new) (drop a ?Y @ take a ?Y))" unfolding eq ..
    also have "\<dots> = take a ?Y" using a by simp
    finally show ?thesis .
  qed
  have "take (length new) (drop a ?X) = take (length new) (drop a ?X @ take a ?X)" using a bs by simp
  also have "\<dots> = new" unfolding eq by simp
  finally show ?thesis using tk by (simp add: take_add)
qed

lemma ring_pop: "n \<le> a \<Longrightarrow> a \<le> length bs \<Longrightarrow> take (a - n) (rotate (h + n) bs) = drop n (take a (rotate h bs))"
  unfolding add.commute [of h n] rotate_rotate [symmetric] by (simp add: rotate_take_drop drop_take)

section \<open>Invariant and content\<close>

definition ring_ok :: "ring_buf \<Rightarrow> bool" where
  "ring_ok r \<longleftrightarrow> (\<exists>k \<le> 31. rb_ringMask r = mask k) \<and> length (rb_bytes r) = unat (rb_ringMask r) + 1 \<and>
     unat (rb_tail r - rb_head r) \<le> length (rb_bytes r)"

definition content :: "ring_buf \<Rightarrow> u8 list" where
  "content r = take (unat (rb_tail r - rb_head r)) (rotate (unat (rb_head r)) (rb_bytes r))"

lemma length_content: "ring_ok r \<Longrightarrow> length (content r) = unat (rb_tail r - rb_head r)"
  by (simp add: ring_ok_def content_def)

lemma unat_mask_u32: "k \<le> 31 \<Longrightarrow> unat (mask k :: u32) = 2 ^ k - 1"
  using uint_mask_eq [where n = k and 'a = 32]
  by (simp add: unat_eq_nat_uint min_def nat_mask_eq mask_eq_exp_minus_1 [where 'a = nat])

lemma ring_size:
  assumes "ring_ok r"
  obtains k where "k \<le> 31" "rb_ringMask r = mask k" "length (rb_bytes r) = 2 ^ k" "unat (rb_ringMask r + 1) = 2 ^ k"
proof -
  obtain k where k: "k \<le> 31" "rb_ringMask r = mask k" "length (rb_bytes r) = unat (rb_ringMask r) + 1"
    using assms by (auto simp: ring_ok_def)
  have u: "unat (rb_ringMask r) = 2 ^ k - 1"
    using k(1,2) by (simp add: unat_mask_u32)
  have lt: "(2::nat) ^ k < 2 ^ 32" using k(1) by (intro power_strict_increasing) simp_all
  then have "unat (rb_ringMask r + 1) = 2 ^ k" using u by (simp add: unat_word_ariths(1))
  then show thesis using that [OF k(1,2)] k(3) u by simp
qed

lemma unat_pos: "unat (w AND mask k :: u32) = unat w mod 2 ^ k"
  unfolding take_bit_eq_mask [symmetric] unsigned_take_bit_eq by (rule take_bit_eq_mod)

lemma unat_ucast_u64 [simp]: "unat (ucast (w :: u32) :: u64) = unat w"
proof -
  have "unat w < 2 ^ 32" using unsigned_less [of w, where 'a = nat] by simp
  then have "unat w < 2 ^ 64" by simp
  then show ?thesis by (simp add: unsigned_ucast_eq take_bit_nat_eq_self)
qed

text \<open>The numbers that the operations compute, as natural numbers.\<close>

lemma ring_numbers:
  assumes ok: "ring_ok r"
  defines "N \<equiv> length (rb_bytes r)" and "a \<equiv> unat (rb_tail r - rb_head r)"
  shows "unat (RingBuf_Len r) = N" "0 < N" "N \<le> 2 ^ 31" "a \<le> N"
    "unat (ucast (rb_tail r - rb_head r) :: u64) = a"
    "unat (ucast (rb_head r AND rb_ringMask r) :: u64) = unat (rb_head r) mod N"
    "unat (ucast (rb_tail r AND rb_ringMask r) :: u64) = unat (rb_tail r) mod N"
    "unat (rb_tail r) mod N = (unat (rb_head r) + a) mod N"
proof -
  obtain k where k: "k \<le> 31" "rb_ringMask r = mask k" "N = 2 ^ k" "unat (rb_ringMask r + 1) = 2 ^ k"
    using ring_size [OF ok] unfolding N_def by metis
  show "unat (RingBuf_Len r) = N" using k(3,4) by (simp add: RingBuf_Len_def)
  show "0 < N" using k(3) by simp
  show "N \<le> 2 ^ 31" unfolding k(3) using k(1) by (rule power_increasing) simp
  show "a \<le> N" using ok by (simp add: ring_ok_def a_def N_def)
  show "unat (ucast (rb_tail r - rb_head r) :: u64) = a" by (simp add: a_def)
  show "unat (ucast (rb_head r AND rb_ringMask r) :: u64) = unat (rb_head r) mod N"
    "unat (ucast (rb_tail r AND rb_ringMask r) :: u64) = unat (rb_tail r) mod N"
    using k(2,3) by (simp_all add: unat_pos)
  have "unat (rb_tail r) = (unat (rb_head r) + a) mod 2 ^ 32"
    using unat_word_ariths(1) [of "rb_head r" "rb_tail r - rb_head r"] by (simp add: a_def)
  moreover have "(2 :: nat) ^ k dvd 2 ^ 32" using k(1) by (intro le_imp_power_dvd) simp
  ultimately show "unat (rb_tail r) mod N = (unat (rb_head r) + a) mod N" using k(3) by (simp add: mod_mod_cancel)
qed

lemma slice_eq: "unat b = unat a + n \<Longrightarrow> unat a + n \<le> length bs \<Longrightarrow> slice bs a b = Ok (take n (drop (unat a) bs))"
  by (auto simp: slice_def word_le_nat_alt)

lemma overwrite_eq:
  "unat b = unat a + length new \<Longrightarrow> unat a + length new \<le> length bs \<Longrightarrow>
    overwrite bs a b new = Ok (take (unat a) bs @ new @ drop (unat a + length new) bs)"
  by (auto simp: overwrite_def word_le_nat_alt)

section \<open>Writing and reading\<close>

lemma unat_diff: "b \<le> unat w \<Longrightarrow> unat v = b \<Longrightarrow> unat (w - v :: u64) = unat w - b"
  by (simp add: unat_sub word_le_nat_alt)

lemma unat_add: "unat v + unat w < 2 ^ 64 \<Longrightarrow> unat (v + w :: u64) = unat v + unat w"
  by (simp add: unat_word_ariths(1))

lemma diff_zero_iff: "(x - y :: u64) = 0 \<longleftrightarrow> unat x = unat y"
  by (simp add: word_unat_eq_iff [symmetric])

lemma unat_add_nat:
  fixes x :: u32
  assumes "unat x + n < 2 ^ 32"
  shows "unat (x + word_of_nat n) = unat x + n"
proof -
  have "unat (word_of_nat n :: u32) = n" using assms by (simp add: unat_of_nat)
  then show ?thesis using assms by (simp add: unat_word_ariths(1))
qed

lemma unat_tail:
  assumes "unat (rb_tail r - rb_head r) + n < 2 ^ 32"
  shows "unat (rb_tail r + word_of_nat n - rb_head r) = unat (rb_tail r - rb_head r) + n"
  using unat_add_nat [OF assms] by (simp add: algebra_simps)

lemma unat_head:
  assumes "n \<le> unat (rb_tail r - rb_head r)"
  shows "unat (rb_tail r - (rb_head r + word_of_nat n)) = unat (rb_tail r - rb_head r) - n"
proof -
  have "n < 2 ^ 32" using assms unsigned_less [of "rb_tail r - rb_head r", where 'a = nat] by simp
  then have "unat (word_of_nat n :: u32) = n" by (simp add: unat_of_nat)
  then have "unat ((rb_tail r - rb_head r) - word_of_nat n) = unat (rb_tail r - rb_head r) - n"
    using assms by (subst unat_sub) (simp_all add: word_le_nat_alt)
  then show ?thesis by (simp add: algebra_simps)
qed

lemma ucast_of_nat: "ucast (word_of_nat n :: u64) = (word_of_nat n :: u32)"
  by (rule word_unat_eq_iff [THEN iffD2]) (simp add: unsigned_ucast_eq unat_of_nat take_bit_eq_mod mod_mod_cancel)

lemma RingBuf_write_eq:
  assumes ok: "ring_ok r" and len: "length buf < 2 ^ 64"
  defines "N \<equiv> length (rb_bytes r)" and "a \<equiv> unat (rb_tail r - rb_head r)"
  defines "n \<equiv> min (length buf) (N - a)"
  shows "RingBuf_write buf r = Ok ((rb_waitingRead r, word_of_nat n),
    r\<lparr>rb_bytes := ring_put (rb_bytes r) (unat (rb_tail r) mod N) (take n buf), rb_tail := rb_tail r + word_of_nat n,
      rb_waitingRead := False, rb_waitingWrite := (a + n = N \<or> rb_waitingWrite r)\<rparr>)"
proof -
  note num = ring_numbers [OF ok, folded N_def a_def]
  define p where "p = unat (rb_tail r) mod N"
  define writePos :: u64 where "writePos = ucast (rb_tail r AND rb_ringMask r)"
  define writeSize :: u64 where "writeSize = word_of_nat n"
  define toEnd where "toEnd = RingBuf_Len r - writePos"
  have p: "unat writePos = p" "p < N" using num(2,7) by (simp_all add: writePos_def p_def)
  have n: "n \<le> N" "n \<le> length buf" "a + n \<le> N" using num(4) by (auto simp: n_def)
  have ws: "unat writeSize = n" using n(1) num(3) by (simp add: writeSize_def unat_of_nat)
  have te: "unat toEnd = N - p" unfolding toEnd_def using num(1) p by (subst unat_diff [of p]) simp_all
  have size: "(if word_of_nat (length buf) < RingBuf_Len r - ucast (rb_tail r - rb_head r)
      then word_of_nat (length buf) else RingBuf_Len r - ucast (rb_tail r - rb_head r)) = writeSize"
  proof -
    have "unat (RingBuf_Len r - ucast (rb_tail r - rb_head r)) = N - a" using num(1,4,5) by (subst unat_diff [of a]) simp_all
    moreover have "unat (word_of_nat (length buf) :: u64) = length buf" using len by (simp add: unat_of_nat)
    ultimately show ?thesis using ws by (auto simp: word_less_nat_alt n_def word_unat_eq_iff min_def)
  qed
  define bytes where "bytes = ring_put (rb_bytes r) p (take n buf)"
  define f :: "u8 list \<Rightarrow> ((bool \<times> u64) \<times> ring_buf) result" where
    "f = (\<lambda>bytes. let r = r\<lparr>rb_bytes := bytes, rb_tail := rb_tail r + ucast writeSize\<rparr>;
              r = (if RingBuf_AvailableSpace r = 0 then RingBuf_SetWaitingWrite r else r);
              (trigger, r) = RingBuf_ResetWaitingRead r
          in Ok ((trigger, writeSize), r))"
  have "RingBuf_write buf r = and_then (slice buf 0 (if toEnd < writeSize then toEnd else writeSize)) (\<lambda>first.
      and_then (overwrite (rb_bytes r) writePos (writePos + (if toEnd < writeSize then toEnd else writeSize)) first) (\<lambda>bytes.
      and_then (if toEnd < writeSize then and_then (slice buf toEnd (toEnd + (writeSize - toEnd)))
            (\<lambda>second. overwrite bytes 0 (writeSize - toEnd) second) else Ok bytes) f))"
    unfolding RingBuf_write_def Let_def size writePos_def [symmetric] toEnd_def [symmetric] f_def
    by (cases "toEnd < writeSize") simp_all
  also have "\<dots> = f bytes"
  proof (cases "toEnd < writeSize")
    case True
    then have lt: "N - p < n" using te ws by (simp add: word_less_nat_alt)
    have d: "unat (writeSize - toEnd) = n - (N - p)" using te ws lt by (subst unat_diff [of "N - p"]) simp_all
    have e: "unat (writePos + toEnd) = N" using p te num(3) by (subst unat_add) simp_all
    let ?first = "take (N - p) buf" and ?second = "take (n - (N - p)) (drop (N - p) buf)"
    have lens: "length ?first = N - p" "length ?second = n - (N - p)" using lt n(2) by simp_all
    have "slice buf 0 toEnd = Ok ?first" using te lt n by (subst slice_eq [where n = "N - p"]) simp_all
    moreover have "overwrite (rb_bytes r) writePos (writePos + toEnd) ?first = Ok (take p (rb_bytes r) @ ?first)"
      using e p lens(1) by (subst overwrite_eq) (simp_all add: N_def)
    moreover have "slice buf toEnd writeSize = Ok ?second"
      using te ws lt n by (subst slice_eq [where n = "n - (N - p)"]) simp_all
    moreover have "overwrite (take p (rb_bytes r) @ ?first) 0 (writeSize - toEnd) ?second =
        Ok (?second @ drop (n - (N - p)) (take p (rb_bytes r)) @ ?first)"
      using d lens p n(1) lt by (subst overwrite_eq) (simp_all add: N_def)
    moreover have "bytes = ?second @ drop (n - (N - p)) (take p (rb_bytes r)) @ ?first"
      using lt n(2) by (simp add: bytes_def ring_put_def N_def [symmetric] Let_def drop_take min_def)
    ultimately show ?thesis using True by simp
  next
    case False
    then have le: "n \<le> N - p" using te ws by (simp add: word_less_nat_alt)
    have "unat (writePos + writeSize) = p + n" using p ws num(3) le by (subst unat_add) simp_all
    then show ?thesis using False le p n ws
      by (simp add: slice_eq [where n = n] overwrite_eq bytes_def ring_put_def N_def [symmetric] min_def)
  qed
  finally have run: "RingBuf_write buf r = f bytes" .
  let ?r = "r\<lparr>rb_bytes := bytes, rb_tail := rb_tail r + word_of_nat n\<rparr>"
  have "unat (rb_tail r + word_of_nat n - rb_head r) = a + n" using unat_tail [of r n] n(3) num(3) by (simp add: a_def)
  then have full: "RingBuf_AvailableSpace ?r = 0 \<longleftrightarrow> a + n = N"
    unfolding RingBuf_AvailableSpace_def diff_zero_iff using num(1)
    by (auto simp: RingBuf_AvailableDataSize_def RingBuf_Len_def)
  show ?thesis unfolding run p_def [symmetric] bytes_def [symmetric] using full
    by (simp add: f_def RingBuf_SetWaitingWrite_def RingBuf_ResetWaitingRead_def Let_def writeSize_def ucast_of_nat)
qed

lemma RingBuf_read_eq:
  assumes ok: "ring_ok r" and len: "length buf < 2 ^ 64"
  defines "a \<equiv> unat (rb_tail r - rb_head r)"
  defines "n \<equiv> min a (length buf)"
  shows "RingBuf_read buf r = Ok ((rb_waitingWrite r, word_of_nat n), take n (content r) @ drop n buf,
    r\<lparr>rb_head := rb_head r + word_of_nat n, rb_waitingRead := (n = a \<or> rb_waitingRead r), rb_waitingWrite := False\<rparr>)"
proof -
  define N where "N = length (rb_bytes r)"
  note num = ring_numbers [OF ok, folded N_def a_def]
  define p where "p = unat (rb_head r) mod N"
  define readpos :: u64 where "readpos = ucast (rb_head r AND rb_ringMask r)"
  define available :: u64 where "available = word_of_nat n"
  define toEnd where "toEnd = RingBuf_Len r - readpos"
  have p: "unat readpos = p" "p < N" using num(2,6) by (simp_all add: readpos_def p_def)
  have n: "n \<le> N" "n \<le> length buf" "n \<le> a" using num(4) by (auto simp: n_def)
  have av: "unat available = n" using n(1) num(3) by (simp add: available_def unat_of_nat)
  have te: "unat toEnd = N - p" unfolding toEnd_def using num(1) p by (subst unat_diff [of p]) simp_all
  have size: "(if word_of_nat (length buf) < (ucast (rb_tail r - rb_head r) :: u64)
      then word_of_nat (length buf) else ucast (rb_tail r - rb_head r)) = available"
  proof -
    have "unat (word_of_nat (length buf) :: u64) = length buf" using len by (simp add: unat_of_nat)
    then show ?thesis using av num(5) by (auto simp: word_less_nat_alt n_def word_unat_eq_iff min_def)
  qed
  define f :: "u8 list \<Rightarrow> ((bool \<times> u64) \<times> u8 list \<times> ring_buf) result" where
    "f = (\<lambda>buf. let r = r\<lparr>rb_head := rb_head r + ucast available\<rparr>;
              r = (if RingBuf_AvailableDataSize r = 0 then RingBuf_SetWaitingRead r else r);
              (waitingWrite, r) = RingBuf_ResetWaitingWrite r
          in Ok ((waitingWrite, available), buf, r))"
  define got where "got = take n (rotate p (rb_bytes r)) @ drop n buf"
  have "RingBuf_read buf r = and_then (slice (rb_bytes r) readpos (readpos + (if toEnd < available then toEnd else available))) (\<lambda>first.
      and_then (overwrite buf 0 (if toEnd < available then toEnd else available) first) (\<lambda>buf.
      and_then (if toEnd < available then and_then (slice (rb_bytes r) 0 (available - toEnd))
            (\<lambda>second. overwrite buf toEnd (toEnd + (available - toEnd)) second) else Ok buf) f))"
    unfolding RingBuf_read_def Let_def size readpos_def [symmetric] toEnd_def [symmetric] f_def
    by (cases "toEnd < available") simp_all
  also have "\<dots> = f got"
  proof (cases "toEnd < available")
    case True
    then have lt: "N - p < n" using te av by (simp add: word_less_nat_alt)
    have d: "unat (available - toEnd) = n - (N - p)" using te av lt by (subst unat_diff [of "N - p"]) simp_all
    have e: "unat (readpos + toEnd) = N" using p te num(3) by (subst unat_add) simp_all
    let ?first = "drop p (rb_bytes r)" and ?second = "take (n - (N - p)) (rb_bytes r)"
    have lens: "length ?first = N - p" "length ?second = n - (N - p)" using n(1) by (simp_all add: N_def)
    have "slice (rb_bytes r) readpos (readpos + toEnd) = Ok ?first"
      using e p by (subst slice_eq [where n = "N - p"]) (simp_all add: N_def)
    moreover have "overwrite buf 0 toEnd ?first = Ok (?first @ drop (N - p) buf)"
      using te lens(1) lt n(2) by (subst overwrite_eq) simp_all
    moreover have "slice (rb_bytes r) 0 (available - toEnd) = Ok ?second"
      using d n(1) by (subst slice_eq [where n = "n - (N - p)"]) (simp_all add: N_def)
    moreover have "overwrite (?first @ drop (N - p) buf) toEnd available ?second = Ok (?first @ ?second @ drop n buf)"
      using te av lens lt n(2) by (subst overwrite_eq) simp_all
    moreover have "got = ?first @ ?second @ drop n buf"
      unfolding got_def using take_rotate [of p "rb_bytes r" n] lt p n(1) by (simp add: N_def)
    ultimately show ?thesis using True by simp
  next
    case False
    then have le: "n \<le> N - p" using te av by (simp add: word_less_nat_alt)
    have e: "unat (readpos + available) = p + n" using p av num(3) le by (subst unat_add) simp_all
    have "slice (rb_bytes r) readpos (readpos + available) = Ok (take n (drop p (rb_bytes r)))"
      using e p le by (subst slice_eq [where n = n]) (simp_all add: N_def)
    moreover have "overwrite buf 0 available (take n (drop p (rb_bytes r))) = Ok (take n (drop p (rb_bytes r)) @ drop n buf)"
      using av le n(2) by (subst overwrite_eq) (simp_all add: N_def)
    moreover have "got = take n (drop p (rb_bytes r)) @ drop n buf"
      unfolding got_def using take_rotate [of p "rb_bytes r" n] le p n(1) by (simp add: N_def)
    ultimately show ?thesis using False by simp
  qed
  finally have run: "RingBuf_read buf r = f got" .
  have "take n (content r) = take n (rotate p (rb_bytes r))"
    using n(3) by (simp add: content_def a_def [symmetric] p_def N_def rotate_conv_mod [symmetric] min_def)
  then have got: "got = take n (content r) @ drop n buf" by (simp add: got_def)
  let ?r = "r\<lparr>rb_head := rb_head r + word_of_nat n\<rparr>"
  have "RingBuf_AvailableDataSize ?r = 0 \<longleftrightarrow> unat (rb_tail r - (rb_head r + word_of_nat n)) = 0"
    unfolding RingBuf_AvailableDataSize_def word_unat_eq_iff by simp
  then have empty: "RingBuf_AvailableDataSize ?r = 0 \<longleftrightarrow> n = a"
    using unat_head [of n r] n(3) by (auto simp: a_def)
  show ?thesis unfolding run got using empty
    by (simp add: f_def RingBuf_SetWaitingRead_def RingBuf_ResetWaitingWrite_def Let_def available_def ucast_of_nat)
qed

section \<open>Refinement of a byte queue\<close>

definition capacity :: "ring_buf \<Rightarrow> nat" where
  "capacity r = length (rb_bytes r)"

lemma write_refines:
  assumes ok: "ring_ok r" and len: "length buf < 2 ^ 64"
  defines "n \<equiv> min (length buf) (capacity r - length (content r))"
  obtains r' where "RingBuf_write buf r = Ok ((rb_waitingRead r, word_of_nat n), r')" "ring_ok r'"
    "content r' = content r @ take n buf" "capacity r' = capacity r"
proof -
  let ?N = "length (rb_bytes r)" and ?a = "unat (rb_tail r - rb_head r)" and ?p = "unat (rb_tail r) mod length (rb_bytes r)"
  note num = ring_numbers [OF ok]
  have n: "n = min (length buf) (?N - ?a)" by (simp add: n_def capacity_def length_content [OF ok])
  then have le: "?a + n \<le> ?N" "length (take n buf) = n" using num(4) by simp_all
  let ?bs = "ring_put (rb_bytes r) ?p (take n buf)"
  define r' where "r' = r\<lparr>rb_bytes := ?bs, rb_tail := rb_tail r + word_of_nat n,
      rb_waitingRead := False, rb_waitingWrite := (?a + n = ?N \<or> rb_waitingWrite r)\<rparr>"
  have p: "?p \<le> ?N" using num(2) by (simp add: less_imp_le)
  have bs: "length ?bs = ?N" using p le by simp
  have tail: "unat (rb_tail r + word_of_nat n - rb_head r) = ?a + n" using unat_tail [of r n] le num(3) by simp
  have "rotate (unat (rb_head r) + ?a) ?bs = take n buf @ drop n (rotate (unat (rb_head r) + ?a) (rb_bytes r))"
    using rotate_ring_put [OF p, of "take n buf"] le num(8) bs
    by (metis rotate_conv_mod add_leD2)
  then have "take (?a + length (take n buf)) (rotate (unat (rb_head r)) ?bs) = take ?a (rotate (unat (rb_head r)) (rb_bytes r)) @ take n buf"
    using ring_push [of ?bs "rb_bytes r" ?a "take n buf" "unat (rb_head r)"] le bs by simp
  then have "content r' = content r @ take n buf" using tail le by (simp add: content_def r'_def)
  moreover have "ring_ok r'" using ok bs tail le by (simp add: ring_ok_def r'_def)
  moreover have "capacity r' = capacity r" using bs by (simp add: capacity_def r'_def)
  moreover have "RingBuf_write buf r = Ok ((rb_waitingRead r, word_of_nat n), r')"
    using RingBuf_write_eq [OF ok len] unfolding n r'_def by simp
  ultimately show thesis using that by blast
qed

lemma read_refines:
  assumes ok: "ring_ok r" and len: "length buf < 2 ^ 64"
  defines "n \<equiv> min (length (content r)) (length buf)"
  obtains r' where "RingBuf_read buf r = Ok ((rb_waitingWrite r, word_of_nat n), take n (content r) @ drop n buf, r')"
    "ring_ok r'" "content r' = drop n (content r)" "capacity r' = capacity r"
proof -
  let ?a = "unat (rb_tail r - rb_head r)"
  note num = ring_numbers [OF ok]
  have n: "n = min ?a (length buf)" by (simp add: n_def length_content [OF ok])
  then have le: "n \<le> ?a" by simp
  define r' where "r' = r\<lparr>rb_head := rb_head r + word_of_nat n, rb_waitingRead := (n = ?a \<or> rb_waitingRead r), rb_waitingWrite := False\<rparr>"
  have head: "unat (rb_tail r - (rb_head r + word_of_nat n)) = ?a - n" by (rule unat_head [OF le])
  have "ring_ok r'" using ok head by (auto simp: ring_ok_def r'_def)
  moreover have "content r' = drop n (content r)"
  proof -
    obtain k where k: "k \<le> 31" "length (rb_bytes r) = 2 ^ k" using ring_size [OF ok] by metis
    have "unat (rb_head r + word_of_nat n) = (unat (rb_head r) + n) mod 2 ^ 32"
      using unat_word_ariths(1) [of "rb_head r" "word_of_nat n"] by (simp add: unat_of_nat mod_add_right_eq)
    moreover have "(2 :: nat) ^ k dvd 2 ^ 32" using k(1) by (intro le_imp_power_dvd) simp
    ultimately have "unat (rb_head r + word_of_nat n) mod length (rb_bytes r) = (unat (rb_head r) + n) mod length (rb_bytes r)"
      using k(2) by (simp add: mod_mod_cancel)
    then have "rotate (unat (rb_head r + word_of_nat n)) (rb_bytes r) = rotate (unat (rb_head r) + n) (rb_bytes r)"
      by (metis rotate_conv_mod)
    then show ?thesis using ring_pop [OF le num(4), of "unat (rb_head r)"] head by (simp add: content_def r'_def)
  qed
  moreover have "capacity r' = capacity r" by (simp add: capacity_def r'_def)
  moreover have "RingBuf_read buf r = Ok ((rb_waitingWrite r, word_of_nat n), take n (content r) @ drop n buf, r')"
    using RingBuf_read_eq [OF ok len] unfolding n r'_def by simp
  ultimately show thesis using that by blast
qed

section \<open>Streams\<close>

text \<open>A client of a byte queue: a sequence of writes and reads, with the bytes that the writes
  accepted and those that the reads returned.\<close>

datatype stream_op = Put "u8 list" | Get nat

fun stream_run ::
    "(u8 list \<Rightarrow> 's \<Rightarrow> ((bool \<times> u64) \<times> 's) result) \<Rightarrow> (u8 list \<Rightarrow> 's \<Rightarrow> ((bool \<times> u64) \<times> u8 list \<times> 's) result) \<Rightarrow>
      stream_op list \<Rightarrow> 's \<Rightarrow> (u8 list \<times> u8 list \<times> 's) result" where
  "stream_run put get [] s = Ok ([], [], s)"
| "stream_run put get (Put b # ops) s =
    and_then (put b s) (\<lambda>((_, n), s). and_then (stream_run put get ops s) (\<lambda>(sent, got, s).
      Ok (take (unat n) b @ sent, got, s)))"
| "stream_run put get (Get k # ops) s =
    and_then (get (replicate k 0) s) (\<lambda>((_, n), b, s). and_then (stream_run put get ops s) (\<lambda>(sent, got, s).
      Ok (sent, take (unat n) b @ got, s)))"

fun op_size :: "stream_op \<Rightarrow> nat" where
  "op_size (Put b) = length b"
| "op_size (Get k) = k"

locale byte_queue =
  fixes put :: "u8 list \<Rightarrow> 's \<Rightarrow> ((bool \<times> u64) \<times> 's) result"
    and get :: "u8 list \<Rightarrow> 's \<Rightarrow> ((bool \<times> u64) \<times> u8 list \<times> 's) result"
    and inv :: "'s \<Rightarrow> bool" and held :: "'s \<Rightarrow> u8 list" and room :: "'s \<Rightarrow> nat"
  assumes put_law: "inv s \<Longrightarrow> length b < 2 ^ 64 \<Longrightarrow> n = min (length b) (room s - length (held s)) \<Longrightarrow>
      \<exists>w s'. put b s = Ok ((w, word_of_nat n), s') \<and> inv s' \<and> held s' = held s @ take n b \<and> room s' = room s"
    and get_law: "inv s \<Longrightarrow> length b < 2 ^ 64 \<Longrightarrow> n = min (length (held s)) (length b) \<Longrightarrow>
      \<exists>w s'. get b s = Ok ((w, word_of_nat n), take n (held s) @ drop n b, s') \<and> inv s' \<and> held s' = drop n (held s) \<and> room s' = room s"
begin

lemma stream_in_order:
  assumes "inv s" and "\<forall>op \<in> set ops. op_size op < 2 ^ 64"
  shows "\<exists>sent got s'. stream_run put get ops s = Ok (sent, got, s') \<and> inv s' \<and> held s @ sent = got @ held s' \<and> room s' = room s"
  using assms
proof (induction ops arbitrary: s)
  case (Cons op ops)
  show ?case
  proof (cases op)
    case (Put b)
    define n where "n = min (length b) (room s - length (held s))"
    have len: "length b < 2 ^ 64" using Cons.prems(2) Put by simp
    obtain w s1 where s1: "put b s = Ok ((w, word_of_nat n), s1)" "inv s1" "held s1 = held s @ take n b" "room s1 = room s"
      using put_law [OF Cons.prems(1) len n_def] by blast
    have "n < 2 ^ 64" using len by (simp add: n_def)
    then have "unat (word_of_nat n :: u64) = n" by (simp add: unat_of_nat)
    moreover obtain sent got s' where "stream_run put get ops s1 = Ok (sent, got, s')" "inv s'" "held s1 @ sent = got @ held s'" "room s' = room s1"
      using Cons.IH [OF s1(2)] Cons.prems(2) by auto
    ultimately show ?thesis using s1 Put by simp
  next
    case (Get k)
    define n where "n = min (length (held s)) k"
    have len: "length (replicate k (0 :: u8)) < 2 ^ 64" using Cons.prems(2) Get by simp
    have n: "n = min (length (held s)) (length (replicate k (0 :: u8)))" by (simp add: n_def)
    obtain w s1 where s1: "get (replicate k 0) s = Ok ((w, word_of_nat n), take n (held s) @ drop n (replicate k 0), s1)" "inv s1"
      "held s1 = drop n (held s)" "room s1 = room s" using get_law [OF Cons.prems(1) len n] by blast
    have "n < 2 ^ 64" using len by (simp add: n_def)
    then have "unat (word_of_nat n :: u64) = n" by (simp add: unat_of_nat)
    moreover obtain sent got s' where run: "stream_run put get ops s1 = Ok (sent, got, s')" "inv s'" "held s1 @ sent = got @ held s'" "room s' = room s1"
      using Cons.IH [OF s1(2)] Cons.prems(2) by auto
    moreover have "length (take n (held s)) = n" by (simp add: n_def)
    moreover have "held s @ sent = take n (held s) @ got @ held s'"
      using run(3) s1(3) by (metis append_assoc append_take_drop_id)
    ultimately show ?thesis using s1 Get by simp
  qed
qed simp

end

interpretation ring: byte_queue RingBuf_write RingBuf_read ring_ok content capacity
proof
  fix r and b :: "u8 list" and n assume "ring_ok r" "length b < 2 ^ 64" and n: "n = min (length b) (capacity r - length (content r))"
  then show "\<exists>w r'. RingBuf_write b r = Ok ((w, word_of_nat n), r') \<and> ring_ok r' \<and> content r' = content r @ take n b \<and> capacity r' = capacity r"
    using write_refines [of r b] by metis
next
  fix r and b :: "u8 list" and n assume "ring_ok r" "length b < 2 ^ 64" and n: "n = min (length (content r)) (length b)"
  then show "\<exists>w r'. RingBuf_read b r = Ok ((w, word_of_nat n), take n (content r) @ drop n b, r') \<and> ring_ok r' \<and>
      content r' = drop n (content r) \<and> capacity r' = capacity r"
    using read_refines [of r b] by metis
qed

end
