(* ===== verification/Socket_Buf.thy ===== *)
theory Socket_Buf
  imports Ring_Buf Wait_List
begin

text \<open>
  Byte streams and socket buffers: the stream objects of \<^verbatim>\<open>qlib/bytestream.rs\<close> and the socket buffers
  and accept queues of \<^verbatim>\<open>qlib/socket_buf.rs\<close>. A stream has a ring buffer and two descriptions of
  stretches that its callers pass on by address; the description stands for its address. The
  counter of consumed bytes of a socket buffer is a reference that only shared memory sets:
  without it the reference is null, and its use a fault.
\<close>

section \<open>Streams\<close>

record byte_stream =
  bs_buf :: ring_buf
  bs_dataIovs :: SocketBufIovs
  bs_spaceIovs :: SocketBufIovs

definition ByteStream_Init :: "u64 \<Rightarrow> ring_buf \<Rightarrow> byte_stream result" where
  "ByteStream_Init pageCount fresh =
    (if \<not> IsPowerOfTwo pageCount then Err Panic
     else and_then (RingBuf_New pageCount HeapAllocator fresh) (\<lambda>b.
       Ok \<lparr>bs_buf = b, bs_dataIovs = SocketBufIovs_default, bs_spaceIovs = SocketBufIovs_default\<rparr>))"

definition ByteStream_InitWithShareMemory :: "u64 \<Rightarrow> bool \<Rightarrow> ring_buf \<Rightarrow> byte_stream result" where
  "ByteStream_InitWithShareMemory pageCount init shared =
    (if \<not> IsPowerOfTwo pageCount then Err Panic
     else and_then (RingBuf_New pageCount (ShareAllocator init) shared) (\<lambda>b.
       Ok \<lparr>bs_buf = b, bs_dataIovs = SocketBufIovs_default, bs_spaceIovs = SocketBufIovs_default\<rparr>))"

definition ByteStream_GetRawBuf :: "byte_stream \<Rightarrow> u64 \<times> u64" where
  "ByteStream_GetRawBuf b = RingBuf_GetRawBuf (bs_buf b)"

definition ByteStream_AvailableSpace :: "byte_stream \<Rightarrow> u64" where
  "ByteStream_AvailableSpace b = RingBuf_AvailableSpace (bs_buf b)"

definition ByteStream_AvailableDataSize :: "byte_stream \<Rightarrow> u64" where
  "ByteStream_AvailableDataSize b = RingBuf_AvailableDataSize (bs_buf b)"

definition ByteStream_BufSize :: "byte_stream \<Rightarrow> u64" where
  "ByteStream_BufSize b = RingBuf_Len (bs_buf b)"

definition ByteStream_read :: "u8 list \<Rightarrow> byte_stream \<Rightarrow> ((bool \<times> u64) \<times> u8 list \<times> byte_stream) result" where
  "ByteStream_read buf b =
    and_then (RingBuf_read buf (bs_buf b)) (\<lambda>(res, buf, r). Ok (res, buf, b\<lparr>bs_buf := r\<rparr>))"

definition ByteStream_readViaAddr :: "u64 \<Rightarrow> u64 \<Rightarrow> memory \<Rightarrow> byte_stream \<Rightarrow> ((bool \<times> u64) \<times> memory \<times> byte_stream) result" where
  "ByteStream_readViaAddr buf count m b =
    and_then (RingBuf_readViaAddr buf count m (bs_buf b)) (\<lambda>(res, m, r). Ok (res, m, b\<lparr>bs_buf := r\<rparr>))"

definition ByteStream_GetReadBuf :: "byte_stream \<Rightarrow> (u64 \<times> u64 \<times> bool) option" where
  "ByteStream_GetReadBuf b = RingBuf_GetReadBuf (bs_buf b)"

definition ByteStream_GetDataBuf :: "byte_stream \<Rightarrow> u64 \<times> u64" where
  "ByteStream_GetDataBuf b = RingBuf_GetDataBuf (bs_buf b)"

definition ByteStream_PrepareDataIovs :: "byte_stream \<Rightarrow> byte_stream result" where
  "ByteStream_PrepareDataIovs b =
    and_then (RingBuf_PrepareDataIovs (bs_buf b) (bs_dataIovs b)) (\<lambda>d. Ok (b\<lparr>bs_dataIovs := d\<rparr>))"

definition ByteStream_GetDataIovs :: "byte_stream \<Rightarrow> ((SocketBufIovs \<times> u64) \<times> byte_stream) result" where
  "ByteStream_GetDataIovs b =
    and_then (ByteStream_PrepareDataIovs b) (\<lambda>b. Ok ((bs_dataIovs b, ucast (si_cnt (bs_dataIovs b))), b))"

definition iovs_offset :: "u64 \<Rightarrow> SocketBufIovs \<Rightarrow> SocketBufIovs result" where
  "iovs_offset addr d =
    (let shift = (\<lambda>v. v\<lparr>io_start := io_start v - addr\<rparr>)
     in if si_cnt d = 0 then Ok d
        else if si_cnt d = 1 then Ok (d\<lparr>si_iov0 := shift (si_iov0 d)\<rparr>)
        else if si_cnt d = 2 then Ok (d\<lparr>si_iov0 := shift (si_iov0 d), si_iov1 := shift (si_iov1 d)\<rparr>)
        else Err Panic)"

definition ByteStream_GetDataIovsVecOffset :: "SocketBufIovs \<Rightarrow> byte_stream \<Rightarrow> SocketBufIovs result" where
  "ByteStream_GetDataIovsVecOffset d b =
    and_then (RingBuf_PrepareDataIovs (bs_buf b) d) (iovs_offset (fst (ByteStream_GetRawBuf b)))"

definition ByteStream_GetDataIovsVec :: "byte_stream \<Rightarrow> (IoVec list \<times> byte_stream) result" where
  "ByteStream_GetDataIovsVec b =
    and_then (ByteStream_PrepareDataIovs b) (\<lambda>b. and_then (SocketBufIovs_Iovs (bs_dataIovs b)) (\<lambda>iovs. Ok (iovs, b)))"

definition ByteStream_ConsumeWithCheck :: "u64 \<Rightarrow> byte_stream \<Rightarrow> (bool \<times> byte_stream) result" where
  "ByteStream_ConsumeWithCheck count b =
    and_then (RingBuf_ConsumeWithCheck count (bs_buf b)) (\<lambda>(t, r). Ok (t, b\<lparr>bs_buf := r\<rparr>))"

definition ByteStream_Consume :: "u64 \<Rightarrow> byte_stream \<Rightarrow> bool \<times> byte_stream" where
  "ByteStream_Consume count b = (let (t, r) = RingBuf_Consume count (bs_buf b) in (t, b\<lparr>bs_buf := r\<rparr>))"

definition ByteStream_SetWaitingRead :: "byte_stream \<Rightarrow> byte_stream" where
  "ByteStream_SetWaitingRead b = b\<lparr>bs_buf := RingBuf_SetWaitingRead (bs_buf b)\<rparr>"

definition ByteStream_SetWaitingWrite :: "byte_stream \<Rightarrow> byte_stream" where
  "ByteStream_SetWaitingWrite b = b\<lparr>bs_buf := RingBuf_SetWaitingWrite (bs_buf b)\<rparr>"

definition ByteStream_GetWriteBuf :: "byte_stream \<Rightarrow> (u64 \<times> u64 \<times> bool) option" where
  "ByteStream_GetWriteBuf b = RingBuf_GetWriteBuf (bs_buf b)"

definition ByteStream_PrepareSpaceIovs :: "byte_stream \<Rightarrow> byte_stream result" where
  "ByteStream_PrepareSpaceIovs b =
    and_then (RingBuf_PrepareSpaceIovs (bs_buf b) (bs_spaceIovs b)) (\<lambda>d. Ok (b\<lparr>bs_spaceIovs := d\<rparr>))"

definition ByteStream_GetSpaceIovs :: "byte_stream \<Rightarrow> ((SocketBufIovs \<times> u64) \<times> byte_stream) result" where
  "ByteStream_GetSpaceIovs b =
    and_then (ByteStream_PrepareSpaceIovs b) (\<lambda>b. Ok ((bs_spaceIovs b, ucast (si_cnt (bs_spaceIovs b))), b))"

definition ByteStream_GetSpaceIovsOffset :: "SocketBufIovs \<Rightarrow> byte_stream \<Rightarrow> SocketBufIovs result" where
  "ByteStream_GetSpaceIovsOffset d b =
    and_then (RingBuf_PrepareSpaceIovs (bs_buf b) d) (iovs_offset (fst (ByteStream_GetRawBuf b)))"

definition ByteStream_GetSpaceIovsVec :: "byte_stream \<Rightarrow> (IoVec list \<times> byte_stream) result" where
  "ByteStream_GetSpaceIovsVec b =
    and_then (ByteStream_PrepareSpaceIovs b) (\<lambda>b. and_then (SocketBufIovs_Iovs (bs_spaceIovs b)) (\<lambda>iovs. Ok (iovs, b)))"

definition ByteStream_GetSpaceBuf :: "byte_stream \<Rightarrow> u64 \<times> u64" where
  "ByteStream_GetSpaceBuf b = RingBuf_GetSpaceBuf (bs_buf b)"

definition ByteStream_ProduceWithCheck :: "u64 \<Rightarrow> byte_stream \<Rightarrow> (bool \<times> byte_stream) result" where
  "ByteStream_ProduceWithCheck count b =
    and_then (RingBuf_ProduceWithCheck count (bs_buf b)) (\<lambda>(t, r). Ok (t, b\<lparr>bs_buf := r\<rparr>))"

definition ByteStream_Produce :: "u64 \<Rightarrow> byte_stream \<Rightarrow> bool \<times> byte_stream" where
  "ByteStream_Produce count b = (let (t, r) = RingBuf_Produce count (bs_buf b) in (t, b\<lparr>bs_buf := r\<rparr>))"

definition ByteStream_write :: "u8 list \<Rightarrow> byte_stream \<Rightarrow> ((bool \<times> u64) \<times> byte_stream) result" where
  "ByteStream_write buf b = and_then (RingBuf_write buf (bs_buf b)) (\<lambda>(res, r). Ok (res, b\<lparr>bs_buf := r\<rparr>))"

definition ByteStream_writeFull :: "u8 list \<Rightarrow> byte_stream \<Rightarrow> ((bool \<times> u64) \<times> byte_stream) result" where
  "ByteStream_writeFull buf b = and_then (RingBuf_writeFull buf (bs_buf b)) (\<lambda>(res, r). Ok (res, b\<lparr>bs_buf := r\<rparr>))"

definition ByteStream_writeViaAddr :: "u64 \<Rightarrow> u64 \<Rightarrow> memory \<Rightarrow> byte_stream \<Rightarrow> ((bool \<times> u64) \<times> byte_stream) result" where
  "ByteStream_writeViaAddr buf count m b =
    and_then (RingBuf_writeViaAddr buf count m (bs_buf b)) (\<lambda>(res, r). Ok (res, b\<lparr>bs_buf := r\<rparr>))"

section \<open>Socket buffers\<close>

record socket_buff =
  sb_wClosed :: bool
  sb_rClosed :: bool
  sb_pendingWShutdown :: bool
  sb_error :: int
  sb_consumeReadData :: "u64 option"
  sb_readBuf :: byte_stream
  sb_writeBuf :: byte_stream

definition SocketBuff_New :: "byte_stream \<Rightarrow> byte_stream \<Rightarrow> socket_buff" where
  "SocketBuff_New readbuf writebuf =
    \<lparr>sb_wClosed = False, sb_rClosed = False, sb_pendingWShutdown = False, sb_error = 0, sb_consumeReadData = None,
     sb_readBuf = readbuf, sb_writeBuf = writebuf\<rparr>"

definition SocketBuff_Init :: "u64 \<Rightarrow> ring_buf \<Rightarrow> ring_buf \<Rightarrow> socket_buff result" where
  "SocketBuff_Init pageCount freshR freshW =
    and_then (ByteStream_Init pageCount freshR) (\<lambda>r.
    and_then (ByteStream_Init pageCount freshW) (\<lambda>w. Ok (SocketBuff_New r w)))"

definition SocketBuff_InitWithShareMemory :: "u64 \<Rightarrow> ring_buf \<Rightarrow> ring_buf \<Rightarrow> u64 \<Rightarrow> bool \<Rightarrow> socket_buff result" where
  "SocketBuff_InitWithShareMemory pageCount sharedR sharedW consumed init =
    and_then (ByteStream_InitWithShareMemory pageCount init sharedR) (\<lambda>r.
    and_then (ByteStream_InitWithShareMemory pageCount init sharedW) (\<lambda>w.
      Ok ((SocketBuff_New r w)\<lparr>sb_consumeReadData := Some (if init then 0 else consumed)\<rparr>)))"

definition SocketBuff_AddConsumeReadData :: "u64 \<Rightarrow> socket_buff \<Rightarrow> (u64 \<times> socket_buff) result" where
  "SocketBuff_AddConsumeReadData count s =
    (case sb_consumeReadData s of
       None \<Rightarrow> Err Panic
     | Some n \<Rightarrow> Ok (n + count, s\<lparr>sb_consumeReadData := Some (n + count)\<rparr>))"

definition SocketBuff_GetAndClearConsumeReadData :: "socket_buff \<Rightarrow> (u64 \<times> socket_buff) result" where
  "SocketBuff_GetAndClearConsumeReadData s =
    (case sb_consumeReadData s of
       None \<Rightarrow> Err Panic
     | Some n \<Rightarrow> Ok (n, s\<lparr>sb_consumeReadData := Some 0\<rparr>))"

definition SocketBuff_ReadBuf :: "socket_buff \<Rightarrow> u64 \<times> u64" where
  "SocketBuff_ReadBuf s = ByteStream_GetRawBuf (sb_readBuf s)"

definition SocketBuff_WriteBuf :: "socket_buff \<Rightarrow> u64 \<times> u64" where
  "SocketBuff_WriteBuf s = ByteStream_GetRawBuf (sb_writeBuf s)"

definition SocketBuff_SetPendingWriteShutdown :: "socket_buff \<Rightarrow> socket_buff" where
  "SocketBuff_SetPendingWriteShutdown s = s\<lparr>sb_pendingWShutdown := True\<rparr>"

definition SocketBuff_HasWriteData :: "socket_buff \<Rightarrow> bool" where
  "SocketBuff_HasWriteData s \<longleftrightarrow> ByteStream_AvailableDataSize (sb_writeBuf s) > 0"

definition SocketBuff_HasReadData :: "socket_buff \<Rightarrow> bool" where
  "SocketBuff_HasReadData s \<longleftrightarrow> ByteStream_AvailableDataSize (sb_readBuf s) > 0"

definition SocketBuff_WriteBufAvailableDataSize :: "socket_buff \<Rightarrow> u64" where
  "SocketBuff_WriteBufAvailableDataSize s = ByteStream_AvailableDataSize (sb_writeBuf s)"

definition SocketBuff_Events :: "socket_buff \<Rightarrow> u64" where
  "SocketBuff_Events s =
    (let event = 0;
         event = (if ByteStream_AvailableDataSize (sb_readBuf s) > 0 then event OR READABLE_EVENT
                  else if sb_rClosed s \<or> sb_wClosed s then event OR (READABLE_EVENT OR EVENT_HUP) else event);
         event = (if ByteStream_AvailableSpace (sb_writeBuf s) > 0 then event OR WRITEABLE_EVENT else event)
     in if sb_error s \<noteq> 0 then event OR EVENT_ERR else event)"

definition SocketBuff_SetWClosed :: "socket_buff \<Rightarrow> socket_buff" where
  "SocketBuff_SetWClosed s = s\<lparr>sb_wClosed := True\<rparr>"

definition SocketBuff_SetRClosed :: "socket_buff \<Rightarrow> socket_buff" where
  "SocketBuff_SetRClosed s = s\<lparr>sb_rClosed := True\<rparr>"

definition SocketBuff_SetErr :: "int \<Rightarrow> socket_buff \<Rightarrow> socket_buff" where
  "SocketBuff_SetErr err s = s\<lparr>sb_error := err\<rparr>"

definition SocketBuff_GetFreeReadIovs :: "socket_buff \<Rightarrow> ((SocketBufIovs \<times> u64) \<times> socket_buff) result" where
  "SocketBuff_GetFreeReadIovs s =
    and_then (ByteStream_GetSpaceIovs (sb_readBuf s)) (\<lambda>(res, b). Ok (res, s\<lparr>sb_readBuf := b\<rparr>))"

definition SocketBuff_GetFreeReadBuf :: "socket_buff \<Rightarrow> u64 \<times> u64" where
  "SocketBuff_GetFreeReadBuf s = ByteStream_GetSpaceBuf (sb_readBuf s)"

definition SocketBuff_ProduceReadBuf :: "u64 \<Rightarrow> socket_buff \<Rightarrow> bool \<times> socket_buff" where
  "SocketBuff_ProduceReadBuf n s = (let (t, b) = ByteStream_Produce n (sb_readBuf s) in (t, s\<lparr>sb_readBuf := b\<rparr>))"

definition SocketBuff_ProduceAndGetFreeReadBuf :: "u64 \<Rightarrow> socket_buff \<Rightarrow> (bool \<times> u64 \<times> u64) \<times> socket_buff" where
  "SocketBuff_ProduceAndGetFreeReadBuf n s =
    (let (trigger, b) = ByteStream_Produce n (sb_readBuf s)
     in ((trigger, ByteStream_GetSpaceBuf b), s\<lparr>sb_readBuf := b\<rparr>))"

definition SocketBuff_GetAvailableWriteIovs :: "socket_buff \<Rightarrow> ((SocketBufIovs \<times> u64) \<times> socket_buff) result" where
  "SocketBuff_GetAvailableWriteIovs s =
    and_then (ByteStream_GetDataIovs (sb_writeBuf s)) (\<lambda>(res, b). Ok (res, s\<lparr>sb_writeBuf := b\<rparr>))"

definition SocketBuff_ConsumeWriteBuf :: "u64 \<Rightarrow> socket_buff \<Rightarrow> bool \<times> socket_buff" where
  "SocketBuff_ConsumeWriteBuf n s = (let (t, b) = ByteStream_Consume n (sb_writeBuf s) in (t, s\<lparr>sb_writeBuf := b\<rparr>))"

definition SocketBuff_ConsumeAndGetAvailableWriteBuf :: "u64 \<Rightarrow> socket_buff \<Rightarrow> (bool \<times> u64 \<times> u64) \<times> socket_buff" where
  "SocketBuff_ConsumeAndGetAvailableWriteBuf n s =
    (let (trigger, b) = ByteStream_Consume n (sb_writeBuf s)
     in ((trigger, ByteStream_GetDataBuf b), s\<lparr>sb_writeBuf := b\<rparr>))"

definition SocketBuff_GetAvailableWriteBuf :: "socket_buff \<Rightarrow> u64 \<times> u64" where
  "SocketBuff_GetAvailableWriteBuf s = ByteStream_GetDataBuf (sb_writeBuf s)"

section \<open>Accept queues\<close>

text \<open>An accepted connection carries its descriptor, address and buffers; the queue hands it on as
  it is. The queue of waiters is a list of entries and masks, and the entries that a notification
  triggers are part of the outcome.\<close>

record 'i accept_queue =
  aq_aiQueue :: "'i list"
  aq_queueLen :: u64
  aq_error :: int
  aq_total :: u64
  aq_queue :: "(nat \<times> u64) list"

definition AcceptQueue_New :: "u64 \<Rightarrow> (nat \<times> u64) list \<Rightarrow> 'i accept_queue" where
  "AcceptQueue_New len queue = \<lparr>aq_aiQueue = [], aq_queueLen = len, aq_error = 0, aq_total = 0, aq_queue = queue\<rparr>"

definition AcceptQueue_EnqSocket :: "'i \<Rightarrow> 'i accept_queue \<Rightarrow> bool \<times> 'i accept_queue \<times> nat list" where
  "AcceptQueue_EnqSocket item q =
    (let q = q\<lparr>aq_aiQueue := aq_aiQueue q @ [item], aq_total := aq_total q + 1\<rparr>;
         trigger = (length (aq_aiQueue q) = 1);
         hasSpace = (word_of_nat (length (aq_aiQueue q)) < aq_queueLen q)
     in (hasSpace, q, if trigger then Queue_Notify READABLE_EVENT (aq_queue q) else []))"

definition AcceptQueue_SetErr :: "int \<Rightarrow> 'i accept_queue \<Rightarrow> 'i accept_queue" where
  "AcceptQueue_SetErr err q = q\<lparr>aq_error := err\<rparr>"

definition AcceptQueue_SetQueueLen :: "u64 \<Rightarrow> 'i accept_queue \<Rightarrow> 'i accept_queue" where
  "AcceptQueue_SetQueueLen len q = q\<lparr>aq_queueLen := len\<rparr>"

definition AcceptQueue_HasSpace :: "'i accept_queue \<Rightarrow> bool" where
  "AcceptQueue_HasSpace q \<longleftrightarrow> word_of_nat (length (aq_aiQueue q)) < aq_queueLen q"

definition AcceptQueue_DeqSocket :: "'i accept_queue \<Rightarrow> (bool \<times> 'i result) \<times> 'i accept_queue" where
  "AcceptQueue_DeqSocket q =
    (let trigger = (word_of_nat (length (aq_aiQueue q)) = aq_queueLen q)
     in case aq_aiQueue q of
          [] \<Rightarrow> (if aq_error q \<noteq> 0 then (False, Err (SysError (aq_error q))) else (trigger, Err (SysError EAGAIN)), q)
        | item # items \<Rightarrow> ((trigger, Ok item), q\<lparr>aq_aiQueue := items\<rparr>))"

definition AcceptQueue_Events :: "'i accept_queue \<Rightarrow> u64" where
  "AcceptQueue_Events q =
    (let event = (if aq_aiQueue q \<noteq> [] then 0 OR READABLE_EVENT else 0)
     in if aq_error q \<noteq> 0 then event OR EVENT_ERR else event)"

end
