(* ===== verification/Stream_Laws.thy ===== *)
theory Stream_Laws
  imports Ring_Buf_Props Socket_Buf
begin

text \<open>
  The properties of byte streams: the bytes come out in the order in which they went in, a waiting
  side is told, a new stream is well formed, the descriptions of stretches name the bytes, and two
  defects of the operations that follow descriptions.
\<close>

section \<open>Streams are byte queues\<close>

definition stream_ok :: "byte_stream \<Rightarrow> bool" where
  "stream_ok b \<longleftrightarrow> ring_ok (bs_buf b)"

definition stream_content :: "byte_stream \<Rightarrow> u8 list" where
  "stream_content b = content (bs_buf b)"

definition stream_capacity :: "byte_stream \<Rightarrow> nat" where
  "stream_capacity b = capacity (bs_buf b)"

lemmas stream_defs = stream_ok_def stream_content_def stream_capacity_def

interpretation stream: byte_queue ByteStream_write ByteStream_read stream_ok stream_content stream_capacity
proof
  fix b and buf :: "u8 list" and n assume "stream_ok b" "length buf < 2 ^ 64"
    and n: "n = min (length buf) (stream_capacity b - length (stream_content b))"
  then obtain r where "RingBuf_write buf (bs_buf b) = Ok ((rb_waitingRead (bs_buf b), word_of_nat n), r)" "ring_ok r"
    "content r = content (bs_buf b) @ take n buf" "capacity r = capacity (bs_buf b)"
    using write_refines [of "bs_buf b" buf] by (auto simp: stream_defs)
  then show "\<exists>w b'. ByteStream_write buf b = Ok ((w, word_of_nat n), b') \<and> stream_ok b' \<and>
      stream_content b' = stream_content b @ take n buf \<and> stream_capacity b' = stream_capacity b"
    by (simp add: ByteStream_write_def stream_defs)
next
  fix b and buf :: "u8 list" and n assume "stream_ok b" "length buf < 2 ^ 64"
    and n: "n = min (length (stream_content b)) (length buf)"
  then obtain r where "RingBuf_read buf (bs_buf b) = Ok ((rb_waitingWrite (bs_buf b), word_of_nat n), take n (content (bs_buf b)) @ drop n buf, r)"
    "ring_ok r" "content r = drop n (content (bs_buf b))" "capacity r = capacity (bs_buf b)"
    using read_refines [of "bs_buf b" buf] by (auto simp: stream_defs)
  then show "\<exists>w b'. ByteStream_read buf b = Ok ((w, word_of_nat n), take n (stream_content b) @ drop n buf, b') \<and> stream_ok b' \<and>
      stream_content b' = drop n (stream_content b) \<and> stream_capacity b' = stream_capacity b"
    by (simp add: ByteStream_read_def stream_defs)
qed

section \<open>A new stream\<close>

lemma power_of_two_test: "k < 64 \<Longrightarrow> IsPowerOfTwo (2 ^ k)"
  unfolding IsPowerOfTwo_def mask_eq_exp_minus_1 [symmetric]
  by (rule bit_word_eqI) (auto simp: bit_simps)



section \<open>Order and wake-ups\<close>

text \<open>C27. Over any sequence of writes and reads on a stream every call succeeds, the bytes that the reads
  returned followed by those still in the stream are the bytes that were in the stream followed by
  those that the writes accepted, in this order, and the stream never holds more than its capacity.\<close>

theorem ByteStream_in_order:
  assumes "stream_ok b" and "\<forall>op \<in> set ops. op_size op < 2 ^ 64"
  shows "\<exists>sent got b'. stream_run ByteStream_write ByteStream_read ops b = Ok (sent, got, b') \<and> stream_ok b' \<and>
    stream_content b @ sent = got @ stream_content b' \<and> length (stream_content b') \<le> stream_capacity b"
proof -
  obtain sent got b' where run: "stream_run ByteStream_write ByteStream_read ops b = Ok (sent, got, b')" "stream_ok b'"
    "stream_content b @ sent = got @ stream_content b'" "stream_capacity b' = stream_capacity b"
    using stream.stream_in_order [OF assms] by blast
  have "length (stream_content b') \<le> stream_capacity b'"
    using ring_numbers(4) length_content run(2) by (simp add: stream_defs capacity_def)
  with run show ?thesis by auto
qed

definition sample_stream :: byte_stream where
  "sample_stream = \<lparr>bs_buf = \<lparr>rb_addr = 0x10000, rb_bytes = [0, 0, 0, 0], rb_ringMask = 3, rb_head = 0xFFFFFFFE, rb_tail = 0xFFFFFFFE,
     rb_waitingRead = True, rb_waitingWrite = False\<rparr>, bs_dataIovs = SocketBufIovs_default, bs_spaceIovs = SocketBufIovs_default\<rparr>"

lemma sample_stream_ok: "stream_ok sample_stream" "stream_content sample_stream = []"
proof -
  have "(3 :: u32) = mask 2" by (simp add: mask_eq_exp_minus_1)
  then show "stream_ok sample_stream"
    unfolding stream_ok_def ring_ok_def sample_stream_def by (auto intro!: exI [of _ 2])
  show "stream_content sample_stream = []" by (simp add: stream_content_def content_def sample_stream_def)
qed

theorem ByteStream_in_order_witness:
  "\<exists>b'. stream_run ByteStream_write ByteStream_read [Put [1, 2, 3], Get 2, Put [4, 5, 6], Get 10] sample_stream =
     Ok ([1, 2, 3, 4, 5, 6], [1, 2, 3, 4, 5, 6], b') \<and> stream_content b' = []"
proof -
  let ?ops = "[Put [1, 2, 3], Get 2, Put [4, 5, 6], Get 10]"
  have sizes: "\<forall>op \<in> set ?ops. op_size op < 2 ^ 64" by simp
  obtain sent got b' where run: "stream_run ByteStream_write ByteStream_read ?ops sample_stream = Ok (sent, got, b')"
    "stream_content sample_stream @ sent = got @ stream_content b'"
    using ByteStream_in_order [OF sample_stream_ok(1) sizes] by blast
  have "(case stream_run ByteStream_write ByteStream_read ?ops sample_stream of
      Inr (sent, got, _) \<Rightarrow> sent = [1, 2, 3, 4, 5, 6] \<and> got = [1, 2, 3, 4, 5, 6] | _ \<Rightarrow> False)" by code_simp
  then have "sent = [1, 2, 3, 4, 5, 6]" "got = [1, 2, 3, 4, 5, 6]" using run(1) by simp_all
  then show ?thesis using run sample_stream_ok(2) by simp
qed

text \<open>A queue that remembers a waiting reader when it is empty and a waiting writer when it is full,
  and returns with each transfer whether the other side waited.\<close>

locale waking_queue = byte_queue put get inv held room
  for put :: "u8 list \<Rightarrow> 's \<Rightarrow> ((bool \<times> u64) \<times> 's) result"
    and get :: "u8 list \<Rightarrow> 's \<Rightarrow> ((bool \<times> u64) \<times> u8 list \<times> 's) result" and inv held room +
  fixes told :: "'s \<Rightarrow> bool"
  assumes put_told: "inv s \<Longrightarrow> told s \<Longrightarrow> b \<noteq> [] \<Longrightarrow> length b < 2 ^ 64 \<Longrightarrow> put b s = Ok ((w, n), s') \<Longrightarrow> told s' \<and> (held s = [] \<longrightarrow> w)"
    and get_told: "inv s \<Longrightarrow> told s \<Longrightarrow> b \<noteq> [] \<Longrightarrow> length b < 2 ^ 64 \<Longrightarrow> get b s = Ok ((w, n), b', s') \<Longrightarrow>
      told s' \<and> (length (held s) = room s \<longrightarrow> w)"
begin

lemma stream_told:
  assumes "inv s" and "told s" and "\<forall>op \<in> set ops. 0 < op_size op \<and> op_size op < 2 ^ 64"
    and "stream_run put get ops s = Ok (sent, got, s')"
  shows "inv s' \<and> told s'"
  using assms
proof (induction ops arbitrary: s sent got)
  case (Cons op ops)
  show ?case
  proof (cases op)
    case (Put b)
    have b: "b \<noteq> []" "length b < 2 ^ 64" using Cons.prems(3) Put by auto
    obtain w s1 where s1: "put b s = Ok ((w, word_of_nat (min (length b) (room s - length (held s)))), s1)" "inv s1"
      using put_law [OF Cons.prems(1) b(2) refl] by blast
    then show ?thesis using Cons.IH [OF s1(2)] put_told [OF Cons.prems(1,2) b s1(1)] Cons.prems(3,4) Put
      by (auto simp: and_then_Ok_iff)
  next
    case (Get k)
    define b :: "u8 list" where "b = replicate k 0"
    have b: "b \<noteq> []" "length b < 2 ^ 64" using Cons.prems(3) Get by (auto simp: b_def)
    obtain w b' s1 where s1: "get b s = Ok ((w, word_of_nat (min (length (held s)) (length b))), b', s1)" "inv s1"
      using get_law [OF Cons.prems(1) b(2) refl] by blast
    then show ?thesis using Cons.IH [OF s1(2)] get_told [OF Cons.prems(1,2) b s1(1)] Cons.prems(3,4) Get
      by (auto simp: and_then_Ok_iff b_def)
  qed
qed simp

end

definition stream_told :: "byte_stream \<Rightarrow> bool" where
  "stream_told b \<longleftrightarrow> (stream_content b = [] \<longrightarrow> rb_waitingRead (bs_buf b)) \<and>
     (length (stream_content b) = stream_capacity b \<longrightarrow> rb_waitingWrite (bs_buf b))"

lemma write_flags:
  assumes ok: "ring_ok r" and len: "length buf < 2 ^ 64" and run: "RingBuf_write buf r = Ok ((w, n), r')"
  shows "w = rb_waitingRead r" "rb_waitingWrite r' \<longleftrightarrow> length (content r') = capacity r' \<or> rb_waitingWrite r"
proof -
  obtain r1 where r1: "RingBuf_write buf r = Ok ((rb_waitingRead r, word_of_nat (min (length buf) (capacity r - length (content r)))), r1)"
    "content r1 = content r @ take (min (length buf) (capacity r - length (content r))) buf" "capacity r1 = capacity r"
    by (rule write_refines [OF ok len])
  then have r': "r' = r1" and "w = rb_waitingRead r" using run by simp_all
  then show "w = rb_waitingRead r" by simp
  show "rb_waitingWrite r' \<longleftrightarrow> length (content r') = capacity r' \<or> rb_waitingWrite r"
    using RingBuf_write_eq [OF ok len] run r1(2,3) r' by (auto simp: capacity_def length_content [OF ok])
qed

lemma read_flags:
  assumes ok: "ring_ok r" and len: "length buf < 2 ^ 64" and run: "RingBuf_read buf r = Ok ((w, n), buf', r')"
  shows "w = rb_waitingWrite r" "rb_waitingRead r' \<longleftrightarrow> content r' = [] \<or> rb_waitingRead r"
proof -
  obtain r1 where r1: "RingBuf_read buf r = Ok ((rb_waitingWrite r, word_of_nat (min (length (content r)) (length buf))),
      take (min (length (content r)) (length buf)) (content r) @ drop (min (length (content r)) (length buf)) buf, r1)"
    "content r1 = drop (min (length (content r)) (length buf)) (content r)"
    by (rule read_refines [OF ok len])
  then have r': "r' = r1" and "w = rb_waitingWrite r" using run by simp_all
  then show "w = rb_waitingWrite r" by simp
  show "rb_waitingRead r' \<longleftrightarrow> content r' = [] \<or> rb_waitingRead r"
    using RingBuf_read_eq [OF ok len] run r1(2) r' by (auto simp: length_content [OF ok])
qed

interpretation wake: waking_queue ByteStream_write ByteStream_read stream_ok stream_content stream_capacity stream_told
proof
  fix b and buf :: "u8 list" and w n b'
  assume ok: "stream_ok b" and told: "stream_told b" and buf: "buf \<noteq> []" "length buf < 2 ^ 64"
    and run: "ByteStream_write buf b = Ok ((w, n), b')"
  have rok: "ring_ok (bs_buf b)" using ok by (simp add: stream_ok_def)
  have rrun: "RingBuf_write buf (bs_buf b) = Ok ((w, n), bs_buf b')" using run by (auto simp: ByteStream_write_def and_then_Ok_iff)
  obtain r1 where "RingBuf_write buf (bs_buf b) = Ok ((rb_waitingRead (bs_buf b), word_of_nat (min (length buf) (capacity (bs_buf b) - length (content (bs_buf b))))), r1)"
    "content r1 = content (bs_buf b) @ take (min (length buf) (capacity (bs_buf b) - length (content (bs_buf b)))) buf" "capacity r1 = capacity (bs_buf b)"
    by (rule write_refines [OF rok buf(2)])
  then have c: "content (bs_buf b') = content (bs_buf b) @ take (min (length buf) (capacity (bs_buf b) - length (content (bs_buf b)))) buf"
    using rrun by simp
  have "0 < capacity (bs_buf b)" using ring_numbers(2) [OF rok] by (simp add: capacity_def)
  then have "content (bs_buf b') \<noteq> []" using c buf(1) by auto
  then show "stream_told b' \<and> (stream_content b = [] \<longrightarrow> w)"
    using write_flags [OF rok buf(2) rrun] told by (simp add: stream_told_def stream_defs)
next
  fix b and buf buf' :: "u8 list" and w n b'
  assume ok: "stream_ok b" and told: "stream_told b" and buf: "buf \<noteq> []" "length buf < 2 ^ 64"
    and run: "ByteStream_read buf b = Ok ((w, n), buf', b')"
  have rok: "ring_ok (bs_buf b)" using ok by (simp add: stream_ok_def)
  have rrun: "RingBuf_read buf (bs_buf b) = Ok ((w, n), buf', bs_buf b')" using run by (auto simp: ByteStream_read_def and_then_Ok_iff)
  obtain r1 where "RingBuf_read buf (bs_buf b) = Ok ((rb_waitingWrite (bs_buf b), word_of_nat (min (length (content (bs_buf b))) (length buf))),
      take (min (length (content (bs_buf b))) (length buf)) (content (bs_buf b)) @ drop (min (length (content (bs_buf b))) (length buf)) buf, r1)"
    "content r1 = drop (min (length (content (bs_buf b))) (length buf)) (content (bs_buf b))" "capacity r1 = capacity (bs_buf b)"
    by (rule read_refines [OF rok buf(2)])
  then have c: "content (bs_buf b') = drop (min (length (content (bs_buf b))) (length buf)) (content (bs_buf b))"
    "capacity (bs_buf b') = capacity (bs_buf b)" using rrun by simp_all
  have cap: "0 < capacity (bs_buf b)" "length (content (bs_buf b)) \<le> capacity (bs_buf b)"
    using ring_numbers(2,4) [OF rok] by (simp_all add: capacity_def length_content [OF rok])
  have "length (content (bs_buf b')) \<noteq> capacity (bs_buf b')"
  proof -
    define B where "B = length buf"
    then have "0 < B" using buf(1) by simp
    then show ?thesis using cap unfolding c length_drop B_def [symmetric] by (auto simp: min_def)
  qed
  then show "stream_told b' \<and> (length (stream_content b) = stream_capacity b \<longrightarrow> w)"
    using read_flags [OF rok buf(2) rrun] told by (simp add: stream_told_def stream_defs)
qed

text \<open>C28. No wake-up is lost: after any sequence of non-empty writes and reads, an empty stream remembers
  that its reader waits and a full one that its writer waits, and the next non-empty write to an
  empty stream reports the waiting reader.\<close>

theorem ByteStream_wakes:
  assumes "stream_ok b" and "stream_told b" and "\<forall>op \<in> set ops. 0 < op_size op \<and> op_size op < 2 ^ 64"
    and "stream_run ByteStream_write ByteStream_read ops b = Ok (sent, got, b')" and "buf \<noteq> []" "length buf < 2 ^ 64"
  shows "stream_told b' \<and> (stream_content b' = [] \<longrightarrow> (\<exists>n b''. ByteStream_write buf b' = Ok ((True, n), b'')))"
proof -
  have ok: "stream_ok b'" "stream_told b'" using wake.stream_told [OF assms(1-4)] by simp_all
  moreover have "\<exists>n b''. ByteStream_write buf b' = Ok ((True, n), b'')" if "stream_content b' = []"
    using stream.put_law [OF ok(1) assms(6) refl] wake.put_told [OF ok assms(5,6)] that by metis
  ultimately show ?thesis by blast
qed

theorem ByteStream_wakes_witness:
  "\<exists>b' n b''. stream_run ByteStream_write ByteStream_read [Put [1, 2], Get 8] sample_stream = Ok ([1, 2], [1, 2], b') \<and>
     ByteStream_write [9] b' = Ok ((True, n), b'')"
proof -
  let ?ops = "[Put [1, 2], Get 8]"
  have told: "stream_told sample_stream" by (simp add: stream_told_def stream_defs content_def capacity_def sample_stream_def)
  have sizes: "\<forall>op \<in> set ?ops. 0 < op_size op \<and> op_size op < 2 ^ 64" by simp
  have "(case stream_run ByteStream_write ByteStream_read ?ops sample_stream of
      Inr (sent, got, b') \<Rightarrow> sent = [1, 2] \<and> got = [1, 2] \<and> rb_head (bs_buf b') = rb_tail (bs_buf b') | _ \<Rightarrow> False)" by code_simp
  then obtain b' where run: "stream_run ByteStream_write ByteStream_read ?ops sample_stream = Ok ([1, 2], [1, 2], b')"
    "rb_head (bs_buf b') = rb_tail (bs_buf b')" by (auto split: sum.splits)
  have "stream_content b' = []" using run(2) by (simp add: stream_defs content_def)
  then show ?thesis using ByteStream_wakes [OF sample_stream_ok(1) told sizes run(1), of "[9]"] run(1) by auto
qed

section \<open>Descriptions of stretches\<close>

lemma length_mem_read [simp]: "length (mem_read m a n) = n"
  by (simp add: mem_read_def)

lemma mem_read_part: "k + n \<le> N \<Longrightarrow> mem_read m (a + word_of_nat k) n = take n (drop k (mem_read m a N))"
  by (rule nth_equalityI) (simp_all add: mem_read_def add.assoc)

text \<open>C30. The description of the data of a ring buffer names its content: when the memory at the
  address of the buffer holds the bytes of the buffer, reading the one or two stretches in order gives
  the bytes of the queue.\<close>

theorem PrepareDataIovs_content:
  assumes ok: "ring_ok r" and mem: "mem_read m (rb_addr r) (length (rb_bytes r)) = rb_bytes r"
  shows "\<exists>d' iovs. RingBuf_PrepareDataIovs r d = Ok d' \<and> SocketBufIovs_Iovs d' = Ok iovs \<and>
    concat (map (\<lambda>v. mem_read m (io_start v) (unat (io_len v))) iovs) = content r"
proof -
  define N where "N = length (rb_bytes r)"
  define a where "a = unat (rb_tail r - rb_head r)"
  note num = ring_numbers [OF ok, folded N_def a_def]
  define p where "p = unat (rb_head r) mod N"
  define readPos :: u64 where "readPos = ucast (rb_head r AND rb_ringMask r)"
  define available :: u64 where "available = ucast (rb_tail r - rb_head r)"
  define toEnd where "toEnd = RingBuf_Len r - readPos"
  have p: "unat readPos = p" "p < N" using num(2,6) by (simp_all add: readPos_def p_def)
  have rp: "readPos = word_of_nat p" unfolding p(1) [symmetric] by simp
  have av: "unat available = a" using num(5) by (simp add: available_def)
  have te: "unat toEnd = N - p" unfolding toEnd_def using num(1) p by (subst unat_diff [of p]) simp_all
  have pos: "readPos < RingBuf_Len r" using p num(1) by (simp add: word_less_nat_alt)
  have cont: "content r = (if N - p < a then drop p (rb_bytes r) @ take (a - (N - p)) (rb_bytes r) else take a (drop p (rb_bytes r)))"
    using take_rotate [of p "rb_bytes r" a] p(2) num(4)
    by (simp add: content_def a_def [symmetric] p_def N_def rotate_conv_mod [symmetric])
  have part: "k + n \<le> N \<Longrightarrow> mem_read m (rb_addr r + word_of_nat k) n = take n (drop k (rb_bytes r))" for k n
    using mem_read_part [of k n N m "rb_addr r"] mem by (simp add: N_def)
  consider (empty) "a = 0" | (two) "a \<noteq> 0" "N - p < a" | (one) "a \<noteq> 0" "a \<le> N - p" by linarith
  then show ?thesis
  proof cases
    case empty
    then have "available = 0" using av by (simp add: unat_eq_zero)
    then show ?thesis using empty cont
      by (auto simp: RingBuf_PrepareDataIovs_def Let_def available_def [symmetric] SocketBufIovs_Iovs_def)
  next
    case two
    then have lt: "available \<noteq> 0" "toEnd < available" using av te by (auto simp: word_less_nat_alt)
    have "unat (available - toEnd) = a - (N - p)" using av te two by (subst unat_diff [of "N - p"]) simp_all
    moreover have "mem_read m (rb_addr r) (a - (N - p)) = take (a - (N - p)) (rb_bytes r)"
      using part [of 0 "a - (N - p)"] num(4) by simp
    moreover have "mem_read m (rb_addr r + readPos) (N - p) = drop p (rb_bytes r)"
      using part [of p "N - p"] p(2) rp by (simp add: N_def)
    ultimately show ?thesis using lt pos two cont te
      by (auto simp: RingBuf_PrepareDataIovs_def Let_def available_def [symmetric] readPos_def [symmetric] toEnd_def [symmetric]
          SocketBufIovs_Iovs_def)
  next
    case one
    then have lt: "available \<noteq> 0" "\<not> toEnd < available" using av te by (auto simp: word_less_nat_alt)
    moreover have "mem_read m (rb_addr r + readPos) a = take a (drop p (rb_bytes r))"
      using part [of p a] one(2) p(2) rp by simp
    ultimately show ?thesis using pos one cont av
      by (auto simp: RingBuf_PrepareDataIovs_def Let_def available_def [symmetric] readPos_def [symmetric] toEnd_def [symmetric]
          SocketBufIovs_Iovs_def)
  qed
qed

theorem PrepareDataIovs_content_witness:
  "\<exists>d' iovs. RingBuf_PrepareDataIovs \<lparr>rb_addr = 0x10000, rb_bytes = [3, 4, 1, 2], rb_ringMask = 3, rb_head = 0xFFFFFFFE, rb_tail = 2,
      rb_waitingRead = False, rb_waitingWrite = True\<rparr> SocketBufIovs_default = Ok d' \<and> SocketBufIovs_Iovs d' = Ok iovs \<and>
     concat (map (\<lambda>v. mem_read (\<lambda>x. [3, 4, 1, 2] ! unat (x - 0x10000)) (io_start v) (unat (io_len v))) iovs) = [1, 2, 3, 4]"
proof -
  let ?r = "\<lparr>rb_addr = 0x10000, rb_bytes = [3, 4, 1, 2], rb_ringMask = 3, rb_head = 0xFFFFFFFE, rb_tail = 2,
      rb_waitingRead = False, rb_waitingWrite = True\<rparr>"
  have m: "(3 :: u32) = mask 2" by (simp add: mask_eq_exp_minus_1)
  have "rb_tail ?r - rb_head ?r = 4" by simp
  then have "unat (rb_tail ?r - rb_head ?r) = 4" by (simp only: unat_numeral) simp
  then have ok: "ring_ok ?r" unfolding ring_ok_def using m by (intro conjI exI [of _ 2]) simp_all
  have mem: "mem_read (\<lambda>x. [3, 4, 1, 2] ! unat (x - 0x10000)) (rb_addr ?r) (length (rb_bytes ?r)) = rb_bytes ?r" by code_simp
  have "content ?r = [1, 2, 3, 4]" by (simp add: content_def rotate_drop_take)
  then show ?thesis using PrepareDataIovs_content [OF ok mem, of SocketBufIovs_default] by simp
qed

lemma Count_two: "si_cnt d = 2 \<Longrightarrow> SocketBufIovs_Count d = Ok (io_len (si_iov0 d) + io_len (si_iov1 d))"
  by (simp add: SocketBufIovs_Count_def SocketBufIovs_Iovs_def)

lemma Count_one: "si_cnt d = 1 \<Longrightarrow> SocketBufIovs_Count d = Ok (io_len (si_iov0 d))"
  by (simp add: SocketBufIovs_Count_def SocketBufIovs_Iovs_def)

text \<open>C31. An object that lies across the end of the buffer cannot be read: \<^verbatim>\<open>ReadObj\<close> takes it with
  \<^verbatim>\<open>ReadVec\<close>, which consumes it, and consumes it once more, so that the call panics unless another object
  of the same size follows.\<close>

theorem ReadObj_split_panics:
  assumes "si_cnt d = 2" and "unat (io_len (si_iov0 d)) < unat n"
    and "unat n \<le> unat (io_len (si_iov0 d)) + unat (io_len (si_iov1 d))"
    and "unat (io_len (si_iov0 d)) + unat (io_len (si_iov1 d)) < 2 * unat n"
    and "unat (io_len (si_iov0 d)) + unat (io_len (si_iov1 d)) < 2 ^ 64"
  shows "SocketBufIovs_ReadObj m n d = Err Panic"
proof -
  define c where "c = io_len (si_iov0 d) + io_len (si_iov1 d)"
  have uc: "unat c = unat (io_len (si_iov0 d)) + unat (io_len (si_iov1 d))" unfolding c_def by (rule unat_add [OF assms(5)])
  have cnt: "SocketBufIovs_Count d = Ok c" using Count_two [OF assms(1)] by (simp add: c_def)
  have le: "n \<le> c" "\<not> c < n" "\<not> n \<le> io_len (si_iov0 d)" "\<not> n < io_len (si_iov0 d)" "io_len (si_iov0 d) \<noteq> n"
    using assms(2,3) uc by (auto simp: word_le_nat_alt word_less_nat_alt)
  define d1 where "d1 = d\<lparr>si_iov0 := \<lparr>io_start = io_start (si_iov1 d) + (n - io_len (si_iov0 d)), io_len = c - n\<rparr>, si_cnt := 1\<rparr>"
  have first: "SocketBufIovs_Consume n d = Ok d1" using cnt le by (simp add: SocketBufIovs_Consume_def d1_def)
  have "unat (c - n) = unat c - unat n" using le(1) by (simp add: unat_sub)
  then have "\<not> n \<le> c - n" using assms(4) uc by (simp add: word_le_nat_alt)
  then have second: "SocketBufIovs_Consume n d1 = Err Panic"
    using Count_one [of d1] by (simp add: SocketBufIovs_Consume_def d1_def)
  have "n \<noteq> 0" using assms(2) by auto
  then show ?thesis using cnt le first second
    by (simp add: SocketBufIovs_ReadObj_def SocketBufIovs_ReadVec_def Let_def)
qed

theorem ReadObj_split_panics_witness:
  "SocketBufIovs_ReadObj (\<lambda>_. 0) 4 \<lparr>si_iov0 = \<lparr>io_start = 0x1000, io_len = 2\<rparr>, si_iov1 = \<lparr>io_start = 0x2000, io_len = 3\<rparr>, si_cnt = 2\<rparr> = Err Panic"
  by (rule ReadObj_split_panics) simp_all

text \<open>The bytes that \<open>ReadVec\<close> returns across the end repeat the first stretch.\<close>

lemma ReadVec_repeats:
  "SocketBufIovs_ReadVec (\<lambda>x. ucast x) 4 \<lparr>si_iov0 = \<lparr>io_start = 0x11, io_len = 2\<rparr>, si_iov1 = \<lparr>io_start = 0x21, io_len = 3\<rparr>, si_cnt = 2\<rparr> =
    Ok ([0x11, 0x12, 0x11, 0x12], \<lparr>si_iov0 = \<lparr>io_start = 0x23, io_len = 1\<rparr>, si_iov1 = \<lparr>io_start = 0x21, io_len = 3\<rparr>, si_cnt = 1\<rparr>)"
  by code_simp

text \<open>\<^verbatim>\<open>writeFull\<close> compares the length of the data with the bytes in the buffer instead of the free
  space: it refuses data longer than the current content, in particular all data when the buffer is
  empty, and panics when these are not UTF-8.\<close>

theorem writeFull_refuses:
  assumes "ring_ok r" and "length (content r) < length buf" and "length buf < 2 ^ 64"
  shows "RingBuf_writeFull buf r = Err (if utf8_valid buf then QueueFull else Panic)"
proof -
  have "unat (word_of_nat (length buf) :: u64) = length buf" using assms(3) by (simp add: unat_of_nat)
  then have "(ucast (rb_tail r - rb_head r) :: u64) < word_of_nat (length buf)"
    using assms(2) length_content [OF assms(1)] by (simp add: word_less_nat_alt)
  then show ?thesis by (simp add: RingBuf_writeFull_def Let_def)
qed

theorem writeFull_refuses_witness: "RingBuf_writeFull [0x61] (bs_buf sample_stream) = Err QueueFull"
proof -
  have "utf8_valid [0x61]" by code_simp
  moreover have "length (content (bs_buf sample_stream)) < length [0x61 :: u8]" using sample_stream_ok(2) by (simp add: stream_defs)
  ultimately show ?thesis using writeFull_refuses [of "bs_buf sample_stream" "[0x61]"] sample_stream_ok(1) by (simp add: stream_defs)
qed

section \<open>Accept queues\<close>

text \<open>Connections leave an accept queue in the order in which they came, and a waiter is notified when the
  queue stops being empty.\<close>

lemma AcceptQueue_fifo:
  "aq_aiQueue q = items \<Longrightarrow> AcceptQueue_EnqSocket item q = (h, q', woken) \<Longrightarrow> AcceptQueue_DeqSocket q' = ((t, res), q'') \<Longrightarrow>
    res = Ok (hd (items @ [item])) \<and> aq_aiQueue q'' = tl (items @ [item]) \<and>
    (items = [] \<longrightarrow> woken = Queue_Notify READABLE_EVENT (aq_queue q))"
  by (cases items) (auto simp: AcceptQueue_EnqSocket_def AcceptQueue_DeqSocket_def Let_def)

end
