(* ===== verification/Wait_Entry.thy ===== *)
theory Wait_Entry
  imports Wait_List
begin

text \<open>
  Waiters, wait entries and the linked lists they wait in: \<^verbatim>\<open>waiter.rs\<close>, \<^verbatim>\<open>entry.rs\<close>,
  \<^verbatim>\<open>waitlist.rs\<close> and \<^verbatim>\<open>queue.rs\<close> of \<^verbatim>\<open>qlib/kernel/kernel/waiter\<close>, with the futex keys of
  \<^verbatim>\<open>qlib/kernel/kernel/futex.rs\<close> that an entry carries.

  Waiters and entries are shared objects: they live in a store and are named by their index. A
  list is a pair of its first and its last entry. A list keeps its entries alive, so that the weak
  back links of the entries of a list can be followed. The entry locks are not reentrant:
  \<open>WaitList_Remove\<close> holds the lock of the entry while it takes those of its neighbours, so an entry
  linked to itself makes it hang, outcome \<open>None\<close>. What leaves these files is recorded in the store: the
  tasks handed to the scheduler, and the callbacks of epoll and of asynchronous files.
\<close>

section \<open>Futex keys\<close>

datatype KeyKind = KindPrivate | KindSharedPrivate | KindSharedMappable

datatype key = Key (key_Kind: KeyKind) (key_Addr: u64)

definition Key_default :: key where "Key_default = Key KindPrivate 0"

fun KeyKind_rank :: "KeyKind \<Rightarrow> nat" where
  "KeyKind_rank KindPrivate = 0"
| "KeyKind_rank KindSharedPrivate = 1"
| "KeyKind_rank KindSharedMappable = 2"

text \<open>The derived order of the keys: by kind, then by address.\<close>

instantiation key :: linorder
begin

definition less_eq_key :: "key \<Rightarrow> key \<Rightarrow> bool" where
  "less_eq_key a b \<longleftrightarrow> KeyKind_rank (key_Kind a) < KeyKind_rank (key_Kind b) \<or>
     key_Kind a = key_Kind b \<and> key_Addr a \<le> key_Addr b"

definition less_key :: "key \<Rightarrow> key \<Rightarrow> bool" where
  "less_key a b \<longleftrightarrow> a \<le> b \<and> \<not> b \<le> (a :: key)"

instance
proof
  have rank: "KeyKind_rank k = KeyKind_rank k' \<longleftrightarrow> k = k'" for k k' by (cases k; cases k') auto
  fix a b c :: key
  show "a < b \<longleftrightarrow> a \<le> b \<and> \<not> b \<le> a" by (rule less_key_def)
  show "a \<le> a" by (simp add: less_eq_key_def)
  show "a \<le> b \<Longrightarrow> b \<le> c \<Longrightarrow> a \<le> c" by (auto simp: less_eq_key_def)
  show "a \<le> b \<Longrightarrow> b \<le> a \<Longrightarrow> a = b" by (cases a; cases b) (auto simp: less_eq_key_def)
  show "a \<le> b \<or> b \<le> a"
    unfolding less_eq_key_def using rank [of "key_Kind a" "key_Kind b"] by (metis linear linorder_neqE_nat)
qed

end

section \<open>Waiters\<close>

datatype WaitState = Running | Waiting

record waiter =
  wt_bitmap :: u64
  wt_mask :: u64
  wt_idCnt :: u32
  wt_state :: WaitState
  wt_taskId :: u64

definition GENERAL_WAITID :: u32 where "GENERAL_WAITID = 0"
definition INTERRUPT_WAITID :: u32 where "INTERRUPT_WAITID = 1"
definition TIMER_WAITID :: u32 where "TIMER_WAITID = 2"

record thread_context =
  tc_waiterID :: u32
  tc_waiter :: nat
  tc_tid :: u32
  tc_key :: key

datatype wait_context =
    NoContext
  | ThreadContext thread_context
  | EpollContext nat
  | FileAsync nat

record wait_entry =
  we_next :: "nat option"
  we_prev :: "nat option"
  we_mask :: u64
  we_context :: wait_context

record wait_store =
  ws_entries :: "wait_entry list"
  ws_waiters :: "waiter list"
  ws_scheduled :: "(u64 \<times> bool) list"
  ws_callbacks :: "(wait_context \<times> u64) list"

abbreviation entry :: "wait_store \<Rightarrow> nat \<Rightarrow> wait_entry" where
  "entry st e \<equiv> ws_entries st ! e"

text \<open>The bit of an identifier; the shift amount is taken modulo the width.\<close>

definition wait_bit :: "u32 \<Rightarrow> u64" where
  "wait_bit i = push_bit (unat i mod 64) 1"

definition Waiter_New :: "u64 \<Rightarrow> waiter" where
  "Waiter_New taskId = \<lparr>wt_bitmap = 0, wt_mask = 0, wt_idCnt = 0, wt_state = Running, wt_taskId = taskId\<rparr>"

definition Waiter_NextWaiterId :: "waiter \<Rightarrow> (u32 \<times> waiter) result" where
  "Waiter_NextWaiterId b =
    (if wt_idCnt b = 64 then Err Panic
     else let b = b\<lparr>wt_idCnt := wt_idCnt b + 1\<rparr> in Ok (wt_idCnt b - 1, b))"

definition Waiter_Trigger :: "nat \<Rightarrow> u32 \<Rightarrow> wait_store \<Rightarrow> wait_store result" where
  "Waiter_Trigger w i st =
    (if \<not> i \<le> TIMER_WAITID then Err Panic
     else
       let b = ws_waiters st ! w;
           b = b\<lparr>wt_bitmap := wt_bitmap b OR wait_bit i\<rparr>
       in if wt_state b = Waiting \<and> wt_bitmap b AND wt_mask b \<noteq> 0
          then Ok (st\<lparr>ws_waiters := (ws_waiters st)[w := b\<lparr>wt_state := Running\<rparr>],
                      ws_scheduled := ws_scheduled st @ [(wt_taskId b, i \<noteq> TIMER_WAITID)]\<rparr>)
          else Ok (st\<lparr>ws_waiters := (ws_waiters st)[w := b]\<rparr>))"

definition trailing_zeros :: "u64 \<Rightarrow> u32" where
  "trailing_zeros w = of_nat (length (takeWhile (\<lambda>n. \<not> bit w n) [0..<64]))"

definition Waiter_Check :: "waiter \<Rightarrow> u64 \<Rightarrow> u32 option" where
  "Waiter_Check b msk =
    (let bitmap = wt_bitmap b AND msk in if bitmap > 0 then Some (trailing_zeros bitmap) else None)"

definition Waiter_Clear :: "nat \<Rightarrow> u32 \<Rightarrow> wait_store \<Rightarrow> wait_store" where
  "Waiter_Clear w i st =
    (let b = ws_waiters st ! w
     in st\<lparr>ws_waiters := (ws_waiters st)[w := b\<lparr>wt_bitmap := wt_bitmap b AND NOT (wait_bit i)\<rparr>]\<rparr>)"

section \<open>Entries\<close>

definition WaitContext_thread :: "wait_context \<Rightarrow> thread_context result" where
  "WaitContext_thread c = (case c of ThreadContext t \<Rightarrow> Ok t | _ \<Rightarrow> Err Panic)"

definition WaitContext_TaskId :: "wait_store \<Rightarrow> wait_context \<Rightarrow> u64 option" where
  "WaitContext_TaskId st c =
    (case c of ThreadContext t \<Rightarrow> Some (wt_taskId (ws_waiters st ! tc_waiter t)) | _ \<Rightarrow> None)"

definition WaitContext_CallBack :: "wait_context \<Rightarrow> u64 \<Rightarrow> wait_store \<Rightarrow> wait_store result" where
  "WaitContext_CallBack c msk st =
    (case c of
       NoContext \<Rightarrow> Ok st
     | ThreadContext t \<Rightarrow> Waiter_Trigger (tc_waiter t) (tc_waiterID t) st
     | _ \<Rightarrow> Ok (st\<lparr>ws_callbacks := ws_callbacks st @ [(c, msk)]\<rparr>))"

definition WaitContext_Clear :: "wait_context \<Rightarrow> wait_store \<Rightarrow> wait_store" where
  "WaitContext_Clear c st =
    (case c of ThreadContext t \<Rightarrow> Waiter_Clear (tc_waiter t) (tc_waiterID t) st | _ \<Rightarrow> st)"

definition WaitEntry_update :: "nat \<Rightarrow> (wait_entry \<Rightarrow> wait_entry) \<Rightarrow> wait_store \<Rightarrow> wait_store" where
  "WaitEntry_update e f st = st\<lparr>ws_entries := (ws_entries st)[e := f (entry st e)]\<rparr>"

definition WaitEntry_New :: "wait_store \<Rightarrow> nat \<times> wait_store" where
  "WaitEntry_New st =
    (length (ws_entries st), st\<lparr>ws_entries := ws_entries st @
       [\<lparr>we_next = None, we_prev = None, we_mask = 0, we_context = NoContext\<rparr>]\<rparr>)"

definition WaitEntry_NewThreadContext :: "nat \<Rightarrow> u32 \<Rightarrow> u64 \<Rightarrow> wait_store \<Rightarrow> nat \<times> wait_store" where
  "WaitEntry_NewThreadContext w i msk st =
    (length (ws_entries st), st\<lparr>ws_entries := ws_entries st @
       [\<lparr>we_next = None, we_prev = None, we_mask = msk,
         we_context = ThreadContext \<lparr>tc_waiterID = i, tc_waiter = w, tc_tid = 0, tc_key = Key_default\<rparr>\<rparr>]\<rparr>)"

definition Waiter_NewWaitEntry :: "nat \<Rightarrow> u32 \<Rightarrow> u64 \<Rightarrow> wait_store \<Rightarrow> nat \<times> wait_store" where
  "Waiter_NewWaitEntry w waitId msk st = WaitEntry_NewThreadContext w waitId msk st"

definition WaitEntry_ID :: "wait_store \<Rightarrow> nat \<Rightarrow> u32 result" where
  "WaitEntry_ID st e = and_then (WaitContext_thread (we_context (entry st e))) (\<lambda>c. Ok (tc_waiterID c))"

definition WaitEntry_SetMask :: "nat \<Rightarrow> u64 \<Rightarrow> wait_store \<Rightarrow> wait_store" where
  "WaitEntry_SetMask e m = WaitEntry_update e (\<lambda>c. c\<lparr>we_mask := m\<rparr>)"

definition WaitEntry_SetTid :: "nat \<Rightarrow> u32 \<Rightarrow> wait_store \<Rightarrow> wait_store result" where
  "WaitEntry_SetTid e tid st = and_then (WaitContext_thread (we_context (entry st e))) (\<lambda>c.
     Ok (WaitEntry_update e (\<lambda>w. w\<lparr>we_context := ThreadContext (c\<lparr>tc_tid := tid\<rparr>)\<rparr>) st))"

definition WaitEntry_SetKey :: "nat \<Rightarrow> key \<Rightarrow> wait_store \<Rightarrow> wait_store result" where
  "WaitEntry_SetKey e k st = and_then (WaitContext_thread (we_context (entry st e))) (\<lambda>c.
     Ok (WaitEntry_update e (\<lambda>w. w\<lparr>we_context := ThreadContext (c\<lparr>tc_key := k\<rparr>)\<rparr>) st))"

definition WaitEntry_Notify :: "nat \<Rightarrow> u64 \<Rightarrow> wait_store \<Rightarrow> (bool \<times> wait_store) result" where
  "WaitEntry_Notify e msk st =
    (if msk AND we_mask (entry st e) \<noteq> 0
     then and_then (WaitContext_CallBack (we_context (entry st e)) msk st) (\<lambda>st. Ok (True, st))
     else Ok (False, st))"

definition WaitEntry_Timeout :: "nat \<Rightarrow> wait_store \<Rightarrow> wait_store result" where
  "WaitEntry_Timeout e st = and_then (WaitEntry_Notify e 1 st) (\<lambda>(_, st). Ok st)"

definition WaitEntry_Clear :: "nat \<Rightarrow> wait_store \<Rightarrow> wait_store" where
  "WaitEntry_Clear e st = WaitContext_Clear (we_context (entry st e)) st"

definition WaitEntry_Reset :: "nat \<Rightarrow> wait_store \<Rightarrow> wait_store" where
  "WaitEntry_Reset e st =
    WaitEntry_update e (\<lambda>c. c\<lparr>we_next := None\<rparr>) (WaitEntry_update e (\<lambda>c. c\<lparr>we_prev := None\<rparr>) st)"

definition WaitEntry_InitState :: "wait_store \<Rightarrow> nat \<Rightarrow> bool" where
  "WaitEntry_InitState st e \<longleftrightarrow> we_prev (entry st e) = None \<and> we_next (entry st e) = None"

definition WaitEntry_Mask :: "wait_store \<Rightarrow> nat \<Rightarrow> u64" where
  "WaitEntry_Mask st e = we_mask (entry st e)"

definition Waiter_IsReady :: "nat \<Rightarrow> nat \<Rightarrow> wait_store \<Rightarrow> bool result" where
  "Waiter_IsReady w e st =
    and_then (WaitEntry_ID st e) (\<lambda>i. Ok (wt_bitmap (ws_waiters st ! w) AND wait_bit i \<noteq> 0))"

definition Waiter_TryWait :: "nat \<Rightarrow> nat \<Rightarrow> bool \<Rightarrow> wait_store \<Rightarrow> (bool \<times> wait_store) result" where
  "Waiter_TryWait w e clear st =
    and_then (WaitEntry_ID st e) (\<lambda>i.
      if wt_bitmap (ws_waiters st ! w) AND wait_bit i \<noteq> 0
      then Ok (True, if clear then Waiter_Clear w i st else st)
      else Ok (False, st))"

section \<open>Lists\<close>

record wait_list =
  wl_head :: "nat option"
  wl_tail :: "nat option"

definition WaitList_default :: wait_list where
  "WaitList_default = \<lparr>wl_head = None, wl_tail = None\<rparr>"

partial_function (option) Reset_entries :: "nat option \<Rightarrow> wait_store \<Rightarrow> wait_store option" where
  [code]: "Reset_entries cur st =
    (case cur of
       None \<Rightarrow> Some st
     | Some tmp \<Rightarrow>
         let next = we_next (entry st tmp)
         in Reset_entries next (WaitEntry_Reset tmp st))"

definition WaitList_Reset :: "wait_store \<Rightarrow> wait_list \<Rightarrow> (wait_store \<times> wait_list) option" where
  "WaitList_Reset st wl = Option.bind (Reset_entries (wl_head wl) st) (\<lambda>st. Some (st, WaitList_default))"

definition WaitList_Empty :: "wait_list \<Rightarrow> bool" where
  "WaitList_Empty wl \<longleftrightarrow> wl_head wl = None"

definition WaitList_Front :: "wait_list \<Rightarrow> nat option" where
  "WaitList_Front wl = wl_head wl"

definition WaitList_Back :: "wait_list \<Rightarrow> nat option" where
  "WaitList_Back wl = wl_tail wl"

definition WaitList_PushFront :: "nat \<Rightarrow> wait_store \<Rightarrow> wait_list \<Rightarrow> (wait_store \<times> wait_list) result" where
  "WaitList_PushFront e st wl =
    (if \<not> WaitEntry_InitState st e then Err Panic
     else case wl_head wl of
       None \<Rightarrow> Ok (st, \<lparr>wl_head = Some e, wl_tail = Some e\<rparr>)
     | Some head \<Rightarrow>
         Ok (WaitEntry_update head (\<lambda>c. c\<lparr>we_prev := Some e\<rparr>)
              (WaitEntry_update e (\<lambda>c. c\<lparr>we_next := Some head\<rparr>) st), wl\<lparr>wl_head := Some e\<rparr>))"

definition WaitList_PushBack :: "nat \<Rightarrow> wait_store \<Rightarrow> wait_list \<Rightarrow> (wait_store \<times> wait_list) result" where
  "WaitList_PushBack e st wl =
    (if \<not> WaitEntry_InitState st e then Err Panic
     else case wl_head wl of
       None \<Rightarrow> Ok (st, \<lparr>wl_head = Some e, wl_tail = Some e\<rparr>)
     | Some _ \<Rightarrow>
        (case wl_tail wl of
           None \<Rightarrow> Err Panic
         | Some tail \<Rightarrow>
             Ok (WaitEntry_update tail (\<lambda>c. c\<lparr>we_next := Some e\<rparr>)
                  (WaitEntry_update e (\<lambda>c. c\<lparr>we_prev := Some tail\<rparr>) st), wl\<lparr>wl_tail := Some e\<rparr>)))"

definition WaitList_Remove :: "nat \<Rightarrow> wait_store \<Rightarrow> wait_list \<Rightarrow> (wait_store \<times> wait_list) option" where
  "WaitList_Remove e st wl =
    (let prev = we_prev (entry st e);
         next = we_next (entry st e)
     in if prev = Some e \<or> next = Some e then None
        else
          let (st, wl) = (case prev of
                None \<Rightarrow> (st, wl\<lparr>wl_head := next\<rparr>)
              | Some p \<Rightarrow> (WaitEntry_update p (\<lambda>c. c\<lparr>we_next := next\<rparr>) st, wl));
              (st, wl) = (case next of
                None \<Rightarrow> (st, wl\<lparr>wl_tail := prev\<rparr>)
              | Some n \<Rightarrow> (WaitEntry_update n (\<lambda>c. c\<lparr>we_prev := prev\<rparr>) st, wl))
          in Some (WaitEntry_update e (\<lambda>c. c\<lparr>we_prev := None, we_next := None\<rparr>) st, wl))"

definition WaitList_RemoveAll :: "wait_store \<Rightarrow> wait_list \<Rightarrow> (wait_store \<times> wait_list) option" where
  "WaitList_RemoveAll st wl = WaitList_Reset st wl"

definition WaitList_WakeWaiterLocked ::
    "nat \<Rightarrow> u64 \<Rightarrow> wait_store \<Rightarrow> wait_list \<Rightarrow> (bool \<times> wait_store \<times> wait_list) run" where
  "WaitList_WakeWaiterLocked w msk st wl =
    run_bind (Some (WaitEntry_Notify w msk st)) (\<lambda>(triggered, st).
      Option.bind (if triggered then WaitList_Remove w st wl else Some (st, wl)) (\<lambda>(st, wl).
        run_bind (Some (WaitEntry_SetKey w Key_default st)) (\<lambda>st. returns (triggered, st, wl))))"

partial_function (option) WakeLocked_loop ::
    "u64 \<Rightarrow> int \<Rightarrow> int \<Rightarrow> nat option \<Rightarrow> wait_store \<Rightarrow> wait_list \<Rightarrow> (int \<times> wait_store \<times> wait_list) run" where
  [code]: "WakeLocked_loop msk n done cur st wl =
    (if done < n then
       (case cur of
          None \<Rightarrow> returns (done, st, wl)
        | Some tmp \<Rightarrow>
            let next = we_next (entry st tmp)
            in run_bind (WaitList_WakeWaiterLocked tmp msk st wl) (\<lambda>(triggered, st, wl).
                 WakeLocked_loop msk n (if triggered then i32 (done + 1) else done) next st wl))
     else returns (done, st, wl))"

definition WaitList_WakeLocked ::
    "u64 \<Rightarrow> int \<Rightarrow> wait_store \<Rightarrow> wait_list \<Rightarrow> (int \<times> wait_store \<times> wait_list) run" where
  "WaitList_WakeLocked msk n st wl = WakeLocked_loop msk n 0 (WaitList_Front wl) st wl"

partial_function (option) RequeueLocked_loop ::
    "key \<Rightarrow> int \<Rightarrow> int \<Rightarrow> nat option \<Rightarrow> wait_store \<Rightarrow> wait_list \<Rightarrow> wait_list \<Rightarrow>
     (int \<times> wait_store \<times> wait_list \<times> wait_list) run" where
  [code]: "RequeueLocked_loop nKey n done w st me to =
    (case w of
       None \<Rightarrow> returns (done, st, me, to)
     | Some tmp \<Rightarrow>
         if done < n then
           (let w = we_next (entry st tmp)
            in Option.bind (WaitList_Remove tmp st me) (\<lambda>(st, me).
                 run_bind (Some (WaitList_PushBack tmp st to)) (\<lambda>(st, to).
                   run_bind (Some (WaitEntry_SetKey tmp nKey st)) (\<lambda>st.
                     RequeueLocked_loop nKey n (i32 (done + 1)) w st me to))))
         else returns (done, st, me, to))"

definition WaitList_RequeueLocked ::
    "key \<Rightarrow> int \<Rightarrow> wait_store \<Rightarrow> wait_list \<Rightarrow> wait_list \<Rightarrow> (int \<times> wait_store \<times> wait_list \<times> wait_list) run" where
  "WaitList_RequeueLocked nKey n st me to = RequeueLocked_loop nKey n 0 (WaitList_Front me) st me to"

section \<open>Queues\<close>

definition WaitQueue_Readiness :: "u64 \<Rightarrow> u64" where
  "WaitQueue_Readiness msk = 0"

definition WaitQueue_EventRegister ::
    "nat \<Rightarrow> u64 \<Rightarrow> wait_store \<Rightarrow> wait_list \<Rightarrow> (wait_store \<times> wait_list) result" where
  "WaitQueue_EventRegister e msk st q = WaitList_PushBack e (WaitEntry_SetMask e msk st) q"

definition WaitQueue_EventUnregister ::
    "nat \<Rightarrow> wait_store \<Rightarrow> wait_list \<Rightarrow> (wait_store \<times> wait_list) option" where
  "WaitQueue_EventUnregister e st q = WaitList_Remove e (WaitEntry_Clear e st) q"

partial_function (option) Notify_loop :: "u64 \<Rightarrow> nat option \<Rightarrow> wait_store \<Rightarrow> wait_store run" where
  [code]: "Notify_loop msk cur st =
    (case cur of
       None \<Rightarrow> returns st
     | Some tmp \<Rightarrow>
         run_bind (Some (WaitEntry_Notify tmp msk st)) (\<lambda>(_, st).
           Notify_loop msk (we_next (entry st tmp)) st))"

definition WaitQueue_Notify :: "u64 \<Rightarrow> wait_store \<Rightarrow> wait_list \<Rightarrow> wait_store run" where
  "WaitQueue_Notify msk st q = Notify_loop msk (WaitList_Front q) st"

partial_function (option) Clear_loop :: "nat option \<Rightarrow> wait_store \<Rightarrow> wait_store option" where
  [code]: "Clear_loop cur st =
    (case cur of
       None \<Rightarrow> Some st
     | Some tmp \<Rightarrow> let st = WaitEntry_Clear tmp st in Clear_loop (we_next (entry st tmp)) st)"

definition WaitQueue_Clear :: "wait_store \<Rightarrow> wait_list \<Rightarrow> wait_store option" where
  "WaitQueue_Clear st q = Clear_loop (WaitList_Front q) st"

partial_function (option) Events_loop :: "wait_store \<Rightarrow> nat option \<Rightarrow> u64 \<Rightarrow> u64 option" where
  [code]: "Events_loop st cur ret =
    (case cur of
       None \<Rightarrow> Some ret
     | Some tmp \<Rightarrow> Events_loop st (we_next (entry st tmp)) (ret OR WaitEntry_Mask st tmp))"

definition WaitQueue_Events :: "wait_store \<Rightarrow> wait_list \<Rightarrow> u64 option" where
  "WaitQueue_Events st q = Events_loop st (WaitList_Front q) 0"

end
