(* ===== verification/Futex.thy ===== *)
theory Futex
  imports Wait_Entry BTree_Map
begin

text \<open>
  The futex manager: \<^verbatim>\<open>qlib/kernel/kernel/futex.rs\<close>, with the constants of
  \<^verbatim>\<open>qlib/linux/futex.rs\<close> and the atomic accesses to user memory of
  \<^verbatim>\<open>qlib/kernel/threadmgr/task_usermem.rs\<close>.

  Buckets are shared objects (a forked manager shares one of them), so a manager is a pair of
  indices into the buckets of the world. A queue is the value its bucket's map holds for the key: a
  call uses a queue only while the map has it. A call is executed as a whole, which is what the
  bucket locks are for; a lock that is taken makes the call spin, outcome \<open>None\<close>. User memory is
  changed by other threads at any time: \<open>um_others\<close> lists what they write before each access. The
  memory manager's view of an address (the kind of its mapping, its physical address) is part of
  the memory's record.
\<close>

section \<open>Constants\<close>

definition FUTEX_OP_SET :: u32 where "FUTEX_OP_SET = 0"
definition FUTEX_OP_ADD :: u32 where "FUTEX_OP_ADD = 1"
definition FUTEX_OP_OR :: u32 where "FUTEX_OP_OR = 2"
definition FUTEX_OP_ANDN :: u32 where "FUTEX_OP_ANDN = 3"
definition FUTEX_OP_XOR :: u32 where "FUTEX_OP_XOR = 4"
definition FUTEX_OP_OPARG_SHIFT :: u32 where "FUTEX_OP_OPARG_SHIFT = 8"
definition FUTEX_OP_CMP_EQ :: u32 where "FUTEX_OP_CMP_EQ = 0"
definition FUTEX_OP_CMP_NE :: u32 where "FUTEX_OP_CMP_NE = 1"
definition FUTEX_OP_CMP_LT :: u32 where "FUTEX_OP_CMP_LT = 2"
definition FUTEX_OP_CMP_LE :: u32 where "FUTEX_OP_CMP_LE = 3"
definition FUTEX_OP_CMP_GT :: u32 where "FUTEX_OP_CMP_GT = 4"
definition FUTEX_OP_CMP_GE :: u32 where "FUTEX_OP_CMP_GE = 5"
definition FUTEX_TID_MASK :: u32 where "FUTEX_TID_MASK = 0x3fffffff"
definition FUTEX_WAITERS :: u32 where "FUTEX_WAITERS = 0x80000000"
definition FUTEX_OWNER_DIED :: u32 where "FUTEX_OWNER_DIED = 0x40000000"
definition FUTEX_BITSET_MATCH_ANY :: u32 where "FUTEX_BITSET_MATCH_ANY = 0xffffffff"

lemmas futex_consts = FUTEX_OP_SET_def FUTEX_OP_ADD_def FUTEX_OP_OR_def FUTEX_OP_ANDN_def FUTEX_OP_XOR_def
  FUTEX_OP_OPARG_SHIFT_def FUTEX_OP_CMP_EQ_def FUTEX_OP_CMP_NE_def FUTEX_OP_CMP_LT_def FUTEX_OP_CMP_LE_def
  FUTEX_OP_CMP_GT_def FUTEX_OP_CMP_GE_def FUTEX_TID_MASK_def FUTEX_WAITERS_def FUTEX_OWNER_DIED_def

section \<open>User memory\<close>

record user_mem =
  um_words :: "u64 \<Rightarrow> u32 option"
  um_others :: "(u64 \<times> u32) list list"
  um_vma :: "u64 \<Rightarrow> bool option"
  um_phys :: "u64 \<Rightarrow> u64 result"

definition write_word :: "u64 \<Rightarrow> u32 \<Rightarrow> user_mem \<Rightarrow> user_mem" where
  "write_word a v m = m\<lparr>um_words := (um_words m)(a := (if um_words m a = None then None else Some v))\<rparr>"

definition interfere :: "user_mem \<Rightarrow> user_mem" where
  "interfere m = (case um_others m of
     [] \<Rightarrow> m
   | ws # rest \<Rightarrow> fold (\<lambda>(a, v). write_word a v) ws (m\<lparr>um_others := rest\<rparr>))"

definition LoadU32 :: "u64 \<Rightarrow> user_mem \<Rightarrow> u32 result \<times> user_mem" where
  "LoadU32 addr m =
    (let m = interfere m
     in case um_words m addr of None \<Rightarrow> (Err (SysError EFAULT), m) | Some v \<Rightarrow> (Ok v, m))"

definition SwapU32 :: "u64 \<Rightarrow> u32 \<Rightarrow> user_mem \<Rightarrow> u32 result \<times> user_mem" where
  "SwapU32 vaddr new m =
    (if \<not> vaddr mod 4 = 0 then (Err Panic, m)
     else let m = interfere m
       in case um_words m vaddr of
         None \<Rightarrow> (Err (SysError EFAULT), m)
       | Some _ \<Rightarrow> (Ok new, write_word vaddr new m))"

definition CompareAndSwapU32 :: "u64 \<Rightarrow> u32 \<Rightarrow> u32 \<Rightarrow> user_mem \<Rightarrow> u32 result \<times> user_mem" where
  "CompareAndSwapU32 vaddr old new m =
    (if \<not> vaddr mod 4 = 0 then (Err Panic, m)
     else let m = interfere m
       in case um_words m vaddr of
         None \<Rightarrow> (Err (SysError EFAULT), m)
       | Some v \<Rightarrow> if v = old then (Ok v, write_word vaddr new m) else (Ok v, m))"

definition GetSharedKey :: "user_mem \<Rightarrow> u64 \<Rightarrow> key result" where
  "GetSharedKey m addr =
    (case um_vma m addr of
       None \<Rightarrow> Err (SysError EFAULT)
     | Some private \<Rightarrow>
         if private then Ok (Key KindSharedPrivate addr)
         else and_then (um_phys m addr) (\<lambda>phyAdr. Ok (Key KindSharedMappable phyAdr)))"

definition Getkey :: "user_mem \<Rightarrow> u64 \<Rightarrow> bool \<Rightarrow> key result" where
  "Getkey m addr private =
    (if addr AND 0x3 \<noteq> 0 then Err (SysError EINVAL)
     else if private then Ok (Key KindPrivate addr)
     else GetSharedKey m addr)"

definition Futex_Check :: "u64 \<Rightarrow> u32 \<Rightarrow> user_mem \<Rightarrow> unit result \<times> user_mem" where
  "Futex_Check addr val m =
    (case LoadU32 addr m of
       (Inl e, m) \<Rightarrow> (Err e, m)
     | (Inr cur, m) \<Rightarrow> (if cur \<noteq> val then Err (SysError EAGAIN) else Ok (), m))"

definition AtomicOp_new :: "u32 \<Rightarrow> u32 \<Rightarrow> u32 \<Rightarrow> u32 result" where
  "AtomicOp_new opType opArg oldVal =
    (if opType = FUTEX_OP_ADD then Ok (oldVal + opArg)
     else if opType = FUTEX_OP_OR then Ok (oldVal OR opArg)
     else if opType = FUTEX_OP_ANDN then Ok (oldVal AND NOT opArg)
     else if opType = FUTEX_OP_XOR then Ok (oldVal XOR opArg)
     else Err (SysError ENOSYS))"

partial_function (option) AtomicOp_loop ::
    "u64 \<Rightarrow> u32 \<Rightarrow> u32 \<Rightarrow> user_mem \<Rightarrow> (u32 result \<times> user_mem) option" where
  [code]: "AtomicOp_loop addr opType opArg m =
    (case LoadU32 addr m of
       (Inl e, m) \<Rightarrow> Some (Err e, m)
     | (Inr oldVal, m) \<Rightarrow>
        (case AtomicOp_new opType opArg oldVal of
           Inl e \<Rightarrow> Some (Err e, m)
         | Inr newVal \<Rightarrow>
            (case CompareAndSwapU32 addr oldVal newVal m of
               (Inl e, m) \<Rightarrow> Some (Err e, m)
             | (Inr prev, m) \<Rightarrow> if prev = oldVal then Some (Ok oldVal, m) else AtomicOp_loop addr opType opArg m)))"

definition AtomicOp_cmp :: "u32 \<Rightarrow> u32 \<Rightarrow> u32 \<Rightarrow> bool result" where
  "AtomicOp_cmp cmp cmpArg oldVal =
    (if cmp = FUTEX_OP_CMP_EQ then Ok (oldVal = cmpArg)
     else if cmp = FUTEX_OP_CMP_NE then Ok (oldVal \<noteq> cmpArg)
     else if cmp = FUTEX_OP_CMP_LT then Ok (oldVal < cmpArg)
     else if cmp = FUTEX_OP_CMP_LE then Ok (oldVal \<le> cmpArg)
     else if cmp = FUTEX_OP_CMP_GT then Ok (oldVal < cmpArg)
     else if cmp = FUTEX_OP_CMP_GE then Ok (oldVal \<ge> cmpArg)
     else Err (SysError ENOSYS))"

definition AtomicOp :: "u64 \<Rightarrow> u32 \<Rightarrow> user_mem \<Rightarrow> (bool result \<times> user_mem) option" where
  "AtomicOp addr opIn m =
    (let opType = drop_bit 28 opIn AND 0xf;
         cmp = drop_bit 24 opIn AND 0xf;
         opArg = drop_bit 12 opIn AND 0xfff;
         cmpArg = opIn AND 0xfff;
         (opArg, opType) = (if opType AND FUTEX_OP_OPARG_SHIFT \<noteq> 0
            then (push_bit (unat opArg mod 32) 1, opType AND NOT FUTEX_OP_OPARG_SHIFT)
            else (opArg, opType))
     in Option.bind (if opType = FUTEX_OP_SET then Some (SwapU32 addr opArg m)
                     else AtomicOp_loop addr opType opArg m) (\<lambda>(r, m).
          Some (and_then r (AtomicOp_cmp cmp cmpArg), m)))"

section \<open>Buckets\<close>

definition BUCKET_COUNT :: nat where "BUCKET_COUNT = 1024"

definition Key_HashCode :: "key \<Rightarrow> nat" where
  "Key_HashCode k =
    (let addr = key_Addr k;
         h1 = drop_bit 2 addr + drop_bit 12 addr + drop_bit 22 addr;
         h2 = drop_bit 32 addr + drop_bit 42 addr
     in unat (h1 + h2) mod BUCKET_COUNT)"

record futex_bucket =
  bk_map :: "(key, wait_list) btree"
  bk_locks :: "bool list"

record futex_mgr =
  fx_private :: nat
  fx_shared :: nat

record futex_world =
  fw_store :: wait_store
  fw_buckets :: "futex_bucket list"
  fw_mem :: user_mem

type_synonym 'a fx = "futex_world \<Rightarrow> ('a result \<times> futex_world) option"

definition fx_bind :: "'a fx \<Rightarrow> ('a \<Rightarrow> 'b fx) \<Rightarrow> 'b fx" where
  "fx_bind f g w = (case f w of
     None \<Rightarrow> None | Some (Inl e, w) \<Rightarrow> Some (Err e, w) | Some (Inr x, w) \<Rightarrow> g x w)"

definition Bucket_default :: futex_bucket where
  "Bucket_default = \<lparr>bk_map = [], bk_locks = replicate BUCKET_COUNT False\<rparr>"

definition update_bucket :: "nat \<Rightarrow> (futex_bucket \<Rightarrow> futex_bucket) \<Rightarrow> futex_world \<Rightarrow> futex_world" where
  "update_bucket b f w = w\<lparr>fw_buckets := (fw_buckets w)[b := f (fw_buckets w ! b)]\<rparr>"

definition Bucket_Lock :: "nat \<Rightarrow> key \<Rightarrow> unit fx" where
  "Bucket_Lock b k w =
    (let idx = Key_HashCode k
     in if bk_locks (fw_buckets w ! b) ! idx then None
        else Some (Ok (), update_bucket b (\<lambda>bk. bk\<lparr>bk_locks := (bk_locks bk)[idx := True]\<rparr>) w))"

definition Bucket_Unlock :: "nat \<Rightarrow> key \<Rightarrow> futex_world \<Rightarrow> futex_world" where
  "Bucket_Unlock b k w =
    (let idx = Key_HashCode k
     in update_bucket b (\<lambda>bk. bk\<lparr>bk_locks := (bk_locks bk)[idx := False]\<rparr>) w)"

definition Bucket_GetQueue :: "nat \<Rightarrow> key \<Rightarrow> futex_world \<Rightarrow> wait_list option" where
  "Bucket_GetQueue b k w = bt_get (bk_map (fw_buckets w ! b)) k"

definition Bucket_GetCreateQueues :: "nat \<Rightarrow> key \<Rightarrow> futex_world \<Rightarrow> futex_world" where
  "Bucket_GetCreateQueues b k w =
    (case bt_get (bk_map (fw_buckets w ! b)) k of
       None \<Rightarrow> update_bucket b (\<lambda>bk. bk\<lparr>bk_map := bt_insert k WaitList_default (bk_map bk)\<rparr>) w
     | Some _ \<Rightarrow> w)"

definition Bucket_RemoveQueue :: "nat \<Rightarrow> key \<Rightarrow> futex_world \<Rightarrow> futex_world" where
  "Bucket_RemoveQueue b k = update_bucket b (\<lambda>bk. bk\<lparr>bk_map := bt_remove k (bk_map bk)\<rparr>)"

section \<open>The manager's queues\<close>

definition FutexMgr_Fork :: "futex_mgr \<Rightarrow> futex_world \<Rightarrow> futex_mgr \<times> futex_world" where
  "FutexMgr_Fork m w =
    (\<lparr>fx_private = length (fw_buckets w), fx_shared = fx_shared m\<rparr>,
     w\<lparr>fw_buckets := fw_buckets w @ [Bucket_default]\<rparr>)"

definition bucket_of :: "futex_mgr \<Rightarrow> key \<Rightarrow> nat" where
  "bucket_of m k = (if key_Kind k = KindSharedMappable then fx_shared m else fx_private m)"

definition lockQueue :: "futex_mgr \<Rightarrow> key \<Rightarrow> wait_list option fx" where
  "lockQueue m k = fx_bind (Bucket_Lock (bucket_of m k) k) (\<lambda>_ w. Some (Ok (Bucket_GetQueue (bucket_of m k) k w), w))"

definition lockQueueOnly :: "futex_mgr \<Rightarrow> key \<Rightarrow> unit fx" where
  "lockQueueOnly m k = Bucket_Lock (bucket_of m k) k"

definition FutexMgr_GetCreateQueues :: "futex_mgr \<Rightarrow> key \<Rightarrow> futex_world \<Rightarrow> futex_world" where
  "FutexMgr_GetCreateQueues m k = Bucket_GetCreateQueues (bucket_of m k) k"

definition lockQueueWithCreate :: "futex_mgr \<Rightarrow> key \<Rightarrow> unit fx" where
  "lockQueueWithCreate m k =
    fx_bind (Bucket_Lock (bucket_of m k) k) (\<lambda>_ w. Some (Ok (), Bucket_GetCreateQueues (bucket_of m k) k w))"

definition removeQueue :: "futex_mgr \<Rightarrow> key \<Rightarrow> futex_world \<Rightarrow> futex_world" where
  "removeQueue m k = Bucket_RemoveQueue (bucket_of m k) k"

definition futex_unlock :: "futex_mgr \<Rightarrow> key \<Rightarrow> futex_world \<Rightarrow> futex_world" where
  "futex_unlock m k = Bucket_Unlock (bucket_of m k) k"

definition lockQueues :: "futex_mgr \<Rightarrow> key \<Rightarrow> key \<Rightarrow> unit fx" where
  "lockQueues m k1 k2 =
    (if k1 = k2 then (\<lambda>w. Some (Err Panic, w))
     else
       let i1 = Key_HashCode k1;
           i2 = Key_HashCode k2
       in fx_bind
            (if i1 < i2 then fx_bind (lockQueueOnly m k1) (\<lambda>_. lockQueueOnly m k2)
             else if i1 > i2 then fx_bind (lockQueueOnly m k2) (\<lambda>_. lockQueueOnly m k1)
             else lockQueueOnly m k1)
            (\<lambda>_ w. Some (Ok (), FutexMgr_GetCreateQueues m k2 (FutexMgr_GetCreateQueues m k1 w))))"

text \<open>The queue of a key, an operation on it, and the removal of an empty one.\<close>

definition queue_at :: "futex_mgr \<Rightarrow> key \<Rightarrow> futex_world \<Rightarrow> wait_list" where
  "queue_at m k w = (case Bucket_GetQueue (bucket_of m k) k w of None \<Rightarrow> WaitList_default | Some q \<Rightarrow> q)"

definition put_queue :: "futex_mgr \<Rightarrow> key \<Rightarrow> wait_list \<Rightarrow> futex_world \<Rightarrow> futex_world" where
  "put_queue m k q = update_bucket (bucket_of m k) (\<lambda>bk. bk\<lparr>bk_map := bt_insert k q (bk_map bk)\<rparr>)"

definition with_queue ::
    "futex_mgr \<Rightarrow> key \<Rightarrow> (wait_store \<Rightarrow> wait_list \<Rightarrow> ('a \<times> wait_store \<times> wait_list) run) \<Rightarrow> 'a fx" where
  "with_queue m k f w =
    (case f (fw_store w) (queue_at m k w) of
       None \<Rightarrow> None
     | Some (Inl e) \<Rightarrow> Some (Err e, w)
     | Some (Inr (x, st, q)) \<Rightarrow> Some (Ok x, put_queue m k q (w\<lparr>fw_store := st\<rparr>)))"

definition drop_empty :: "futex_mgr \<Rightarrow> key \<Rightarrow> futex_world \<Rightarrow> futex_world" where
  "drop_empty m k w = (if WaitList_Empty (queue_at m k w) then removeQueue m k w else w)"

section \<open>Waking and requeueing\<close>

definition FutexMgr_Wake :: "futex_mgr \<Rightarrow> u64 \<Rightarrow> bool \<Rightarrow> u32 \<Rightarrow> int \<Rightarrow> int fx" where
  "FutexMgr_Wake m addr private bitmask n w =
    (case Getkey (fw_mem w) addr private of
       Inl e \<Rightarrow> Some (Err e, w)
     | Inr k \<Rightarrow>
         fx_bind (lockQueue m k) (\<lambda>temp.
           case temp of
             None \<Rightarrow> (\<lambda>w. Some (Ok 0, futex_unlock m k w))
           | Some _ \<Rightarrow>
               fx_bind (with_queue m k (WaitList_WakeLocked (ucast bitmask) n)) (\<lambda>res w.
                 Some (Ok res, futex_unlock m k (drop_empty m k w)))) w)"

definition unlock_both :: "futex_mgr \<Rightarrow> key \<Rightarrow> key \<Rightarrow> futex_world \<Rightarrow> futex_world" where
  "unlock_both m k1 k2 w = futex_unlock m k2 (futex_unlock m k1 w)"

definition RequeueLocked_between :: "futex_mgr \<Rightarrow> key \<Rightarrow> key \<Rightarrow> int \<Rightarrow> unit fx" where
  "RequeueLocked_between m k1 k2 nreq w =
    (case WaitList_RequeueLocked k2 nreq (fw_store w) (queue_at m k1 w) (queue_at m k2 w) of
       None \<Rightarrow> None
     | Some (Inl e) \<Rightarrow> Some (Err e, w)
     | Some (Inr (_, st, q1, q2)) \<Rightarrow> Some (Ok (), put_queue m k2 q2 (put_queue m k1 q1 (w\<lparr>fw_store := st\<rparr>))))"

definition doRequeue :: "futex_mgr \<Rightarrow> u64 \<Rightarrow> u64 \<Rightarrow> bool \<Rightarrow> bool \<Rightarrow> u32 \<Rightarrow> int \<Rightarrow> int \<Rightarrow> int fx" where
  "doRequeue m addr naddr private checkval val nwake nreq w =
    (case and_then (Getkey (fw_mem w) addr private) (\<lambda>k1.
            and_then (Getkey (fw_mem w) naddr private) (\<lambda>k2. Ok (k1, k2))) of
       Inl e \<Rightarrow> Some (Err e, w)
     | Inr (k1, k2) \<Rightarrow>
         fx_bind (lockQueues m k1 k2) (\<lambda>_ w.
           let (r, mem) = (if checkval then Futex_Check addr val (fw_mem w) else (Ok (), fw_mem w));
               w = w\<lparr>fw_mem := mem\<rparr>
           in case r of
                Inl e \<Rightarrow> Some (Err e, unlock_both m k1 k2 w)
              | Inr _ \<Rightarrow>
                  fx_bind (with_queue m k1 (WaitList_WakeLocked (- 1) nwake)) (\<lambda>done.
                    fx_bind (RequeueLocked_between m k1 k2 nreq) (\<lambda>_ w.
                      Some (Ok done, unlock_both m k1 k2 (drop_empty m k2 (drop_empty m k1 w))))) w) w)"

definition FutexMgr_Requeue :: "futex_mgr \<Rightarrow> u64 \<Rightarrow> u64 \<Rightarrow> bool \<Rightarrow> int \<Rightarrow> int \<Rightarrow> int fx" where
  "FutexMgr_Requeue m addr naddr private nwake nreq = doRequeue m addr naddr private False 0 nwake nreq"

definition FutexMgr_RequeueCmp :: "futex_mgr \<Rightarrow> u64 \<Rightarrow> u64 \<Rightarrow> bool \<Rightarrow> u32 \<Rightarrow> int \<Rightarrow> int \<Rightarrow> int fx" where
  "FutexMgr_RequeueCmp m addr naddr private val nwake nreq = doRequeue m addr naddr private True val nwake nreq"

definition FutexMgr_WakeOp :: "futex_mgr \<Rightarrow> u64 \<Rightarrow> u64 \<Rightarrow> bool \<Rightarrow> int \<Rightarrow> int \<Rightarrow> u32 \<Rightarrow> int fx" where
  "FutexMgr_WakeOp m addr1 addr2 private nwake1 nwake2 op w =
    (case and_then (Getkey (fw_mem w) addr1 private) (\<lambda>k1.
            and_then (Getkey (fw_mem w) addr2 private) (\<lambda>k2. Ok (k1, k2))) of
       Inl e \<Rightarrow> Some (Err e, w)
     | Inr (k1, k2) \<Rightarrow>
         fx_bind (lockQueues m k1 k2) (\<lambda>_ w.
           Option.bind (AtomicOp addr2 op (fw_mem w)) (\<lambda>(r, mem).
             let w = w\<lparr>fw_mem := mem\<rparr>
             in case r of
                  Inl e \<Rightarrow> Some (Err e, unlock_both m k1 k2 w)
                | Inr cond \<Rightarrow>
                    fx_bind (with_queue m k1 (WaitList_WakeLocked (- 1) nwake1)) (\<lambda>done.
                      fx_bind (if cond then with_queue m k2 (WaitList_WakeLocked (- 1) nwake2)
                               else (\<lambda>w. Some (Ok 0, w))) (\<lambda>more w.
                        Some (Ok (i32 (done + more)), unlock_both m k1 k2 w))) w)) w)"

section \<open>Waiting\<close>

definition entry_key :: "nat \<Rightarrow> futex_world \<Rightarrow> key result" where
  "entry_key e w = and_then (WaitContext_thread (we_context (entry (fw_store w) e))) (\<lambda>c. Ok (tc_key c))"

definition push_entry :: "nat \<Rightarrow> wait_store \<Rightarrow> wait_list \<Rightarrow> (unit \<times> wait_store \<times> wait_list) run" where
  "push_entry e st q = Some (and_then (WaitList_PushBack e st q) (\<lambda>(st, q). Ok ((), st, q)))"

definition remove_entry :: "nat \<Rightarrow> wait_store \<Rightarrow> wait_list \<Rightarrow> (unit \<times> wait_store \<times> wait_list) run" where
  "remove_entry e st q = Option.bind (WaitList_Remove e st q) (\<lambda>(st, q). returns ((), st, q))"

definition WaitPrepare :: "futex_mgr \<Rightarrow> nat \<Rightarrow> u64 \<Rightarrow> bool \<Rightarrow> u32 \<Rightarrow> u32 \<Rightarrow> unit fx" where
  "WaitPrepare m e addr private val bitmask w =
    (case Getkey (fw_mem w) addr private of
       Inl err \<Rightarrow> Some (Err err, w)
     | Inr k \<Rightarrow>
        (case WaitEntry_SetKey e k (WaitEntry_SetMask e (ucast bitmask) (WaitEntry_Clear e (fw_store w))) of
           Inl err \<Rightarrow> Some (Err err, w)
         | Inr st \<Rightarrow>
             fx_bind (lockQueueWithCreate m k) (\<lambda>_ w.
               let (r, mem) = Futex_Check addr val (fw_mem w);
                   w = w\<lparr>fw_mem := mem\<rparr>
               in case r of
                    Inl err \<Rightarrow> Some (Err err, futex_unlock m k w)
                  | Inr _ \<Rightarrow>
                      fx_bind (with_queue m k (push_entry e)) (\<lambda>_ w. Some (Ok (), futex_unlock m k w)) w)
               (w\<lparr>fw_store := st\<rparr>)))"

definition WaitComplete_remove :: "futex_mgr \<Rightarrow> nat \<Rightarrow> key \<Rightarrow> unit fx" where
  "WaitComplete_remove m e k =
    fx_bind (with_queue m k (remove_entry e)) (\<lambda>_ w.
      let w = drop_empty m k w
      in case WaitEntry_SetKey e Key_default (fw_store w) of
           Inl err \<Rightarrow> Some (Err err, w)
         | Inr st \<Rightarrow> Some (Ok (), futex_unlock m k (w\<lparr>fw_store := st\<rparr>)))"

text \<open>\<open>others\<close> lists what the other tasks do to the world each time this one waits for the lock.\<close>

fun WaitComplete :: "futex_mgr \<Rightarrow> nat \<Rightarrow> (futex_world \<Rightarrow> futex_world) list \<Rightarrow> unit fx" where
  "WaitComplete m e others w =
    (case entry_key e w of
       Inl err \<Rightarrow> Some (Err err, w)
     | Inr k \<Rightarrow>
         if k = Key_default then Some (Ok (), w)
         else
           fx_bind (lockQueueWithCreate m k) (\<lambda>_ w.
             case entry_key e w of
               Inl err \<Rightarrow> Some (Err err, w)
             | Inr k' \<Rightarrow>
                 if k \<noteq> k' then
                   (case others of
                      [] \<Rightarrow> None
                    | _ # rest \<Rightarrow> WaitComplete m e rest (futex_unlock m k w))
                 else WaitComplete_remove m e k w)
             (case others of [] \<Rightarrow> w | f # _ \<Rightarrow> f w))"

declare WaitComplete.simps [simp del]

section \<open>Priority inheritance\<close>

partial_function (option) lockPILocked ::
    "futex_mgr \<Rightarrow> key \<Rightarrow> nat \<Rightarrow> u64 \<Rightarrow> u32 \<Rightarrow> bool \<Rightarrow> futex_world \<Rightarrow> (bool result \<times> futex_world) option" where
  [code]: "lockPILocked m k e addr tid tryit w =
    (case LoadU32 addr (fw_mem w) of
       (Inl err, mem) \<Rightarrow> Some (Err err, w\<lparr>fw_mem := mem\<rparr>)
     | (Inr cur, mem) \<Rightarrow>
        if cur AND FUTEX_TID_MASK = tid then Some (Err (SysError EDEADLK), w\<lparr>fw_mem := mem\<rparr>)
        else if cur AND FUTEX_TID_MASK = 0 then
          (case CompareAndSwapU32 addr cur (tid OR cur AND FUTEX_OWNER_DIED) mem of
             (Inl err, mem) \<Rightarrow> Some (Err err, w\<lparr>fw_mem := mem\<rparr>)
           | (Inr prev, mem) \<Rightarrow>
               if prev \<noteq> cur then lockPILocked m k e addr tid tryit (w\<lparr>fw_mem := mem\<rparr>)
               else Some (Ok True, w\<lparr>fw_mem := mem\<rparr>))
        else if tryit then Some (Ok False, w\<lparr>fw_mem := mem\<rparr>)
        else if cur AND FUTEX_WAITERS = 0 then
          (case CompareAndSwapU32 addr cur (cur OR FUTEX_WAITERS) mem of
             (Inl err, mem) \<Rightarrow> Some (Err err, w\<lparr>fw_mem := mem\<rparr>)
           | (Inr prev, mem) \<Rightarrow>
               if prev \<noteq> cur then lockPILocked m k e addr tid tryit (w\<lparr>fw_mem := mem\<rparr>)
               else fx_bind (with_queue m k (push_entry e)) (\<lambda>_ w. Some (Ok False, w)) (w\<lparr>fw_mem := mem\<rparr>))
        else fx_bind (with_queue m k (push_entry e)) (\<lambda>_ w. Some (Ok False, w)) (w\<lparr>fw_mem := mem\<rparr>))"

definition LockPI :: "futex_mgr \<Rightarrow> nat \<Rightarrow> u64 \<Rightarrow> u32 \<Rightarrow> bool \<Rightarrow> bool \<Rightarrow> bool fx" where
  "LockPI m e addr tid private retry w =
    (case Getkey (fw_mem w) addr private of
       Inl err \<Rightarrow> Some (Err err, w)
     | Inr k \<Rightarrow>
        (case and_then (WaitEntry_SetKey e k (WaitEntry_Clear e (fw_store w))) (WaitEntry_SetTid e tid) of
           Inl err \<Rightarrow> Some (Err err, w)
         | Inr st \<Rightarrow>
             fx_bind (lockQueueWithCreate m k) (\<lambda>_ w.
               case lockPILocked m k e addr tid retry w of
                 None \<Rightarrow> None
               | Some (r, w) \<Rightarrow> Some (r, futex_unlock m k w))
               (w\<lparr>fw_store := WaitEntry_SetMask e (- 1) st\<rparr>)))"

definition unlockPILocked :: "futex_mgr \<Rightarrow> key \<Rightarrow> u64 \<Rightarrow> u32 \<Rightarrow> unit fx" where
  "unlockPILocked m k addr tid w =
    (case LoadU32 addr (fw_mem w) of
       (Inl err, mem) \<Rightarrow> Some (Err err, w\<lparr>fw_mem := mem\<rparr>)
     | (Inr cur, mem) \<Rightarrow>
        if cur AND FUTEX_TID_MASK \<noteq> tid then Some (Err (SysError EPERM), w\<lparr>fw_mem := mem\<rparr>)
        else
          (case WaitList_Front (queue_at m k w) of
             None \<Rightarrow>
               (case CompareAndSwapU32 addr cur 0 mem of
                  (Inl err, mem) \<Rightarrow> Some (Err err, w\<lparr>fw_mem := mem\<rparr>)
                | (Inr prev, mem) \<Rightarrow>
                    Some (if prev \<noteq> cur then Err (SysError EAGAIN) else Ok (), w\<lparr>fw_mem := mem\<rparr>))
           | Some next \<Rightarrow>
               (case WaitContext_thread (we_context (entry (fw_store w) next)) of
                  Inl err \<Rightarrow> Some (Err err, w\<lparr>fw_mem := mem\<rparr>)
                | Inr c \<Rightarrow>
                    let val = (if we_next (entry (fw_store w) next) \<noteq> None then tc_tid c OR FUTEX_WAITERS else tc_tid c)
                    in case CompareAndSwapU32 addr cur val mem of
                         (Inl err, mem) \<Rightarrow> Some (Err err, w\<lparr>fw_mem := mem\<rparr>)
                       | (Inr prev, mem) \<Rightarrow>
                           if prev \<noteq> cur then Some (Err (SysError EINVAL), w\<lparr>fw_mem := mem\<rparr>)
                           else fx_bind (with_queue m k (WaitList_WakeWaiterLocked next (- 1)))
                             (\<lambda>_ w. Some (Ok (), w)) (w\<lparr>fw_mem := mem\<rparr>))))"

definition UnlockPI :: "futex_mgr \<Rightarrow> u64 \<Rightarrow> u32 \<Rightarrow> bool \<Rightarrow> unit fx" where
  "UnlockPI m addr tid private w =
    (case Getkey (fw_mem w) addr private of
       Inl err \<Rightarrow> Some (Err err, w)
     | Inr k \<Rightarrow>
         fx_bind (lockQueueWithCreate m k) (\<lambda>_ w.
           case unlockPILocked m k addr tid w of
             None \<Rightarrow> None
           | Some (r, w) \<Rightarrow> Some (r, futex_unlock m k w)) w)"

end
