(* ===== verification/Wait_Entry_Props.thy ===== *)
theory Wait_Entry_Props
  imports Wait_Entry
begin

text \<open>
  The linked wait lists behave like plain lists of entries. \<open>wl_ok st wl xs\<close> says that the list \<open>wl\<close>
  holds exactly the entries \<open>xs\<close>, in this order. \<open>relinked E st st'\<close> says that \<open>st'\<close> differs from \<open>st\<close> at
  most in the links of the entries in \<open>E\<close>, which is what keeps the other lists of the store intact.
\<close>

section \<open>Abstraction\<close>

definition wl_ok :: "wait_store \<Rightarrow> wait_list \<Rightarrow> nat list \<Rightarrow> bool" where
  "wl_ok st wl xs \<longleftrightarrow> distinct xs \<and> (\<forall>x \<in> set xs. x < length (ws_entries st)) \<and>
     links (\<lambda>e. we_prev (entry st e)) (\<lambda>e. we_next (entry st e)) None xs None \<and>
     wl_head wl = first_or None xs \<and> wl_tail wl = last_or None xs"

definition relinked :: "nat set \<Rightarrow> wait_store \<Rightarrow> wait_store \<Rightarrow> bool" where
  "relinked E st st' \<longleftrightarrow> length (ws_entries st') = length (ws_entries st) \<and>
     (\<forall>e. we_mask (entry st' e) = we_mask (entry st e) \<and> we_context (entry st' e) = we_context (entry st e)) \<and>
     (\<forall>e. e \<notin> E \<longrightarrow> entry st' e = entry st e) \<and>
     ws_waiters st' = ws_waiters st \<and> ws_scheduled st' = ws_scheduled st \<and> ws_callbacks st' = ws_callbacks st"

lemma wl_ok_default [simp]: "wl_ok st WaitList_default []"
  by (simp add: wl_ok_def WaitList_default_def)

lemma wl_ok_Nil: "wl_ok st wl [] \<longleftrightarrow> wl = WaitList_default"
  by (cases wl) (auto simp: wl_ok_def WaitList_default_def)

lemma wl_ok_front: "wl_ok st wl xs \<Longrightarrow> WaitList_Front wl = first_or None xs"
  by (simp add: wl_ok_def WaitList_Front_def)

lemma wl_ok_empty: "wl_ok st wl xs \<Longrightarrow> WaitList_Empty wl \<longleftrightarrow> xs = []"
  by (simp add: wl_ok_def WaitList_Empty_def)

lemma relinked_refl [simp]: "relinked E st st"
  by (simp add: relinked_def)

lemma relinked_trans: "relinked E st st' \<Longrightarrow> relinked F st' st'' \<Longrightarrow> relinked (E \<union> F) st st''"
  by (auto simp: relinked_def)

lemma relinked_mono: "relinked E st st' \<Longrightarrow> E \<subseteq> F \<Longrightarrow> relinked F st st'"
  by (auto simp: relinked_def)

lemma length_update [simp]: "length (ws_entries (WaitEntry_update e f st)) = length (ws_entries st)"
  by (simp add: WaitEntry_update_def)

lemma entry_update: "e < length (ws_entries st) \<Longrightarrow>
    entry (WaitEntry_update e f st) x = (if x = e then f (entry st e) else entry st x)"
  by (simp add: WaitEntry_update_def nth_list_update)

lemma other_update [simp]: "ws_waiters (WaitEntry_update e f st) = ws_waiters st"
  "ws_scheduled (WaitEntry_update e f st) = ws_scheduled st"
  "ws_callbacks (WaitEntry_update e f st) = ws_callbacks st"
  by (simp_all add: WaitEntry_update_def)

text \<open>A change of the store that keeps the links of its entries keeps the list.\<close>

lemma wl_ok_same:
  assumes "wl_ok st wl xs" and "length (ws_entries st') = length (ws_entries st)"
    and "\<And>x. x \<in> set xs \<Longrightarrow> we_prev (entry st' x) = we_prev (entry st x) \<and> we_next (entry st' x) = we_next (entry st x)"
  shows "wl_ok st' wl xs"
  using assms links_same [of "\<lambda>e. we_prev (entry st e)" "\<lambda>e. we_next (entry st e)" None xs None
      "\<lambda>e. we_prev (entry st' e)" "\<lambda>e. we_next (entry st' e)"]
  by (simp add: wl_ok_def)

lemma wl_ok_frame: "wl_ok st wl ys \<Longrightarrow> relinked E st st' \<Longrightarrow> set ys \<inter> E = {} \<Longrightarrow> wl_ok st' wl ys"
  by (rule wl_ok_same [of st]) (auto simp: relinked_def)

section \<open>Insertion and removal\<close>

lemma PushBack_ok:
  assumes ok: "wl_ok st wl xs" and e: "e < length (ws_entries st)" "e \<notin> set xs" "WaitEntry_InitState st e"
  obtains st' wl' where "WaitList_PushBack e st wl = Ok (st', wl')" "wl_ok st' wl' (xs @ [e])"
    "relinked (insert e (set xs)) st st'"
proof (cases xs rule: rev_cases)
  case Nil
  with ok e have "WaitList_PushBack e st wl = Ok (st, \<lparr>wl_head = Some e, wl_tail = Some e\<rparr>)"
    by (simp add: WaitList_PushBack_def wl_ok_def)
  then show thesis
    using Nil e by (intro that) (auto simp: wl_ok_def WaitEntry_InitState_def)
next
  case (snoc zs z)
  define st' where "st' = WaitEntry_update z (\<lambda>c. c\<lparr>we_next := Some e\<rparr>)
    (WaitEntry_update e (\<lambda>c. c\<lparr>we_prev := Some z\<rparr>) st)"
  have z: "z < length (ws_entries st)" "z \<noteq> e" using ok e snoc by (auto simp: wl_ok_def)
  have en: "entry st' x = (if x = z then (entry st z)\<lparr>we_next := Some e\<rparr>
      else if x = e then (entry st e)\<lparr>we_prev := Some z\<rparr> else entry st x)" for x
    using z e by (simp add: st'_def entry_update)
  have "wl_head wl \<noteq> None" "wl_tail wl = Some z" using ok snoc by (cases zs; auto simp: wl_ok_def)+
  then have push: "WaitList_PushBack e st wl = Ok (st', wl\<lparr>wl_tail := Some e\<rparr>)"
    using e(3) by (auto simp: WaitList_PushBack_def st'_def)
  have len: "length (ws_entries st') = length (ws_entries st)" by (simp add: st'_def)
  have wt: "ws_waiters st' = ws_waiters st" "ws_scheduled st' = ws_scheduled st" "ws_callbacks st' = ws_callbacks st"
    by (simp_all add: st'_def)
  have l: "links (\<lambda>e. we_prev (entry st e)) (\<lambda>e. we_next (entry st e)) None xs None" "distinct xs"
    using ok by (auto simp: wl_ok_def)
  have "links (\<lambda>e. we_prev (entry st' e)) (\<lambda>e. we_next (entry st' e)) None xs (Some e)"
    using l by (rule links_change_last) (use e(2) snoc in \<open>auto simp: en\<close>)
  moreover have "we_prev (entry st' e) = Some z" "we_next (entry st' e) = None"
    using z e by (auto simp: en WaitEntry_InitState_def)
  ultimately have "wl_ok st' (wl\<lparr>wl_tail := Some e\<rparr>) (xs @ [e])"
    using ok e snoc len by (auto simp: wl_ok_def links_append)
  moreover have "relinked (insert e (set xs)) st st'"
    using snoc len wt by (auto simp: relinked_def en)
  ultimately show thesis using push that by blast
qed

lemma PushFront_ok:
  assumes ok: "wl_ok st wl xs" and e: "e < length (ws_entries st)" "e \<notin> set xs" "WaitEntry_InitState st e"
  obtains st' wl' where "WaitList_PushFront e st wl = Ok (st', wl')" "wl_ok st' wl' (e # xs)"
    "relinked (insert e (set xs)) st st'"
proof (cases xs)
  case Nil
  with ok e have "WaitList_PushFront e st wl = Ok (st, \<lparr>wl_head = Some e, wl_tail = Some e\<rparr>)"
    by (simp add: WaitList_PushFront_def wl_ok_def)
  then show thesis
    using Nil e by (intro that) (auto simp: wl_ok_def WaitEntry_InitState_def)
next
  case (Cons z zs)
  define st' where "st' = WaitEntry_update z (\<lambda>c. c\<lparr>we_prev := Some e\<rparr>)
    (WaitEntry_update e (\<lambda>c. c\<lparr>we_next := Some z\<rparr>) st)"
  have z: "z < length (ws_entries st)" "z \<noteq> e" using ok e Cons by (auto simp: wl_ok_def)
  have en: "entry st' x = (if x = z then (entry st z)\<lparr>we_prev := Some e\<rparr>
      else if x = e then (entry st e)\<lparr>we_next := Some z\<rparr> else entry st x)" for x
    using z e by (simp add: st'_def entry_update)
  have "wl_head wl = Some z" using ok Cons by (auto simp: wl_ok_def)
  then have push: "WaitList_PushFront e st wl = Ok (st', wl\<lparr>wl_head := Some e\<rparr>)"
    using e(3) by (auto simp: WaitList_PushFront_def st'_def)
  have len: "length (ws_entries st') = length (ws_entries st)" by (simp add: st'_def)
  have wt: "ws_waiters st' = ws_waiters st" "ws_scheduled st' = ws_scheduled st" "ws_callbacks st' = ws_callbacks st"
    by (simp_all add: st'_def)
  have l: "links (\<lambda>e. we_prev (entry st e)) (\<lambda>e. we_next (entry st e)) None xs None" "distinct xs"
    using ok by (auto simp: wl_ok_def)
  have "links (\<lambda>e. we_prev (entry st' e)) (\<lambda>e. we_next (entry st' e)) (Some e) xs None"
    using l by (rule links_change_first) (use e(2) Cons in \<open>auto simp: en\<close>)
  moreover have "we_prev (entry st' e) = None" "we_next (entry st' e) = Some z"
    using z e by (auto simp: en WaitEntry_InitState_def)
  ultimately have "wl_ok st' (wl\<lparr>wl_head := Some e\<rparr>) (e # xs)"
    using ok e Cons len by (auto simp: wl_ok_def)
  moreover have "relinked (insert e (set xs)) st st'"
    using Cons len wt by (auto simp: relinked_def en)
  ultimately show thesis using push that by blast
qed

lemma Remove_ok:
  assumes ok: "wl_ok st wl (xs @ e # ys)"
  obtains st' wl' where "WaitList_Remove e st wl = Some (st', wl')" "wl_ok st' wl' (xs @ ys)"
    "WaitEntry_InitState st' e" "relinked (set (xs @ e # ys)) st st'"
proof -
  define p where "p = last_or None xs"
  define n where "n = first_or None ys"
  have d: "distinct (xs @ e # ys)" and inr: "\<forall>x \<in> set (xs @ e # ys). x < length (ws_entries st)"
    and l: "links (\<lambda>e. we_prev (entry st e)) (\<lambda>e. we_next (entry st e)) None (xs @ e # ys) None"
    using ok by (auto simp: wl_ok_def)
  have pn: "we_prev (entry st e) = p" "we_next (entry st e) = n"
    using links_at [OF l] by (simp_all add: p_def n_def)
  have pin: "a \<in> set xs \<and> a = last xs" if "p = Some a" for a
    using that by (auto simp: p_def last_or_def split: if_splits)
  have nin: "a \<in> set ys \<and> a = hd ys" if "n = Some a" for a
    using that by (cases ys) (auto simp: n_def)
  define st1 where "st1 = (case p of None \<Rightarrow> st | Some a \<Rightarrow> WaitEntry_update a (\<lambda>c. c\<lparr>we_next := n\<rparr>) st)"
  define st2 where "st2 = (case n of None \<Rightarrow> st1 | Some a \<Rightarrow> WaitEntry_update a (\<lambda>c. c\<lparr>we_prev := p\<rparr>) st1)"
  define st3 where "st3 = WaitEntry_update e (\<lambda>c. c\<lparr>we_prev := None, we_next := None\<rparr>) st2"
  define wl1 where "wl1 = (case p of None \<Rightarrow> wl\<lparr>wl_head := n\<rparr> | Some _ \<Rightarrow> wl)"
  define wl2 where "wl2 = (case n of None \<Rightarrow> wl1\<lparr>wl_tail := p\<rparr> | Some _ \<Rightarrow> wl1)"
  have ne: "p \<noteq> Some e" "n \<noteq> Some e" using d pin [of e] nin [of e] by auto
  have rem: "WaitList_Remove e st wl = Some (st3, wl2)"
    using ne by (cases p; cases n)
      (simp_all add: WaitList_Remove_def pn Let_def st3_def st2_def st1_def wl2_def wl1_def)
  have len1: "length (ws_entries st1) = length (ws_entries st)" by (simp add: st1_def split: option.split)
  have len2: "length (ws_entries st2) = length (ws_entries st)" by (simp add: st2_def len1 split: option.split)
  have en1: "entry st1 x = (if Some x = p then (entry st x)\<lparr>we_next := n\<rparr> else entry st x)" for x
    using inr pin by (cases p) (auto simp: st1_def entry_update)
  have en2: "entry st2 x = (if Some x = n then (entry st1 x)\<lparr>we_prev := p\<rparr> else entry st1 x)" for x
    using inr nin len1 by (cases n) (auto simp: st2_def entry_update)
  have en: "entry st3 x = (if x = e then (entry st e)\<lparr>we_prev := None, we_next := None\<rparr>
      else entry st2 x)" for x
    using inr len2 ne by (auto simp: st3_def entry_update en2 en1)
  have len: "length (ws_entries st3) = length (ws_entries st)" by (simp add: st3_def len2)
  have lx: "links (\<lambda>e. we_prev (entry st e)) (\<lambda>e. we_next (entry st e)) None xs (Some e)"
    and ly: "links (\<lambda>e. we_prev (entry st e)) (\<lambda>e. we_next (entry st e)) (Some e) ys None"
    using l by (simp_all add: links_append)
  have "links (\<lambda>e. we_prev (entry st3 e)) (\<lambda>e. we_next (entry st3 e)) None xs n"
  proof (rule links_change_last [OF lx])
    show "distinct xs" using d by simp
    fix x assume x: "x \<in> set xs"
    then have "x \<noteq> e" "Some x \<noteq> n" using d nin [of x] by auto
    moreover have "Some x = p \<longleftrightarrow> x = last xs" using x by (auto simp: p_def last_or_def)
    ultimately show "we_prev (entry st3 x) = we_prev (entry st x) \<and>
        we_next (entry st3 x) = (if x = last xs then n else we_next (entry st x))"
      by (simp add: en en2 en1)
  qed
  moreover have "links (\<lambda>e. we_prev (entry st3 e)) (\<lambda>e. we_next (entry st3 e)) p ys None"
  proof (rule links_change_first [OF ly])
    show "distinct ys" using d by simp
    fix x assume x: "x \<in> set ys"
    then have "x \<noteq> e" "Some x \<noteq> p" using d pin [of x] by auto
    moreover have "Some x = n \<longleftrightarrow> x = hd ys" using x by (cases ys) (auto simp: n_def)
    ultimately show "we_prev (entry st3 x) = (if x = hd ys then p else we_prev (entry st x)) \<and>
        we_next (entry st3 x) = we_next (entry st x)"
      by (auto simp: en en2 en1)
  qed
  moreover have "wl_head wl2 = first_or n xs"
    using ok by (cases xs; cases n; cases "last_or None xs") (auto simp: wl_ok_def wl2_def wl1_def p_def last_or_def split: if_splits)
  moreover have "wl_tail wl2 = last_or p ys"
    using ok by (cases ys; cases p) (auto simp: wl_ok_def wl2_def wl1_def n_def last_or_def)
  ultimately have "wl_ok st3 wl2 (xs @ ys)"
    using d inr len by (simp add: wl_ok_def links_append p_def [symmetric] n_def [symmetric])
  moreover have "WaitEntry_InitState st3 e" by (simp add: en WaitEntry_InitState_def)
  moreover have "relinked (set (xs @ e # ys)) st st3"
    unfolding relinked_def
  proof (intro conjI allI impI)
    fix x
    show "we_mask (entry st3 x) = we_mask (entry st x)" "we_context (entry st3 x) = we_context (entry st x)"
      by (simp_all add: en en2 en1)
    show "entry st3 x = entry st x" if "x \<notin> set (xs @ e # ys)"
      using that pin [of x] nin [of x] by (auto simp: en en2 en1)
  qed (simp_all add: len st3_def st2_def st1_def split: option.split)
  ultimately show thesis using rem that by blast
qed

section \<open>Changes of the store\<close>

text \<open>\<open>changed E ks st st'\<close>: links change only in \<open>E\<close>, keys as the map \<open>ks\<close> says, nothing else of the
  entries. \<open>woke W st st'\<close>: of the waiters, exactly the bits of the entries in \<open>W\<close> are set in addition.\<close>

definition set_key :: "key \<Rightarrow> wait_context \<Rightarrow> wait_context" where
  "set_key k c = (case c of ThreadContext t \<Rightarrow> ThreadContext (t\<lparr>tc_key := k\<rparr>) | _ \<Rightarrow> c)"

definition changed :: "nat set \<Rightarrow> (nat \<Rightarrow> key option) \<Rightarrow> wait_store \<Rightarrow> wait_store \<Rightarrow> bool" where
  "changed E ks st st' \<longleftrightarrow> length (ws_entries st') = length (ws_entries st) \<and>
     (\<forall>e. we_mask (entry st' e) = we_mask (entry st e)) \<and>
     (\<forall>e. we_context (entry st' e) =
        (case ks e of None \<Rightarrow> we_context (entry st e) | Some k \<Rightarrow> set_key k (we_context (entry st e)))) \<and>
     (\<forall>e. e \<notin> E \<longrightarrow> we_prev (entry st' e) = we_prev (entry st e) \<and> we_next (entry st' e) = we_next (entry st e))"

definition wakes_at :: "wait_store \<Rightarrow> nat \<Rightarrow> nat \<Rightarrow> nat \<Rightarrow> bool" where
  "wakes_at st e w n \<longleftrightarrow> (case we_context (entry st e) of
     ThreadContext c \<Rightarrow> tc_waiter c = w \<and> n = unat (tc_waiterID c) | _ \<Rightarrow> False)"

definition woke :: "nat set \<Rightarrow> wait_store \<Rightarrow> wait_store \<Rightarrow> bool" where
  "woke W st st' \<longleftrightarrow> length (ws_waiters st') = length (ws_waiters st) \<and>
     (\<forall>w n. w < length (ws_waiters st) \<longrightarrow> bit (wt_bitmap (ws_waiters st' ! w)) n =
        (bit (wt_bitmap (ws_waiters st ! w)) n \<or> (\<exists>e \<in> W. wakes_at st e w n)))"

definition thread_ok :: "wait_store \<Rightarrow> nat \<Rightarrow> bool" where
  "thread_ok st e \<longleftrightarrow> (case we_context (entry st e) of
     ThreadContext c \<Rightarrow> tc_waiterID c \<le> TIMER_WAITID \<and> tc_waiter c < length (ws_waiters st) | _ \<Rightarrow> False)"

definition key_of :: "wait_store \<Rightarrow> nat \<Rightarrow> key option" where
  "key_of st e = (case we_context (entry st e) of ThreadContext c \<Rightarrow> Some (tc_key c) | _ \<Rightarrow> None)"

lemma set_key_twice: "set_key k (set_key k' c) = set_key k c"
  by (cases c) (simp_all add: set_key_def)

lemma changed_trans: "changed E ks st st' \<Longrightarrow> changed F ks' st' st'' \<Longrightarrow> changed (E \<union> F) (ks ++ ks') st st''"
  by (auto simp: changed_def set_key_twice map_add_def split: option.split)

lemma changed_mono: "changed E ks st st' \<Longrightarrow> E \<subseteq> F \<Longrightarrow> changed F ks st st'"
  by (auto simp: changed_def)

lemma relinked_changed: "relinked E st st' \<Longrightarrow> changed E Map.empty st st'"
  by (auto simp: changed_def relinked_def)

lemma relinked_woke: "relinked E st st' \<Longrightarrow> woke {} st st'"
  by (auto simp: relinked_def woke_def)

lemma changed_refl [simp]: "changed E Map.empty st st"
  by (simp add: changed_def)

lemma woke_refl [simp]: "woke {} st st"
  by (simp add: woke_def)

lemma changed_wakes_at: "changed E ks st st' \<Longrightarrow> wakes_at st' e = wakes_at st e"
  by (cases "we_context (entry st e)") (auto simp: changed_def wakes_at_def set_key_def fun_eq_iff split: option.split)

lemma woke_trans: "woke W st st' \<Longrightarrow> changed E ks st st' \<Longrightarrow> woke V st' st'' \<Longrightarrow> woke (W \<union> V) st st''"
  by (auto simp: woke_def changed_wakes_at)

lemma changed_thread_ok: "changed E ks st st' \<Longrightarrow> woke W st st' \<Longrightarrow> thread_ok st' e = thread_ok st e"
  by (cases "we_context (entry st e)") (auto simp: changed_def woke_def thread_ok_def set_key_def split: option.split)

lemma changed_key_of: "changed E ks st st' \<Longrightarrow> thread_ok st e \<Longrightarrow>
    key_of st' e = (case ks e of None \<Rightarrow> key_of st e | Some k \<Rightarrow> Some k)"
  by (cases "we_context (entry st e)") (auto simp: changed_def key_of_def thread_ok_def set_key_def split: option.split)

lemma changed_mask: "changed E ks st st' \<Longrightarrow> we_mask (entry st' e) = we_mask (entry st e)"
  by (simp add: changed_def)

lemma wl_ok_changed: "wl_ok st wl ys \<Longrightarrow> changed E ks st st' \<Longrightarrow> set ys \<inter> E = {} \<Longrightarrow> wl_ok st' wl ys"
  by (rule wl_ok_same [of st]) (auto simp: changed_def)

lemma changed_InitState: "changed E ks st st' \<Longrightarrow> e \<notin> E \<Longrightarrow> WaitEntry_InitState st' e = WaitEntry_InitState st e"
  by (auto simp: changed_def WaitEntry_InitState_def)

lemma SetKey_ok:
  assumes "thread_ok st e" and "e < length (ws_entries st)"
  obtains st' where "WaitEntry_SetKey e k st = Ok st'" "changed {} [e \<mapsto> k] st st'" "woke {} st st'"
    "ws_waiters st' = ws_waiters st"
proof -
  obtain c where c: "we_context (entry st e) = ThreadContext c"
    using assms(1) by (auto simp: thread_ok_def split: wait_context.splits)
  let ?st = "WaitEntry_update e (\<lambda>w. w\<lparr>we_context := ThreadContext (c\<lparr>tc_key := k\<rparr>)\<rparr>) st"
  have "WaitEntry_SetKey e k st = Ok ?st" by (simp add: WaitEntry_SetKey_def WaitContext_thread_def c)
  moreover have "changed {} [e \<mapsto> k] st ?st"
    using assms(2) by (auto simp: changed_def entry_update set_key_def c)
  moreover have "woke {} st ?st" by (simp add: woke_def)
  ultimately show thesis using that by simp
qed

lemma bit_wait_bit: "i \<le> TIMER_WAITID \<Longrightarrow> bit (wait_bit i) n \<longleftrightarrow> n = unat i"
proof -
  assume "i \<le> TIMER_WAITID"
  then have "unat i \<le> 2" by (simp add: TIMER_WAITID_def word_le_nat_alt)
  then have "unat i mod 64 = unat i" by simp
  then show ?thesis using \<open>unat i \<le> 2\<close> by (auto simp: wait_bit_def bit_simps)
qed

lemma Trigger_ok:
  assumes "i \<le> TIMER_WAITID" and "w < length (ws_waiters st)"
  shows "\<exists>st'. Waiter_Trigger w i st = Ok st' \<and> ws_entries st' = ws_entries st \<and>
    length (ws_waiters st') = length (ws_waiters st) \<and>
    (\<forall>x < length (ws_waiters st). wt_bitmap (ws_waiters st' ! x) =
       (if x = w then wt_bitmap (ws_waiters st ! x) OR wait_bit i else wt_bitmap (ws_waiters st ! x)))"
  using assms
  by (cases "wt_state (ws_waiters st ! w) = Waiting \<and>
      (wt_bitmap (ws_waiters st ! w) OR wait_bit i) AND wt_mask (ws_waiters st ! w) \<noteq> 0")
    (simp_all add: Waiter_Trigger_def Let_def nth_list_update)

lemma Notify_ok:
  assumes "thread_ok st e"
  obtains st' where "WaitEntry_Notify e m st = Ok (m AND we_mask (entry st e) \<noteq> 0, st')"
    "ws_entries st' = ws_entries st" "woke (if m AND we_mask (entry st e) \<noteq> 0 then {e} else {}) st st'"
proof (cases "m AND we_mask (entry st e) = 0")
  case True
  then show thesis using that [of st] by (simp add: WaitEntry_Notify_def)
next
  case False
  obtain c where c: "we_context (entry st e) = ThreadContext c" "tc_waiterID c \<le> TIMER_WAITID"
      "tc_waiter c < length (ws_waiters st)"
    using assms by (auto simp: thread_ok_def split: wait_context.splits)
  obtain st' where st': "Waiter_Trigger (tc_waiter c) (tc_waiterID c) st = Ok st'"
      "ws_entries st' = ws_entries st" "length (ws_waiters st') = length (ws_waiters st)"
      "\<And>w. w < length (ws_waiters st) \<Longrightarrow> wt_bitmap (ws_waiters st' ! w) =
         (if w = tc_waiter c then wt_bitmap (ws_waiters st ! w) OR wait_bit (tc_waiterID c) else wt_bitmap (ws_waiters st ! w))"
    using Trigger_ok [OF c(2,3)] by blast
  have "woke {e} st st'"
    using st'(3,4) c by (auto simp: woke_def wakes_at_def bit_or_iff bit_wait_bit)
  moreover have "WaitEntry_Notify e m st = Ok (True, st')"
    using False by (simp add: WaitEntry_Notify_def WaitContext_CallBack_def c st')
  ultimately show thesis using that [of st'] False st'(2) by simp
qed

end
