(* ===== verification/Wait_Loops.thy ===== *)
theory Wait_Loops
  imports Wait_Entry_Props
begin

text \<open>
  The loops over a wait list: waking up to \<open>n\<close> entries whose mask matches, and moving up to \<open>n\<close> entries
  to another list. Both end, and what they do is described on plain lists.
\<close>

section \<open>Waking\<close>

abbreviation matches :: "wait_store \<Rightarrow> u64 \<Rightarrow> nat \<Rightarrow> bool" where
  "matches st m e \<equiv> m AND we_mask (entry st e) \<noteq> 0"

text \<open>The entries that stay in the list, and those that the loop looks at.\<close>

fun unwoken :: "('a \<Rightarrow> bool) \<Rightarrow> nat \<Rightarrow> 'a list \<Rightarrow> 'a list" where
  "unwoken P n [] = []"
| "unwoken P n (x # xs) = (if n = 0 then x # xs else if P x then unwoken P (n - 1) xs else x # unwoken P n xs)"

fun examined :: "('a \<Rightarrow> bool) \<Rightarrow> nat \<Rightarrow> 'a list \<Rightarrow> 'a list" where
  "examined P n [] = []"
| "examined P n (x # xs) = (if n = 0 then [] else x # examined P (if P x then n - 1 else n) xs)"

lemma examined_0 [simp]: "examined P 0 xs = []" by (cases xs) simp_all

lemma unwoken_0 [simp]: "unwoken P 0 xs = xs" by (cases xs) simp_all

lemma unwoken_filter: "distinct xs \<Longrightarrow> unwoken P n xs = filter (\<lambda>x. x \<notin> set (take n (filter P xs))) xs"
proof (induction xs arbitrary: n)
  case (Cons x xs)
  show ?case
  proof (cases n)
    case (Suc m)
    have "x \<notin> set (take k (filter P xs))" for k
      using Cons.prems set_take_subset [of k "filter P xs"] by auto
    moreover have "filter (\<lambda>y. y \<noteq> x \<and> y \<notin> A) xs = filter (\<lambda>y. y \<notin> A) xs" for A
      using Cons.prems by (auto intro: filter_cong)
    ultimately show ?thesis using Cons Suc by simp
  qed simp
qed simp

lemma unwoken_all: "\<forall>x \<in> set xs. P x \<Longrightarrow> unwoken P n xs = drop n xs"
  by (induction xs arbitrary: n) (auto simp: drop_Cons')

lemma examined_all: "\<forall>x \<in> set xs. P x \<Longrightarrow> examined P n xs = take n xs"
  by (induction xs arbitrary: n) (auto simp: take_Cons')

lemma examined_subset: "set (examined P n xs) \<subseteq> set xs"
  by (induction xs arbitrary: n) auto

lemma woken_examined: "set (take n (filter P xs)) \<subseteq> set (examined P n xs)"
proof (induction xs arbitrary: n)
  case (Cons x xs)
  then show ?case using Cons.IH [of "n - 1"] Cons.IH [of n] by (auto simp: take_Cons' split: if_splits)
qed simp

lemma take_filter_Cons: "n > 0 \<Longrightarrow>
    take n (filter P (x # xs)) = (if P x then x # take (n - 1) (filter P xs) else take n (filter P xs))"
  by (cases n) auto

lemma WakeWaiter_ok:
  assumes ok: "wl_ok st wl (xs @ e # ys)" and t: "thread_ok st e"
  obtains st' wl' where "WaitList_WakeWaiterLocked e m st wl = returns (matches st m e, st', wl')"
    "wl_ok st' wl' (if matches st m e then xs @ ys else xs @ e # ys)"
    "matches st m e \<Longrightarrow> WaitEntry_InitState st' e"
    "changed (set (xs @ e # ys)) [e \<mapsto> Key_default] st st'"
    "woke (if matches st m e then {e} else {}) st st'"
proof -
  obtain st1 where n1: "WaitEntry_Notify e m st = Ok (matches st m e, st1)"
      "ws_entries st1 = ws_entries st" "woke (if matches st m e then {e} else {}) st st1"
    by (rule Notify_ok [OF t, of m], rule that)
  have ch1: "changed {} Map.empty st st1" using n1(2) by (simp add: changed_def)
  have ok1: "wl_ok st1 wl (xs @ e # ys)" using ok ch1 by (rule wl_ok_changed) simp
  have elen: "e < length (ws_entries st)" using ok by (simp add: wl_ok_def)
  obtain st2 wl2 where r2: "(if matches st m e then WaitList_Remove e st1 wl else Some (st1, wl)) = Some (st2, wl2)"
      "wl_ok st2 wl2 (if matches st m e then xs @ ys else xs @ e # ys)"
      "matches st m e \<Longrightarrow> WaitEntry_InitState st2 e" "relinked (set (xs @ e # ys)) st1 st2"
  proof (cases "matches st m e")
    case True
    obtain st2 wl2 where r: "WaitList_Remove e st1 wl = Some (st2, wl2)" "wl_ok st2 wl2 (xs @ ys)"
        "WaitEntry_InitState st2 e" "relinked (set (xs @ e # ys)) st1 st2"
      by (rule Remove_ok [OF ok1], rule that)
    show thesis using r True by (intro that [of st2 wl2]) simp_all
  next
    case False
    then show thesis using ok1 by (intro that [of st1 wl]) simp_all
  qed
  have ch2: "changed (set (xs @ e # ys)) Map.empty st st2"
    using changed_trans [OF ch1 relinked_changed [OF r2(4)]] by simp
  have wk2: "woke (if matches st m e then {e} else {}) st st2"
    using woke_trans [OF n1(3) ch1 relinked_woke [OF r2(4)]] by simp
  have t2: "thread_ok st2 e" using t changed_thread_ok [OF ch2 wk2] by simp
  have elen2: "e < length (ws_entries st2)" using elen ch2 by (simp add: changed_def)
  obtain st3 where s3: "WaitEntry_SetKey e Key_default st2 = Ok st3" "changed {} [e \<mapsto> Key_default] st2 st3"
      "woke {} st2 st3"
    by (rule SetKey_ok [OF t2 elen2, of Key_default], rule that)
  have "WaitList_WakeWaiterLocked e m st wl = returns (matches st m e, st3, wl2)"
    by (simp add: WaitList_WakeWaiterLocked_def n1(1) r2(1) s3(1))
  moreover have "wl_ok st3 wl2 (if matches st m e then xs @ ys else xs @ e # ys)"
    using r2(2) s3(2) by (rule wl_ok_changed) simp
  moreover have "WaitEntry_InitState st3 e" if "matches st m e"
    using r2(3) [OF that] changed_InitState [OF s3(2)] by simp
  moreover have "changed (set (xs @ e # ys)) [e \<mapsto> Key_default] st st3"
    using changed_trans [OF ch2 s3(2)] by simp
  moreover have "woke (if matches st m e then {e} else {}) st st3"
    using woke_trans [OF wk2 ch2 s3(3)] by simp
  ultimately show thesis by (rule that)
qed

text \<open>The keys that a wake resets.\<close>

definition keys_of :: "nat list \<Rightarrow> key \<Rightarrow> nat \<Rightarrow> key option" where
  "keys_of es k = (\<lambda>e. if e \<in> set es then Some k else None)"

lemma keys_of_Nil [simp]: "keys_of [] k = Map.empty"
  by (simp add: keys_of_def)

lemma keys_of_Cons: "[e \<mapsto> k] ++ keys_of es k = keys_of (e # es) k"
  by (auto simp: keys_of_def map_add_def fun_eq_iff)

lemma WakeLocked_loop_ok:
  assumes "wl_ok st wl (ys @ xs)" and "\<forall>e \<in> set xs. thread_ok st e" and "n \<le> i32_MAX" and "0 \<le> d"
  shows "\<exists>st' wl'. WakeLocked_loop m n d (first_or None xs) st wl =
      returns (d + int (length (take (nat (n - d)) (filter (matches st m) xs))), st', wl') \<and>
    wl_ok st' wl' (ys @ unwoken (matches st m) (nat (n - d)) xs) \<and>
    changed (set (ys @ xs)) (keys_of (examined (matches st m) (nat (n - d)) xs) Key_default) st st' \<and>
    woke (set (take (nat (n - d)) (filter (matches st m) xs))) st st' \<and>
    (\<forall>e \<in> set (take (nat (n - d)) (filter (matches st m) xs)). WaitEntry_InitState st' e)"
  using assms
proof (induction xs arbitrary: st wl ys d)
  case Nil
  then show ?case by (subst WakeLocked_loop.simps) auto
next
  case (Cons e xs)
  show ?case
  proof (cases "d < n")
    case False
    then show ?thesis using Cons.prems by (subst WakeLocked_loop.simps) auto
  next
    case True
    define k where "k = nat (n - d)"
    define b where "b \<longleftrightarrow> matches st m e"
    define d' where "d' = (if b then d + 1 else d)"
    define ys' where "ys' = (if b then ys else ys @ [e])"
    have k: "k > 0" "nat (n - d') = (if b then k - 1 else k)" using True by (auto simp: k_def d'_def)
    obtain st1 wl1 where w: "WaitList_WakeWaiterLocked e m st wl = returns (b, st1, wl1)"
        "wl_ok st1 wl1 (if b then ys @ xs else ys @ e # xs)" "b \<Longrightarrow> WaitEntry_InitState st1 e"
        "changed (set (ys @ e # xs)) [e \<mapsto> Key_default] st st1" "woke (if b then {e} else {}) st st1"
      unfolding b_def by (rule WakeWaiter_ok [OF Cons.prems(1), of m]) (use Cons.prems(2) in \<open>auto intro: that\<close>)
    have next_e: "we_next (entry st e) = first_or None xs"
      using Cons.prems(1) links_at(2) by (auto simp: wl_ok_def)
    have m1: "matches st1 m = matches st m" using changed_mask [OF w(4)] by (simp add: fun_eq_iff)
    have ok1: "wl_ok st1 wl1 (ys' @ xs)" using w(2) by (simp add: ys'_def split: if_splits)
    have t1: "\<forall>e \<in> set xs. thread_ok st1 e" using Cons.prems(2) changed_thread_ok [OF w(4,5)] by simp
    have "i32 (d + 1) = d + 1" using True Cons.prems(3,4) by (intro i32_id) simp_all
    then have loop: "WakeLocked_loop m n d (first_or None (e # xs)) st wl = WakeLocked_loop m n d' (first_or None xs) st1 wl1"
      using True by (subst WakeLocked_loop.simps) (simp add: w(1) next_e d'_def)
    have "0 \<le> d'" using Cons.prems(4) by (simp add: d'_def)
    from Cons.IH [OF ok1 t1 Cons.prems(3) this, unfolded m1 k(2)] obtain st2 wl2 where ih:
      "WakeLocked_loop m n d' (first_or None xs) st1 wl1 =
         returns (d' + int (length (take (if b then k - 1 else k) (filter (matches st m) xs))), st2, wl2)"
      "wl_ok st2 wl2 (ys' @ unwoken (matches st m) (if b then k - 1 else k) xs)"
      "changed (set (ys' @ xs)) (keys_of (examined (matches st m) (if b then k - 1 else k) xs) Key_default) st1 st2"
      "woke (set (take (if b then k - 1 else k) (filter (matches st m) xs))) st1 st2"
      "\<forall>e \<in> set (take (if b then k - 1 else k) (filter (matches st m) xs)). WaitEntry_InitState st2 e"
      by blast
    have W: "take k (filter (matches st m) (e # xs)) =
        (if b then [e] else []) @ take (if b then k - 1 else k) (filter (matches st m) xs)"
      using k(1) by (simp add: b_def take_filter_Cons del: filter.simps)
    have "changed (set (ys @ e # xs)) ([e \<mapsto> Key_default] ++
        keys_of (examined (matches st m) (if b then k - 1 else k) xs) Key_default) st st2"
      by (rule changed_mono [OF changed_trans [OF w(4) ih(3)]]) (auto simp: ys'_def)
    then have ch: "changed (set (ys @ e # xs)) (keys_of (examined (matches st m) k (e # xs)) Key_default) st st2"
      using k(1) by (simp add: keys_of_Cons b_def)
    have wk: "woke (set (take k (filter (matches st m) (e # xs)))) st st2"
      using woke_trans [OF w(5,4) ih(4)] unfolding W by (cases b) simp_all
    have len: "d' + int (length (take (if b then k - 1 else k) (filter (matches st m) xs))) =
        d + int (length (take k (filter (matches st m) (e # xs))))"
      unfolding W d'_def by simp
    have un: "ys' @ unwoken (matches st m) (if b then k - 1 else k) xs = ys @ unwoken (matches st m) k (e # xs)"
      using k(1) by (simp add: ys'_def b_def)
    have init: "WaitEntry_InitState st2 x" if "x \<in> set (take k (filter (matches st m) (e # xs)))" for x
    proof (cases "b \<and> x = e")
      case True
      then have "e \<notin> set (ys' @ xs)" using Cons.prems(1) by (auto simp: wl_ok_def ys'_def)
      then show ?thesis using w(3) True changed_InitState [OF ih(3)] by simp
    next
      case False
      then show ?thesis using that ih(5) unfolding W by (auto split: if_splits)
    qed
    show ?thesis
      unfolding loop k_def [symmetric] ih(1) len
      using ih(2) ch wk init unfolding un by blast
  qed
qed

lemma WakeLocked_ok:
  assumes "wl_ok st wl xs" and "\<forall>e \<in> set xs. thread_ok st e" and "n \<le> i32_MAX"
  obtains st' wl' where "WaitList_WakeLocked m n st wl =
      returns (int (length (take (nat n) (filter (matches st m) xs))), st', wl')"
    "wl_ok st' wl' (unwoken (matches st m) (nat n) xs)"
    "changed (set xs) (keys_of (examined (matches st m) (nat n) xs) Key_default) st st'"
    "woke (set (take (nat n) (filter (matches st m) xs))) st st'"
    "\<forall>e \<in> set (take (nat n) (filter (matches st m) xs)). WaitEntry_InitState st' e"
proof -
  have "wl_ok st wl ([] @ xs)" using assms(1) by simp
  from WakeLocked_loop_ok [OF this assms(2,3) order.refl, of m, unfolded append_Nil diff_zero add_0] show thesis
    using that unfolding WaitList_WakeLocked_def wl_ok_front [OF assms(1)] by blast
qed

section \<open>Requeueing\<close>

lemma Requeue_step_ok:
  assumes me: "wl_ok st me (e # xs)" and "to": "wl_ok st to ys" and dis: "set (e # xs) \<inter> set ys = {}"
    and t: "thread_ok st e"
  obtains st1 st2 st3 me' to' where "WaitList_Remove e st me = Some (st1, me')"
    "WaitList_PushBack e st1 to = Ok (st2, to')" "WaitEntry_SetKey e k st2 = Ok st3"
    "wl_ok st3 me' xs" "wl_ok st3 to' (ys @ [e])"
    "changed (set (e # xs) \<union> set ys) [e \<mapsto> k] st st3" "woke {} st st3"
proof -
  have "wl_ok st me ([] @ e # xs)" using me by simp
  then obtain st1 me' where r: "WaitList_Remove e st me = Some (st1, me')" "wl_ok st1 me' xs"
      "WaitEntry_InitState st1 e" "relinked (set (e # xs)) st st1"
    by (rule Remove_ok) (auto intro: that)
  have to1: "wl_ok st1 to ys" using "to" r(4) by (rule wl_ok_frame) (use dis in auto)
  have e: "e < length (ws_entries st1)" "e \<notin> set ys"
    using me r(4) dis by (auto simp: wl_ok_def relinked_def)
  obtain st2 to' where p: "WaitList_PushBack e st1 to = Ok (st2, to')" "wl_ok st2 to' (ys @ [e])"
      "relinked (insert e (set ys)) st1 st2"
    by (rule PushBack_ok [OF to1 e r(3)], rule that)
  have me2: "wl_ok st2 me' xs" using r(2) p(3) by (rule wl_ok_frame) (use me dis in \<open>auto simp: wl_ok_def\<close>)
  have rl: "relinked (set (e # xs) \<union> set ys) st st2"
    by (rule relinked_mono [OF relinked_trans [OF r(4) p(3)]]) auto
  have ch: "changed (set (e # xs) \<union> set ys) Map.empty st st2" using rl by (rule relinked_changed)
  have wk: "woke {} st st2" using rl by (rule relinked_woke)
  have t2: "thread_ok st2 e" using t changed_thread_ok [OF ch wk] by simp
  have e2: "e < length (ws_entries st2)" using e(1) p(3) by (simp add: relinked_def)
  obtain st3 where s: "WaitEntry_SetKey e k st2 = Ok st3" "changed {} [e \<mapsto> k] st2 st3" "woke {} st2 st3"
    by (rule SetKey_ok [OF t2 e2, of k], rule that)
  have "wl_ok st3 me' xs" using me2 s(2) by (rule wl_ok_changed) simp
  moreover have "wl_ok st3 to' (ys @ [e])" using p(2) s(2) by (rule wl_ok_changed) simp
  moreover have "changed (set (e # xs) \<union> set ys) [e \<mapsto> k] st st3" using changed_trans [OF ch s(2)] by simp
  moreover have "woke {} st st3" using woke_trans [OF wk ch s(3)] by simp
  ultimately show thesis using r(1) p(1) s(1) that by blast
qed

lemma RequeueLocked_loop_ok:
  assumes "wl_ok st me xs" and "wl_ok st to ys" and "set xs \<inter> set ys = {}"
    and "\<forall>e \<in> set xs. thread_ok st e" and "n \<le> i32_MAX" and "0 \<le> d"
  shows "\<exists>st' me' to'. RequeueLocked_loop k n d (first_or None xs) st me to =
      returns (d + int (length (take (nat (n - d)) xs)), st', me', to') \<and>
    wl_ok st' me' (drop (nat (n - d)) xs) \<and> wl_ok st' to' (ys @ take (nat (n - d)) xs) \<and>
    changed (set xs \<union> set ys) (keys_of (take (nat (n - d)) xs) k) st st' \<and> woke {} st st'"
  using assms
proof (induction xs arbitrary: st me to ys d)
  case Nil
  then show ?case by (subst RequeueLocked_loop.simps) auto
next
  case (Cons e xs)
  show ?case
  proof (cases "d < n")
    case False
    then show ?thesis using Cons.prems by (subst RequeueLocked_loop.simps) auto
  next
    case True
    define c where "c = nat (n - (d + 1))"
    have c: "nat (n - d) = Suc c" "nat (n - (d + 1)) = c" using True by (simp_all add: c_def Suc_nat_eq_nat_zadd1)
    have "thread_ok st e" using Cons.prems(4) by simp
    from Requeue_step_ok [OF Cons.prems(1,2,3) this, of k] obtain st1 st2 st3 me' to' where s:
      "WaitList_Remove e st me = Some (st1, me')" "WaitList_PushBack e st1 to = Ok (st2, to')"
      "WaitEntry_SetKey e k st2 = Ok st3" "wl_ok st3 me' xs" "wl_ok st3 to' (ys @ [e])"
      "changed (set (e # xs) \<union> set ys) [e \<mapsto> k] st st3" "woke {} st st3" .
    have "we_next (entry st e) = first_or None xs" using Cons.prems(1) by (simp add: wl_ok_def)
    moreover have "i32 (d + 1) = d + 1" using True Cons.prems(5,6) by (intro i32_id) simp_all
    ultimately have loop: "RequeueLocked_loop k n d (first_or None (e # xs)) st me to =
        RequeueLocked_loop k n (d + 1) (first_or None xs) st3 me' to'"
      using True by (subst RequeueLocked_loop.simps) (simp add: s(1-3))
    have dis: "set xs \<inter> set (ys @ [e]) = {}" using Cons.prems(1,3) by (auto simp: wl_ok_def)
    have t: "\<forall>e \<in> set xs. thread_ok st3 e" using Cons.prems(4) changed_thread_ok [OF s(6,7)] by simp
    have "0 \<le> d + 1" using Cons.prems(6) by simp
    from Cons.IH [OF s(4,5) dis t Cons.prems(5) this, unfolded c(2)] obtain st4 me4 to4 where ih:
      "RequeueLocked_loop k n (d + 1) (first_or None xs) st3 me' to' =
         returns (d + 1 + int (length (take c xs)), st4, me4, to4)"
      "wl_ok st4 me4 (drop c xs)" "wl_ok st4 to4 ((ys @ [e]) @ take c xs)"
      "changed (set xs \<union> set (ys @ [e])) (keys_of (take c xs) k) st3 st4" "woke {} st3 st4"
      by blast
    have "changed (set (e # xs) \<union> set ys) (keys_of (take (Suc c) (e # xs)) k) st st4"
      using changed_mono [OF changed_trans [OF s(6) ih(4)], of "set (e # xs) \<union> set ys"] by (auto simp: keys_of_Cons)
    moreover have "woke {} st st4" using woke_trans [OF s(7,6) ih(5)] by simp
    ultimately show ?thesis unfolding loop ih(1) c(1) using ih(2,3) by simp
  qed
qed

lemma RequeueLocked_ok:
  assumes "wl_ok st me xs" and "wl_ok st to ys" and "set xs \<inter> set ys = {}"
    and "\<forall>e \<in> set xs. thread_ok st e" and "n \<le> i32_MAX"
  obtains st' me' to' where "WaitList_RequeueLocked k n st me to =
      returns (int (length (take (nat n) xs)), st', me', to')"
    "wl_ok st' me' (drop (nat n) xs)" "wl_ok st' to' (ys @ take (nat n) xs)"
    "changed (set xs \<union> set ys) (keys_of (take (nat n) xs) k) st st'" "woke {} st st'"
  using RequeueLocked_loop_ok [OF assms order.refl, of k, unfolded diff_zero add_0] that
  unfolding WaitList_RequeueLocked_def wl_ok_front [OF assms(1)] by blast

section \<open>Queues\<close>

lemma Reset_ok:
  assumes "wl_ok st wl xs"
  shows "\<exists>st'. WaitList_Reset st wl = Some (st', WaitList_default) \<and> (\<forall>e \<in> set xs. WaitEntry_InitState st' e) \<and>
    relinked (set xs) st st'"
proof -
  have reset: "\<exists>st'. Reset_entries (first_or None xs) st = Some st' \<and> (\<forall>e \<in> set xs. WaitEntry_InitState st' e) \<and>
      relinked (set xs) st st'"
    if "distinct xs" "\<forall>x \<in> set xs. x < length (ws_entries st)"
      "links (\<lambda>e. we_prev (entry st e)) (\<lambda>e. we_next (entry st e)) p xs None" for p xs and st :: wait_store
    using that
  proof (induction xs arbitrary: st p)
    case Nil
    then show ?case by (subst Reset_entries.simps) simp
  next
    case (Cons e xs)
    define st1 where "st1 = WaitEntry_Reset e st"
    have e: "e < length (ws_entries st)" "e \<notin> set xs" using Cons.prems(1,2) by auto
    have en: "entry st1 x = (if x = e then (entry st e)\<lparr>we_prev := None, we_next := None\<rparr> else entry st x)" for x
      using e(1) by (simp add: st1_def WaitEntry_Reset_def entry_update)
    have rl: "relinked {e} st st1"
    proof -
      have "length (ws_entries st1) = length (ws_entries st)" "ws_waiters st1 = ws_waiters st"
        "ws_scheduled st1 = ws_scheduled st" "ws_callbacks st1 = ws_callbacks st"
        by (simp_all add: st1_def WaitEntry_Reset_def)
      then show ?thesis by (simp add: relinked_def en)
    qed
    have "links (\<lambda>e. we_prev (entry st1 e)) (\<lambda>e. we_next (entry st1 e)) (Some e) xs None"
      by (rule links_same [of "\<lambda>e. we_prev (entry st e)" "\<lambda>e. we_next (entry st e)"])
        (use Cons.prems(3) e(2) in \<open>auto simp: en\<close>)
    moreover have "\<forall>x \<in> set xs. x < length (ws_entries st1)" using Cons.prems(2) rl by (simp add: relinked_def)
    ultimately obtain st2 where ih: "Reset_entries (first_or None xs) st1 = Some st2"
        "\<forall>x \<in> set xs. WaitEntry_InitState st2 x" "relinked (set xs) st1 st2"
      using Cons.IH [of st1 "Some e"] Cons.prems(1) by auto
    have "Reset_entries (first_or None (e # xs)) st = Some st2"
      using Cons.prems(3) ih(1) by (subst Reset_entries.simps) (simp add: st1_def)
    moreover have "WaitEntry_InitState st2 e"
      using ih(3) e(2) by (simp add: relinked_def WaitEntry_InitState_def en)
    moreover have "relinked (set (e # xs)) st st2" using relinked_trans [OF rl ih(3)] by simp
    ultimately show ?case using ih(2) by auto
  qed
  have "wl_head wl = first_or None xs" using assms by (simp add: wl_ok_def)
  then show ?thesis using reset [of xs st None] assms by (auto simp: wl_ok_def WaitList_Reset_def)
qed

text \<open>The plain list of a queue, and the queue operations on it.\<close>

definition plain :: "wait_store \<Rightarrow> nat list \<Rightarrow> (nat \<times> u64) list" where
  "plain st xs = map (\<lambda>e. (e, we_mask (entry st e))) xs"

lemma EventRegister_ok:
  assumes "wl_ok st q xs" and "e < length (ws_entries st)" and "e \<notin> set xs" and "WaitEntry_InitState st e"
  shows "\<exists>st' q'. WaitQueue_EventRegister e m st q = Ok (st', q') \<and> wl_ok st' q' (xs @ [e]) \<and>
    plain st' (xs @ [e]) = Queue_EventRegister e m (plain st xs)"
proof -
  define st1 where "st1 = WaitEntry_SetMask e m st"
  have en: "entry st1 x = (if x = e then (entry st e)\<lparr>we_mask := m\<rparr> else entry st x)" for x
    using assms(2) by (simp add: st1_def WaitEntry_SetMask_def entry_update)
  have len: "length (ws_entries st1) = length (ws_entries st)" by (simp add: st1_def WaitEntry_SetMask_def)
  have ok1: "wl_ok st1 q xs" using assms(1) len by (rule wl_ok_same) (simp add: en)
  have e1: "e < length (ws_entries st1)" "WaitEntry_InitState st1 e"
    using assms(2,4) len by (simp_all add: WaitEntry_InitState_def en)
  obtain st2 q' where p: "WaitList_PushBack e st1 q = Ok (st2, q')" "wl_ok st2 q' (xs @ [e])"
      "relinked (insert e (set xs)) st1 st2"
    by (rule PushBack_ok [OF ok1 e1(1) assms(3) e1(2)], rule that)
  have "plain st2 (xs @ [e]) = Queue_EventRegister e m (plain st xs)"
    using p(3) assms(3) by (auto simp: plain_def Queue_EventRegister_def relinked_def en)
  with p show ?thesis unfolding WaitQueue_EventRegister_def st1_def [symmetric] by blast
qed

lemma Clear_entries [simp]: "ws_entries (WaitEntry_Clear e st) = ws_entries st"
  by (simp add: WaitEntry_Clear_def WaitContext_Clear_def Waiter_Clear_def Let_def split: wait_context.split)

lemma EventUnregister_ok:
  assumes "wl_ok st q xs" and "e \<in> set xs"
  shows "\<exists>st' q' ys. WaitQueue_EventUnregister e st q = Some (st', q') \<and> wl_ok st' q' ys \<and>
    plain st' ys = Queue_EventUnregister e (plain st xs) \<and> WaitEntry_InitState st' e"
proof -
  obtain us vs where xs: "xs = us @ e # vs" using assms(2) by (auto simp: in_set_conv_decomp)
  have ok1: "wl_ok (WaitEntry_Clear e st) q (us @ e # vs)"
    using assms(1) unfolding xs by (rule wl_ok_same) simp_all
  obtain st2 q' where r: "WaitList_Remove e (WaitEntry_Clear e st) q = Some (st2, q')" "wl_ok st2 q' (us @ vs)"
      "WaitEntry_InitState st2 e" "relinked (set (us @ e # vs)) (WaitEntry_Clear e st) st2"
    by (rule Remove_ok [OF ok1], rule that)
  have "filter (\<lambda>x. x \<noteq> e) us = us" "filter (\<lambda>x. x \<noteq> e) vs = vs"
    using assms(1) by (auto simp: wl_ok_def xs filter_id_conv)
  then have "plain st2 (us @ vs) = Queue_EventUnregister e (plain st xs)"
    using r(4) by (simp add: plain_def Queue_EventUnregister_def xs relinked_def filter_map comp_def)
  with r show ?thesis unfolding WaitQueue_EventUnregister_def by blast
qed

lemma Notify_loop_ok:
  assumes "links (\<lambda>e. we_prev (entry st e)) (\<lambda>e. we_next (entry st e)) p xs None" and "\<forall>e \<in> set xs. thread_ok st e"
  shows "\<exists>st'. Notify_loop m (first_or None xs) st = returns st' \<and> ws_entries st' = ws_entries st \<and>
    woke (set (filter (matches st m) xs)) st st'"
  using assms
proof (induction xs arbitrary: st p)
  case Nil
  then show ?case by (subst Notify_loop.simps) simp
next
  case (Cons e xs)
  obtain st1 where n: "WaitEntry_Notify e m st = Ok (matches st m e, st1)" "ws_entries st1 = ws_entries st"
      "woke (if matches st m e then {e} else {}) st st1"
    by (rule Notify_ok [of st e m]) (use Cons.prems(2) that in auto)
  have ch: "changed {} Map.empty st st1" using n(2) by (simp add: changed_def)
  have "\<forall>e \<in> set xs. thread_ok st1 e" using Cons.prems(2) changed_thread_ok [OF ch n(3)] by simp
  with Cons.IH [of st1 "Some e"] Cons.prems(1) n(2) obtain st2 where
    ih: "Notify_loop m (first_or None xs) st1 = returns st2" "ws_entries st2 = ws_entries st"
      "woke (set (filter (matches st m) xs)) st1 st2" by auto
  have "Notify_loop m (first_or None (e # xs)) st = returns st2"
    using Cons.prems(1) ih(1) n(2) by (subst Notify_loop.simps) (simp add: n(1))
  moreover have "woke (set (filter (matches st m) (e # xs))) st st2"
    using woke_trans [OF n(3) ch ih(3)] by (cases "matches st m e") simp_all
  ultimately show ?case using ih(2) by blast
qed

lemma plain_Notify: "Queue_Notify m (plain st xs) = filter (matches st m) xs"
  by (induction xs) (simp_all add: Queue_Notify_def plain_def)

text \<open>C32. The linked wait queues implement plain lists of entries with masks: registering an idle
  entry appends it with its mask, unregistering an entry takes it out and leaves it idle, and a
  notification sets the waiter bits of exactly the entries whose mask meets the events.\<close>

theorem WaitQueue_refines:
  assumes "wl_ok st q xs" and "\<forall>x \<in> set xs. thread_ok st x" and "e < length (ws_entries st)"
  shows "(e \<notin> set xs \<and> WaitEntry_InitState st e \<longrightarrow>
      (\<exists>st' q'. WaitQueue_EventRegister e m st q = Ok (st', q') \<and> wl_ok st' q' (xs @ [e]) \<and>
         plain st' (xs @ [e]) = Queue_EventRegister e m (plain st xs))) \<and>
    (e \<in> set xs \<longrightarrow> (\<exists>st' q' ys. WaitQueue_EventUnregister e st q = Some (st', q') \<and> wl_ok st' q' ys \<and>
         plain st' ys = Queue_EventUnregister e (plain st xs) \<and> WaitEntry_InitState st' e)) \<and>
    (\<exists>st'. WaitQueue_Notify m st q = returns st' \<and> ws_entries st' = ws_entries st \<and>
       woke (set (Queue_Notify m (plain st xs))) st st')"
proof -
  have "links (\<lambda>e. we_prev (entry st e)) (\<lambda>e. we_next (entry st e)) None xs None"
    using assms(1) by (simp add: wl_ok_def)
  from Notify_loop_ok [OF this assms(2), of m]
  have "\<exists>st'. WaitQueue_Notify m st q = returns st' \<and> ws_entries st' = ws_entries st \<and>
      woke (set (Queue_Notify m (plain st xs))) st st'"
    by (simp add: WaitQueue_Notify_def wl_ok_front [OF assms(1)] plain_Notify)
  then show ?thesis
    using EventRegister_ok [OF assms(1,3)] EventUnregister_ok [OF assms(1)] by blast
qed

definition sample_entry :: "nat option \<Rightarrow> nat option \<Rightarrow> u64 \<Rightarrow> nat \<Rightarrow> key \<Rightarrow> wait_entry" where
  "sample_entry p n m w k = \<lparr>we_next = n, we_prev = p, we_mask = m,
     we_context = ThreadContext \<lparr>tc_waiterID = 0, tc_waiter = w, tc_tid = of_nat (w + 1), tc_key = k\<rparr>\<rparr>"

definition sample_store :: wait_store where
  "sample_store = \<lparr>ws_entries = [sample_entry None (Some 1) 1 0 Key_default, sample_entry (Some 0) None 4 1 Key_default,
       sample_entry None None 0 2 Key_default],
     ws_waiters = [Waiter_New 10, Waiter_New 11, Waiter_New 12], ws_scheduled = [], ws_callbacks = []\<rparr>"

lemma sample_store_ok: "wl_ok sample_store \<lparr>wl_head = Some 0, wl_tail = Some 1\<rparr> [0, 1]"
  "\<forall>x \<in> set [0, 1, 2]. thread_ok sample_store x"
  by (simp_all add: wl_ok_def sample_store_def sample_entry_def thread_ok_def first_or_def last_or_def TIMER_WAITID_def)

theorem WaitQueue_refines_witness:
  "(\<exists>st' q'. WaitQueue_EventRegister 2 1 sample_store \<lparr>wl_head = Some 0, wl_tail = Some 1\<rparr> = Ok (st', q') \<and>
      wl_ok st' q' ([0, 1] @ [2]) \<and> plain st' ([0, 1] @ [2]) = Queue_EventRegister 2 1 (plain sample_store [0, 1])) \<and>
   (\<exists>st'. WaitQueue_Notify 4 sample_store \<lparr>wl_head = Some 0, wl_tail = Some 1\<rparr> = returns st' \<and> woke {1} sample_store st')"
proof -
  have n: "set (Queue_Notify 4 (plain sample_store [0, 1])) = {1}"
    by (simp add: plain_def Queue_Notify_def sample_store_def sample_entry_def)
  have t: "\<forall>x \<in> set [0, 1]. thread_ok sample_store x" using sample_store_ok(2) by simp
  have l: "2 < length (ws_entries sample_store)" "2 \<notin> set [0 :: nat, 1] \<and> WaitEntry_InitState sample_store 2"
    by (simp_all add: sample_store_def sample_entry_def WaitEntry_InitState_def)
  show ?thesis
    using WaitQueue_refines [OF sample_store_ok(1) t l(1), of 1] WaitQueue_refines [OF sample_store_ok(1) t l(1), of 4]
      l(2) n by auto
qed

end
