(* ===== verification/Futex_Props.thy ===== *)
theory Futex_Props
  imports Futex Wait_Loops
begin

text \<open>
  What the bookkeeping of the futex manager amounts to. \<open>view m w\<close> gives the queue of every key, empty
  where the bucket has none: creating a queue and removing an empty one do not show. \<open>buckets_ok m L w\<close>
  says that the buckets of \<open>m\<close> are well formed and that exactly the locks in \<open>L\<close> are taken.
\<close>

section \<open>Buckets and locks\<close>

abbreviation view :: "futex_mgr \<Rightarrow> futex_world \<Rightarrow> key \<Rightarrow> wait_list" where
  "view m w \<equiv> (\<lambda>k. queue_at m k w)"

definition lock_of :: "futex_mgr \<Rightarrow> key \<Rightarrow> nat \<times> nat" where
  "lock_of m k = (bucket_of m k, Key_HashCode k)"

definition bucket_ok :: "nat \<Rightarrow> (nat \<times> nat) set \<Rightarrow> futex_world \<Rightarrow> bool" where
  "bucket_ok b L w \<longleftrightarrow> b < length (fw_buckets w) \<and> bt_wf (bk_map (fw_buckets w ! b)) \<and>
     length (bk_locks (fw_buckets w ! b)) = BUCKET_COUNT \<and>
     (\<forall>i < BUCKET_COUNT. bk_locks (fw_buckets w ! b) ! i \<longleftrightarrow> (b, i) \<in> L)"

definition buckets_ok :: "futex_mgr \<Rightarrow> (nat \<times> nat) set \<Rightarrow> futex_world \<Rightarrow> bool" where
  "buckets_ok m L w \<longleftrightarrow> bucket_ok (fx_private m) L w \<and> bucket_ok (fx_shared m) L w"

lemma buckets_ok_of: "buckets_ok m L w \<Longrightarrow> bucket_ok (bucket_of m k) L w"
  by (simp add: buckets_ok_def bucket_of_def)

lemma HashCode_less: "Key_HashCode k < BUCKET_COUNT"
  by (simp add: Key_HashCode_def BUCKET_COUNT_def Let_def)

lemma buckets_ok_other [simp]: "buckets_ok m L (w\<lparr>fw_store := st\<rparr>) = buckets_ok m L w"
  "buckets_ok m L (w\<lparr>fw_mem := mem\<rparr>) = buckets_ok m L w"
  by (simp_all add: buckets_ok_def bucket_ok_def)

lemma queue_at_other [simp]: "queue_at m k (w\<lparr>fw_store := st\<rparr>) = queue_at m k w"
  "queue_at m k (w\<lparr>fw_mem := mem\<rparr>) = queue_at m k w"
  by (simp_all add: queue_at_def Bucket_GetQueue_def)

lemma update_bucket_other [simp]: "fw_store (update_bucket b f w) = fw_store w"
  "fw_mem (update_bucket b f w) = fw_mem w"
  by (simp_all add: update_bucket_def)

lemma bucket_at_update: "b < length (fw_buckets w) \<Longrightarrow>
    fw_buckets (update_bucket b f w) ! x = (if x = b then f (fw_buckets w ! b) else fw_buckets w ! x)"
  by (simp add: update_bucket_def nth_list_update)

lemma length_update_bucket [simp]: "length (fw_buckets (update_bucket b f w)) = length (fw_buckets w)"
  by (simp add: update_bucket_def)

text \<open>Taking and releasing a lock.\<close>

lemma lock_ok:
  assumes "buckets_ok m L w" and "lock_of m k \<notin> L"
  obtains w' where "Bucket_Lock (bucket_of m k) k w = Some (Ok (), w')" "buckets_ok m (insert (lock_of m k) L) w'"
    "view m w' = view m w" "fw_store w' = fw_store w" "fw_mem w' = fw_mem w"
    "\<And>k. Bucket_GetQueue (bucket_of m k) k w' = Bucket_GetQueue (bucket_of m k) k w"
proof -
  let ?b = "bucket_of m k" and ?f = "\<lambda>bk. bk\<lparr>bk_locks := (bk_locks bk)[Key_HashCode k := True]\<rparr>"
  note b = buckets_ok_of [OF assms(1), of k]
  have bl: "?b < length (fw_buckets w)" using b by (simp add: bucket_ok_def)
  have "Bucket_Lock ?b k w = Some (Ok (), update_bucket ?b ?f w)"
    using b assms(2) HashCode_less [of k] by (simp add: Bucket_Lock_def Let_def bucket_ok_def lock_of_def)
  moreover have gq: "Bucket_GetQueue b' k' (update_bucket ?b ?f w) = Bucket_GetQueue b' k' w" for b' k'
    using bl by (simp add: Bucket_GetQueue_def bucket_at_update)
  moreover have "bucket_ok b' (insert (lock_of m k) L) (update_bucket ?b ?f w)" if "bucket_ok b' L w" for b'
    using that b bl HashCode_less [of k] by (auto simp: bucket_ok_def bucket_at_update lock_of_def nth_list_update)
  ultimately show thesis
    using assms(1) by (intro that [of "update_bucket ?b ?f w"]) (simp_all add: buckets_ok_def queue_at_def)
qed

lemma unlock_ok:
  assumes "buckets_ok m L w"
  shows "buckets_ok m (L - {lock_of m k}) (futex_unlock m k w)"
    and "view m (futex_unlock m k w) = view m w"
    and "fw_store (futex_unlock m k w) = fw_store w" and "fw_mem (futex_unlock m k w) = fw_mem w"
proof -
  let ?b = "bucket_of m k" and ?f = "\<lambda>bk. bk\<lparr>bk_locks := (bk_locks bk)[Key_HashCode k := False]\<rparr>"
  note b = buckets_ok_of [OF assms(1), of k]
  have bl: "?b < length (fw_buckets w)" using b by (simp add: bucket_ok_def)
  have u: "futex_unlock m k w = update_bucket ?b ?f w" by (simp add: futex_unlock_def Bucket_Unlock_def Let_def)
  have "bucket_ok b' (L - {lock_of m k}) (update_bucket ?b ?f w)" if "bucket_ok b' L w" for b'
    using that b bl HashCode_less [of k] by (auto simp: bucket_ok_def bucket_at_update lock_of_def nth_list_update)
  then show "buckets_ok m (L - {lock_of m k}) (futex_unlock m k w)" using assms by (simp add: u buckets_ok_def)
  show "view m (futex_unlock m k w) = view m w"
    using bl by (simp add: u queue_at_def Bucket_GetQueue_def bucket_at_update fun_eq_iff)
qed (simp_all add: futex_unlock_def Bucket_Unlock_def Let_def)

text \<open>Changes of the maps.\<close>

lemma map_change:
  assumes "buckets_ok m L w" and "bt_wf (bk_map (fw_buckets w ! bucket_of m k)) \<Longrightarrow> bt_wf mp"
  shows "buckets_ok m L (update_bucket (bucket_of m k) (\<lambda>bk. bk\<lparr>bk_map := mp\<rparr>) w)"
  using assms buckets_ok_of [OF assms(1), of k]
  by (auto simp: buckets_ok_def bucket_ok_def bucket_at_update)

lemma view_map_change:
  assumes "buckets_ok m L w"
  shows "Bucket_GetQueue (bucket_of m k') k' (update_bucket (bucket_of m k) (\<lambda>bk. bk\<lparr>bk_map := f (bk_map bk)\<rparr>) w) =
    (if bucket_of m k' = bucket_of m k then bt_get (f (bk_map (fw_buckets w ! bucket_of m k))) k'
     else Bucket_GetQueue (bucket_of m k') k' w)"
  using buckets_ok_of [OF assms, of k] by (simp add: Bucket_GetQueue_def bucket_at_update bucket_ok_def)

lemma update_bucket_at: "update_bucket b (\<lambda>bk. bk\<lparr>bk_map := f (bk_map bk)\<rparr>) w =
    update_bucket b (\<lambda>bk. bk\<lparr>bk_map := f (bk_map (fw_buckets w ! b))\<rparr>) w"
  by (simp add: update_bucket_def)

lemma put_queue_ok:
  assumes "buckets_ok m L w"
  shows "buckets_ok m L (put_queue m k q w)" and "view m (put_queue m k q w) = (view m w)(k := q)"
    and "fw_store (put_queue m k q w) = fw_store w" and "fw_mem (put_queue m k q w) = fw_mem w"
proof -
  note b = buckets_ok_of [OF assms(1), of k]
  show "buckets_ok m L (put_queue m k q w)"
    unfolding put_queue_def update_bucket_at by (rule map_change [OF assms]) (rule bt_wf_insert)
  have "bt_wf (bk_map (fw_buckets w ! bucket_of m k))" using b by (simp add: bucket_ok_def)
  then show "view m (put_queue m k q w) = (view m w)(k := q)"
    using view_map_change [OF assms, of _ k "bt_insert k q"]
    by (auto simp: fun_eq_iff queue_at_def put_queue_def bt_get_insert Bucket_GetQueue_def)
qed (simp_all add: put_queue_def)

lemma create_ok:
  assumes "buckets_ok m L w"
  shows "buckets_ok m L (Bucket_GetCreateQueues (bucket_of m k) k w)"
    and "view m (Bucket_GetCreateQueues (bucket_of m k) k w) = view m w"
    and "fw_store (Bucket_GetCreateQueues (bucket_of m k) k w) = fw_store w"
    and "fw_mem (Bucket_GetCreateQueues (bucket_of m k) k w) = fw_mem w"
proof -
  have c: "Bucket_GetCreateQueues (bucket_of m k) k w =
      (if Bucket_GetQueue (bucket_of m k) k w = None then put_queue m k WaitList_default w else w)"
    by (simp add: Bucket_GetCreateQueues_def Bucket_GetQueue_def put_queue_def split: option.split)
  note p = put_queue_ok [OF assms, of k WaitList_default]
  have "(view m w)(k := WaitList_default) = view m w" if "Bucket_GetQueue (bucket_of m k) k w = None"
    using that by (simp add: fun_eq_iff queue_at_def)
  then show "view m (Bucket_GetCreateQueues (bucket_of m k) k w) = view m w" unfolding c using p(2) by simp
  show "buckets_ok m L (Bucket_GetCreateQueues (bucket_of m k) k w)" unfolding c using assms p(1) by simp
  show "fw_store (Bucket_GetCreateQueues (bucket_of m k) k w) = fw_store w"
    "fw_mem (Bucket_GetCreateQueues (bucket_of m k) k w) = fw_mem w" unfolding c using p(3,4) by simp_all
qed

lemma drop_empty_ok:
  assumes "buckets_ok m L w" and "WaitList_Empty (queue_at m k w) \<Longrightarrow> queue_at m k w = WaitList_default"
  shows "buckets_ok m L (drop_empty m k w)" and "view m (drop_empty m k w) = view m w"
    and "fw_store (drop_empty m k w) = fw_store w" and "fw_mem (drop_empty m k w) = fw_mem w"
proof -
  have "buckets_ok m L (removeQueue m k w)"
    unfolding removeQueue_def Bucket_RemoveQueue_def update_bucket_at by (rule map_change [OF assms(1)]) (rule bt_wf_remove)
  then show "buckets_ok m L (drop_empty m k w)" using assms(1) by (simp add: drop_empty_def)
  have "queue_at m k' (removeQueue m k w) = (if k' = k then WaitList_default else queue_at m k' w)" for k'
    using view_map_change [OF assms(1), of k' k "bt_remove k"]
    by (auto simp: queue_at_def removeQueue_def Bucket_RemoveQueue_def bt_get_remove Bucket_GetQueue_def)
  then show "view m (drop_empty m k w) = view m w" using assms(2) by (auto simp: drop_empty_def fun_eq_iff)
qed (simp_all add: drop_empty_def removeQueue_def Bucket_RemoveQueue_def)

lemma lockQueueWithCreate_ok:
  assumes "buckets_ok m L w" and "lock_of m k \<notin> L"
  obtains w' where "lockQueueWithCreate m k w = Some (Ok (), w')" "buckets_ok m (insert (lock_of m k) L) w'"
    "view m w' = view m w" "fw_store w' = fw_store w" "fw_mem w' = fw_mem w"
proof -
  obtain w1 where l: "Bucket_Lock (bucket_of m k) k w = Some (Ok (), w1)" "buckets_ok m (insert (lock_of m k) L) w1"
      "view m w1 = view m w" "fw_store w1 = fw_store w" "fw_mem w1 = fw_mem w"
    by (rule lock_ok [OF assms], rule that)
  note c = create_ok [OF l(2), of k]
  have "lockQueueWithCreate m k w = Some (Ok (), Bucket_GetCreateQueues (bucket_of m k) k w1)"
    by (simp add: lockQueueWithCreate_def fx_bind_def l(1))
  then show thesis
    by (rule that) (use c l(3-5) in simp_all)
qed

text \<open>The two locks of a requeue are taken unless the keys collide; then only the first one is. The
  releases leave no lock taken in either case.\<close>

lemma lockQueues_ok:
  assumes "buckets_ok m {} w" and "k1 \<noteq> k2"
  obtains w' L where "lockQueues m k1 k2 w = Some (Ok (), w')" "buckets_ok m L w'"
    "L \<subseteq> {lock_of m k1, lock_of m k2}" "lock_of m k1 \<in> L"
    "Key_HashCode k1 \<noteq> Key_HashCode k2 \<Longrightarrow> lock_of m k2 \<in> L"
    "Key_HashCode k1 = Key_HashCode k2 \<Longrightarrow> L = {lock_of m k1}"
    "view m w' = view m w" "fw_store w' = fw_store w" "fw_mem w' = fw_mem w"
proof -
  have two: "\<exists>w'. fx_bind (lockQueueOnly m a) (\<lambda>_. lockQueueOnly m b) w = Some (Ok (), w') \<and>
      buckets_ok m {lock_of m a, lock_of m b} w' \<and> view m w' = view m w \<and> fw_store w' = fw_store w \<and> fw_mem w' = fw_mem w"
    if "Key_HashCode a \<noteq> Key_HashCode b" for a b
  proof -
    obtain w1 where 1: "Bucket_Lock (bucket_of m a) a w = Some (Ok (), w1)" "buckets_ok m {lock_of m a} w1"
        "view m w1 = view m w" "fw_store w1 = fw_store w" "fw_mem w1 = fw_mem w"
      by (rule lock_ok [OF assms(1), of a]) (use that in auto)
    have "lock_of m b \<notin> {lock_of m a}" using that by (simp add: lock_of_def)
    then obtain w2 where 2: "Bucket_Lock (bucket_of m b) b w1 = Some (Ok (), w2)"
        "buckets_ok m (insert (lock_of m b) {lock_of m a}) w2"
        "view m w2 = view m w1" "fw_store w2 = fw_store w1" "fw_mem w2 = fw_mem w1"
      by (rule lock_ok [OF 1(2)]) (use that in auto)
    show ?thesis using 1 2 by (simp add: fx_bind_def lockQueueOnly_def insert_commute)
  qed
  obtain w1 L where l: "(if Key_HashCode k1 < Key_HashCode k2 then fx_bind (lockQueueOnly m k1) (\<lambda>_. lockQueueOnly m k2)
      else if Key_HashCode k1 > Key_HashCode k2 then fx_bind (lockQueueOnly m k2) (\<lambda>_. lockQueueOnly m k1)
      else lockQueueOnly m k1) w = Some (Ok (), w1)" "buckets_ok m L w1"
      "L \<subseteq> {lock_of m k1, lock_of m k2}" "lock_of m k1 \<in> L"
      "Key_HashCode k1 \<noteq> Key_HashCode k2 \<Longrightarrow> lock_of m k2 \<in> L" "Key_HashCode k1 = Key_HashCode k2 \<Longrightarrow> L = {lock_of m k1}"
      "view m w1 = view m w" "fw_store w1 = fw_store w" "fw_mem w1 = fw_mem w"
  proof (cases "Key_HashCode k1 = Key_HashCode k2")
    case True
    obtain w1 where 1: "Bucket_Lock (bucket_of m k1) k1 w = Some (Ok (), w1)" "buckets_ok m {lock_of m k1} w1"
        "view m w1 = view m w" "fw_store w1 = fw_store w" "fw_mem w1 = fw_mem w"
      by (rule lock_ok [OF assms(1), of k1]) (use that in auto)
    show thesis using 1 True by (intro that [of w1 "{lock_of m k1}"]) (simp_all add: lockQueueOnly_def)
  next
    case False
    obtain w1 where "(if Key_HashCode k1 < Key_HashCode k2 then fx_bind (lockQueueOnly m k1) (\<lambda>_. lockQueueOnly m k2)
        else fx_bind (lockQueueOnly m k2) (\<lambda>_. lockQueueOnly m k1)) w = Some (Ok (), w1)"
        "buckets_ok m {lock_of m k1, lock_of m k2} w1"
        "view m w1 = view m w" "fw_store w1 = fw_store w" "fw_mem w1 = fw_mem w"
      using two [of k1 k2] two [of k2 k1] False
      by (cases "Key_HashCode k1 < Key_HashCode k2") (auto simp: insert_commute)
    then show thesis using False by (intro that [of w1 "{lock_of m k1, lock_of m k2}"]) (auto simp: not_less split: if_splits)
  qed
  note c1 = create_ok [OF l(2), of k1]
  note c2 = create_ok [OF c1(1), of k2]
  have "lockQueues m k1 k2 w = Some (Ok (), FutexMgr_GetCreateQueues m k2 (FutexMgr_GetCreateQueues m k1 w1))"
    using l(1) assms(2) by (simp add: lockQueues_def Let_def fx_bind_def [of "if _ then _ else _"])
  then show thesis
    using c1 c2 l by (intro that [of "FutexMgr_GetCreateQueues m k2 (FutexMgr_GetCreateQueues m k1 w1)" L])
      (simp_all add: FutexMgr_GetCreateQueues_def)
qed

lemma unlock_both_ok:
  assumes "buckets_ok m L w" and "L \<subseteq> {lock_of m k1, lock_of m k2}"
  shows "buckets_ok m {} (unlock_both m k1 k2 w)" and "view m (unlock_both m k1 k2 w) = view m w"
    and "fw_store (unlock_both m k1 k2 w) = fw_store w" and "fw_mem (unlock_both m k1 k2 w) = fw_mem w"
proof -
  note u1 = unlock_ok [OF assms(1), of k1]
  note u2 = unlock_ok [OF u1(1), of k2]
  have e: "L - {lock_of m k1} - {lock_of m k2} = {}" using assms(2) by auto
  show "buckets_ok m {} (unlock_both m k1 k2 w)" using u2(1) unfolding e unlock_both_def .
  show "view m (unlock_both m k1 k2 w) = view m w" "fw_store (unlock_both m k1 k2 w) = fw_store w"
    "fw_mem (unlock_both m k1 k2 w) = fw_mem w" using u1 u2 by (simp_all add: unlock_both_def)
qed

section \<open>Queues\<close>

text \<open>\<open>queues_ok st V Q\<close>: the queue \<open>V k\<close> holds the entries \<open>Q k\<close>, no entry is in two queues, and an entry
  in no queue has no links. \<open>keyed st Q\<close>: the entries know their queue.\<close>

definition queues_ok :: "wait_store \<Rightarrow> (key \<Rightarrow> wait_list) \<Rightarrow> (key \<Rightarrow> nat list) \<Rightarrow> bool" where
  "queues_ok st V Q \<longleftrightarrow> (\<forall>k. wl_ok st (V k) (Q k)) \<and>
     (\<forall>k k'. k \<noteq> k' \<longrightarrow> set (Q k) \<inter> set (Q k') = {}) \<and>
     (\<forall>k. \<forall>e \<in> set (Q k). thread_ok st e) \<and>
     (\<forall>e < length (ws_entries st). (\<forall>k. e \<notin> set (Q k)) \<longrightarrow> WaitEntry_InitState st e)"

definition futex_ok :: "futex_mgr \<Rightarrow> futex_world \<Rightarrow> (key \<Rightarrow> nat list) \<Rightarrow> bool" where
  "futex_ok m w Q \<longleftrightarrow> buckets_ok m {} w \<and> queues_ok (fw_store w) (view m w) Q"

definition keyed :: "wait_store \<Rightarrow> (key \<Rightarrow> nat list) \<Rightarrow> bool" where
  "keyed st Q \<longleftrightarrow> Q Key_default = [] \<and> (\<forall>k. \<forall>e \<in> set (Q k). key_of st e = Some k)"

lemma queues_change:
  assumes ok: "queues_ok st V Q" and wl: "\<And>k. k \<in> K \<Longrightarrow> wl_ok st' (V' k) (Q' k)"
    and same: "\<And>k. k \<notin> K \<Longrightarrow> V' k = V k \<and> Q' k = Q k"
    and ch: "changed E ks st st'" and wk: "woke W st st'"
    and inE: "\<And>k. k \<in> K \<Longrightarrow> set (Q k) \<subseteq> E" and outE: "\<And>k. k \<notin> K \<Longrightarrow> set (Q k) \<inter> E = {}"
    and dis: "\<And>k k'. k \<noteq> k' \<Longrightarrow> set (Q' k) \<inter> set (Q' k') = {}"
    and t: "\<And>k e. k \<in> K \<Longrightarrow> e \<in> set (Q' k) \<Longrightarrow> thread_ok st e"
    and idle: "\<And>e. e \<in> E \<Longrightarrow> (\<And>k. e \<notin> set (Q' k)) \<Longrightarrow> WaitEntry_InitState st' e"
  shows "queues_ok st' V' Q'"
proof -
  have "wl_ok st' (V' k) (Q' k)" for k
  proof (cases "k \<in> K")
    case False
    then show ?thesis using same ok wl_ok_changed [OF _ ch, of "V k" "Q k"] outE by (simp add: queues_ok_def)
  qed (rule wl)
  moreover have "thread_ok st' e" if "e \<in> set (Q' k)" for k e
    using that t same [of k] ok changed_thread_ok [OF ch wk] by (cases "k \<in> K") (auto simp: queues_ok_def)
  moreover have "WaitEntry_InitState st' e" if e: "e < length (ws_entries st')" "\<forall>k. e \<notin> set (Q' k)" for e
  proof (cases "e \<in> E")
    case False
    have "e \<notin> set (Q k)" for k using e(2) [rule_format, of k] False inE [of k] same [of k] by (cases "k \<in> K") auto
    moreover have "e < length (ws_entries st)" using e(1) ch by (simp add: changed_def)
    ultimately show ?thesis using ok changed_InitState [OF ch False] by (simp add: queues_ok_def)
  qed (use idle e in blast)
  ultimately show ?thesis using dis by (simp add: queues_ok_def)
qed

text \<open>The change of one queue.\<close>

lemma queues_change_one:
  assumes ok: "queues_ok st V Q" and "wl_ok st' q xs" and "changed E ks st st'" and "woke W st st'"
    and "set (Q k) \<subseteq> E" and "\<And>k'. k' \<noteq> k \<Longrightarrow> set (Q k') \<inter> E = {}" and "set xs \<subseteq> E"
    and "\<And>e. e \<in> set xs \<Longrightarrow> thread_ok st e" and "\<And>e. e \<in> E \<Longrightarrow> e \<notin> set xs \<Longrightarrow> WaitEntry_InitState st' e"
  shows "queues_ok st' (V(k := q)) (Q(k := xs))"
proof (rule queues_change [OF ok, where K = "{k}" and E = E and ks = ks and W = W])
  show "set ((Q(k := xs)) a) \<inter> set ((Q(k := xs)) b) = {}" if "a \<noteq> b" for a b
    using that ok assms(6,7) by (auto simp: queues_ok_def)
  show "WaitEntry_InitState st' e" if "e \<in> E" "\<And>k'. e \<notin> set ((Q(k := xs)) k')" for e
    using that(2) [of k] assms(9) [OF that(1)] by simp
qed (use assms in auto)

lemma queues_wl: "queues_ok st V Q \<Longrightarrow> wl_ok st (V k) (Q k)"
  by (simp add: queues_ok_def)

lemma queues_thread: "queues_ok st V Q \<Longrightarrow> e \<in> set (Q k) \<Longrightarrow> thread_ok st e"
  by (auto simp: queues_ok_def)

lemma queues_disjoint: "queues_ok st V Q \<Longrightarrow> k \<noteq> k' \<Longrightarrow> set (Q k) \<inter> set (Q k') = {}"
  by (simp add: queues_ok_def)

section \<open>Waking\<close>

lemma with_wake_ok:
  fixes msk :: u64
  assumes b: "buckets_ok m L w" and ok: "queues_ok (fw_store w) (view m w) Q" and n: "n \<le> i32_MAX"
  defines "P \<equiv> matches (fw_store w) msk"
  obtains w' where "with_queue m k (WaitList_WakeLocked msk n) w =
      Some (Ok (int (length (take (nat n) (filter P (Q k))))), w')"
    "buckets_ok m L w'" "queues_ok (fw_store w') (view m w') (Q(k := unwoken P (nat n) (Q k)))"
    "changed (set (Q k)) (keys_of (examined P (nat n) (Q k)) Key_default) (fw_store w) (fw_store w')"
    "woke (set (take (nat n) (filter P (Q k)))) (fw_store w) (fw_store w')" "fw_mem w' = fw_mem w"
proof -
  have t: "\<forall>e \<in> set (Q k). thread_ok (fw_store w) e" using ok by (simp add: queues_ok_def)
  obtain st' q where k: "WaitList_WakeLocked msk n (fw_store w) (queue_at m k w) =
      returns (int (length (take (nat n) (filter P (Q k)))), st', q)"
      "wl_ok st' q (unwoken P (nat n) (Q k))"
      "changed (set (Q k)) (keys_of (examined P (nat n) (Q k)) Key_default) (fw_store w) st'"
      "woke (set (take (nat n) (filter P (Q k)))) (fw_store w) st'"
      "\<forall>e \<in> set (take (nat n) (filter P (Q k))). WaitEntry_InitState st' e"
    by (rule WakeLocked_ok [OF queues_wl [OF ok, of k] t n, of msk, folded P_def], rule that)
  have d: "distinct (Q k)" using queues_wl [OF ok, of k] by (simp add: wl_ok_def)
  have un: "set (unwoken P (nat n) (Q k)) = set (Q k) - set (take (nat n) (filter P (Q k)))"
    unfolding unwoken_filter [OF d] by auto
  let ?w = "put_queue m k q (w\<lparr>fw_store := st'\<rparr>)"
  have b1: "buckets_ok m L (w\<lparr>fw_store := st'\<rparr>)" using b by simp
  note p = put_queue_ok [OF b1, of k q]
  have "queues_ok st' ((view m w)(k := q)) (Q(k := unwoken P (nat n) (Q k)))"
    using ok k(2-4) by (rule queues_change_one) (use un t k(5) queues_disjoint [OF ok] in auto)
  then have "queues_ok (fw_store ?w) (view m ?w) (Q(k := unwoken P (nat n) (Q k)))" using p by simp
  moreover have "with_queue m k (WaitList_WakeLocked msk n) w = Some (Ok (int (length (take (nat n) (filter P (Q k))))), ?w)"
    by (simp add: with_queue_def k(1))
  ultimately show thesis using p k(3,4) by (intro that [of ?w]) simp_all
qed

lemma queues_drop_empty:
  assumes "buckets_ok m L w" and "queues_ok (fw_store w) (view m w) Q"
  shows "buckets_ok m L (drop_empty m k w)" and "view m (drop_empty m k w) = view m w"
    and "fw_store (drop_empty m k w) = fw_store w" and "fw_mem (drop_empty m k w) = fw_mem w"
proof -
  have "queue_at m k w = WaitList_default" if "WaitList_Empty (queue_at m k w)"
    using queues_wl [OF assms(2), of k] that wl_ok_empty wl_ok_Nil by auto
  note d = drop_empty_ok [OF assms(1) this]
  show "buckets_ok m L (drop_empty m k w)" "view m (drop_empty m k w) = view m w"
    "fw_store (drop_empty m k w) = fw_store w" "fw_mem (drop_empty m k w) = fw_mem w" by (rule d, assumption)+
qed

lemma Wake_ok:
  fixes bitmask :: u32
  assumes ok: "futex_ok m w Q" and key: "Getkey (fw_mem w) addr private = Ok k" and n: "n \<le> i32_MAX"
  defines "P \<equiv> matches (fw_store w) (ucast bitmask)"
  obtains w' where "FutexMgr_Wake m addr private bitmask n w =
      Some (Ok (int (length (take (nat n) (filter P (Q k))))), w')"
    "futex_ok m w' (Q(k := unwoken P (nat n) (Q k)))"
    "changed (set (Q k)) (keys_of (examined P (nat n) (Q k)) Key_default) (fw_store w) (fw_store w')"
    "woke (set (take (nat n) (filter P (Q k)))) (fw_store w) (fw_store w')" "fw_mem w' = fw_mem w"
proof -
  have b: "buckets_ok m {} w" and q: "queues_ok (fw_store w) (view m w) Q" using ok by (simp_all add: futex_ok_def)
  have nl: "lock_of m k \<notin> {}" by simp
  obtain w1 where l: "Bucket_Lock (bucket_of m k) k w = Some (Ok (), w1)" "buckets_ok m (insert (lock_of m k) {}) w1"
      "view m w1 = view m w" "fw_store w1 = fw_store w" "fw_mem w1 = fw_mem w"
      "\<And>k. Bucket_GetQueue (bucket_of m k) k w1 = Bucket_GetQueue (bucket_of m k) k w"
    by (rule lock_ok [OF b nl], rule that)
  have lq: "lockQueue m k w = Some (Ok (Bucket_GetQueue (bucket_of m k) k w), w1)"
    by (simp add: lockQueue_def fx_bind_def l)
  show thesis
  proof (cases "Bucket_GetQueue (bucket_of m k) k w")
    case None
    then have "wl_ok (fw_store w) WaitList_default (Q k)"
      using queues_wl [OF q, of k] by (simp add: queue_at_def)
    then have "Q k = []" using wl_ok_empty [of "fw_store w" WaitList_default] by (simp add: WaitList_Empty_def WaitList_default_def)
    moreover have "Q(k := []) = Q" if "Q k = []" using that by (simp add: fun_upd_idem)
    moreover have "FutexMgr_Wake m addr private bitmask n w = Some (Ok 0, futex_unlock m k w1)"
      by (simp add: FutexMgr_Wake_def key fx_bind_def lq None)
    ultimately show thesis
      using unlock_ok [OF l(2), of k] l q by (intro that [of "futex_unlock m k w1"]) (simp_all add: futex_ok_def)
  next
    case (Some q0)
    have q1: "queues_ok (fw_store w1) (view m w1) Q" using q l by simp
    obtain w2 where w2: "with_queue m k (WaitList_WakeLocked (ucast bitmask) n) w1 =
        Some (Ok (int (length (take (nat n) (filter P (Q k))))), w2)"
        "buckets_ok m (insert (lock_of m k) {}) w2" "queues_ok (fw_store w2) (view m w2) (Q(k := unwoken P (nat n) (Q k)))"
        "changed (set (Q k)) (keys_of (examined P (nat n) (Q k)) Key_default) (fw_store w1) (fw_store w2)"
        "woke (set (take (nat n) (filter P (Q k)))) (fw_store w1) (fw_store w2)" "fw_mem w2 = fw_mem w1"
      unfolding P_def l(4) [symmetric]
      by (rule with_wake_ok [OF l(2) q1 n, of k "ucast bitmask"]) (rule that [unfolded P_def l(4) [symmetric]])
    note d = queues_drop_empty [OF w2(2,3), of k]
    note u = unlock_ok [OF d(1), of k]
    have "FutexMgr_Wake m addr private bitmask n w =
        Some (Ok (int (length (take (nat n) (filter P (Q k))))), futex_unlock m k (drop_empty m k w2))"
      by (simp add: FutexMgr_Wake_def key fx_bind_def lq Some w2(1))
    then show thesis
      using u d w2 l by (intro that [of "futex_unlock m k (drop_empty m k w2)"]) (simp_all add: futex_ok_def)
  qed
qed

section \<open>Waiting\<close>

definition triggered :: "wait_store \<Rightarrow> nat \<Rightarrow> bool" where
  "triggered st e \<longleftrightarrow> (case we_context (entry st e) of
     ThreadContext c \<Rightarrow> bit (wt_bitmap (ws_waiters st ! tc_waiter c)) (unat (tc_waiterID c)) | _ \<Rightarrow> False)"

lemma woke_triggered: "woke W st st' \<Longrightarrow> changed E ks st st' \<Longrightarrow> thread_ok st e \<Longrightarrow> e \<in> W \<Longrightarrow> triggered st' e"
proof -
  assume a: "woke W st st'" "changed E ks st st'" "thread_ok st e" "e \<in> W"
  obtain c where c: "we_context (entry st e) = ThreadContext c" "tc_waiter c < length (ws_waiters st)"
    using a(3) by (auto simp: thread_ok_def split: wait_context.splits)
  have "wakes_at st e (tc_waiter c) (unat (tc_waiterID c))" by (simp add: wakes_at_def c)
  then have "bit (wt_bitmap (ws_waiters st' ! tc_waiter c)) (unat (tc_waiterID c))"
    using a(1,4) c(2) by (auto simp: woke_def)
  moreover obtain c' where "we_context (entry st' e) = ThreadContext c'" "tc_waiter c' = tc_waiter c" "tc_waiterID c' = tc_waiterID c"
    using a(2) c(1) by (cases "ks e") (auto simp: changed_def set_key_def)
  ultimately show ?thesis by (simp add: triggered_def)
qed

lemma queues_same:
  assumes "queues_ok st V Q" and "length (ws_entries st') = length (ws_entries st)"
    and "\<And>e. we_prev (entry st' e) = we_prev (entry st e) \<and> we_next (entry st' e) = we_next (entry st e)"
    and "\<And>e. thread_ok st' e = thread_ok st e"
  shows "queues_ok st' V Q"
  using assms wl_ok_same [OF _ assms(2,3)] by (simp add: queues_ok_def WaitEntry_InitState_def)

text \<open>The entry is set up: its bit is cleared, its mask and its key are set.\<close>

lemma prepare_ok:
  assumes "thread_ok st e" and "e < length (ws_entries st)"
  obtains st' where "WaitEntry_SetKey e k (WaitEntry_SetMask e b (WaitEntry_Clear e st)) = Ok st'"
    "length (ws_entries st') = length (ws_entries st)" "length (ws_waiters st') = length (ws_waiters st)"
    "\<And>x. we_prev (entry st' x) = we_prev (entry st x) \<and> we_next (entry st' x) = we_next (entry st x)"
    "\<And>x. thread_ok st' x = thread_ok st x" "\<And>x. key_of st' x = (if x = e then Some k else key_of st x)"
    "\<And>x. we_mask (entry st' x) = (if x = e then b else we_mask (entry st x))" "\<not> triggered st' e"
proof -
  obtain c where c: "we_context (entry st e) = ThreadContext c" "tc_waiterID c \<le> TIMER_WAITID" "tc_waiter c < length (ws_waiters st)"
    using assms(1) by (auto simp: thread_ok_def split: wait_context.splits)
  define s1 where "s1 = WaitEntry_Clear e st"
  define s2 where "s2 = WaitEntry_SetMask e b s1"
  define s3 where "s3 = WaitEntry_update e (\<lambda>w. w\<lparr>we_context := ThreadContext (c\<lparr>tc_key := k\<rparr>)\<rparr>) s2"
  have e1: "ws_entries s1 = ws_entries st" by (simp add: s1_def)
  have w1: "ws_waiters s1 = (ws_waiters st)[tc_waiter c := (ws_waiters st ! tc_waiter c)
      \<lparr>wt_bitmap := wt_bitmap (ws_waiters st ! tc_waiter c) AND NOT (wait_bit (tc_waiterID c))\<rparr>]"
    by (simp add: s1_def WaitEntry_Clear_def c WaitContext_Clear_def Waiter_Clear_def Let_def)
  have en: "entry s3 x = (if x = e then (entry st e)\<lparr>we_mask := b, we_context := ThreadContext (c\<lparr>tc_key := k\<rparr>)\<rparr>
      else entry st x)" for x
    using assms(2) by (simp add: s3_def s2_def WaitEntry_SetMask_def entry_update e1)
  have w3: "ws_waiters s3 = ws_waiters s1" by (simp add: s3_def s2_def WaitEntry_SetMask_def)
  have "we_context (entry s2 e) = ThreadContext c"
    using assms(2) by (simp add: s2_def WaitEntry_SetMask_def entry_update e1 c)
  then have "WaitEntry_SetKey e k s2 = Ok s3" by (simp add: WaitEntry_SetKey_def WaitContext_thread_def s3_def)
  moreover have "length (ws_entries s3) = length (ws_entries st)" by (simp add: s3_def s2_def WaitEntry_SetMask_def e1)
  moreover have lw: "length (ws_waiters s3) = length (ws_waiters st)" by (simp add: w3 w1)
  moreover have "thread_ok s3 x = thread_ok st x" for x
    using c by (simp add: thread_ok_def en lw split: wait_context.split)
  moreover have "\<not> triggered s3 e"
    using c by (simp add: triggered_def en w3 w1 bit_and_iff bit_not_iff bit_wait_bit)
  ultimately show thesis
    by (intro that [of s3]) (simp_all add: en key_of_def s2_def s1_def)
qed

lemma with_push_ok:
  assumes b: "buckets_ok m L w" and ok: "queues_ok (fw_store w) (view m w) Q"
    and e: "e < length (ws_entries (fw_store w))" "\<And>k. e \<notin> set (Q k)" "thread_ok (fw_store w) e"
  obtains w' where "with_queue m k (push_entry e) w = Some (Ok (), w')"
    "buckets_ok m L w'" "queues_ok (fw_store w') (view m w') (Q(k := Q k @ [e]))"
    "changed (insert e (set (Q k))) Map.empty (fw_store w) (fw_store w')"
    "ws_waiters (fw_store w') = ws_waiters (fw_store w)" "fw_mem w' = fw_mem w"
proof -
  have i: "WaitEntry_InitState (fw_store w) e" using ok e by (simp add: queues_ok_def)
  obtain st' q where p: "WaitList_PushBack e (fw_store w) (queue_at m k w) = Ok (st', q)" "wl_ok st' q (Q k @ [e])"
      "relinked (insert e (set (Q k))) (fw_store w) st'"
    by (rule PushBack_ok [OF queues_wl [OF ok, of k] e(1) e(2) i], rule that)
  let ?w = "put_queue m k q (w\<lparr>fw_store := st'\<rparr>)"
  have b1: "buckets_ok m L (w\<lparr>fw_store := st'\<rparr>)" using b by simp
  note pq = put_queue_ok [OF b1, of k q]
  have "queues_ok st' ((view m w)(k := q)) (Q(k := Q k @ [e]))"
    using ok p(2) relinked_changed [OF p(3)] relinked_woke [OF p(3)]
    by (rule queues_change_one) (use e queues_disjoint [OF ok] queues_thread [OF ok] in auto)
  then show thesis
    using pq relinked_changed [OF p(3)] p(3)
    by (intro that [of ?w]) (simp_all add: with_queue_def push_entry_def p(1) relinked_def)
qed

lemma WaitPrepare_ok:
  assumes ok: "futex_ok m w Q" and key: "Getkey (fw_mem w) addr private = Ok k"
    and e: "e < length (ws_entries (fw_store w))" "\<And>k. e \<notin> set (Q k)" "thread_ok (fw_store w) e"
    and chk: "Futex_Check addr val (fw_mem w) = (r, mem)"
  obtains w' where "WaitPrepare m e addr private val bitmask w = Some (r, w')" "fw_mem w' = mem"
    "futex_ok m w' (if r = Ok () then Q(k := Q k @ [e]) else Q)"
    "\<And>x. key_of (fw_store w') x = (if x = e then Some k else key_of (fw_store w) x)"
    "\<And>x. we_mask (entry (fw_store w') x) = (if x = e then ucast bitmask else we_mask (entry (fw_store w) x))"
    "\<And>x. thread_ok (fw_store w') x = thread_ok (fw_store w) x" "\<not> triggered (fw_store w') e"
    "length (ws_entries (fw_store w')) = length (ws_entries (fw_store w))"
proof -
  have b: "buckets_ok m {} w" and q: "queues_ok (fw_store w) (view m w) Q" using ok by (simp_all add: futex_ok_def)
  obtain st where st: "WaitEntry_SetKey e k (WaitEntry_SetMask e (ucast bitmask) (WaitEntry_Clear e (fw_store w))) = Ok st"
      "length (ws_entries st) = length (ws_entries (fw_store w))"
      "\<And>x. we_prev (entry st x) = we_prev (entry (fw_store w) x) \<and> we_next (entry st x) = we_next (entry (fw_store w) x)"
      "\<And>x. thread_ok st x = thread_ok (fw_store w) x" "\<And>x. key_of st x = (if x = e then Some k else key_of (fw_store w) x)"
      "\<And>x. we_mask (entry st x) = (if x = e then ucast bitmask else we_mask (entry (fw_store w) x))" "\<not> triggered st e"
    by (rule prepare_ok [OF e(3,1), of k "ucast bitmask"]) (rule that, assumption+)
  have b1: "buckets_ok m {} (w\<lparr>fw_store := st\<rparr>)" using b by simp
  have q1: "queues_ok st (view m w) Q" using q st(2,3,4) by (rule queues_same)
  have nl: "lock_of m k \<notin> {}" by simp
  obtain w2 where w2: "lockQueueWithCreate m k (w\<lparr>fw_store := st\<rparr>) = Some (Ok (), w2)" "buckets_ok m (insert (lock_of m k) {}) w2"
      "view m w2 = view m (w\<lparr>fw_store := st\<rparr>)" "fw_store w2 = fw_store (w\<lparr>fw_store := st\<rparr>)" "fw_mem w2 = fw_mem (w\<lparr>fw_store := st\<rparr>)"
    by (rule lockQueueWithCreate_ok [OF b1 nl], rule that)
  let ?w3 = "w2\<lparr>fw_mem := mem\<rparr>"
  have b3: "buckets_ok m (insert (lock_of m k) {}) ?w3" using w2(2) by simp
  have q3: "queues_ok (fw_store ?w3) (view m ?w3) Q" using w2(3,4) q1 by simp
  show thesis
  proof (cases r)
    case (Inl err)
    note u = unlock_ok [OF b3, of k]
    have "WaitPrepare m e addr private val bitmask w = Some (r, futex_unlock m k ?w3)"
      using Inl chk by (simp add: WaitPrepare_def key st(1) fx_bind_def w2(1,5))
    then show thesis
      by (rule that) (use u q3 w2(4) st Inl in \<open>simp_all add: futex_ok_def\<close>)
  next
    case (Inr x)
    have e3: "e < length (ws_entries (fw_store ?w3))" "thread_ok (fw_store ?w3) e" using e(1,3) st(2,4) w2(4) by simp_all
    obtain w4 where w4: "with_queue m k (push_entry e) ?w3 = Some (Ok (), w4)"
        "buckets_ok m (insert (lock_of m k) {}) w4" "queues_ok (fw_store w4) (view m w4) (Q(k := Q k @ [e]))"
        "changed (insert e (set (Q k))) Map.empty (fw_store ?w3) (fw_store w4)"
        "ws_waiters (fw_store w4) = ws_waiters (fw_store ?w3)" "fw_mem w4 = fw_mem ?w3"
      by (rule with_push_ok [OF b3 q3 e3(1) e(2) e3(2), of k], rule that)
    note u = unlock_ok [OF w4(2), of k]
    have ctx: "we_context (entry (fw_store w4) x) = we_context (entry st x)" "we_mask (entry (fw_store w4) x) = we_mask (entry st x)" for x
      using w4(4) w2(4) by (simp_all add: changed_def)
    have wt: "ws_waiters (fw_store w4) = ws_waiters st" "length (ws_entries (fw_store w4)) = length (ws_entries st)"
      using w4(4,5) w2(4) by (simp_all add: changed_def)
    have same: "key_of (fw_store w4) = key_of st" "thread_ok (fw_store w4) = thread_ok st" "triggered (fw_store w4) = triggered st"
      by (simp_all add: fun_eq_iff key_of_def thread_ok_def triggered_def ctx wt split: wait_context.split)
    have "WaitPrepare m e addr private val bitmask w = Some (r, futex_unlock m k w4)"
      using Inr chk w4(1) by (simp add: WaitPrepare_def key st(1) fx_bind_def w2(1,5))
    then show thesis
      by (rule that) (use u w4(3,6) st same ctx wt Inr in \<open>simp_all add: futex_ok_def\<close>)
  qed
qed

lemma with_remove_ok:
  assumes b: "buckets_ok m L w" and ok: "queues_ok (fw_store w) (view m w) Q" and e: "e \<in> set (Q k)"
  obtains w' where "with_queue m k (remove_entry e) w = Some (Ok (), w')"
    "buckets_ok m L w'" "queues_ok (fw_store w') (view m w') (Q(k := filter (\<lambda>x. x \<noteq> e) (Q k)))"
    "changed (set (Q k)) Map.empty (fw_store w) (fw_store w')"
    "ws_waiters (fw_store w') = ws_waiters (fw_store w)" "fw_mem w' = fw_mem w"
proof -
  obtain us vs where Qk: "Q k = us @ e # vs" using e by (auto simp: in_set_conv_decomp)
  have wl: "wl_ok (fw_store w) (queue_at m k w) (us @ e # vs)" using queues_wl [OF ok, of k] Qk by simp
  have "e \<notin> set us" "e \<notin> set vs" using wl by (auto simp: wl_ok_def)
  then have fl: "filter (\<lambda>x. x \<noteq> e) us = us" "filter (\<lambda>x. x \<noteq> e) vs = vs" by (auto simp: filter_id_conv)
  obtain st' q where r: "WaitList_Remove e (fw_store w) (queue_at m k w) = Some (st', q)" "wl_ok st' q (us @ vs)"
      "WaitEntry_InitState st' e" "relinked (set (us @ e # vs)) (fw_store w) st'"
    by (rule Remove_ok [OF wl], rule that)
  let ?w = "put_queue m k q (w\<lparr>fw_store := st'\<rparr>)"
  have b1: "buckets_ok m L (w\<lparr>fw_store := st'\<rparr>)" using b by simp
  note pq = put_queue_ok [OF b1, of k q]
  have out: "set (Q k') \<inter> set (us @ e # vs) = {}" if "k' \<noteq> k" for k' using queues_disjoint [OF ok that] Qk by simp
  have "queues_ok st' ((view m w)(k := q)) (Q(k := us @ vs))"
    using ok r(2) relinked_changed [OF r(4)] relinked_woke [OF r(4)]
    by (rule queues_change_one) (use r(3) out queues_thread [OF ok, of _ k] Qk in auto)
  then show thesis
    using pq relinked_changed [OF r(4)] r(4)
    by (intro that [of ?w]) (simp_all add: with_queue_def remove_entry_def r(1) relinked_def Qk fl)
qed

text \<open>The state between \<open>WaitPrepare\<close> and \<open>WaitComplete\<close>: the entry is in the queue of its key, or it has been
  woken.\<close>

definition wait_inv :: "futex_mgr \<Rightarrow> nat \<Rightarrow> futex_world \<Rightarrow> bool" where
  "wait_inv m e w \<longleftrightarrow> (\<exists>Q. futex_ok m w Q \<and> keyed (fw_store w) Q \<and> e < length (ws_entries (fw_store w)) \<and>
     thread_ok (fw_store w) e \<and>
     (\<forall>k. e \<in> set (Q k) \<longleftrightarrow> key_of (fw_store w) e = Some k \<and> k \<noteq> Key_default))"

lemma entry_key_of: "thread_ok (fw_store w) e \<Longrightarrow> \<exists>k. key_of (fw_store w) e = Some k \<and> entry_key e w = Ok k"
  by (cases "we_context (entry (fw_store w) e)")
    (auto simp: thread_ok_def key_of_def entry_key_def WaitContext_thread_def)

lemma complete_ok:
  assumes b: "buckets_ok m {lock_of m k} w" and ok: "queues_ok (fw_store w) (view m w) Q" and kd: "keyed (fw_store w) Q"
    and e: "e \<in> set (Q k)"
  obtains w1 st where "with_queue m k (remove_entry e) w = Some (Ok (), w1)"
    "WaitEntry_SetKey e Key_default (fw_store (drop_empty m k w1)) = Ok st"
    "futex_ok m (futex_unlock m k ((drop_empty m k w1)\<lparr>fw_store := st\<rparr>)) (Q(k := filter (\<lambda>x. x \<noteq> e) (Q k)))"
    "keyed st (Q(k := filter (\<lambda>x. x \<noteq> e) (Q k)))" "key_of st e = Some Key_default" "thread_ok st e"
    "length (ws_entries st) = length (ws_entries (fw_store w))"
proof -
  obtain w1 where r: "with_queue m k (remove_entry e) w = Some (Ok (), w1)"
      "buckets_ok m {lock_of m k} w1" "queues_ok (fw_store w1) (view m w1) (Q(k := filter (\<lambda>x. x \<noteq> e) (Q k)))"
      "changed (set (Q k)) Map.empty (fw_store w) (fw_store w1)"
      "ws_waiters (fw_store w1) = ws_waiters (fw_store w)" "fw_mem w1 = fw_mem w"
    by (rule with_remove_ok [OF b ok e], rule that)
  note d = queues_drop_empty [OF r(2,3), of k]
  have wk: "woke {} (fw_store w) (fw_store w1)" using r(5) by (simp add: woke_def)
  have t: "thread_ok (fw_store w) e" "e < length (ws_entries (fw_store w))"
    using queues_thread [OF ok e] queues_wl [OF ok, of k] e by (auto simp: wl_ok_def)
  have t1: "thread_ok (fw_store w1) e" "e < length (ws_entries (fw_store w1))"
    using t changed_thread_ok [OF r(4) wk] r(4) by (simp_all add: changed_def)
  obtain st where s: "WaitEntry_SetKey e Key_default (fw_store w1) = Ok st" "changed {} [e \<mapsto> Key_default] (fw_store w1) st"
      "woke {} (fw_store w1) st" "ws_waiters st = ws_waiters (fw_store w1)"
    by (rule SetKey_ok [OF t1, of Key_default], rule that)
  let ?w = "(drop_empty m k w1)\<lparr>fw_store := st\<rparr>"
  have b2: "buckets_ok m {lock_of m k} ?w" using d(1) by simp
  have q2: "queues_ok (fw_store ?w) (view m ?w) (Q(k := filter (\<lambda>x. x \<noteq> e) (Q k)))"
    using queues_same [OF r(3), of st] s(2) changed_thread_ok [OF s(2,3)] d(2) by (simp add: changed_def)
  note u = unlock_ok [OF b2, of k]
  have ch: "changed (set (Q k)) [e \<mapsto> Key_default] (fw_store w) st" using changed_trans [OF r(4) s(2)] by simp
  have wk2: "woke {} (fw_store w) st" using woke_trans [OF wk r(4) s(3)] by simp
  have "keyed st (Q(k := filter (\<lambda>x. x \<noteq> e) (Q k)))"
    unfolding keyed_def
  proof (intro conjI allI ballI)
    show "(Q(k := filter (\<lambda>x. x \<noteq> e) (Q k))) Key_default = []" using kd by (auto simp: keyed_def)
    fix k' x assume x: "x \<in> set ((Q(k := filter (\<lambda>x. x \<noteq> e) (Q k))) k')"
    then have "x \<in> set (Q k')" by (auto split: if_splits)
    moreover have "x \<noteq> e" using x e queues_disjoint [OF ok, of k k'] by (auto split: if_splits)
    ultimately show "key_of st x = Some k'"
      using kd queues_thread [OF ok] by (simp add: changed_key_of [OF ch] keyed_def)
  qed
  moreover have "key_of st e = Some Key_default" using t(1) by (simp add: changed_key_of [OF ch])
  moreover have "thread_ok st e" using t(1) changed_thread_ok [OF ch wk2] by simp
  moreover have "length (ws_entries st) = length (ws_entries (fw_store w))" using ch by (simp add: changed_def)
  ultimately show thesis
    using r(1) s(1) d(3) u q2 by (intro that [of w1 st]) (simp_all add: futex_ok_def)
qed

lemma complete_step:
  assumes inv: "wait_inv m e w" and key: "key_of (fw_store w) e = Some k'"
  obtains w1 where "lockQueueWithCreate m k w = Some (Ok (), w1)" "entry_key e w1 = Ok k'"
    "buckets_ok m {} (futex_unlock m k w1)" "view m (futex_unlock m k w1) = view m w"
    "fw_store (futex_unlock m k w1) = fw_store w"
    "k' = k \<Longrightarrow> k \<noteq> Key_default \<Longrightarrow>
       \<exists>w'. WaitComplete_remove m e k w1 = Some (Ok (), w') \<and>
         wait_inv m e w' \<and> key_of (fw_store w') e = Some Key_default"
proof -
  obtain Q where Q: "buckets_ok m {} w" "queues_ok (fw_store w) (view m w) Q" "keyed (fw_store w) Q"
      "thread_ok (fw_store w) e" "e < length (ws_entries (fw_store w))"
      "\<And>k. e \<in> set (Q k) \<longleftrightarrow> key_of (fw_store w) e = Some k \<and> k \<noteq> Key_default"
    using inv by (auto simp: wait_inv_def futex_ok_def)
  have nl: "lock_of m k \<notin> {}" by simp
  obtain w1 where l: "lockQueueWithCreate m k w = Some (Ok (), w1)" "buckets_ok m (insert (lock_of m k) {}) w1"
      "view m w1 = view m w" "fw_store w1 = fw_store w" "fw_mem w1 = fw_mem w"
    by (rule lockQueueWithCreate_ok [OF Q(1) nl], rule that)
  note u = unlock_ok [OF l(2), of k]
  have "entry_key e w1 = Ok k'" using entry_key_of [of w1 e] Q(4) key l(4) by auto
  moreover have "buckets_ok m {} (futex_unlock m k w1)" "view m (futex_unlock m k w1) = view m w"
    "fw_store (futex_unlock m k w1) = fw_store w" using u l by simp_all
  moreover have "\<exists>w'. WaitComplete_remove m e k w1 = Some (Ok (), w') \<and>
         wait_inv m e w' \<and> key_of (fw_store w') e = Some Key_default" if k: "k' = k" "k \<noteq> Key_default"
  proof -
    have e: "e \<in> set (Q k)" using Q(6) key k by simp
    have q1: "queues_ok (fw_store w1) (view m w1) Q" "keyed (fw_store w1) Q" using Q l by simp_all
    obtain w2 st where c: "with_queue m k (remove_entry e) w1 = Some (Ok (), w2)"
        "WaitEntry_SetKey e Key_default (fw_store (drop_empty m k w2)) = Ok st"
        "futex_ok m (futex_unlock m k ((drop_empty m k w2)\<lparr>fw_store := st\<rparr>)) (Q(k := filter (\<lambda>x. x \<noteq> e) (Q k)))"
        "keyed st (Q(k := filter (\<lambda>x. x \<noteq> e) (Q k)))" "key_of st e = Some Key_default" "thread_ok st e"
        "length (ws_entries st) = length (ws_entries (fw_store w1))"
      by (rule complete_ok [OF l(2) q1 e], rule that)
    let ?w = "futex_unlock m k ((drop_empty m k w2)\<lparr>fw_store := st\<rparr>)"
    have st: "fw_store ?w = st" by (simp add: futex_unlock_def Bucket_Unlock_def Let_def)
    have "e \<notin> set ((Q(k := filter (\<lambda>x. x \<noteq> e) (Q k))) a)" for a using Q(6) [of a] key k by auto
    then have "wait_inv m e ?w"
      unfolding wait_inv_def st using c(3-7) Q(5) l(4) by (intro exI [of _ "Q(k := filter (\<lambda>x. x \<noteq> e) (Q k))"]) simp
    then show ?thesis using c(1,2,5) st by (simp add: WaitComplete_remove_def fx_bind_def Let_def)
  qed
  ultimately show thesis using l(1) by (intro that [of w1])
qed

text \<open>\<open>I\<close> is what the other tasks keep while this one waits for the lock.\<close>

lemma WaitComplete_ok:
  assumes "I w" and inv: "\<And>w. I w \<Longrightarrow> wait_inv m e w" and "\<And>f w. f \<in> set others \<Longrightarrow> I w \<Longrightarrow> I (f w)"
    and same: "\<And>w w'. I w \<Longrightarrow> buckets_ok m {} w' \<Longrightarrow> view m w' = view m w \<Longrightarrow> fw_store w' = fw_store w \<Longrightarrow> I w'"
  shows "\<exists>w'. WaitComplete m e others w = Some (Ok (), w') \<and> wait_inv m e w' \<and> key_of (fw_store w') e = Some Key_default"
  using assms(1,3)
proof (induction others arbitrary: w)
  case Nil
  have "thread_ok (fw_store w) e" using inv [OF Nil.prems(1)] by (auto simp: wait_inv_def)
  from entry_key_of [OF this] obtain k where k: "key_of (fw_store w) e = Some k" "entry_key e w = Ok k" by blast
  show ?case
  proof (cases "k = Key_default")
    case True
    then show ?thesis using k inv [OF Nil.prems(1)] by (simp add: WaitComplete.simps [of m e "[]"])
  next
    case False
    obtain w1 where w1: "lockQueueWithCreate m k w = Some (Ok (), w1)" "entry_key e w1 = Ok k"
        "\<exists>w'. WaitComplete_remove m e k w1 = Some (Ok (), w') \<and> wait_inv m e w' \<and> key_of (fw_store w') e = Some Key_default"
    proof (rule complete_step [OF inv [OF Nil.prems(1)] k(1), of k], goal_cases)
      case (1 w1)
      show thesis by (rule 1(1) [OF 1(2,3) 1(7) [OF refl False]])
    qed
    show ?thesis
      using w1(3) False by (subst WaitComplete.simps) (simp add: k(2) fx_bind_def [of "lockQueueWithCreate m k"] w1(1,2))
  qed
next
  case (Cons f others)
  have "thread_ok (fw_store w) e" using inv [OF Cons.prems(1)] by (auto simp: wait_inv_def)
  from entry_key_of [OF this] obtain k where k: "key_of (fw_store w) e = Some k" "entry_key e w = Ok k" by blast
  have If: "I (f w)" using Cons.prems by simp
  then have "thread_ok (fw_store (f w)) e" using inv by (auto simp: wait_inv_def)
  from entry_key_of [OF this] obtain k' where k': "key_of (fw_store (f w)) e = Some k'" by blast
  show ?case
  proof (cases "k = Key_default")
    case True
    then show ?thesis using k inv [OF Cons.prems(1)] by (simp add: WaitComplete.simps [of m e "f # others"])
  next
    case False
    obtain w1 where w1: "lockQueueWithCreate m k (f w) = Some (Ok (), w1)" "entry_key e w1 = Ok k'"
        "I (futex_unlock m k w1)" "k' = k \<longrightarrow>
        (\<exists>w'. WaitComplete_remove m e k w1 = Some (Ok (), w') \<and> wait_inv m e w' \<and> key_of (fw_store w') e = Some Key_default)"
    proof (rule complete_step [OF inv [OF If] k', of k], goal_cases)
      case (1 w1)
      show thesis by (rule 1(1) [OF 1(2,3) same [OF If 1(4-6)]]) (use 1(7) False in blast)
    qed
    show ?thesis
    proof (cases "k' = k")
      case True
      then show ?thesis
        using w1(4) False by (subst WaitComplete.simps) (simp add: k(2) fx_bind_def [of "lockQueueWithCreate m k"] w1(1,2))
    next
      case diff: False
      have "WaitComplete m e (f # others) w = WaitComplete m e others (futex_unlock m k w1)"
        using False diff by (subst WaitComplete.simps) (simp add: k(2) fx_bind_def [of "lockQueueWithCreate m k"] w1(1,2))
      then show ?thesis using Cons.IH [OF w1(3)] Cons.prems(2) by simp
    qed
  qed
qed

end
