(* ===== verification/Futex_Requeue.thy ===== *)
theory Futex_Requeue
  imports Futex_Props
begin

text \<open>
  Requeueing: what one call does to the queues, the keys and the waiters.
\<close>

lemma between_ok:
  assumes b: "buckets_ok m L w" and ok: "queues_ok (fw_store w) (view m w) Q" and ne: "k1 \<noteq> k2" and n: "n \<le> i32_MAX"
  obtains w' where "RequeueLocked_between m k1 k2 n w = Some (Ok (), w')" "buckets_ok m L w'"
    "queues_ok (fw_store w') (view m w') (Q(k1 := drop (nat n) (Q k1), k2 := Q k2 @ take (nat n) (Q k1)))"
    "changed (set (Q k1) \<union> set (Q k2)) (keys_of (take (nat n) (Q k1)) k2) (fw_store w) (fw_store w')"
    "woke {} (fw_store w) (fw_store w')" "fw_mem w' = fw_mem w"
proof -
  have t: "\<forall>e \<in> set (Q k1). thread_ok (fw_store w) e" using ok by (simp add: queues_ok_def)
  have dis: "set (Q a) \<inter> set (Q b) = {}" if "a \<noteq> b" for a b using queues_disjoint [OF ok that] .
  obtain st q1 q2 where r: "WaitList_RequeueLocked k2 n (fw_store w) (queue_at m k1 w) (queue_at m k2 w) =
      returns (int (length (take (nat n) (Q k1))), st, q1, q2)"
      "wl_ok st q1 (drop (nat n) (Q k1))" "wl_ok st q2 (Q k2 @ take (nat n) (Q k1))"
      "changed (set (Q k1) \<union> set (Q k2)) (keys_of (take (nat n) (Q k1)) k2) (fw_store w) st" "woke {} (fw_store w) st"
    by (rule RequeueLocked_ok [OF queues_wl [OF ok, of k1] queues_wl [OF ok, of k2] dis [OF ne] t n, of k2], rule that)
  define Q' where "Q' = Q(k1 := drop (nat n) (Q k1), k2 := Q k2 @ take (nat n) (Q k1))"
  have parts: "set (drop (nat n) (Q k1)) \<inter> set (take (nat n) (Q k1)) = {}"
    "set (drop (nat n) (Q k1)) \<subseteq> set (Q k1)" "set (take (nat n) (Q k1)) \<subseteq> set (Q k1)"
    using queues_wl [OF ok, of k1] set_take_disj_set_drop_if_distinct [of "Q k1" "nat n" "nat n"]
    by (auto simp: wl_ok_def dest: in_set_dropD in_set_takeD)
  have inside: "set (Q' k) \<subseteq> set (Q k1) \<union> set (Q k2)" if "k = k1 \<or> k = k2" for k
    using that parts(2,3) by (auto simp: Q'_def)
  have outside: "Q' k = Q k" if "k \<noteq> k1" "k \<noteq> k2" for k using that by (simp add: Q'_def)
  have disj: "set (Q' a) \<inter> set (Q' b) = {}" if "a \<noteq> b" for a b
  proof (cases "a \<in> {k1, k2}"; cases "b \<in> {k1, k2}")
    assume "a \<in> {k1, k2}" "b \<in> {k1, k2}"
    then show ?thesis using that parts dis [OF ne] ne by (auto simp: Q'_def)
  next
    assume "a \<in> {k1, k2}" "b \<notin> {k1, k2}"
    then show ?thesis using inside [of a] outside [of b] dis [of b k1] dis [of b k2] by auto
  next
    assume "a \<notin> {k1, k2}" "b \<in> {k1, k2}"
    then show ?thesis using inside [of b] outside [of a] dis [of a k1] dis [of a k2] by auto
  next
    assume "a \<notin> {k1, k2}" "b \<notin> {k1, k2}"
    then show ?thesis using outside dis [OF that] by simp
  qed
  have "queues_ok st ((view m w)(k1 := q1, k2 := q2)) Q'"
  proof (rule queues_change [OF ok, where K = "{k1, k2}" and E = "set (Q k1) \<union> set (Q k2)", OF _ _ r(4,5)])
    show "wl_ok st (((view m w)(k1 := q1, k2 := q2)) k) (Q' k)" if "k \<in> {k1, k2}" for k
      using that r(2,3) ne by (auto simp: Q'_def)
    show "((view m w)(k1 := q1, k2 := q2)) k = view m w k \<and> Q' k = Q k" if "k \<notin> {k1, k2}" for k
      using that outside by simp
    show "set (Q k) \<subseteq> set (Q k1) \<union> set (Q k2)" if "k \<in> {k1, k2}" for k using that by auto
    show "set (Q k) \<inter> (set (Q k1) \<union> set (Q k2)) = {}" if "k \<notin> {k1, k2}" for k
      using that dis [of k k1] dis [of k k2] by auto
    show "thread_ok (fw_store w) e" if "k \<in> {k1, k2}" "e \<in> set (Q' k)" for k e
      using that inside [of k] queues_thread [OF ok] by blast
    show "WaitEntry_InitState st e" if "e \<in> set (Q k1) \<union> set (Q k2)" "\<And>k. e \<notin> set (Q' k)" for e
    proof -
      have "set (Q k1) = set (take (nat n) (Q k1)) \<union> set (drop (nat n) (Q k1))"
        by (metis append_take_drop_id set_append)
      then have "e \<in> set (Q' k1) \<union> set (Q' k2)" using that(1) ne by (auto simp: Q'_def)
      then show ?thesis using that(2) by blast
    qed
  qed (rule disj)
  moreover have b1: "buckets_ok m L (w\<lparr>fw_store := st\<rparr>)" using b by simp
  note p1 = put_queue_ok [OF b1, of k1 q1]
  note p2 = put_queue_ok [OF p1(1), of k2 q2]
  ultimately show thesis
    using p1 p2 r(1,4,5) by (intro that [of "put_queue m k2 q2 (put_queue m k1 q1 (w\<lparr>fw_store := st\<rparr>))"])
      (simp_all add: RequeueLocked_between_def Q'_def)
qed

text \<open>The queues after a requeue: the first entries of the first queue are woken, the next ones move.\<close>

definition requeued :: "key \<Rightarrow> key \<Rightarrow> nat \<Rightarrow> nat list \<Rightarrow> (key \<Rightarrow> nat list) \<Rightarrow> key \<Rightarrow> nat list" where
  "requeued k1 k2 n stay Q = Q(k1 := drop n stay, k2 := Q k2 @ take n stay)"

lemma doRequeue_ok:
  fixes nwake nreq :: int
  assumes ok: "futex_ok m w Q" and k1: "Getkey (fw_mem w) addr private = Ok k1" and k2: "Getkey (fw_mem w) naddr private = Ok k2"
    and ne: "k1 \<noteq> k2" and n: "nwake \<le> i32_MAX" "nreq \<le> i32_MAX"
    and chk: "(if checkval then Futex_Check addr val (fw_mem w) else (Ok (), fw_mem w)) = (r, mem)"
  defines "P \<equiv> matches (fw_store w) (- 1)"
  defines "woken \<equiv> take (nat nwake) (filter P (Q k1))" and "stay \<equiv> unwoken P (nat nwake) (Q k1)"
  shows "case r of
      Inl e \<Rightarrow> \<exists>w'. doRequeue m addr naddr private checkval val nwake nreq w = Some (Err e, w') \<and>
        futex_ok m w' Q \<and> fw_store w' = fw_store w \<and> fw_mem w' = mem
    | Inr _ \<Rightarrow> \<exists>w'. doRequeue m addr naddr private checkval val nwake nreq w = Some (Ok (int (length woken)), w') \<and>
        futex_ok m w' (requeued k1 k2 (nat nreq) stay Q) \<and> fw_mem w' = mem \<and>
        changed (set (Q k1) \<union> set (Q k2))
          (keys_of (examined P (nat nwake) (Q k1)) Key_default ++ keys_of (take (nat nreq) stay) k2)
          (fw_store w) (fw_store w') \<and>
        woke (set woken) (fw_store w) (fw_store w')"
proof -
  have b: "buckets_ok m {} w" and q: "queues_ok (fw_store w) (view m w) Q" using ok by (simp_all add: futex_ok_def)
  obtain w1 L where l: "lockQueues m k1 k2 w = Some (Ok (), w1)" "buckets_ok m L w1" "L \<subseteq> {lock_of m k1, lock_of m k2}"
      "view m w1 = view m w" "fw_store w1 = fw_store w" "fw_mem w1 = fw_mem w"
    by (rule lockQueues_ok [OF b ne], rule that)
  let ?w1 = "w1\<lparr>fw_mem := mem\<rparr>"
  have b1: "buckets_ok m L ?w1" using l(2) by simp
  have q1: "queues_ok (fw_store ?w1) (view m ?w1) Q" using q l by simp
  have step: "doRequeue m addr naddr private checkval val nwake nreq w =
      (case r of
         Inl e \<Rightarrow> Some (Err e, unlock_both m k1 k2 ?w1)
       | Inr _ \<Rightarrow>
           fx_bind (with_queue m k1 (WaitList_WakeLocked (- 1) nwake)) (\<lambda>done.
             fx_bind (RequeueLocked_between m k1 k2 nreq) (\<lambda>_ w.
               Some (Ok done, unlock_both m k1 k2 (drop_empty m k2 (drop_empty m k1 w))))) ?w1)"
    using chk l(6) by (auto simp: doRequeue_def k1 k2 fx_bind_def [of "lockQueues m k1 k2"] l(1) Let_def split: if_splits)
  show ?thesis
  proof (cases r)
    case (Inl e)
    then show ?thesis using step unlock_both_ok [OF b1 l(3)] q1 l by (simp add: futex_ok_def)
  next
    case (Inr x)
    have P1: "matches (fw_store ?w1) (- 1) = P" by (simp add: P_def l)
    obtain w2 where w2: "with_queue m k1 (WaitList_WakeLocked (- 1) nwake) ?w1 = Some (Ok (int (length woken)), w2)"
        "buckets_ok m L w2" "queues_ok (fw_store w2) (view m w2) (Q(k1 := stay))"
        "changed (set (Q k1)) (keys_of (examined P (nat nwake) (Q k1)) Key_default) (fw_store ?w1) (fw_store w2)"
        "woke (set woken) (fw_store ?w1) (fw_store w2)" "fw_mem w2 = fw_mem ?w1"
      by (rule with_wake_ok [OF b1 q1 n(1), of k1 "- 1", unfolded P1, folded woken_def stay_def], rule that)
    obtain w3 where w3: "RequeueLocked_between m k1 k2 nreq w2 = Some (Ok (), w3)" "buckets_ok m L w3"
        "queues_ok (fw_store w3) (view m w3) ((Q(k1 := stay))(k1 := drop (nat nreq) ((Q(k1 := stay)) k1),
           k2 := (Q(k1 := stay)) k2 @ take (nat nreq) ((Q(k1 := stay)) k1)))"
        "changed (set ((Q(k1 := stay)) k1) \<union> set ((Q(k1 := stay)) k2)) (keys_of (take (nat nreq) ((Q(k1 := stay)) k1)) k2)
           (fw_store w2) (fw_store w3)"
        "woke {} (fw_store w2) (fw_store w3)" "fw_mem w3 = fw_mem w2"
      by (rule between_ok [OF w2(2,3) ne n(2)], rule that)
    have q3: "queues_ok (fw_store w3) (view m w3) (requeued k1 k2 (nat nreq) stay Q)"
      using w3(3) ne by (simp add: requeued_def)
    have sub: "set stay \<subseteq> set (Q k1)"
      using queues_wl [OF q, of k1] by (auto simp: stay_def wl_ok_def unwoken_filter)
    note d1 = queues_drop_empty [OF w3(2) q3, of k1]
    have q4: "queues_ok (fw_store (drop_empty m k1 w3)) (view m (drop_empty m k1 w3)) (requeued k1 k2 (nat nreq) stay Q)"
      using q3 d1 by simp
    note d2 = queues_drop_empty [OF d1(1) q4, of k2]
    note u = unlock_both_ok [OF d2(1) l(3)]
    have "changed (set (Q k1) \<union> set (Q k2))
        (keys_of (examined P (nat nwake) (Q k1)) Key_default ++ keys_of (take (nat nreq) stay) k2) (fw_store w) (fw_store w3)"
    proof (rule changed_mono)
      show "changed (set (Q k1) \<union> (set stay \<union> set (Q k2)))
          (keys_of (examined P (nat nwake) (Q k1)) Key_default ++ keys_of (take (nat nreq) stay) k2) (fw_store w) (fw_store w3)"
        using changed_trans [OF w2(4) w3(4)] ne l(5) by simp
    qed (use sub in auto)
    moreover have "woke (set woken) (fw_store w) (fw_store w3)"
      using woke_trans [OF w2(5,4) w3(5)] l(5) by simp
    moreover have "doRequeue m addr naddr private checkval val nwake nreq w = Some (Ok (int (length woken)),
        unlock_both m k1 k2 (drop_empty m k2 (drop_empty m k1 w3)))"
      unfolding step Inr by (simp add: fx_bind_def w2(1) w3(1))
    ultimately show ?thesis
      unfolding Inr using u d2 d1 q3 w3(6) w2(6) by (simp add: futex_ok_def)
  qed
qed

end
