(* ===== verification/Futex_Memory.thy ===== *)
theory Futex_Memory
  imports Futex_Props
begin

text \<open>
  User memory under interference: the read-modify-write loops end, and their update is atomic. The
  others' writes form a finite list, one group for each access; \<open>(interfere ^^ n) mem\<close> is the memory after
  \<open>n\<close> groups of them and nothing else.
\<close>

lemma write_word_other [simp]: "um_others (write_word a v m) = um_others m" "um_vma (write_word a v m) = um_vma m"
  "um_phys (write_word a v m) = um_phys m"
  by (simp_all add: write_word_def)

lemma fold_write_other [simp]: "um_others (fold (\<lambda>(a, v). write_word a v) ws m) = um_others m"
  "um_vma (fold (\<lambda>(a, v). write_word a v) ws m) = um_vma m" "um_phys (fold (\<lambda>(a, v). write_word a v) ws m) = um_phys m"
  by (induction ws arbitrary: m) (auto split: prod.split)

lemma interfere_others [simp]: "um_others (interfere m) = tl (um_others m)" "um_vma (interfere m) = um_vma m"
  "um_phys (interfere m) = um_phys m"
  by (simp_all add: interfere_def split: list.split)

lemma interfere_none: "um_others m = [] \<Longrightarrow> interfere m = m"
  by (simp add: interfere_def)

lemma interfere_pow [simp]: "um_vma ((interfere ^^ n) m) = um_vma m" "um_phys ((interfere ^^ n) m) = um_phys m"
  by (induction n) simp_all

lemma written [simp]: "um_words m a \<noteq> None \<Longrightarrow> um_words (write_word a v m) a = Some v"
  by (simp add: write_word_def)

lemma Getkey_aligned: "Getkey m addr private = Ok k \<Longrightarrow> addr mod 4 = 0"
proof -
  assume "Getkey m addr private = Ok k"
  then have "addr AND 3 = 0" by (simp add: Getkey_def split: if_splits)
  moreover have "addr AND 3 = addr mod 4"
    using take_bit_eq_mask [of 2 addr] by (simp add: take_bit_eq_mod mask_eq_exp_minus_1)
  ultimately show ?thesis by simp
qed

lemma Getkey_default: "Getkey m addr private = Ok Key_default \<longleftrightarrow> private \<and> addr = 0"
  by (auto simp: Getkey_def GetSharedKey_def Key_default_def and_then_def split: if_splits option.splits sum.splits)

lemma Getkey_same: "um_vma m' = um_vma m \<Longrightarrow> um_phys m' = um_phys m \<Longrightarrow> Getkey m' = Getkey m"
  by (intro ext) (simp add: Getkey_def GetSharedKey_def split: option.split)

text \<open>A load, and a compare-and-swap after \<open>n\<close> groups of writes.\<close>

lemma Load_at: "LoadU32 addr ((interfere ^^ n) m) =
    (case um_words ((interfere ^^ Suc n) m) addr of None \<Rightarrow> Err (SysError EFAULT) | Some v \<Rightarrow> Ok v, (interfere ^^ Suc n) m)"
  by (simp add: LoadU32_def Let_def split: option.split)

lemma CAS_at: "addr mod 4 = 0 \<Longrightarrow> CompareAndSwapU32 addr old new ((interfere ^^ n) m) =
    (case um_words ((interfere ^^ Suc n) m) addr of
       None \<Rightarrow> (Err (SysError EFAULT), (interfere ^^ Suc n) m)
     | Some v \<Rightarrow> (Ok v, if v = old then write_word addr new ((interfere ^^ Suc n) m) else (interfere ^^ Suc n) m))"
  by (simp add: CompareAndSwapU32_def Let_def split: option.split)

lemma others_pow: "um_others ((interfere ^^ n) m) = drop n (um_others m)"
  by (induction n) (simp_all add: drop_Suc tl_drop)

lemma quiet: "length (um_others m) \<le> n \<Longrightarrow> (interfere ^^ Suc n) m = (interfere ^^ n) m"
  by (simp add: interfere_none others_pow)

text \<open>The loop of \<open>AtomicOp\<close>: it returns; when it fails it has written nothing, and when it succeeds it has
  replaced the value it returns in one step.\<close>

lemma AtomicOp_loop_ok:
  assumes "addr mod 4 = 0"
  shows "\<exists>r m' i. AtomicOp_loop addr t arg ((interfere ^^ n) m) = Some (r, m') \<and>
    (case r of
       Inl _ \<Rightarrow> m' = (interfere ^^ i) m
     | Inr old \<Rightarrow> \<exists>new. um_words ((interfere ^^ i) m) addr = Some old \<and> AtomicOp_new t arg old = Ok new \<and>
         m' = write_word addr new ((interfere ^^ i) m))"
proof (induction "length (um_others m) - n" arbitrary: n rule: less_induct)
  case less
  let ?l = "um_words ((interfere ^^ Suc n) m) addr" and ?c = "um_words ((interfere ^^ Suc (Suc n)) m) addr"
  show ?case
  proof (cases ?l)
    case None
    then have "AtomicOp_loop addr t arg ((interfere ^^ n) m) = Some (Err (SysError EFAULT), (interfere ^^ Suc n) m)"
      by (subst AtomicOp_loop.simps) (simp only: Load_at option.case prod.case sum.case)
    then show ?thesis by (intro exI [of _ "Suc n"] exI conjI) auto
  next
    case (Some old)
    show ?thesis
    proof (cases "AtomicOp_new t arg old")
      case (Inl e)
      then have "AtomicOp_loop addr t arg ((interfere ^^ n) m) = Some (Err e, (interfere ^^ Suc n) m)"
        using Some by (subst AtomicOp_loop.simps) (simp only: Load_at option.case prod.case sum.case)
      then show ?thesis by (intro exI [of _ "Suc n"] exI conjI) auto
    next
      case (Inr new)
      have load: "LoadU32 addr ((interfere ^^ n) m) = (Ok old, (interfere ^^ Suc n) m)"
        using Some by (simp only: Load_at option.case)
      show ?thesis
      proof (cases ?c)
        case None
        then have "CompareAndSwapU32 addr old new ((interfere ^^ Suc n) m) = (Err (SysError EFAULT), (interfere ^^ Suc (Suc n)) m)"
          by (simp only: CAS_at [OF assms] option.case)
        then have "AtomicOp_loop addr t arg ((interfere ^^ n) m) = Some (Err (SysError EFAULT), (interfere ^^ Suc (Suc n)) m)"
          by (subst AtomicOp_loop.simps) (simp only: load Inr prod.case sum.case)
        then show ?thesis by (intro exI [of _ "Suc (Suc n)"] exI conjI) auto
      next
        case c: (Some v)
        then have cas: "CompareAndSwapU32 addr old new ((interfere ^^ Suc n) m) =
            (Ok v, if v = old then write_word addr new ((interfere ^^ Suc (Suc n)) m) else (interfere ^^ Suc (Suc n)) m)"
          by (simp only: CAS_at [OF assms] option.case)
        show ?thesis
        proof (cases "v = old")
          case True
          then have "AtomicOp_loop addr t arg ((interfere ^^ n) m) = Some (Ok old, write_word addr new ((interfere ^^ Suc (Suc n)) m))"
            by (subst AtomicOp_loop.simps) (simp only: load Inr cas prod.case sum.case if_True simp_thms)
          then show ?thesis using c True Inr by (intro exI [of _ "Suc (Suc n)"] exI conjI) auto
        next
          case False
          have eq: "AtomicOp_loop addr t arg ((interfere ^^ n) m) = AtomicOp_loop addr t arg ((interfere ^^ Suc (Suc n)) m)"
            using False by (subst AtomicOp_loop.simps) (simp only: load Inr cas prod.case sum.case if_False)
          have "n < length (um_others m)"
          proof (rule ccontr)
            assume "\<not> n < length (um_others m)"
            then have "(interfere ^^ Suc (Suc n)) m = (interfere ^^ Suc n) m" by (intro quiet) simp
            then show False using Some c False by simp
          qed
          then show ?thesis unfolding eq by (intro less) simp
        qed
      qed
    qed
  qed
qed

text \<open>The fields of an encoded operation.\<close>

definition op_shifts :: "u32 \<Rightarrow> bool" where
  "op_shifts op \<longleftrightarrow> (drop_bit 28 op AND 0xf) AND FUTEX_OP_OPARG_SHIFT \<noteq> 0"

definition op_type :: "u32 \<Rightarrow> u32" where
  "op_type op = (if op_shifts op then (drop_bit 28 op AND 0xf) AND NOT FUTEX_OP_OPARG_SHIFT else drop_bit 28 op AND 0xf)"

definition op_arg :: "u32 \<Rightarrow> u32" where
  "op_arg op = (if op_shifts op then push_bit (unat (drop_bit 12 op AND 0xfff) mod 32) 1 else drop_bit 12 op AND 0xfff)"

lemma AtomicOp_eq: "AtomicOp addr op m =
    Option.bind (if op_type op = FUTEX_OP_SET then Some (SwapU32 addr (op_arg op) m)
                 else AtomicOp_loop addr (op_type op) (op_arg op) m) (\<lambda>(r, m).
      Some (and_then r (AtomicOp_cmp (drop_bit 24 op AND 0xf) (op AND 0xfff)), m))"
  by (cases "op_shifts op") (simp_all add: AtomicOp_def Let_def op_type_def op_arg_def op_shifts_def FUTEX_OP_SET_def)


definition sample_mem :: user_mem where
  "sample_mem = \<lparr>um_words = [0x1000 \<mapsto> 5, 0x2000 \<mapsto> 7], um_others = [], um_vma = (\<lambda>_. None), um_phys = Ok\<rparr>"


text \<open>Every operation returns, and only the words change.\<close>

lemma Swap_mem: "\<exists>r m'. SwapU32 addr v m = (r, m') \<and> um_vma m' = um_vma m \<and> um_phys m' = um_phys m"
  by (simp add: SwapU32_def Let_def split: option.split)

lemma AtomicOp_returns:
  assumes "addr mod 4 = 0"
  shows "\<exists>r m'. AtomicOp addr op m = Some (r, m') \<and> um_vma m' = um_vma m \<and> um_phys m' = um_phys m"
proof (cases "op_type op = FUTEX_OP_SET")
  case True
  then show ?thesis using Swap_mem [of addr "op_arg op" m] by (auto simp: AtomicOp_eq)
next
  case False
  obtain r m' i where l: "AtomicOp_loop addr (op_type op) (op_arg op) ((interfere ^^ 0) m) = Some (r, m')"
      "case r of Inl _ \<Rightarrow> m' = (interfere ^^ i) m
       | Inr old \<Rightarrow> \<exists>new. um_words ((interfere ^^ i) m) addr = Some old \<and> AtomicOp_new (op_type op) (op_arg op) old = Ok new \<and>
           m' = write_word addr new ((interfere ^^ i) m)"
    using AtomicOp_loop_ok [OF assms] by blast
  have "um_vma m' = um_vma m \<and> um_phys m' = um_phys m" using l(2) by (auto split: sum.splits)
  then show ?thesis using l(1) False by (simp add: AtomicOp_eq)
qed



end
