(* ===== verification/Futex_Laws.thy ===== *)
theory Futex_Laws
  imports Futex_Requeue Futex_Memory
begin

text \<open>
  Waking, requeueing and waiting at futexes as operations on plain queues, and what a waiting task
  can rely on: whatever the others wake and requeue, its entry is in the queue of its key or its
  waiter has been triggered, and \<open>WaitComplete\<close> takes the entry out of wherever it is.
\<close>

section \<open>Waking\<close>

text \<open>C34. \<open>FutexMgr_Wake\<close> serves the waiters of a key in the order of their arrival: it triggers the
  first \<open>n\<close> entries whose mask meets the bitmask and no other waiter, takes exactly these out of the queue,
  keeps the order of the rest, and returns their number.\<close>

theorem FutexMgr_Wake_refines:
  fixes bitmask :: u32
  assumes "futex_ok m w Q" and "Getkey (fw_mem w) addr private = Ok k" and "n \<le> i32_MAX"
    and "W = take (nat n) (filter (matches (fw_store w) (ucast bitmask)) (Q k))"
  shows "\<exists>w'. FutexMgr_Wake m addr private bitmask n w = Some (Ok (int (length W)), w') \<and>
    futex_ok m w' (Q(k := filter (\<lambda>e. e \<notin> set W) (Q k))) \<and>
    (\<forall>e \<in> set W. triggered (fw_store w') e) \<and> woke (set W) (fw_store w) (fw_store w') \<and> fw_mem w' = fw_mem w"
proof -
  have d: "distinct (Q k)" and t: "\<And>e. e \<in> set (Q k) \<Longrightarrow> thread_ok (fw_store w) e"
    using assms(1) queues_wl [of "fw_store w" "view m w" Q k] queues_thread [of "fw_store w" "view m w" Q]
    by (auto simp: futex_ok_def wl_ok_def)
  obtain w' where w': "FutexMgr_Wake m addr private bitmask n w = Some (Ok (int (length W)), w')"
      "futex_ok m w' (Q(k := unwoken (matches (fw_store w) (ucast bitmask)) (nat n) (Q k)))"
      "changed (set (Q k)) (keys_of (examined (matches (fw_store w) (ucast bitmask)) (nat n) (Q k)) Key_default) (fw_store w) (fw_store w')"
      "woke (set W) (fw_store w) (fw_store w')" "fw_mem w' = fw_mem w"
    by (rule Wake_ok [OF assms(1-3), of bitmask, folded assms(4)], rule that)
  have "triggered (fw_store w') e" if "e \<in> set W" for e
    using woke_triggered [OF w'(4,3) t that] that by (auto simp: assms(4) dest: in_set_takeD)
  then show ?thesis using w' by (simp add: unwoken_filter [OF d] assms(4))
qed

section \<open>The queues under the calls of the others\<close>

text \<open>An entry that anyone who wakes with all bits can wake.\<close>

definition awake_able :: "wait_store \<Rightarrow> nat \<Rightarrow> bool" where
  "awake_able st e \<longleftrightarrow> matches st (ucast FUTEX_BITSET_MATCH_ANY) e"

text \<open>\<open>waiting m e w\<close>: the entries know their queues and can be woken, and the entry \<open>e\<close> is in the queue of
  its key or its waiter has been triggered.\<close>

definition waiting :: "futex_mgr \<Rightarrow> nat \<Rightarrow> futex_world \<Rightarrow> bool" where
  "waiting m e w \<longleftrightarrow> (\<exists>Q. futex_ok m w Q \<and> keyed (fw_store w) Q \<and> (\<forall>k. \<forall>x \<in> set (Q k). awake_able (fw_store w) x) \<and>
     e < length (ws_entries (fw_store w)) \<and> thread_ok (fw_store w) e \<and>
     (\<forall>k. e \<in> set (Q k) \<longleftrightarrow> key_of (fw_store w) e = Some k \<and> k \<noteq> Key_default) \<and>
     (key_of (fw_store w) e = Some Key_default \<longrightarrow> triggered (fw_store w) e))"

lemma waiting_wait_inv: "waiting m e w \<Longrightarrow> wait_inv m e w"
  by (auto simp: waiting_def wait_inv_def)

lemma triggered_stays:
  assumes "woke W st st'" and "changed E ks st st'" and "thread_ok st e" and "triggered st e"
  shows "triggered st' e"
proof -
  obtain c where c: "we_context (entry st e) = ThreadContext c" "tc_waiter c < length (ws_waiters st)"
    using assms(3) by (auto simp: thread_ok_def split: wait_context.splits)
  obtain c' where "we_context (entry st' e) = ThreadContext c'" "tc_waiter c' = tc_waiter c" "tc_waiterID c' = tc_waiterID c"
    using assms(2) c(1) by (cases "ks e") (auto simp: changed_def set_key_def)
  then show ?thesis using assms(1,4) c by (auto simp: triggered_def woke_def)
qed

lemma waiting_change:
  assumes Q: "keyed (fw_store w) Q" "\<forall>k. \<forall>x \<in> set (Q k). awake_able (fw_store w) x"
      "e < length (ws_entries (fw_store w))" "thread_ok (fw_store w) e" "queues_ok (fw_store w) (view m w) Q"
      "\<And>k. e \<in> set (Q k) \<longleftrightarrow> key_of (fw_store w) e = Some k \<and> k \<noteq> Key_default"
      "key_of (fw_store w) e = Some Key_default \<Longrightarrow> triggered (fw_store w) e"
    and ok: "futex_ok m w' Q'" and ch: "changed E ks (fw_store w) (fw_store w')" and wk: "woke W (fw_store w) (fw_store w')"
    and empty: "Q' Key_default = []" and from_old: "\<And>k x. x \<in> set (Q' k) \<Longrightarrow> \<exists>k0. x \<in> set (Q k0)"
    and keys: "\<And>k x. x \<in> set (Q' k) \<Longrightarrow> (case ks x of None \<Rightarrow> x \<in> set (Q k) | Some k' \<Rightarrow> k' = k)"
    and dom: "\<And>x k'. ks x = Some k' \<Longrightarrow> (k' = Key_default \<and> x \<in> W \<and> (\<forall>k. x \<notin> set (Q' k))) \<or> k' \<noteq> Key_default \<and> x \<in> set (Q' k')"
    and undom: "\<And>x k. ks x = None \<Longrightarrow> x \<in> set (Q k) \<Longrightarrow> x \<in> set (Q' k)"
  shows "waiting m e w'"
proof -
  let ?st = "fw_store w" and ?st' = "fw_store w'"
  have tok: "thread_ok ?st' x = thread_ok ?st x" for x by (rule changed_thread_ok [OF ch wk])
  have told: "thread_ok ?st x" if "x \<in> set (Q' k)" for k x using from_old [OF that] queues_thread [OF Q(5)] by blast
  have "keyed ?st' Q'"
    unfolding keyed_def
  proof (intro conjI allI ballI)
    fix k x assume x: "x \<in> set (Q' k)"
    show "key_of ?st' x = Some k"
      using keys [OF x] Q(1) by (auto simp: changed_key_of [OF ch told [OF x]] keyed_def split: option.splits)
  qed (rule empty)
  moreover have "awake_able ?st' x" if "x \<in> set (Q' k)" for k x
    using from_old [OF that] Q(2) changed_mask [OF ch] by (auto simp: awake_able_def)
  moreover have "e < length (ws_entries ?st')" using Q(3) ch by (simp add: changed_def)
  moreover have "e \<in> set (Q' k) \<longleftrightarrow> key_of ?st' e = Some k \<and> k \<noteq> Key_default" for k
  proof
    assume e: "e \<in> set (Q' k)"
    then have "k \<noteq> Key_default" using empty by auto
    then show "key_of ?st' e = Some k \<and> k \<noteq> Key_default"
      using keys [OF e] Q(6) by (auto simp: changed_key_of [OF ch Q(4)] split: option.splits)
  next
    assume k: "key_of ?st' e = Some k \<and> k \<noteq> Key_default"
    show "e \<in> set (Q' k)"
    proof (cases "ks e")
      case None
      then show ?thesis using k Q(6) undom by (simp add: changed_key_of [OF ch Q(4)])
    next
      case (Some k')
      then show ?thesis using k dom [OF Some] by (simp add: changed_key_of [OF ch Q(4)])
    qed
  qed
  moreover have "triggered ?st' e" if k: "key_of ?st' e = Some Key_default"
  proof (cases "ks e")
    case None
    then show ?thesis using k Q(7) triggered_stays [OF wk ch Q(4)] by (simp add: changed_key_of [OF ch Q(4)])
  next
    case (Some k')
    then have "e \<in> W" using k dom [OF Some] by (auto simp: changed_key_of [OF ch Q(4)])
    then show ?thesis by (rule woke_triggered [OF wk ch Q(4)])
  qed
  ultimately show ?thesis using ok Q(4) tok unfolding waiting_def by blast
qed

lemma able_all: "awake_able st x \<Longrightarrow> matches st (- 1) x"
  by (auto simp: awake_able_def)

lemma WakeOp_ok:
  fixes n1 n2 :: int
  assumes ok: "futex_ok m w Q" and k1: "Getkey (fw_mem w) addr1 private = Ok k1" and k2: "Getkey (fw_mem w) addr2 private = Ok k2"
    and ne: "k1 \<noteq> k2" and n: "n1 \<le> i32_MAX" "n2 \<le> i32_MAX" and at: "AtomicOp addr2 op (fw_mem w) = Some (r, mem)"
    and able: "\<forall>k. \<forall>x \<in> set (Q k). awake_able (fw_store w) x"
  shows "case r of
      Inl e \<Rightarrow> \<exists>w'. FutexMgr_WakeOp m addr1 addr2 private n1 n2 op w = Some (Err e, w') \<and>
        futex_ok m w' Q \<and> fw_store w' = fw_store w \<and> fw_mem w' = mem
    | Inr c \<Rightarrow> let c2 = (if c then nat n2 else 0); W1 = take (nat n1) (Q k1); W2 = take c2 (Q k2) in
        \<exists>w'. FutexMgr_WakeOp m addr1 addr2 private n1 n2 op w = Some (Ok (i32 (int (length W1) + int (length W2))), w') \<and>
        futex_ok m w' (Q(k1 := drop (nat n1) (Q k1), k2 := drop c2 (Q k2))) \<and> fw_mem w' = mem \<and>
        changed (set (Q k1) \<union> set (Q k2)) (keys_of W1 Key_default ++ keys_of W2 Key_default) (fw_store w) (fw_store w') \<and>
        woke (set W1 \<union> set W2) (fw_store w) (fw_store w')"
proof -
  have b: "buckets_ok m {} w" and q: "queues_ok (fw_store w) (view m w) Q" using ok by (simp_all add: futex_ok_def)
  obtain w1 L where l: "lockQueues m k1 k2 w = Some (Ok (), w1)" "buckets_ok m L w1" "L \<subseteq> {lock_of m k1, lock_of m k2}"
      "view m w1 = view m w" "fw_store w1 = fw_store w" "fw_mem w1 = fw_mem w"
    by (rule lockQueues_ok [OF b ne], rule that)
  let ?w1 = "w1\<lparr>fw_mem := mem\<rparr>"
  have b1: "buckets_ok m L ?w1" using l(2) by simp
  have q1: "queues_ok (fw_store ?w1) (view m ?w1) Q" using q l by simp
  have step: "FutexMgr_WakeOp m addr1 addr2 private n1 n2 op w =
      (case r of
         Inl e \<Rightarrow> Some (Err e, unlock_both m k1 k2 ?w1)
       | Inr cond \<Rightarrow>
           fx_bind (with_queue m k1 (WaitList_WakeLocked (- 1) n1)) (\<lambda>done.
             fx_bind (if cond then with_queue m k2 (WaitList_WakeLocked (- 1) n2) else (\<lambda>w. Some (Ok 0, w))) (\<lambda>more w.
               Some (Ok (i32 (done + more)), unlock_both m k1 k2 w))) ?w1)"
    using at l(6) by (simp add: FutexMgr_WakeOp_def k1 k2 fx_bind_def [of "lockQueues m k1 k2"] l(1) Let_def)
  show ?thesis
  proof (cases r)
    case (Inl e)
    then show ?thesis using step unlock_both_ok [OF b1 l(3)] q1 l by (simp add: futex_ok_def)
  next
    case (Inr c)
    define c2 where "c2 = (if c then nat n2 else 0)"
    have all: "\<forall>x \<in> set (Q k). matches (fw_store w) (- 1) x" for k using able able_all by blast
    have all1: "\<forall>x \<in> set (Q k). matches (fw_store ?w1) (- 1) x" for k using all [of k] l(5) by simp
    have f1: "filter (matches (fw_store ?w1) (- 1)) (Q k) = Q k" for k using all1 [of k] by (simp only: filter_id_conv)
    obtain w2 where w2: "with_queue m k1 (WaitList_WakeLocked (- 1) n1) ?w1 = Some (Ok (int (length (take (nat n1) (Q k1)))), w2)"
        "buckets_ok m L w2" "queues_ok (fw_store w2) (view m w2) (Q(k1 := drop (nat n1) (Q k1)))"
        "changed (set (Q k1)) (keys_of (take (nat n1) (Q k1)) Key_default) (fw_store ?w1) (fw_store w2)"
        "woke (set (take (nat n1) (Q k1))) (fw_store ?w1) (fw_store w2)" "fw_mem w2 = fw_mem ?w1"
      by (rule with_wake_ok [OF b1 q1 n(1), of k1 "- 1", unfolded f1 unwoken_all [OF all1] examined_all [OF all1]], rule that)
    obtain w3 where w3: "(if c then with_queue m k2 (WaitList_WakeLocked (- 1) n2) else (\<lambda>w. Some (Ok 0, w))) w2 =
          Some (Ok (int (length (take c2 (Q k2)))), w3)"
        "buckets_ok m L w3" "queues_ok (fw_store w3) (view m w3) (Q(k1 := drop (nat n1) (Q k1), k2 := drop c2 (Q k2)))"
        "changed (set (Q k2)) (keys_of (take c2 (Q k2)) Key_default) (fw_store w2) (fw_store w3)"
        "woke (set (take c2 (Q k2))) (fw_store w2) (fw_store w3)" "fw_mem w3 = fw_mem w2"
    proof (cases c)
      case True
      have Q2: "(Q(k1 := drop (nat n1) (Q k1))) k2 = Q k2" using ne by simp
      have all2: "\<forall>x \<in> set (Q k2). matches (fw_store w2) (- 1) x" using all1 [of k2] changed_mask [OF w2(4)] by simp
      have f2: "filter (matches (fw_store w2) (- 1)) (Q k2) = Q k2" using all2 by (simp only: filter_id_conv)
      obtain w3 where "with_queue m k2 (WaitList_WakeLocked (- 1) n2) w2 = Some (Ok (int (length (take (nat n2) (Q k2)))), w3)"
          "buckets_ok m L w3" "queues_ok (fw_store w3) (view m w3) ((Q(k1 := drop (nat n1) (Q k1)))(k2 := drop (nat n2) (Q k2)))"
          "changed (set (Q k2)) (keys_of (take (nat n2) (Q k2)) Key_default) (fw_store w2) (fw_store w3)"
          "woke (set (take (nat n2) (Q k2))) (fw_store w2) (fw_store w3)" "fw_mem w3 = fw_mem w2"
        by (rule with_wake_ok [OF w2(2,3) n(2), of k2 "- 1", unfolded Q2 f2 unwoken_all [OF all2] examined_all [OF all2]], rule that)
      then show thesis using True by (intro that [of w3]) (simp_all add: c2_def)
    next
      case False
      have "Q(k1 := drop (nat n1) (Q k1), k2 := Q k2) = Q(k1 := drop (nat n1) (Q k1))" using ne by (auto simp: fun_eq_iff)
      then show thesis using False w2(2,3) by (intro that [of w2]) (simp_all add: c2_def)
    qed
    note u = unlock_both_ok [OF w3(2) l(3)]
    have "changed (set (Q k1) \<union> set (Q k2)) (keys_of (take (nat n1) (Q k1)) Key_default ++ keys_of (take c2 (Q k2)) Key_default)
        (fw_store w) (fw_store w3)"
      using changed_trans [OF w2(4) w3(4)] l(5) by simp
    moreover have "woke (set (take (nat n1) (Q k1)) \<union> set (take c2 (Q k2))) (fw_store w) (fw_store w3)"
      using woke_trans [OF w2(5,4) w3(5)] l(5) by simp
    moreover have "FutexMgr_WakeOp m addr1 addr2 private n1 n2 op w =
        Some (Ok (i32 (int (length (take (nat n1) (Q k1))) + int (length (take c2 (Q k2))))), unlock_both m k1 k2 w3)"
      unfolding step Inr using w3(1) by (simp only: fx_bind_def w2(1) option.case prod.case sum.case)
    ultimately show ?thesis
      unfolding Inr sum.case Let_def c2_def [symmetric] using u w3(3,6) w2(6)
      by (intro exI [of _ "unlock_both m k1 k2 w3"]) (simp add: futex_ok_def)
  qed
qed

text \<open>What the other tasks do while one waits: the calls that wake and requeue, and stores to user memory. A
  requeue to the private address 0 is left out: its key is the one that marks a woken entry.\<close>

datatype futex_call =
    CallWake u64 bool int
  | CallRequeue u64 u64 bool "u32 option" int int
  | CallWakeOp u64 u64 bool int int u32
  | UserStore u64 u32

definition after_call :: "('a result \<times> futex_world) option \<Rightarrow> futex_world \<Rightarrow> futex_world" where
  "after_call r w = (case r of None \<Rightarrow> w | Some (_, w') \<Rightarrow> w')"

fun do_call :: "futex_mgr \<Rightarrow> futex_call \<Rightarrow> futex_world \<Rightarrow> futex_world" where
  "do_call m (CallWake addr private n) w =
     after_call (FutexMgr_Wake m addr private FUTEX_BITSET_MATCH_ANY (i32 n) w) w"
| "do_call m (CallRequeue addr naddr private v nwake nreq) w =
     after_call (case v of None \<Rightarrow> FutexMgr_Requeue m addr naddr private (i32 nwake) (i32 nreq) w
       | Some val \<Rightarrow> FutexMgr_RequeueCmp m addr naddr private val (i32 nwake) (i32 nreq) w) w"
| "do_call m (CallWakeOp addr1 addr2 private n1 n2 op) w =
     after_call (FutexMgr_WakeOp m addr1 addr2 private (i32 n1) (i32 n2) op w) w"
| "do_call m (UserStore addr v) w = w\<lparr>fw_mem := write_word addr v (fw_mem w)\<rparr>"

fun call_ok :: "futex_call \<Rightarrow> bool" where
  "call_ok (CallRequeue addr naddr private v nwake nreq) \<longleftrightarrow> \<not> (private \<and> naddr = 0)"
| "call_ok _ \<longleftrightarrow> True"

lemma take_xor_drop: "distinct xs \<Longrightarrow> x \<in> set xs \<Longrightarrow> x \<in> set (take n xs) \<longleftrightarrow> x \<notin> set (drop n xs)"
  by (metis Un_iff append_take_drop_id disjoint_iff distinct_append set_append)

lemma waiting_elim:
  assumes "waiting m e w"
  obtains Q where "futex_ok m w Q" "keyed (fw_store w) Q" "\<forall>k. \<forall>x \<in> set (Q k). awake_able (fw_store w) x"
    "e < length (ws_entries (fw_store w))" "thread_ok (fw_store w) e" "queues_ok (fw_store w) (view m w) Q"
    "\<And>k. e \<in> set (Q k) \<longleftrightarrow> key_of (fw_store w) e = Some k \<and> k \<noteq> Key_default"
    "key_of (fw_store w) e = Some Key_default \<Longrightarrow> triggered (fw_store w) e" "\<And>k. distinct (Q k)"
    "\<And>a b x. x \<in> set (Q a) \<Longrightarrow> x \<in> set (Q b) \<Longrightarrow> a = b"
proof -
  obtain Q where Q: "futex_ok m w Q" "keyed (fw_store w) Q" "\<forall>k. \<forall>x \<in> set (Q k). awake_able (fw_store w) x"
    "e < length (ws_entries (fw_store w))" "thread_ok (fw_store w) e"
    "\<And>k. e \<in> set (Q k) \<longleftrightarrow> key_of (fw_store w) e = Some k \<and> k \<noteq> Key_default"
    "key_of (fw_store w) e = Some Key_default \<Longrightarrow> triggered (fw_store w) e"
    using assms by (auto simp: waiting_def)
  have q: "queues_ok (fw_store w) (view m w) Q" using Q(1) by (simp add: futex_ok_def)
  have "a = b" if "x \<in> set (Q a)" "x \<in> set (Q b)" for a b x using queues_disjoint [OF q, of a b] that by blast
  moreover have "distinct (Q k)" for k using queues_wl [OF q, of k] by (simp add: wl_ok_def)
  ultimately show thesis using that Q q by blast
qed

lemma waiting_wake:
  assumes "waiting m e w"
  shows "waiting m e (do_call m (CallWake addr private n) w)"
  using assms
proof (rule waiting_elim)
  fix Q assume Q: "futex_ok m w Q" "keyed (fw_store w) Q" "\<forall>k. \<forall>x \<in> set (Q k). awake_able (fw_store w) x"
    "e < length (ws_entries (fw_store w))" "thread_ok (fw_store w) e" "queues_ok (fw_store w) (view m w) Q"
    "\<And>k. e \<in> set (Q k) \<longleftrightarrow> key_of (fw_store w) e = Some k \<and> k \<noteq> Key_default"
    "key_of (fw_store w) e = Some Key_default \<Longrightarrow> triggered (fw_store w) e" "\<And>k. distinct (Q k)"
    "\<And>a b x. x \<in> set (Q a) \<Longrightarrow> x \<in> set (Q b) \<Longrightarrow> a = b"
  show ?thesis
  proof (cases "Getkey (fw_mem w) addr private")
    case (Inl err)
    then show ?thesis using assms by (simp add: FutexMgr_Wake_def after_call_def)
  next
    case (Inr k)
    have all: "\<forall>x \<in> set (Q k). matches (fw_store w) (ucast FUTEX_BITSET_MATCH_ANY) x" using Q(3) by (simp add: awake_able_def)
    have f: "filter (matches (fw_store w) (ucast FUTEX_BITSET_MATCH_ANY)) (Q k) = Q k" using all by (simp only: filter_id_conv)
    have n: "i32 n \<le> i32_MAX" using i32_range by blast
    obtain w' where w': "FutexMgr_Wake m addr private FUTEX_BITSET_MATCH_ANY (i32 n) w =
          Some (Ok (int (length (take (nat (i32 n)) (Q k)))), w')"
        "futex_ok m w' (Q(k := drop (nat (i32 n)) (Q k)))"
        "changed (set (Q k)) (keys_of (take (nat (i32 n)) (Q k)) Key_default) (fw_store w) (fw_store w')"
        "woke (set (take (nat (i32 n)) (Q k))) (fw_store w) (fw_store w')" "fw_mem w' = fw_mem w"
      by (rule Wake_ok [OF Q(1) Inr n, of FUTEX_BITSET_MATCH_ANY, unfolded f unwoken_all [OF all] examined_all [OF all]], rule that)
    have "waiting m e w'"
    proof (rule waiting_change [OF Q(2,3,4,5,6,7,8) w'(2-4)])
      show "(Q(k := drop (nat (i32 n)) (Q k))) Key_default = []" using Q(2) by (auto simp: keyed_def)
      fix k' x assume x: "x \<in> set ((Q(k := drop (nat (i32 n)) (Q k))) k')"
      then have x': "x \<in> set (Q k')" by (auto split: if_splits dest: in_set_dropD)
      then show "\<exists>k0. x \<in> set (Q k0)" by blast
      have "x \<notin> set (take (nat (i32 n)) (Q k))"
        using x x' Q(10) [of x k' k] take_xor_drop [OF Q(9), of x k "nat (i32 n)"] by (auto split: if_splits dest: in_set_takeD)
      then show "case keys_of (take (nat (i32 n)) (Q k)) Key_default x of None \<Rightarrow> x \<in> set (Q k') | Some k'' \<Rightarrow> k'' = k'"
        using x' by (simp add: keys_of_def)
    next
      fix x k' assume "keys_of (take (nat (i32 n)) (Q k)) Key_default x = Some k'"
      then have x: "x \<in> set (take (nat (i32 n)) (Q k))" "k' = Key_default" by (auto simp: keys_of_def split: if_splits)
      have "x \<notin> set ((Q(k := drop (nat (i32 n)) (Q k))) a)" for a
        using x(1) take_xor_drop [OF Q(9), of x k "nat (i32 n)"] Q(10) [of x a k] by (auto dest: in_set_takeD)
      then show "k' = Key_default \<and> x \<in> set (take (nat (i32 n)) (Q k)) \<and> (\<forall>a. x \<notin> set ((Q(k := drop (nat (i32 n)) (Q k))) a)) \<or>
          k' \<noteq> Key_default \<and> x \<in> set ((Q(k := drop (nat (i32 n)) (Q k))) k')"
        using x by blast
    next
      fix x a assume "keys_of (take (nat (i32 n)) (Q k)) Key_default x = None" "x \<in> set (Q a)"
      then show "x \<in> set ((Q(k := drop (nat (i32 n)) (Q k))) a)"
        using take_xor_drop [OF Q(9), of x k "nat (i32 n)"] by (auto simp: keys_of_def split: if_splits)
    qed
    then show ?thesis by (simp add: w'(1) after_call_def)
  qed
qed

lemma keys_of_add: "(keys_of as a ++ keys_of bs b) x =
    (if x \<in> set bs then Some b else if x \<in> set as then Some a else None)"
  by (simp add: keys_of_def map_add_def)

lemma waiting_requeue:
  assumes wt: "waiting m e w" and lk: "\<not> (private \<and> naddr = 0)"
  shows "waiting m e (after_call (doRequeue m addr naddr private checkval val (i32 nwake) (i32 nreq) w) w)"
  using wt
proof (rule waiting_elim)
  fix Q assume Q: "futex_ok m w Q" "keyed (fw_store w) Q" "\<forall>k. \<forall>x \<in> set (Q k). awake_able (fw_store w) x"
    "e < length (ws_entries (fw_store w))" "thread_ok (fw_store w) e" "queues_ok (fw_store w) (view m w) Q"
    "\<And>k. e \<in> set (Q k) \<longleftrightarrow> key_of (fw_store w) e = Some k \<and> k \<noteq> Key_default"
    "key_of (fw_store w) e = Some Key_default \<Longrightarrow> triggered (fw_store w) e" "\<And>k. distinct (Q k)"
    "\<And>a b x. x \<in> set (Q a) \<Longrightarrow> x \<in> set (Q b) \<Longrightarrow> a = b"
  consider (err) err where "and_then (Getkey (fw_mem w) addr private) (\<lambda>k1.
        and_then (Getkey (fw_mem w) naddr private) (\<lambda>k2. Ok (k1, k2))) = Inl err"
    | (keys) k1 k2 where "Getkey (fw_mem w) addr private = Ok k1" "Getkey (fw_mem w) naddr private = Ok k2"
    by (cases "Getkey (fw_mem w) addr private"; cases "Getkey (fw_mem w) naddr private") auto
  then show ?thesis
  proof cases
    case err
    then show ?thesis using wt by (simp add: doRequeue_def after_call_def)
  next
    case (keys k1 k2)
    have k2: "k2 \<noteq> Key_default" using lk keys(2) Getkey_default by blast
    show ?thesis
    proof (cases "k1 = k2")
      case True
      then show ?thesis using wt keys by (simp add: doRequeue_def after_call_def lockQueues_def fx_bind_def)
    next
      case ne: False
      have n: "i32 nwake \<le> i32_MAX" "i32 nreq \<le> i32_MAX" using i32_range by blast+
      define a where "a = nat (i32 nwake)"
      define c where "c = nat (i32 nreq)"
      define W where "W = take a (Q k1)"
      define stay where "stay = drop a (Q k1)"
      have all: "\<forall>x \<in> set (Q k1). matches (fw_store w) (- 1) x" using Q(3) able_all by blast
      have f: "filter (matches (fw_store w) (- 1)) (Q k1) = Q k1" using all by (simp only: filter_id_conv)
      obtain r mem where chk: "(if checkval then Futex_Check addr val (fw_mem w) else (Ok (), fw_mem w)) = (r, mem)"
        by (cases "if checkval then Futex_Check addr val (fw_mem w) else (Ok (), fw_mem w)")
      note rq = doRequeue_ok [OF Q(1) keys ne n chk, unfolded f unwoken_all [OF all] examined_all [OF all],
          folded a_def c_def, folded W_def stay_def]
      show ?thesis
      proof (cases r)
        case (Inl err)
        from rq [unfolded Inl sum.case] obtain w' where
          w': "doRequeue m addr naddr private checkval val (i32 nwake) (i32 nreq) w = Some (Err err, w')"
            "futex_ok m w' Q" "fw_store w' = fw_store w" by blast
        have "waiting m e w'" using Q w' unfolding waiting_def by (intro exI [of _ Q]) auto
        then show ?thesis by (simp add: w'(1) after_call_def)
      next
        case (Inr y)
        from rq [unfolded Inr sum.case] obtain w' where
          w': "doRequeue m addr naddr private checkval val (i32 nwake) (i32 nreq) w = Some (Ok (int (length W)), w')"
            "futex_ok m w' (requeued k1 k2 c stay Q)"
            "changed (set (Q k1) \<union> set (Q k2)) (keys_of W Key_default ++ keys_of (take c stay) k2) (fw_store w) (fw_store w')"
            "woke (set W) (fw_store w) (fw_store w')" by blast
        have W: "x \<in> set W \<longleftrightarrow> x \<notin> set stay" if "x \<in> set (Q k1)" for x
          using take_xor_drop [OF Q(9) that] by (simp add: W_def stay_def)
        have d: "distinct stay" using Q(9) by (simp add: stay_def)
        have st: "x \<in> set (take c stay) \<longleftrightarrow> x \<notin> set (drop c stay)" if "x \<in> set stay" for x
          using take_xor_drop [OF d that] .
        have sub: "set W \<subseteq> set (Q k1)" "set stay \<subseteq> set (Q k1)" "set (take c stay) \<subseteq> set stay" "set (drop c stay) \<subseteq> set stay"
          by (simp_all only: W_def stay_def set_take_subset set_drop_subset)
        have k12: "set (Q k1) \<inter> set (Q k2) = {}" using queues_disjoint [OF Q(6) ne] .
        have Q': "set (requeued k1 k2 c stay Q k) = (if k = k2 then set (Q k2) \<union> set (take c stay)
            else if k = k1 then set (drop c stay) else set (Q k))" for k
          using ne by (simp add: requeued_def)
        have "waiting m e w'"
        proof (rule waiting_change [OF Q(2,3,4,5,6,7,8) w'(2-4)])
          show "requeued k1 k2 c stay Q Key_default = []"
            using Q(2) k2 ne by (auto simp: requeued_def keyed_def stay_def)
          fix k x assume x: "x \<in> set (requeued k1 k2 c stay Q k)"
          then show "\<exists>k0. x \<in> set (Q k0)" unfolding Q' using sub by (auto split: if_splits)
          consider "k = k2" "x \<in> set (take c stay)" | "k = k1" "x \<in> set (drop c stay)" | "x \<in> set (Q k)" "x \<notin> set (Q k1)"
            using x k12 Q(10) [of x k k1] unfolding Q' by (auto split: if_splits)
          then show "case (keys_of W Key_default ++ keys_of (take c stay) k2) x of None \<Rightarrow> x \<in> set (Q k) | Some k' \<Rightarrow> k' = k"
          proof cases
            case 1
            then show ?thesis by (simp add: keys_of_add)
          next
            case 2
            then have "x \<in> set stay" "x \<in> set (Q k1)" using sub by blast+
            then have "x \<notin> set (take c stay)" "x \<notin> set W" using 2 W st by blast+
            then show ?thesis using 2 \<open>x \<in> set (Q k1)\<close> by (simp add: keys_of_add)
          next
            case 3
            then have "x \<notin> set (take c stay)" "x \<notin> set W" using sub by blast+
            then show ?thesis using 3 by (simp add: keys_of_add)
          qed
        next
          fix x k' assume "(keys_of W Key_default ++ keys_of (take c stay) k2) x = Some k'"
          then consider "x \<in> set (take c stay)" "k' = k2" | "x \<in> set W" "x \<notin> set (take c stay)" "k' = Key_default"
            unfolding keys_of_add by (auto split: if_splits)
          then show "k' = Key_default \<and> x \<in> set W \<and> (\<forall>k. x \<notin> set (requeued k1 k2 c stay Q k)) \<or>
              k' \<noteq> Key_default \<and> x \<in> set (requeued k1 k2 c stay Q k')"
          proof cases
            case 1
            then show ?thesis using k2 unfolding Q' by simp
          next
            case 2
            then have x: "x \<in> set (Q k1)" using sub by blast
            then have "x \<notin> set stay" using 2 W by blast
            then have "x \<notin> set (requeued k1 k2 c stay Q k)" for k
              using x sub k12 Q(10) [of x k k1] unfolding Q' by (cases "k = k1"; cases "k = k2") auto
            then show ?thesis using 2 by blast
          qed
        next
          fix x k assume "(keys_of W Key_default ++ keys_of (take c stay) k2) x = None" "x \<in> set (Q k)"
          then have "x \<notin> set (take c stay)" "x \<notin> set W" "x \<in> set (Q k)" unfolding keys_of_add by (simp_all split: if_splits)
          then show "x \<in> set (requeued k1 k2 c stay Q k)" unfolding Q' using W [of x] st [of x] ne by (cases "k = k1") auto
        qed
        then show ?thesis by (simp add: w'(1) after_call_def)
      qed
    qed
  qed
qed

lemma waiting_wakeop:
  assumes wt: "waiting m e w"
  shows "waiting m e (do_call m (CallWakeOp addr1 addr2 private n1 n2 op) w)"
  using wt
proof (rule waiting_elim)
  fix Q assume Q: "futex_ok m w Q" "keyed (fw_store w) Q" "\<forall>k. \<forall>x \<in> set (Q k). awake_able (fw_store w) x"
    "e < length (ws_entries (fw_store w))" "thread_ok (fw_store w) e" "queues_ok (fw_store w) (view m w) Q"
    "\<And>k. e \<in> set (Q k) \<longleftrightarrow> key_of (fw_store w) e = Some k \<and> k \<noteq> Key_default"
    "key_of (fw_store w) e = Some Key_default \<Longrightarrow> triggered (fw_store w) e" "\<And>k. distinct (Q k)"
    "\<And>a b x. x \<in> set (Q a) \<Longrightarrow> x \<in> set (Q b) \<Longrightarrow> a = b"
  consider (err) err where "and_then (Getkey (fw_mem w) addr1 private) (\<lambda>k1.
        and_then (Getkey (fw_mem w) addr2 private) (\<lambda>k2. Ok (k1, k2))) = Inl err"
    | (keys) k1 k2 where "Getkey (fw_mem w) addr1 private = Ok k1" "Getkey (fw_mem w) addr2 private = Ok k2"
    by (cases "Getkey (fw_mem w) addr1 private"; cases "Getkey (fw_mem w) addr2 private") auto
  then show ?thesis
  proof cases
    case err
    then show ?thesis using wt by (simp add: FutexMgr_WakeOp_def after_call_def)
  next
    case (keys k1 k2)
    show ?thesis
    proof (cases "k1 = k2")
      case True
      then show ?thesis using wt keys by (simp add: FutexMgr_WakeOp_def after_call_def lockQueues_def fx_bind_def)
    next
      case ne: False
      have n: "i32 n1 \<le> i32_MAX" "i32 n2 \<le> i32_MAX" using i32_range by blast+
      obtain r mem where at: "AtomicOp addr2 op (fw_mem w) = Some (r, mem)"
        using AtomicOp_returns [OF Getkey_aligned [OF keys(2)]] by blast
      note op = WakeOp_ok [OF Q(1) keys ne n at Q(3)]
      show ?thesis
      proof (cases r)
        case (Inl err)
        from op [unfolded Inl sum.case] obtain w' where
          w': "FutexMgr_WakeOp m addr1 addr2 private (i32 n1) (i32 n2) op w = Some (Err err, w')"
            "futex_ok m w' Q" "fw_store w' = fw_store w" by blast
        have "waiting m e w'" using Q w' unfolding waiting_def by (intro exI [of _ Q]) auto
        then show ?thesis by (simp add: w'(1) after_call_def)
      next
        case (Inr b)
        define a where "a = nat (i32 n1)"
        define c where "c = (if b then nat (i32 n2) else 0)"
        define W1 where "W1 = take a (Q k1)"
        define W2 where "W2 = take c (Q k2)"
        define Q' where "Q' = Q(k1 := drop a (Q k1), k2 := drop c (Q k2))"
        from op [unfolded Inr sum.case Let_def, folded a_def c_def, folded W1_def W2_def Q'_def] obtain r w' where
          w': "FutexMgr_WakeOp m addr1 addr2 private (i32 n1) (i32 n2) op w = Some (r, w')" "futex_ok m w' Q'"
            "changed (set (Q k1) \<union> set (Q k2)) (keys_of W1 Key_default ++ keys_of W2 Key_default) (fw_store w) (fw_store w')"
            "woke (set W1 \<union> set W2) (fw_store w) (fw_store w')" by blast
        have W1: "x \<in> set W1 \<longleftrightarrow> x \<notin> set (drop a (Q k1))" if "x \<in> set (Q k1)" for x
          using take_xor_drop [OF Q(9) that] by (simp add: W1_def)
        have W2: "x \<in> set W2 \<longleftrightarrow> x \<notin> set (drop c (Q k2))" if "x \<in> set (Q k2)" for x
          using take_xor_drop [OF Q(9) that] by (simp add: W2_def)
        have sub: "set W1 \<subseteq> set (Q k1)" "set W2 \<subseteq> set (Q k2)" "set (drop a (Q k1)) \<subseteq> set (Q k1)" "set (drop c (Q k2)) \<subseteq> set (Q k2)"
          by (auto simp: W1_def W2_def dest: in_set_takeD in_set_dropD)
        have k12: "set (Q k1) \<inter> set (Q k2) = {}" using queues_disjoint [OF Q(6) ne] .
        have S: "set (Q' k) = (if k = k2 then set (drop c (Q k2)) else if k = k1 then set (drop a (Q k1)) else set (Q k))" for k
          using ne by (simp add: Q'_def)
        have gone: "x \<notin> set (Q' k)" if "x \<in> set W1 \<or> x \<in> set W2" for x k
          using that sub W1 [of x] W2 [of x] k12 Q(10) [of x k k1] Q(10) [of x k k2] unfolding S by (auto split: if_splits)
        have "waiting m e w'"
        proof (rule waiting_change [OF Q(2,3,4,5,6,7,8) w'(2-4)])
          show "Q' Key_default = []" using Q(2) by (auto simp: Q'_def keyed_def)
          fix k x assume x: "x \<in> set (Q' k)"
          then have "x \<in> set (Q k)" unfolding S using sub by (auto split: if_splits)
          then show "\<exists>k0. x \<in> set (Q k0)" by blast
          show "case (keys_of W1 Key_default ++ keys_of W2 Key_default) x of None \<Rightarrow> x \<in> set (Q k) | Some k' \<Rightarrow> k' = k"
            using x gone [of x k] \<open>x \<in> set (Q k)\<close> unfolding keys_of_add by auto
        next
          fix x k' assume "(keys_of W1 Key_default ++ keys_of W2 Key_default) x = Some k'"
          then have "x \<in> set W1 \<union> set W2" "k' = Key_default" unfolding keys_of_add by (auto split: if_splits)
          then show "k' = Key_default \<and> x \<in> set W1 \<union> set W2 \<and> (\<forall>k. x \<notin> set (Q' k)) \<or> k' \<noteq> Key_default \<and> x \<in> set (Q' k')"
            using gone by blast
        next
          fix x k assume "(keys_of W1 Key_default ++ keys_of W2 Key_default) x = None" "x \<in> set (Q k)"
          then show "x \<in> set (Q' k)" using W1 [of x] W2 [of x] unfolding S keys_of_add by (auto split: if_splits)
        qed
        then show ?thesis by (simp add: w'(1) after_call_def)
      qed
    qed
  qed
qed

lemma waiting_call: "waiting m e w \<Longrightarrow> call_ok c \<Longrightarrow> waiting m e (do_call m c w)"
proof (cases c)
  case (CallWake addr prv n)
  assume "waiting m e w"
  then show ?thesis unfolding CallWake by (rule waiting_wake)
next
  case (CallRequeue addr naddr prv v nwake nreq)
  assume "waiting m e w" "call_ok c"
  then show ?thesis
    using waiting_requeue [of m e w prv naddr] CallRequeue
    by (cases v) (simp_all add: FutexMgr_Requeue_def FutexMgr_RequeueCmp_def)
next
  case (CallWakeOp addr1 addr2 prv n1 n2 op)
  assume "waiting m e w"
  then show ?thesis unfolding CallWakeOp by (rule waiting_wakeop)
next
  case (UserStore addr v)
  assume "waiting m e w"
  then show ?thesis unfolding UserStore by (auto simp: waiting_def futex_ok_def)
qed

end
