(* ===== verification/Futex_Waits.thy ===== *)
theory Futex_Waits
  imports Futex_Laws
begin

text \<open>
  What a task that waits at a futex can rely on, what it cannot, and a small world on which the
  theorems are applied.
\<close>

section \<open>A world with two waiters\<close>

definition sample_key :: key where "sample_key = Key KindPrivate 0x1000"

definition sample_mgr :: futex_mgr where "sample_mgr = \<lparr>fx_private = 0, fx_shared = 1\<rparr>"

definition futex_store :: "u64 \<Rightarrow> wait_store" where
  "futex_store mk = \<lparr>ws_entries = [sample_entry None (Some 1) mk 0 sample_key,
       sample_entry (Some 0) None mk 1 sample_key, sample_entry None None 0 2 Key_default],
     ws_waiters = [Waiter_New 10, Waiter_New 11, Waiter_New 12], ws_scheduled = [], ws_callbacks = []\<rparr>"

definition sample_world :: "u64 \<Rightarrow> futex_world" where
  "sample_world mk = \<lparr>fw_store = futex_store mk,
     fw_buckets = [Bucket_default\<lparr>bk_map := [(sample_key, \<lparr>wl_head = Some 0, wl_tail = Some 1\<rparr>)]\<rparr>, Bucket_default],
     fw_mem = sample_mem\<rparr>"

definition sample_futex :: futex_world where "sample_futex = sample_world 0xffffffff"

definition sample_queues :: "key \<Rightarrow> nat list" where
  "sample_queues = (\<lambda>_. [])(sample_key := [0, 1])"

lemma sample_queue: "sample_queues sample_key = [0, 1]" "sample_queues (Key KindPrivate 0x2000) = []"
  by (simp_all add: sample_queues_def sample_key_def)

lemma sample_entries: "length (ws_entries (futex_store mk)) = 3"
  "entry (futex_store mk) 0 = sample_entry None (Some 1) mk 0 sample_key"
  "entry (futex_store mk) (Suc 0) = sample_entry (Some 0) None mk 1 sample_key"
  "entry (futex_store mk) 2 = sample_entry None None 0 2 Key_default"
  by (simp_all add: futex_store_def)

lemma sample_thread_ok: "thread_ok (futex_store mk) 0" "thread_ok (futex_store mk) (Suc 0)" "thread_ok (futex_store mk) 2"
  by (simp_all add: thread_ok_def sample_entries sample_entry_def TIMER_WAITID_def futex_store_def)

lemma sample_queue_at: "queue_at sample_mgr k (sample_world mk) =
    (if k = sample_key then \<lparr>wl_head = Some 0, wl_tail = Some 1\<rparr> else WaitList_default)"
  by (auto simp: queue_at_def Bucket_GetQueue_def bucket_of_def sample_mgr_def sample_world_def bt_get_def
      Bucket_default_def sample_key_def)

lemma sample_world_ok: "futex_ok sample_mgr (sample_world mk) sample_queues"
proof -
  have "buckets_ok sample_mgr {} (sample_world mk)"
    by (simp add: buckets_ok_def bucket_ok_def sample_mgr_def sample_world_def Bucket_default_def bt_wf_def)
  moreover have "wl_ok (futex_store mk) \<lparr>wl_head = Some 0, wl_tail = Some 1\<rparr> [0, Suc 0]"
    by (simp add: wl_ok_def sample_entries sample_entry_def)
  moreover have "WaitEntry_InitState (futex_store mk) e" if "e < length (ws_entries (futex_store mk))" "\<forall>k. e \<notin> set (sample_queues k)" for e
  proof -
    have "e \<noteq> 0" "e \<noteq> Suc 0" using that(2) [rule_format, of sample_key] by (auto simp: sample_queues_def)
    then have "e = 2" using that(1) by (auto simp: sample_entries)
    then show ?thesis by (simp add: WaitEntry_InitState_def sample_entries sample_entry_def)
  qed
  ultimately show ?thesis
    by (simp add: futex_ok_def queues_ok_def sample_queue_at sample_queues_def sample_thread_ok)
      (auto simp add: sample_world_def sample_thread_ok)
qed

lemma sample_futex_ok: "futex_ok sample_mgr sample_futex sample_queues"
  by (simp add: sample_futex_def sample_world_ok)

lemma sample_keyed: "keyed (fw_store sample_futex) sample_queues"
  by (simp add: keyed_def sample_queues_def sample_futex_def sample_world_def key_of_def sample_entries sample_entry_def sample_key_def Key_default_def)

lemma sample_able: "\<forall>k. \<forall>x \<in> set (sample_queues k). awake_able (fw_store sample_futex) x"
  by (simp add: awake_able_def sample_queues_def sample_futex_def sample_world_def sample_entries sample_entry_def FUTEX_BITSET_MATCH_ANY_def)

lemma sample_Getkey: "Getkey (fw_mem sample_futex) 0x1000 True = Ok sample_key"
  "Getkey (fw_mem sample_futex) 0x2000 True = Ok (Key KindPrivate 0x2000)"
  by (simp_all add: Getkey_def sample_key_def)

text \<open>The theorem on waking at this world: the first of the two waiters is served.\<close>

theorem FutexMgr_Wake_refines_witness:
  "\<exists>w'. FutexMgr_Wake sample_mgr 0x1000 True FUTEX_BITSET_MATCH_ANY 1 sample_futex = Some (Ok 1, w') \<and>
    futex_ok sample_mgr w' (sample_queues(sample_key := [1])) \<and> triggered (fw_store w') 0"
proof -
  have W: "[0] = take (nat 1) (filter (matches (fw_store sample_futex) (ucast FUTEX_BITSET_MATCH_ANY)) (sample_queues sample_key))"
    by (simp add: sample_queues_def sample_futex_def sample_world_def sample_entries sample_entry_def FUTEX_BITSET_MATCH_ANY_def)
  have n: "(1 :: int) \<le> i32_MAX" by simp
  show ?thesis
    using FutexMgr_Wake_refines [OF sample_futex_ok sample_Getkey(1) n W] by (auto simp: sample_queue)
qed

section \<open>Waiting\<close>



text \<open>A successful \<open>WaitPrepare\<close> with a bitmask that is not 0 makes the entry a waiting one.\<close>

lemma and_match_any: "ucast FUTEX_BITSET_MATCH_ANY AND ucast (b :: u32) = (ucast b :: u64)"
proof (rule bit_word_eqI)
  fix n assume "n < LENGTH(64)"
  have "bit (FUTEX_BITSET_MATCH_ANY :: u32) n" if "n < 32"
  proof -
    have any: "FUTEX_BITSET_MATCH_ANY = (- 1 :: u32)" by (simp add: FUTEX_BITSET_MATCH_ANY_def)
    show ?thesis unfolding any using that by (simp add: bit_minus_1_iff)
  qed
  then show "bit (ucast FUTEX_BITSET_MATCH_ANY AND ucast b :: u64) n = bit (ucast b :: u64) n"
    by (auto simp: bit_simps dest: bit_imp_le_length)
qed

lemma prepared_waiting:
  assumes ok: "futex_ok m w Q" and kd: "keyed (fw_store w) Q" and able: "\<forall>k. \<forall>x \<in> set (Q k). awake_able (fw_store w) x"
    and key: "Getkey (fw_mem w) addr private = Ok k" and k: "k \<noteq> Key_default" and b: "bitmask \<noteq> 0"
    and e: "e < length (ws_entries (fw_store w))" "\<And>k. e \<notin> set (Q k)" "thread_ok (fw_store w) e"
    and wp: "WaitPrepare m e addr private val bitmask w = Some (Ok (), w')"
  shows "waiting m e w'"
proof -
  obtain r mem where chk: "Futex_Check addr val (fw_mem w) = (r, mem)" by (cases "Futex_Check addr val (fw_mem w)")
  obtain w1 where p: "WaitPrepare m e addr private val bitmask w = Some (r, w1)" "fw_mem w1 = mem"
    "futex_ok m w1 (if r = Ok () then Q(k := Q k @ [e]) else Q)"
    "\<And>x. key_of (fw_store w1) x = (if x = e then Some k else key_of (fw_store w) x)"
    "\<And>x. we_mask (entry (fw_store w1) x) = (if x = e then ucast bitmask else we_mask (entry (fw_store w) x))"
    "\<And>x. thread_ok (fw_store w1) x = thread_ok (fw_store w) x" "\<not> triggered (fw_store w1) e"
    "length (ws_entries (fw_store w1)) = length (ws_entries (fw_store w))"
    by (rule WaitPrepare_ok [OF ok key e chk, of bitmask], rule that)
  have w1: "w1 = w'" "r = Ok ()" using p(1) wp by simp_all
  have "(ucast bitmask :: u64) \<noteq> 0"
  proof
    assume z: "(ucast bitmask :: u64) = 0"
    have "bit bitmask n = bit (0 :: u32) n" if "n < LENGTH(32)" for n
    proof -
      have "bit (ucast bitmask :: u64) n = bit bitmask n" using that by (simp add: bit_simps)
      then show ?thesis by (simp add: z)
    qed
    then have "bitmask = 0" by (rule bit_word_eqI)
    then show False using b by simp
  qed
  then have me: "awake_able (fw_store w1) e" by (simp add: awake_able_def p(5) and_match_any)
  have "keyed (fw_store w1) (Q(k := Q k @ [e]))" using kd k e(2) p(4) by (auto simp: keyed_def)
  moreover have "\<forall>k'. \<forall>x \<in> set ((Q(k := Q k @ [e])) k'). awake_able (fw_store w1) x"
    using able me p(5) by (auto simp: awake_able_def)
  moreover have "e \<in> set ((Q(k := Q k @ [e])) k') \<longleftrightarrow> key_of (fw_store w1) e = Some k' \<and> k' \<noteq> Key_default" for k'
    using e(2) k p(4) by auto
  ultimately have "waiting m e w1"
    unfolding waiting_def using p e k w1(2) by (intro exI [of _ "Q(k := Q k @ [e])"]) simp
  then show ?thesis by (simp add: w1)
qed




lemma sample_waiting: "waiting sample_mgr 0 sample_futex"
  unfolding waiting_def
proof (intro exI [of _ sample_queues] conjI)
  show "0 < length (ws_entries (fw_store sample_futex))" by (simp add: sample_futex_def sample_world_def sample_entries)
  show "thread_ok (fw_store sample_futex) 0" by (simp add: sample_futex_def sample_world_def sample_thread_ok)
  have "key_of (fw_store sample_futex) 0 = Some sample_key" "sample_key \<noteq> Key_default"
    by (simp_all add: sample_futex_def sample_world_def key_of_def sample_entries sample_entry_def sample_key_def Key_default_def)
  then show "\<forall>k. 0 \<in> set (sample_queues k) \<longleftrightarrow> key_of (fw_store sample_futex) 0 = Some k \<and> k \<noteq> Key_default"
    "key_of (fw_store sample_futex) 0 = Some Key_default \<longrightarrow> triggered (fw_store sample_futex) 0"
    by (auto simp: sample_queues_def)
qed (rule sample_futex_ok sample_keyed sample_able)+


section \<open>Requeueing\<close>

text \<open>C35. \<open>Requeue\<close> wakes the first \<open>nwake\<close> waiters of one key and moves the next \<open>nreq\<close> ones, in their order, to the
  end of the queue of the other key, whose address the moved entries then carry; it returns the number of
  waiters woken and triggers no other.\<close>

theorem FutexMgr_Requeue_refines:
  assumes "futex_ok m w Q" and "\<forall>k. \<forall>x \<in> set (Q k). awake_able (fw_store w) x"
    and "Getkey (fw_mem w) addr private = Ok k1" and "Getkey (fw_mem w) naddr private = Ok k2" and "k1 \<noteq> k2"
    and "nwake \<le> i32_MAX" and "nreq \<le> i32_MAX" and "stay = drop (nat nwake) (Q k1)"
  shows "\<exists>w'. FutexMgr_Requeue m addr naddr private nwake nreq w = Some (Ok (int (length (take (nat nwake) (Q k1)))), w') \<and>
    futex_ok m w' (Q(k1 := drop (nat nreq) stay, k2 := Q k2 @ take (nat nreq) stay)) \<and>
    woke (set (take (nat nwake) (Q k1))) (fw_store w) (fw_store w') \<and>
    (\<forall>x \<in> set (take (nat nreq) stay). key_of (fw_store w') x = Some k2)"
proof -
  have all: "\<forall>x \<in> set (Q k1). matches (fw_store w) (- 1) x" using assms(2) able_all by blast
  have f: "filter (matches (fw_store w) (- 1)) (Q k1) = Q k1" using all by (simp only: filter_id_conv)
  have chk: "(if False then Futex_Check addr 0 (fw_mem w) else (Ok (), fw_mem w)) = (Ok (), fw_mem w)" by simp
  obtain w' where w': "doRequeue m addr naddr private False 0 nwake nreq w = Some (Ok (int (length (take (nat nwake) (Q k1)))), w')"
      "futex_ok m w' (requeued k1 k2 (nat nreq) stay Q)" "woke (set (take (nat nwake) (Q k1))) (fw_store w) (fw_store w')"
      "changed (set (Q k1) \<union> set (Q k2)) (keys_of (take (nat nwake) (Q k1)) Key_default ++ keys_of (take (nat nreq) stay) k2)
         (fw_store w) (fw_store w')"
    using doRequeue_ok [OF assms(1,3-7) chk, unfolded f unwoken_all [OF all] examined_all [OF all] sum.case, folded assms(8)] by blast
  have "key_of (fw_store w') x = Some k2" if x: "x \<in> set (take (nat nreq) stay)" for x
  proof -
    have "x \<in> set (Q k1)" using x unfolding assms(8) by (meson in_set_dropD in_set_takeD)
    then have "thread_ok (fw_store w) x" using assms(1) queues_thread by (auto simp: futex_ok_def)
    then show ?thesis using x by (simp add: changed_key_of [OF w'(4)] keys_of_add)
  qed
  then show ?thesis using w' unfolding FutexMgr_Requeue_def requeued_def by blast
qed

theorem FutexMgr_Requeue_refines_witness:
  "\<exists>w'. FutexMgr_Requeue sample_mgr 0x1000 0x2000 True 1 1 sample_futex = Some (Ok 1, w') \<and>
    futex_ok sample_mgr w' (sample_queues(sample_key := [], Key KindPrivate 0x2000 := [1])) \<and>
    key_of (fw_store w') 1 = Some (Key KindPrivate 0x2000)"
proof -
  have k: "sample_key \<noteq> Key KindPrivate 0x2000" "(1 :: int) \<le> i32_MAX" by (simp_all add: sample_key_def)
  have stay: "[1] = drop (nat 1) (sample_queues sample_key)" by (simp add: sample_queue)
  show ?thesis
    using FutexMgr_Requeue_refines [OF sample_futex_ok sample_able sample_Getkey k(1) k(2) k(2) stay] by (auto simp: sample_queue)
qed

section \<open>What can go wrong\<close>

text \<open>C40. A wake whose bitmask meets no bit of a waiter takes the key away from the entries it looks at, although
  it leaves them in the queue. The task that waits there then believes it has been woken: \<open>WaitComplete\<close> returns at
  once, and the entry stays in the queue after the system call.\<close>

theorem FutexMgr_Wake_strands:
  fixes bitmask :: u32
  assumes "futex_ok m w Q" and "Getkey (fw_mem w) addr private = Ok k" and "0 < n" and "n \<le> i32_MAX"
    and "Q k = e # es" and "ucast bitmask AND we_mask (entry (fw_store w) e) = 0"
    and "\<forall>x \<in> set es. ucast bitmask AND we_mask (entry (fw_store w) x) = 0"
  shows "\<exists>w'. FutexMgr_Wake m addr private bitmask n w = Some (Ok 0, w') \<and> futex_ok m w' Q \<and>
    WaitComplete m e others w' = Some (Ok (), w') \<and> triggered (fw_store w') e = triggered (fw_store w) e"
proof -
  have none: "filter (matches (fw_store w) (ucast bitmask)) (Q k) = []" using assms(5-7) by (simp add: filter_empty_conv)
  have d: "distinct (Q k)" and t: "thread_ok (fw_store w) e"
    using assms(1,5) queues_wl [of "fw_store w" "view m w" Q k] queues_thread [of "fw_store w" "view m w" Q e k]
    by (auto simp: futex_ok_def wl_ok_def)
  have un: "unwoken (matches (fw_store w) (ucast bitmask)) (nat n) (Q k) = Q k" by (simp add: unwoken_filter [OF d] none)
  obtain w' where w': "FutexMgr_Wake m addr private bitmask n w = Some (Ok 0, w')" "futex_ok m w' Q"
      "changed (set (Q k)) (keys_of (examined (matches (fw_store w) (ucast bitmask)) (nat n) (Q k)) Key_default) (fw_store w) (fw_store w')"
      "woke {} (fw_store w) (fw_store w')"
    by (rule Wake_ok [OF assms(1,2,4), of bitmask, unfolded none un]) (use that in auto)
  have "e \<in> set (examined (matches (fw_store w) (ucast bitmask)) (nat n) (Q k))" using assms(3,5) by simp
  then have key: "key_of (fw_store w') e = Some Key_default" by (simp add: changed_key_of [OF w'(3) t] keys_of_def)
  have t': "thread_ok (fw_store w') e" using t changed_thread_ok [OF w'(3,4)] by simp
  have "WaitComplete m e others w' = Some (Ok (), w')"
    using entry_key_of [OF t'] key by (subst WaitComplete.simps) auto
  moreover have "triggered (fw_store w') e \<longleftrightarrow> triggered (fw_store w) e"
  proof -
    obtain c where c: "we_context (entry (fw_store w) e) = ThreadContext c" "tc_waiter c < length (ws_waiters (fw_store w))"
      using t by (auto simp: thread_ok_def split: wait_context.splits)
    obtain c' where "we_context (entry (fw_store w') e) = ThreadContext c'" "tc_waiter c' = tc_waiter c" "tc_waiterID c' = tc_waiterID c"
      using w'(3) c(1) by (cases "keys_of (examined (matches (fw_store w) (ucast bitmask)) (nat n) (Q k)) Key_default e")
        (auto simp: changed_def set_key_def)
    then show ?thesis using w'(4) c by (simp add: triggered_def woke_def)
  qed
  ultimately show ?thesis using w'(1,2) by blast
qed

text \<open>Two tasks wait for the first bit, a third one wakes whoever waits for the second.\<close>

theorem FutexMgr_Wake_strands_witness:
  "\<exists>w'. FutexMgr_Wake sample_mgr 0x1000 True 2 1 (sample_world 1) = Some (Ok 0, w') \<and> futex_ok sample_mgr w' sample_queues \<and>
    WaitComplete sample_mgr 0 [] w' = Some (Ok (), w') \<and> 0 \<in> set (sample_queues sample_key)"
proof -
  have key: "Getkey (fw_mem (sample_world 1)) 0x1000 True = Ok sample_key" by (simp add: Getkey_def sample_key_def)
  have n: "(0 :: int) < 1" "(1 :: int) \<le> i32_MAX" by simp_all
  have q: "sample_queues sample_key = 0 # [1]" by (simp add: sample_queue)
  have m: "ucast (2 :: u32) AND we_mask (entry (fw_store (sample_world 1)) 0) = 0"
      "\<forall>x \<in> set [1]. ucast (2 :: u32) AND we_mask (entry (fw_store (sample_world 1)) x) = 0"
    by (simp_all add: sample_world_def sample_entries sample_entry_def)
  show ?thesis
    using FutexMgr_Wake_strands [OF sample_world_ok key n q m, of "[]"] q by auto
qed

end
