(* ===== verification/Futex_Calls.thy ===== *)
theory Futex_Calls
  imports Futex Linux_Time
begin

text \<open>
  Blocking and the futex system call: \<^verbatim>\<open>qlib/kernel/threadmgr/task_block.rs\<close> with
  \<^verbatim>\<open>Waiter::Wait\<close>, \<^verbatim>\<open>qkernel/src/syscalls/sys_futex.rs\<close>, and the robust lists of
  \<^verbatim>\<open>qlib/kernel/threadmgr/task_futex.rs\<close>.

  A blocking call takes the record \<open>block_env\<close>: what the other tasks and the timers do to the world
  during each of its sleeps, the clock before and after, and what the others do while the call waits
  for the bucket lock at its end. When the sleeps are used up the task is still asleep, outcome \<open>None\<close>.
  Arming and cancelling a timer has no effect on the world of its own: a timer that fires notifies the
  timer entry, which is one of the things that happen during a sleep.
\<close>

section \<open>Blocking\<close>

record block_env =
  be_sleeps :: "(futex_world \<Rightarrow> futex_world) list"
  be_start :: int
  be_end :: int
  be_complete :: "(futex_world \<Rightarrow> futex_world) list"

record blocker =
  bl_waiter :: nat
  bl_timerEntry :: nat
  bl_interruptEntry :: nat
  bl_generalEntry :: nat

definition set_waiter :: "nat \<Rightarrow> waiter \<Rightarrow> futex_world \<Rightarrow> futex_world" where
  "set_waiter i b w = w\<lparr>fw_store := (fw_store w)\<lparr>ws_waiters := (ws_waiters (fw_store w))[i := b]\<rparr>\<rparr>"

fun Waiter_Wait :: "nat \<Rightarrow> u64 \<Rightarrow> (futex_world \<Rightarrow> futex_world) list \<Rightarrow> futex_world \<Rightarrow> (u32 \<times> futex_world) option" where
  "Waiter_Wait i msk sleeps w =
    (let b = ws_waiters (fw_store w) ! i;
         bitmap = wt_bitmap b AND msk
     in if bitmap \<noteq> 0
        then Some (trailing_zeros bitmap, set_waiter i (b\<lparr>wt_state := Running\<rparr>) w)
        else
          let w = set_waiter i (b\<lparr>wt_mask := msk, wt_state := Waiting\<rparr>) w
          in case sleeps of [] \<Rightarrow> None | f # fs \<Rightarrow> Waiter_Wait i msk fs (f w))"

declare Waiter_Wait.simps [simp del]

definition Blocker_New :: "u64 \<Rightarrow> wait_store \<Rightarrow> blocker \<times> wait_store" where
  "Blocker_New taskId st =
    (let wt = length (ws_waiters st);
         st = st\<lparr>ws_waiters := ws_waiters st @ [Waiter_New taskId]\<rparr>;
         (te, st) = Waiter_NewWaitEntry wt TIMER_WAITID 1 st;
         (ie, st) = Waiter_NewWaitEntry wt INTERRUPT_WAITID 1 st;
         (ge, st) = Waiter_NewWaitEntry wt GENERAL_WAITID 0 st
     in (\<lparr>bl_waiter = wt, bl_timerEntry = te, bl_interruptEntry = ie, bl_generalEntry = ge\<rparr>, st))"

definition clear_bit :: "blocker \<Rightarrow> u32 \<Rightarrow> futex_world \<Rightarrow> futex_world" where
  "clear_bit b i w = w\<lparr>fw_store := Waiter_Clear (bl_waiter b) i (fw_store w)\<rparr>"

definition interruptSelf :: "blocker \<Rightarrow> unit fx" where
  "interruptSelf b w =
    (case WaitEntry_Notify (bl_interruptEntry b) 1 (fw_store w) of
       Inl err \<Rightarrow> Some (Err err, w)
     | Inr (_, st) \<Rightarrow> Some (Ok (), w\<lparr>fw_store := st\<rparr>))"

definition SleepFinish :: "blocker \<Rightarrow> bool \<Rightarrow> unit fx" where
  "SleepFinish b success = (if \<not> success then interruptSelf b else (\<lambda>w. Some (Ok (), w)))"

definition Blocker_Interrupted :: "blocker \<Rightarrow> bool \<Rightarrow> wait_store \<Rightarrow> (bool \<times> wait_store) result" where
  "Blocker_Interrupted b clear st = Waiter_TryWait (bl_waiter b) (bl_interruptEntry b) clear st"

definition Blocker_block :: "blocker \<Rightarrow> bool \<Rightarrow> bool \<Rightarrow> (futex_world \<Rightarrow> futex_world) list \<Rightarrow> unit fx" where
  "Blocker_block b waitGeneral waitTimer sleeps w =
    (let msk = 2;
         msk = (if waitTimer then msk OR 4 else msk);
         msk = (if waitGeneral then msk OR 1 else msk)
     in case Waiter_Wait (bl_waiter b) msk sleeps w of
          None \<Rightarrow> None
        | Some (i, w) \<Rightarrow>
            if i = GENERAL_WAITID then
              fx_bind (SleepFinish b True) (\<lambda>_ w. Some (Ok (), clear_bit b GENERAL_WAITID w)) w
            else if i = TIMER_WAITID then
              fx_bind (SleepFinish b True) (\<lambda>_ w. Some (Err (SysError ETIMEDOUT), clear_bit b TIMER_WAITID w)) w
            else if i = INTERRUPT_WAITID then
              fx_bind (SleepFinish b False) (\<lambda>_ w. Some (Err ErrInterrupted, w)) w
            else Some (Err Panic, w))"

definition Blocker_Check :: "blocker \<Rightarrow> bool \<Rightarrow> unit fx" where
  "Blocker_Check b waitGeneral w =
    (let bitmap = (if waitGeneral then 0x011 else 0x010)
     in case Waiter_Check (ws_waiters (fw_store w) ! bl_waiter b) bitmap of
          None \<Rightarrow> fx_bind (SleepFinish b True) (\<lambda>_ w. Some (Err (SysError ETIMEDOUT), w)) w
        | Some i \<Rightarrow>
            if i = GENERAL_WAITID then
              fx_bind (SleepFinish b True) (\<lambda>_ w. Some (Ok (), clear_bit b GENERAL_WAITID w)) w
            else fx_bind (SleepFinish b False) (\<lambda>_ w. Some (Err ErrInterrupted, w)) w)"

definition BlockGeneral :: "blocker \<Rightarrow> (futex_world \<Rightarrow> futex_world) list \<Rightarrow> unit fx" where
  "BlockGeneral b sleeps w =
    (case Waiter_Wait (bl_waiter b) 3 sleeps w of
       None \<Rightarrow> None
     | Some (i, w) \<Rightarrow>
         if i = GENERAL_WAITID then Some (Ok (), clear_bit b GENERAL_WAITID w)
         else fx_bind (SleepFinish b False) (\<lambda>_ w. Some (Err ErrInterrupted, w)) w)"

definition BlockGeneralOnly :: "blocker \<Rightarrow> (futex_world \<Rightarrow> futex_world) list \<Rightarrow> unit fx" where
  "BlockGeneralOnly b sleeps w =
    (case Waiter_Wait (bl_waiter b) 1 sleeps w of
       None \<Rightarrow> None
     | Some (_, w) \<Rightarrow> Some (Ok (), clear_bit b GENERAL_WAITID w))"

definition BlockInterrupt :: "blocker \<Rightarrow> (futex_world \<Rightarrow> futex_world) list \<Rightarrow> unit fx" where
  "BlockInterrupt b sleeps w =
    (case Waiter_Wait (bl_waiter b) 2 sleeps w of
       None \<Rightarrow> None
     | Some (_, w) \<Rightarrow> fx_bind (SleepFinish b False) (\<lambda>_ w. Some (Err (SysError ERESTARTNOHAND), w)) w)"

definition BlockWithTimer :: "blocker \<Rightarrow> bool \<Rightarrow> int option \<Rightarrow> (futex_world \<Rightarrow> futex_world) list \<Rightarrow> unit fx" where
  "BlockWithTimer b waitGeneral deadline sleeps w =
    (case deadline of
       None \<Rightarrow> Blocker_block b waitGeneral False sleeps w
     | Some _ \<Rightarrow>
         Option.bind (Blocker_block b waitGeneral True sleeps w) (\<lambda>(err, w).
           Some (err, w\<lparr>fw_store := WaitEntry_Clear (bl_timerEntry b) (fw_store w)\<rparr>)))"

definition BlockWithRealTimer :: "blocker \<Rightarrow> bool \<Rightarrow> int option \<Rightarrow> (futex_world \<Rightarrow> futex_world) list \<Rightarrow> unit fx" where
  "BlockWithRealTimer b waitGeneral deadline sleeps = BlockWithTimer b waitGeneral deadline sleeps"

definition BlockWithMonoTimer :: "blocker \<Rightarrow> bool \<Rightarrow> int option \<Rightarrow> (futex_world \<Rightarrow> futex_world) list \<Rightarrow> unit fx" where
  "BlockWithMonoTimer b waitGeneral deadline sleeps = BlockWithTimer b waitGeneral deadline sleeps"

definition BlockWithTimeout ::
    "blocker \<Rightarrow> bool \<Rightarrow> int option \<Rightarrow> block_env \<Rightarrow> futex_world \<Rightarrow> (int \<times> unit result \<times> futex_world) option" where
  "BlockWithTimeout b waitGeneral timeout env w =
    (if timeout = None \<or> timeout = Some i64_MAX then
       Option.bind (Blocker_block b waitGeneral False (be_sleeps env) w) (\<lambda>(r, w). Some (- 1, r, w))
     else
       let timeout = the timeout;
           adjustTimeout = i64 (timeout - 30000)
       in if adjustTimeout \<le> 0 then
            Option.bind (Blocker_Check b waitGeneral w) (\<lambda>(r, w). Some (0, r, w))
          else
            let start = be_start env;
                deadline = (if i64 (i64_MAX - timeout) > start then i64 (start + timeout) else i64_MAX)
            in Option.bind (BlockWithTimer b waitGeneral (Some deadline) (be_sleeps env) w) (\<lambda>(res, w).
                 if res = Err (SysError ETIMEDOUT) then Some (0, Err (SysError ETIMEDOUT), w)
                 else
                   let remain = i64 (adjustTimeout - i64 (be_end env - start))
                   in if remain < 0 then Some (0, res, w) else Some (remain, res, w)))"

definition BlockWithMonoTimeout ::
    "blocker \<Rightarrow> bool \<Rightarrow> int option \<Rightarrow> block_env \<Rightarrow> futex_world \<Rightarrow> (int \<times> unit result \<times> futex_world) option" where
  "BlockWithMonoTimeout b waitGeneral timeout env = BlockWithTimeout b waitGeneral timeout env"

section \<open>The system call\<close>

definition FUTEX_WAIT :: int where "FUTEX_WAIT = 0"
definition FUTEX_WAKE :: int where "FUTEX_WAKE = 1"
definition FUTEX_REQUEUE :: int where "FUTEX_REQUEUE = 3"
definition FUTEX_CMP_REQUEUE :: int where "FUTEX_CMP_REQUEUE = 4"
definition FUTEX_WAKE_OP :: int where "FUTEX_WAKE_OP = 5"
definition FUTEX_LOCK_PI :: int where "FUTEX_LOCK_PI = 6"
definition FUTEX_UNLOCK_PI :: int where "FUTEX_UNLOCK_PI = 7"
definition FUTEX_TRYLOCK_PI :: int where "FUTEX_TRYLOCK_PI = 8"
definition FUTEX_WAIT_BITSET :: int where "FUTEX_WAIT_BITSET = 9"
definition FUTEX_WAKE_BITSET :: int where "FUTEX_WAKE_BITSET = 10"
definition FUTEX_PRIVATE_FLAG :: int where "FUTEX_PRIVATE_FLAG = 128"
definition FUTEX_CLOCK_REALTIME :: int where "FUTEX_CLOCK_REALTIME = 256"

lemmas futex_cmds = FUTEX_WAIT_def FUTEX_WAKE_def FUTEX_REQUEUE_def FUTEX_CMP_REQUEUE_def FUTEX_WAKE_OP_def
  FUTEX_LOCK_PI_def FUTEX_UNLOCK_PI_def FUTEX_TRYLOCK_PI_def FUTEX_WAIT_BITSET_def FUTEX_WAKE_BITSET_def
  FUTEX_PRIVATE_FLAG_def FUTEX_CLOCK_REALTIME_def

record FutexWaitRestartBlock =
  rb_dur :: int
  rb_addr :: u64
  rb_private :: bool
  rb_val :: u32
  rb_mask :: u32

record futex_task =
  ft_mgr :: futex_mgr
  ft_blocker :: blocker
  ft_tid :: int
  ft_CopyInTimespec :: "u64 \<Rightarrow> Timespec result"
  ft_restart :: "FutexWaitRestartBlock option"

definition interrupted_restarts :: "unit result \<Rightarrow> int result" where
  "interrupted_restarts res = (case res of
     Inl err \<Rightarrow> Err (if err = ErrInterrupted then SysError ERESTARTSYS else err)
   | Inr _ \<Rightarrow> Ok 0)"

definition FutexWaitAbsolute ::
    "futex_task \<Rightarrow> bool \<Rightarrow> Timespec option \<Rightarrow> u64 \<Rightarrow> bool \<Rightarrow> u32 \<Rightarrow> u32 \<Rightarrow> block_env \<Rightarrow> int fx" where
  "FutexWaitAbsolute t realtime ts addr private val msk env =
    (let e = bl_generalEntry (ft_blocker t)
     in fx_bind (WaitPrepare (ft_mgr t) e addr private val msk) (\<lambda>_ w.
          case (case ts of None \<Rightarrow> Ok None | Some ts \<Rightarrow> and_then (Timespec_ToDuration ts) (\<lambda>ns. Ok (Some ns))) of
            Inl err \<Rightarrow> Some (Err err, w)
          | Inr deadline \<Rightarrow>
              Option.bind
                (if deadline = None \<or> realtime then BlockWithRealTimer (ft_blocker t) True deadline (be_sleeps env) w
                 else BlockWithMonoTimer (ft_blocker t) True deadline (be_sleeps env) w) (\<lambda>(res, w).
                fx_bind (WaitComplete (ft_mgr t) e (be_complete env)) (\<lambda>_ w.
                  Some (interrupted_restarts res, w)) w)))"

definition FutexWaitDuration ::
    "futex_task \<Rightarrow> int option \<Rightarrow> u64 \<Rightarrow> bool \<Rightarrow> u32 \<Rightarrow> u32 \<Rightarrow> block_env \<Rightarrow> (int result \<times> futex_task) fx" where
  "FutexWaitDuration t dur addr private val msk env w =
    (let e = bl_generalEntry (ft_blocker t)
     in case WaitPrepare (ft_mgr t) e addr private val msk w of
          None \<Rightarrow> None
        | Some (Inl err, w) \<Rightarrow> Some (Ok (Err err, t), w)
        | Some (Inr _, w) \<Rightarrow>
            Option.bind (BlockWithMonoTimeout (ft_blocker t) True dur env w) (\<lambda>(remain, res, w).
              fx_bind (WaitComplete (ft_mgr t) e (be_complete env)) (\<lambda>_ w.
                Some (Ok (case res of
                    Inr _ \<Rightarrow> (Ok 0, t)
                  | Inl err \<Rightarrow>
                      if err \<noteq> ErrInterrupted then (Err err, t)
                      else if dur = None then (Err (SysError ERESTARTSYS), t)
                      else (Err (SysError ERESTART_RESTARTBLOCK), t\<lparr>ft_restart := Some
                        \<lparr>rb_dur = remain, rb_addr = addr, rb_private = private, rb_val = val, rb_mask = msk\<rparr>\<rparr>)), w)) w))"

definition RestartBlock_Restart ::
    "FutexWaitRestartBlock \<Rightarrow> futex_task \<Rightarrow> block_env \<Rightarrow> (int result \<times> futex_task) fx" where
  "RestartBlock_Restart b t env =
    FutexWaitDuration t (Some (rb_dur b)) (rb_addr b) (rb_private b) (rb_val b) (rb_mask b) env"

definition FutexLockPI :: "futex_task \<Rightarrow> Timespec option \<Rightarrow> u64 \<Rightarrow> bool \<Rightarrow> block_env \<Rightarrow> int fx" where
  "FutexLockPI t ts addr private env =
    (let e = bl_generalEntry (ft_blocker t)
     in fx_bind (LockPI (ft_mgr t) e addr (word_of_int (ft_tid t)) private False) (\<lambda>locked w.
          if locked then Some (Ok 0, w)
          else case (case ts of None \<Rightarrow> Ok None | Some ts \<Rightarrow> and_then (Timespec_ToDuration ts) (\<lambda>ns. Ok (Some ns))) of
            Inl err \<Rightarrow> Some (Err err, w)
          | Inr deadline \<Rightarrow>
              Option.bind (BlockWithRealTimer (ft_blocker t) True deadline (be_sleeps env) w) (\<lambda>(res, w).
                fx_bind (WaitComplete (ft_mgr t) e (be_complete env)) (\<lambda>_ w.
                  Some (interrupted_restarts res, w)) w)))"

definition TryLockPid :: "futex_task \<Rightarrow> u64 \<Rightarrow> bool \<Rightarrow> block_env \<Rightarrow> int fx" where
  "TryLockPid t addr private env =
    (let e = bl_generalEntry (ft_blocker t)
     in fx_bind (LockPI (ft_mgr t) e addr (word_of_int (ft_tid t)) private True) (\<lambda>locked.
          if \<not> locked then
            fx_bind (WaitComplete (ft_mgr t) e (be_complete env)) (\<lambda>_ w. Some (Err (SysError EWOULDBLOCK), w))
          else (\<lambda>w. Some (Ok 0, w))))"

text \<open>The result of a command that keeps the task as it is.\<close>

definition same_task :: "futex_task \<Rightarrow> int fx \<Rightarrow> (int result \<times> futex_task) fx" where
  "same_task t f w = map_option (\<lambda>(r, w). (Ok (r, t), w)) (f w)"

definition SysFutex ::
    "futex_task \<Rightarrow> u64 \<Rightarrow> u64 \<Rightarrow> u64 \<Rightarrow> u64 \<Rightarrow> u64 \<Rightarrow> u64 \<Rightarrow> block_env \<Rightarrow> (int result \<times> futex_task) fx" where
  "SysFutex t arg0 arg1 arg2 arg3 arg4 arg5 env w =
    (let addr = arg0;
         futexOp = u64_as_i32 arg1;
         val = u64_as_i32 arg2;
         nreq = u64_as_i32 arg3;
         timeout = arg3;
         naddr = arg4;
         val3 = u64_as_i32 arg5;
         cmd = futexOp AND NOT (FUTEX_PRIVATE_FLAG OR FUTEX_CLOCK_REALTIME);
         private = (futexOp AND FUTEX_PRIVATE_FLAG \<noteq> 0);
         realtime = (futexOp AND FUTEX_CLOCK_REALTIME \<noteq> 0);
         msk = (word_of_int val3 :: u32);
         timespec = (if timeout = 0 then Ok None
                     else and_then (ft_CopyInTimespec t timeout) (\<lambda>ts. Ok (Some ts)))
     in if cmd = FUTEX_WAIT \<or> cmd = FUTEX_WAIT_BITSET then
          (case timespec of
             Inl err \<Rightarrow> Some (Ok (Err err, t), w)
           | Inr timespec \<Rightarrow>
               if cmd = FUTEX_WAIT then
                 (case (case timespec of None \<Rightarrow> Ok None
                        | Some ts \<Rightarrow> and_then (Timespec_ToDuration ts) (\<lambda>ns. Ok (Some ns))) of
                    Inl err \<Rightarrow> Some (Ok (Err err, t), w)
                  | Inr timeoutDur \<Rightarrow> FutexWaitDuration t timeoutDur addr private (word_of_int val) (- 1) env w)
               else if msk = 0 then Some (Ok (Err (SysError EINVAL), t), w)
               else same_task t (FutexWaitAbsolute t realtime timespec addr private (word_of_int val) msk env) w)
        else if cmd = FUTEX_WAKE \<or> cmd = FUTEX_WAKE_BITSET then
          if cmd \<noteq> FUTEX_WAKE \<and> msk = 0 then Some (Ok (Err (SysError EINVAL), t), w)
          else
            let msk = (if cmd = FUTEX_WAKE then - 1 else msk);
                n = (if val = 0 then 1 else val)
            in same_task t (FutexMgr_Wake (ft_mgr t) addr private msk n) w
        else if cmd = FUTEX_REQUEUE then
          same_task t (FutexMgr_Requeue (ft_mgr t) addr naddr private val nreq) w
        else if cmd = FUTEX_CMP_REQUEUE then
          same_task t (FutexMgr_RequeueCmp (ft_mgr t) addr naddr private (word_of_int val3) val nreq) w
        else if cmd = FUTEX_WAKE_OP then
          same_task t (FutexMgr_WakeOp (ft_mgr t) addr naddr private val nreq (word_of_int val3)) w
        else if cmd = FUTEX_LOCK_PI then
          (case timespec of
             Inl err \<Rightarrow> Some (Ok (Err err, t), w)
           | Inr timespec \<Rightarrow> same_task t (FutexLockPI t timespec addr private env) w)
        else if cmd = FUTEX_TRYLOCK_PI then same_task t (TryLockPid t addr private env) w
        else if cmd = FUTEX_UNLOCK_PI then
          same_task t (fx_bind (UnlockPI (ft_mgr t) addr (word_of_int (ft_tid t)) private) (\<lambda>_ w. Some (Ok 0, w))) w
        else Some (Ok (Err (SysError ENOSYS), t), w))"

section \<open>Robust lists\<close>

record RobustListHead =
  rl_List :: u64
  rl_FutexOffset :: u64
  rl_ListOpPending :: u64

definition ROBUST_LIST_LIMIT :: u32 where "ROBUST_LIST_LIMIT = 2048"

text \<open>A call whose error the caller drops; a panic is not an error that can be dropped.\<close>

definition ignore_error :: "'a fx \<Rightarrow> unit fx" where
  "ignore_error f w = map_option (\<lambda>(r, w). (if r = Err Panic then Err Panic else Ok (), w)) (f w)"

partial_function (option) WakeRobust_loop ::
    "futex_mgr \<Rightarrow> u32 \<Rightarrow> bool \<Rightarrow> u64 \<Rightarrow> u32 \<Rightarrow> futex_world \<Rightarrow> (unit result \<times> futex_world) option" where
  [code]: "WakeRobust_loop m tid pi addr f w =
    (if f AND FUTEX_TID_MASK \<noteq> tid then Some (Ok (), w)
     else case CompareAndSwapU32 addr f (f AND FUTEX_WAITERS OR FUTEX_OWNER_DIED) (fw_mem w) of
       (Inl err, mem) \<Rightarrow> Some (if err = Panic then Err Panic else Ok (), w\<lparr>fw_mem := mem\<rparr>)
     | (Inr curF, mem) \<Rightarrow>
         if curF \<noteq> f then WakeRobust_loop m tid pi addr curF (w\<lparr>fw_mem := mem\<rparr>)
         else if f AND FUTEX_WAITERS \<noteq> 0 then
           (let private = (f AND FUTEX_WAITERS \<noteq> 0)
            in if pi then ignore_error (UnlockPI m addr tid private) (w\<lparr>fw_mem := mem\<rparr>)
               else ignore_error (FutexMgr_Wake m addr private FUTEX_BITSET_MATCH_ANY 1) (w\<lparr>fw_mem := mem\<rparr>))
         else Some (Ok (), w\<lparr>fw_mem := mem\<rparr>))"

definition WakeRobustListOne :: "futex_mgr \<Rightarrow> u32 \<Rightarrow> u64 \<Rightarrow> unit fx" where
  "WakeRobustListOne m tid addr w =
    (let pi = (addr AND 1 = 1);
         addr = addr AND NOT 1
     in case LoadU32 addr (fw_mem w) of
          (Inl _, mem) \<Rightarrow> Some (Ok (), w\<lparr>fw_mem := mem\<rparr>)
        | (Inr f, mem) \<Rightarrow> WakeRobust_loop m tid pi addr f (w\<lparr>fw_mem := mem\<rparr>))"

definition WakeRobust_pending :: "futex_mgr \<Rightarrow> u32 \<Rightarrow> u64 \<Rightarrow> unit fx" where
  "WakeRobust_pending m tid pendingLockAddr =
    (if pendingLockAddr \<noteq> 0 then WakeRobustListOne m tid pendingLockAddr else (\<lambda>w. Some (Ok (), w)))"

lemma robust_limit_decreases:
  assumes "\<not> ROBUST_LIST_LIMIT \<le> n + 1"
  shows "unat (ROBUST_LIST_LIMIT - (n + 1)) < unat (ROBUST_LIST_LIMIT - n)"
proof -
  have "ROBUST_LIST_LIMIT - n \<noteq> 0" using assms by (auto simp: ROBUST_LIST_LIMIT_def)
  then have "unat (ROBUST_LIST_LIMIT - n - 1) < unat (ROBUST_LIST_LIMIT - n)"
    by (simp add: unat_minus_one unat_gt_0)
  then show ?thesis by (simp add: diff_diff_eq)
qed

text \<open>The walk along the list; \<open>copyIn\<close> reads the pointer an element starts with.\<close>

function ExitRobust_loop ::
    "futex_mgr \<Rightarrow> u32 \<Rightarrow> (u64 \<Rightarrow> u64 result) \<Rightarrow> u64 \<Rightarrow> u64 \<Rightarrow> u64 \<Rightarrow> u64 \<Rightarrow> u32 \<Rightarrow> unit fx" where
  "ExitRobust_loop m tid copyIn addr offset pendingLockAddr next done w =
    (if next \<noteq> addr then
       let thisLockAddr = next + offset
       in fx_bind (if thisLockAddr \<noteq> pendingLockAddr then WakeRobustListOne m tid thisLockAddr
                   else (\<lambda>w. Some (Ok (), w))) (\<lambda>_ w.
            case copyIn next of
              Inl _ \<Rightarrow> Some (Ok (), w)
            | Inr next \<Rightarrow>
                (let done = done + 1
                 in if done \<ge> ROBUST_LIST_LIMIT then WakeRobust_pending m tid pendingLockAddr w
                    else ExitRobust_loop m tid copyIn addr offset pendingLockAddr next done w)) w
     else WakeRobust_pending m tid pendingLockAddr w)"
  by pat_completeness auto

termination
  by (relation "measure (\<lambda>(m, tid, copyIn, addr, offset, pending, cur, n, w). unat (ROBUST_LIST_LIMIT - n))")
    (auto intro: robust_limit_decreases)

declare ExitRobust_loop.simps [simp del]

definition ExitRobustList ::
    "futex_mgr \<Rightarrow> u32 \<Rightarrow> (u64 \<Rightarrow> RobustListHead result) \<Rightarrow> (u64 \<Rightarrow> u64 result) \<Rightarrow> u64 \<Rightarrow> futex_world \<Rightarrow>
     u64 \<times> (unit result \<times> futex_world) option" where
  "ExitRobustList m tid copyInHead copyIn robust_list_head w =
    (0,
     if robust_list_head = 0 then Some (Ok (), w)
     else case copyInHead robust_list_head of
       Inl _ \<Rightarrow> Some (Ok (), w)
     | Inr rl \<Rightarrow>
         let pendingLockAddr = (if rl_ListOpPending rl \<noteq> 0 then rl_ListOpPending rl + rl_FutexOffset rl else 0)
         in ExitRobust_loop m tid copyIn robust_list_head (rl_FutexOffset rl) pendingLockAddr (rl_List rl) 0 w)"

end
