(* ===== verification/Spec2Isabelle.thy ===== *)
theory Spec2Isabelle
  imports Addr Ranges Fd_Table_Props Auth_Props Permissions Linux_Time Semaphore_Laws Area_Ops Lock_Calls Stream_Laws Futex_Waits Futex_Calls
begin

text \<open>
  A verification library for the Quark container runtime.
\<close>

end
